(* ===== verification/Ciruela_Prelude.thy ===== *)
theory Ciruela_Prelude
  imports Main "HOL-Library.Word"
begin

text \<open>
  Shared vocabulary of the development: the result type that the fallible functions of
  the source return, the reachable states of a step relation with the proof rule for
  invariants, and generic facts on lists, maps and words that the component theories use.
\<close>

section \<open>Types named by the model\<close>

type_synonym bytes = "8 word list"
type_synonym u16 = "16 word"
type_synonym u32 = "32 word"
type_synonym u64 = "64 word"

text \<open>
  A Rust function that returns \<^verbatim>\<open>Result<T, E>\<close> and may also panic (an \<^verbatim>\<open>assert!\<close>,
  an \<^verbatim>\<open>expect\<close>, an index out of range) has three outcomes.
\<close>

datatype ('a, 'e) result = Ok 'a | Err 'e | Panic

fun bind_result :: "('a, 'e) result \<Rightarrow> ('a \<Rightarrow> ('b, 'e) result) \<Rightarrow> ('b, 'e) result" where
  "bind_result (Ok x) f = f x"
| "bind_result (Err e) f = Err e"
| "bind_result Panic f = Panic"

fun is_ok :: "('a, 'e) result \<Rightarrow> bool" where
  "is_ok (Ok x) = True"
| "is_ok (Err e) = False"
| "is_ok Panic = False"

text \<open>\<^verbatim>\<open>Option::expect\<close> and \<^verbatim>\<open>Option::unwrap\<close>.\<close>

fun expect :: "'a option \<Rightarrow> ('a, 'e) result" where
  "expect (Some x) = Ok x"
| "expect None = Panic"

text \<open>\<^verbatim>\<open>Option::ok_or\<close>.\<close>

fun ok_or :: "'a option \<Rightarrow> 'e \<Rightarrow> ('a, 'e) result" where
  "ok_or (Some x) e = Ok x"
| "ok_or None e = Err e"

section \<open>Operations on a state\<close>

text \<open>
  An operation that reads and changes a state and may fail. \<^verbatim>\<open>bind_io\<close> is the question
  mark of the source: an error or a panic ends the operation, and what was changed before
  stays changed.
\<close>

type_synonym ('s, 'a, 'e) io = "'s \<Rightarrow> ('a, 'e) result \<times> 's"

definition ret :: "('a, 'e) result \<Rightarrow> ('s, 'a, 'e) io" where
  "ret r = (\<lambda>s. (r, s))"

definition bind_io :: "('s, 'a, 'e) io \<Rightarrow> ('a \<Rightarrow> ('s, 'b, 'e) io) \<Rightarrow> ('s, 'b, 'e) io" where
  "bind_io m f = (\<lambda>s. case m s of
      (Ok x, t) \<Rightarrow> f x t
    | (Err e, t) \<Rightarrow> (Err e, t)
    | (Panic, t) \<Rightarrow> (Panic, t))"

text \<open>A \<^verbatim>\<open>for\<close> loop whose body may fail.\<close>

fun for_io :: "'x list \<Rightarrow> ('x \<Rightarrow> ('s, unit, 'e) io) \<Rightarrow> ('s, unit, 'e) io" where
  "for_io [] f = ret (Ok ())"
| "for_io (x # xs) f = bind_io (f x) (\<lambda>_. for_io xs f)"

text \<open>The operation \<open>m\<close> never leads from a state in \<open>P\<close> to a state outside \<open>P\<close>.\<close>

definition keeps :: "('s \<Rightarrow> bool) \<Rightarrow> ('s, 'a, 'e) io \<Rightarrow> bool" where
  "keeps P m \<longleftrightarrow> (\<forall>s. P s \<longrightarrow> P (snd (m s)))"

section \<open>Collections of facts\<close>

named_theorems keeps_rules \<open>operations that keep a predicate\<close>

named_theorems vpath_laws \<open>laws of virtual paths\<close>
named_theorems dir_laws \<open>what a directory operation leaves in a directory\<close>
named_theorems state_frames \<open>fields that an operation leaves alone\<close>

section \<open>Results\<close>

lemma bind_result_eq_Ok [simp]:
  "bind_result r f = Ok y \<longleftrightarrow> (\<exists>x. r = Ok x \<and> f x = Ok y)"
  by (cases r) auto

lemma bind_result_eq_Panic [simp]:
  "bind_result r f = Panic \<longleftrightarrow> r = Panic \<or> (\<exists>x. r = Ok x \<and> f x = Panic)"
  by (cases r) auto

lemma expect_eq_Ok [simp]: "expect v = Ok x \<longleftrightarrow> v = Some x"
  by (cases v) auto

lemma expect_eq_Panic [simp]: "expect v = Panic \<longleftrightarrow> v = None"
  by (cases v) auto

lemma expect_neq_Err [simp]: "expect v \<noteq> Err e"
  by (cases v) auto

lemma ok_or_eq_Ok [simp]: "ok_or v e = Ok x \<longleftrightarrow> v = Some x"
  by (cases v) auto

lemma ok_or_neq_Panic [simp]: "ok_or v e \<noteq> Panic"
  by (cases v) auto

section \<open>Sequencing\<close>

lemma ret_apply [simp]: "ret r s = (r, s)"
  by (simp add: ret_def)

lemma bind_io_Ok_iff:
  "bind_io m f s = (Ok y, t) \<longleftrightarrow> (\<exists>x u. m s = (Ok x, u) \<and> f x u = (Ok y, t))"
  by (auto simp: bind_io_def split: prod.splits result.splits)

lemma bind_io_Ok [simp]: "m s = (Ok x, u) \<Longrightarrow> bind_io m f s = f x u"
  by (simp add: bind_io_def)

lemma bind_io_Err [simp]: "m s = (Err e, u) \<Longrightarrow> bind_io m f s = (Err e, u)"
  by (simp add: bind_io_def)

lemma bind_io_Panic [simp]: "m s = (Panic, u) \<Longrightarrow> bind_io m f s = (Panic, u)"
  by (simp add: bind_io_def)

lemma bind_io_ret_Ok [simp]: "bind_io (ret (Ok x)) f = f x"
  by (rule ext) simp

lemma bind_io_ret_Err [simp]: "bind_io (ret (Err e)) f = ret (Err e)"
  by (rule ext) simp

lemma bind_io_ret_Panic [simp]: "bind_io (ret Panic) f = ret Panic"
  by (rule ext) simp

lemma keeps_ret [keeps_rules]: "keeps P (ret r)"
  by (simp add: keeps_def)

lemma keeps_bind [keeps_rules]:
  "keeps P m \<Longrightarrow> (\<And>x. keeps P (f x)) \<Longrightarrow> keeps P (bind_io m f)"
  unfolding keeps_def bind_io_def by (auto split: prod.splits result.splits)

lemma keeps_bind_post:
  "keeps P m \<Longrightarrow> (\<And>x s t. m s = (Ok x, t) \<Longrightarrow> keeps P (f x)) \<Longrightarrow> keeps P (bind_io m f)"
  unfolding keeps_def bind_io_def by (auto split: prod.splits result.splits)

lemma keeps_bind_state:
  assumes "keeps P m" "\<And>x s t. P s \<Longrightarrow> m s = (Ok x, t) \<Longrightarrow> P t \<Longrightarrow> P (snd (f x t))"
  shows "keeps P (bind_io m f)"
  unfolding keeps_def
proof (intro allI impI)
  fix s assume s: "P s"
  obtain r t where m: "m s = (r, t)" by fastforce
  then have "P t" using assms(1) s unfolding keeps_def by (metis snd_conv)
  then show "P (snd (bind_io m f s))" using assms(2) m s by (cases r) auto
qed

lemma keeps_for [keeps_rules]: "(\<And>x. x \<in> set xs \<Longrightarrow> keeps P (f x)) \<Longrightarrow> keeps P (for_io xs f)"
  by (induction xs) (auto intro: keeps_rules)

lemma keeps_if [keeps_rules]: "keeps P a \<Longrightarrow> keeps P b \<Longrightarrow> keeps P (if c then a else b)"
  by simp

lemma for_io_establish:
  assumes "for_io xs f s = (Ok (), t)" "x \<in> set xs" "I s"
    and keep_I: "\<And>y. keeps I (f y)" and keep_Q: "\<And>y. keeps Q (f y)"
    and est: "\<And>u u'. I u \<Longrightarrow> f x u = (Ok (), u') \<Longrightarrow> Q u'"
  shows "Q t"
  using assms(1-3)
proof (induction xs arbitrary: s)
  case (Cons y ys)
  obtain u where u: "f y s = (Ok (), u)" "for_io ys f u = (Ok (), t)"
    using Cons.prems(1) by (auto simp: bind_io_Ok_iff)
  have "I u" using keep_I u(1) Cons.prems(3) by (metis keeps_def snd_conv)
  show ?case
  proof (cases "x = y")
    case True
    then have "Q u" using est u(1) Cons.prems(3) by blast
    moreover have "keeps Q (for_io ys f)" using keep_Q by (intro keeps_for)
    ultimately show ?thesis using u(2) by (metis keeps_def snd_conv)
  next
    case False
    then show ?thesis using Cons u \<open>I u\<close> by auto
  qed
qed simp

lemma keepsD: "keeps P m \<Longrightarrow> P s \<Longrightarrow> m s = (r, t) \<Longrightarrow> P t"
  by (metis keeps_def snd_conv)

section \<open>Reachable states and invariants\<close>

inductive reachable :: "('s \<Rightarrow> bool) \<Rightarrow> ('s \<Rightarrow> 's \<Rightarrow> bool) \<Rightarrow> 's \<Rightarrow> bool"
  for init :: "'s \<Rightarrow> bool" and step :: "'s \<Rightarrow> 's \<Rightarrow> bool" where
  reach_init: "init s \<Longrightarrow> reachable init step s"
| reach_step: "reachable init step s \<Longrightarrow> step s t \<Longrightarrow> reachable init step t"

text \<open>
  The interface of a component with a step relation: an invariant that holds at the
  start and that every step keeps. A component interprets it on its own step relation
  and gets the invariant for every reachable state.
\<close>

locale invariant_system =
  fixes init :: "'s \<Rightarrow> bool"
    and step :: "'s \<Rightarrow> 's \<Rightarrow> bool"
    and inv :: "'s \<Rightarrow> bool"
  assumes init_inv: "init s \<Longrightarrow> inv s"
    and step_inv: "inv s \<Longrightarrow> step s t \<Longrightarrow> inv t"
begin

lemma reachable_inv: "reachable init step s \<Longrightarrow> inv s"
  by (induction rule: reachable.induct) (auto intro: init_inv step_inv)

lemma reachable_two_steps:
  "reachable init step s \<Longrightarrow> step s t \<Longrightarrow> step t u \<Longrightarrow> inv u"
  by (blast intro: reachable_inv reach_step)

end

section \<open>Lists\<close>

lemma filter_partition_mset_length:
  "length (filter P xs) + length (filter (\<lambda>x. \<not> P x) xs) = length xs"
  by (induction xs) auto

lemma count_list_filter_neq: "count_list (filter (\<lambda>y. y \<noteq> x) xs) x = 0"
  by (induction xs) auto

lemma distinct_map_filter_fst:
  "distinct (map f xs) \<Longrightarrow> distinct (map f (filter P xs))"
  by (induction xs) auto

section \<open>Maps\<close>

text \<open>\<^verbatim>\<open>HashMap::retain\<close>: keep the entries that the predicate accepts.\<close>

definition map_retain :: "('k \<Rightarrow> 'v \<Rightarrow> bool) \<Rightarrow> ('k \<rightharpoonup> 'v) \<Rightarrow> ('k \<rightharpoonup> 'v)" where
  "map_retain P m = (\<lambda>k. case m k of None \<Rightarrow> None | Some v \<Rightarrow> if P k v then Some v else None)"

lemma map_retain_Some [simp]:
  "map_retain P m k = Some v \<longleftrightarrow> m k = Some v \<and> P k v"
  by (auto simp: map_retain_def split: option.splits)

lemma map_retain_None:
  "map_retain P m k = None \<longleftrightarrow> (\<forall>v. m k = Some v \<longrightarrow> \<not> P k v)"
  by (auto simp: map_retain_def split: option.splits)

lemma dom_map_retain: "dom (map_retain P m) = {k. \<exists>v. m k = Some v \<and> P k v}"
  by (auto simp: dom_def)

lemma finite_dom_map_retain [intro]: "finite (dom m) \<Longrightarrow> finite (dom (map_retain P m))"
  by (rule finite_subset [of _ "dom m"]) (auto simp: dom_map_retain)

text \<open>\<^verbatim>\<open>HashMap::entry(k).or_insert_with(d)\<close> followed by an update of the value.\<close>

definition map_entry_update :: "'k \<Rightarrow> 'v \<Rightarrow> ('v \<Rightarrow> 'v) \<Rightarrow> ('k \<rightharpoonup> 'v) \<Rightarrow> ('k \<rightharpoonup> 'v)" where
  "map_entry_update k d f m = m(k \<mapsto> f (case m k of None \<Rightarrow> d | Some v \<Rightarrow> v))"

lemma map_entry_update_same [simp]:
  "map_entry_update k d f m k = Some (f (case m k of None \<Rightarrow> d | Some v \<Rightarrow> v))"
  by (simp add: map_entry_update_def)

lemma map_entry_update_other [simp]:
  "k' \<noteq> k \<Longrightarrow> map_entry_update k d f m k' = m k'"
  by (simp add: map_entry_update_def)

lemma dom_map_entry_update [simp]:
  "dom (map_entry_update k d f m) = insert k (dom m)"
  by (auto simp: map_entry_update_def)

text \<open>\<^verbatim>\<open>HashMap::extend\<close> with a list of pairs.\<close>

definition map_extend :: "('k \<rightharpoonup> 'v) \<Rightarrow> ('k \<times> 'v) list \<Rightarrow> ('k \<rightharpoonup> 'v)" where
  "map_extend m kvs = fold (\<lambda>(k, v) acc. acc(k \<mapsto> v)) kvs m"

lemma dom_map_extend: "dom (map_extend m kvs) = dom m \<union> fst ` set kvs"
  unfolding map_extend_def by (induction kvs arbitrary: m) auto

end
