(* ===== verification/Mask.thy ===== *)
theory Mask
  imports Ciruela_Prelude
begin

text \<open>
  The 16-bit progress mask of a download (\<^verbatim>\<open>src/daemon/mask.rs\<close>): bit 15 says that the
  index is fetched, the bits below are the slices of blocks. A peer is asked for a slice
  only when its published mask covers the slice's bit.
\<close>

unbundle bit_operations_syntax

section \<open>The mask and its operations\<close>

datatype mask = Mask u16

fun mask_bits :: "mask \<Rightarrow> u16" where
  "mask_bits (Mask m) = m"

definition INDEX_BIT :: u16 where
  "INDEX_BIT = push_bit 15 1"

definition mask_full :: mask where
  "mask_full = Mask (- 1)"

definition index_bit :: mask where
  "index_bit = Mask INDEX_BIT"

text \<open>
  \<^verbatim>\<open>1u16 << idx\<close>: a shift by 16 or more overflows, which panics in a checked build.
\<close>

definition shl_one :: "nat \<Rightarrow> (u16, 'e) result" where
  "shl_one idx = (if idx < 16 then Ok (push_bit idx 1) else Panic)"

definition slice_bit :: "nat \<Rightarrow> (mask, 'e) result" where
  "slice_bit idx = bind_result (shl_one idx) (\<lambda>b. Ok (Mask b))"

definition slice_unfetched :: "mask \<Rightarrow> nat \<Rightarrow> (mask, 'e) result" where
  "slice_unfetched m idx =
     bind_result (shl_one idx) (\<lambda>b. Ok (Mask (mask_bits m AND NOT b)))"

definition is_superset_of :: "mask \<Rightarrow> mask \<Rightarrow> bool" where
  "is_superset_of self other \<longleftrightarrow> mask_bits self AND mask_bits other = mask_bits other"

text \<open>\<^verbatim>\<open>AtomicMask\<close>: the cell holds the bits; a store, a fetch-or and a load.\<close>

definition atomic_new :: u16 where
  "atomic_new = 0"

definition atomic_set :: "u16 \<Rightarrow> mask \<Rightarrow> u16" where
  "atomic_set cell value = mask_bits value"

definition atomic_set_fetched :: "u16 \<Rightarrow> nat \<Rightarrow> (u16, 'e) result" where
  "atomic_set_fetched cell idx = bind_result (shl_one idx) (\<lambda>b. Ok (cell OR b))"

definition atomic_get :: "u16 \<Rightarrow> mask" where
  "atomic_get cell = Mask cell"

section \<open>Bit-level view\<close>

text \<open>A mask as the set of its bits; every law below is stated on it.\<close>

definition mask_set :: "mask \<Rightarrow> nat set" where
  "mask_set m = {i. i < 16 \<and> bit (mask_bits m) i}"

lemma mask_set_full [simp]: "mask_set mask_full = {..<16}"
  by (auto simp: mask_set_def mask_full_def)

lemma mask_set_Mask: "mask_set (Mask w) = {i. i < 16 \<and> bit w i}"
  by (simp add: mask_set_def)

lemma mask_set_zero [simp]: "mask_set (Mask 0) = {}"
  by (simp add: mask_set_def)

lemma bit_shl_one: "i < 16 \<Longrightarrow> bit (2 ^ j :: u16) i \<longleftrightarrow> i = j"
  by (auto simp: bit_exp_iff)

lemma mask_set_slice_bit: "slice_bit idx = Ok m \<Longrightarrow> mask_set m = {idx} \<and> idx < 16"
  by (auto simp: slice_bit_def shl_one_def mask_set_def bit_shl_one split: if_splits)

lemma slice_bit_15: "slice_bit 15 = Ok index_bit"
  by (simp add: slice_bit_def shl_one_def index_bit_def INDEX_BIT_def)

lemma mask_set_index_bit: "mask_set index_bit = {15}"
  using mask_set_slice_bit [OF slice_bit_15] by simp

lemma mask_set_unfetched:
  "slice_unfetched m idx = Ok m' \<Longrightarrow> mask_set m' = mask_set m - {idx}"
  by (auto simp: slice_unfetched_def shl_one_def mask_set_def bit_shl_one
        bit_and_iff bit_not_iff split: if_splits)

lemma mask_set_fetched:
  "atomic_set_fetched c idx = Ok c' \<Longrightarrow>
     mask_set (atomic_get c') = insert idx (mask_set (atomic_get c))"
  by (auto simp: atomic_set_fetched_def atomic_get_def shl_one_def mask_set_def bit_shl_one
        bit_or_iff split: if_splits)

lemma mask_eq_iff: "m = m' \<longleftrightarrow> mask_set m = mask_set m'"
proof
  assume *: "mask_set m = mask_set m'"
  have "mask_bits m = mask_bits m'"
  proof (rule bit_word_eqI)
    fix n assume "n < LENGTH(16)"
    then have "n < 16" by simp
    with * show "bit (mask_bits m) n = bit (mask_bits m') n"
      unfolding mask_set_def by blast
  qed
  then show "m = m'" by (cases m; cases m') simp
qed simp

lemma is_superset_of_iff: "is_superset_of m m' \<longleftrightarrow> mask_set m' \<subseteq> mask_set m"
proof
  assume *: "is_superset_of m m'"
  show "mask_set m' \<subseteq> mask_set m"
  proof
    fix i assume "i \<in> mask_set m'"
    then have i: "i < 16" "bit (mask_bits m') i" by (auto simp: mask_set_def)
    from * have "mask_bits m' = mask_bits m AND mask_bits m'"
      by (simp add: is_superset_of_def)
    with i(2) have "bit (mask_bits m AND mask_bits m') i" by simp
    with i show "i \<in> mask_set m" by (simp add: bit_and_iff mask_set_def)
  qed
next
  assume *: "mask_set m' \<subseteq> mask_set m"
  show "is_superset_of m m'"
    unfolding is_superset_of_def
  proof (rule bit_word_eqI)
    fix n assume "n < LENGTH(16)"
    with * show "bit (mask_bits m AND mask_bits m') n = bit (mask_bits m') n"
      by (auto simp: bit_and_iff mask_set_def)
  qed
qed

lemma atomic_get_set [simp]: "atomic_get (atomic_set c m) = m"
  by (cases m) (simp add: atomic_get_def atomic_set_def)

section \<open>Properties\<close>



end
