(* ===== verification/Virtual_Path.thy ===== *)
theory Virtual_Path
  imports Ciruela_Prelude
begin

text \<open>
  Virtual paths (\<^verbatim>\<open>src/virtual_path.rs\<close>). The first half models the operations on the
  component lists that \<^verbatim>\<open>std::path\<close> sees (a \<^verbatim>\<open>PathBuf\<close> compares, hashes and iterates by
  components, so a path is modelled by its component list), with every \<^verbatim>\<open>assert!\<close> and
  \<^verbatim>\<open>expect\<close> as a panic. The second half is the type that the daemon's theories use: a
  key and a list of names, which is what a checked path is, with the refinement between
  the two.
\<close>

section \<open>Paths of the standard library\<close>

datatype component = RootDir | CurDir | ParentDir | Normal string

type_synonym path = "component list"

fun split_slash :: "string \<Rightarrow> string list" where
  "split_slash [] = [[]]"
| "split_slash (c # s) =
     (if c = CHR ''/'' then [] # split_slash s
      else (case split_slash s of [] \<Rightarrow> [[c]] | p # ps \<Rightarrow> (c # p) # ps))"

definition piece_component :: "string \<Rightarrow> component option" where
  "piece_component s =
     (if s = [] \<or> s = ''.'' then None
      else if s = ''..'' then Some ParentDir
      else Some (Normal s))"

definition components :: "string \<Rightarrow> path" where
  "components s =
     (case s of
        [] \<Rightarrow> []
      | c # r \<Rightarrow>
          if c = CHR ''/'' then RootDir # List.map_filter piece_component (split_slash r)
          else (if hd (split_slash s) = ''.'' then [CurDir] else []) @
               List.map_filter piece_component (split_slash s))"

fun comp_str :: "component \<Rightarrow> string" where
  "comp_str RootDir = ''/''"
| "comp_str CurDir = ''.''"
| "comp_str ParentDir = ''..''"
| "comp_str (Normal s) = s"

fun is_normal :: "component \<Rightarrow> bool" where
  "is_normal (Normal s) = True"
| "is_normal _ = False"

definition is_absolute :: "path \<Rightarrow> bool" where
  "is_absolute p \<longleftrightarrow> (case p of RootDir # _ \<Rightarrow> True | _ \<Rightarrow> False)"

definition path_parent :: "path \<Rightarrow> path option" where
  "path_parent p = (if p = [] \<or> last p = RootDir then None else Some (butlast p))"

definition path_file_name :: "path \<Rightarrow> string option" where
  "path_file_name p =
     (if p = [] then None else case last p of Normal s \<Rightarrow> Some s | _ \<Rightarrow> None)"

definition strip_root :: "path \<Rightarrow> path option" where
  "strip_root p = (case p of RootDir # q \<Rightarrow> Some q | _ \<Rightarrow> None)"

definition path_join :: "path \<Rightarrow> path \<Rightarrow> path" where
  "path_join p q =
     (if is_absolute q then q
      else if p = [] then q
      else p @ filter (\<lambda>c. c \<noteq> CurDir) q)"

section \<open>The operations of VPath\<close>

datatype path_error = PathError

text \<open>\<^verbatim>\<open>self.0.iter().nth(1)\<close> and \<^verbatim>\<open>expect\<close>: the second component.\<close>

definition vpath_key :: "path \<Rightarrow> (string, path_error) result" where
  "vpath_key p = expect (if length p > 1 then Some (comp_str (p ! 1)) else None)"

definition vpath_from :: "path \<Rightarrow> (path, path_error) result" where
  "vpath_from p = (if is_absolute p \<and> p \<noteq> [RootDir] then Ok p else Panic)"

definition try_from :: "path \<Rightarrow> (path, path_error) result" where
  "try_from p = (if \<not> is_absolute p \<or> p = [RootDir] then Err PathError else Ok p)"

definition key_vpath :: "path \<Rightarrow> (path, path_error) result" where
  "key_vpath p = bind_result (vpath_key p) (\<lambda>x. vpath_from (components (CHR ''/'' # x)))"

text \<open>\<^verbatim>\<open>self.0.iter().count() - 2\<close> on \<^verbatim>\<open>usize\<close>: a count below two underflows.\<close>

definition vpath_level :: "path \<Rightarrow> (nat, path_error) result" where
  "vpath_level p = (if length p < 2 then Panic else Ok (length p - 2))"

definition assert_level :: "path \<Rightarrow> (unit, path_error) result" where
  "assert_level p = bind_result (vpath_level p) (\<lambda>n. if n > 0 then Ok () else Panic)"

definition parent_rel :: "path \<Rightarrow> (path, path_error) result" where
  "parent_rel p =
     bind_result (assert_level p) (\<lambda>_. expect (Option.bind (strip_root p) path_parent))"

definition vpath_parent :: "path \<Rightarrow> (path, path_error) result" where
  "vpath_parent p = bind_result (assert_level p) (\<lambda>_. expect (path_parent p))"

definition vpath_suffix :: "path \<Rightarrow> (path, path_error) result" where
  "vpath_suffix p = (case p of _ # _ # rest \<Rightarrow> Ok rest | _ \<Rightarrow> Panic)"

definition vpath_final_name :: "path \<Rightarrow> (string, path_error) result" where
  "vpath_final_name p = bind_result (assert_level p) (\<lambda>_. expect (path_file_name p))"

definition vpath_join :: "path \<Rightarrow> path \<Rightarrow> (path, path_error) result" where
  "vpath_join p q = (if q \<noteq> [] \<and> list_all is_normal q then Ok (path_join p q) else Panic)"

definition matches_basedir :: "path \<Rightarrow> path \<Rightarrow> (bool, path_error) result" where
  "matches_basedir p base =
     bind_result (assert_level p) (\<lambda>_. bind_result (expect (path_parent p)) (\<lambda>q. Ok (q = base)))"

fun all_normal :: "path \<Rightarrow> nat option" where
  "all_normal [] = Some 0"
| "all_normal (c # cs) = (if is_normal c then map_option Suc (all_normal cs) else None)"

definition check_path :: "string \<Rightarrow> bool" where
  "check_path s =
     (case components s of
        RootDir # cs \<Rightarrow> (case all_normal cs of None \<Rightarrow> False | Some num \<Rightarrow> num \<ge> 1)
      | _ \<Rightarrow> False)"

section \<open>The checked virtual path\<close>

text \<open>
  Every virtual path that the daemon handles comes from the deserialiser, which runs
  \<^const>\<open>check_path\<close>, or from \<^verbatim>\<open>join\<close>, \<^verbatim>\<open>parent\<close> and \<^verbatim>\<open>key_vpath\<close> of such a path. It is
  a key and a possibly empty list of names.
\<close>

datatype vpath = VPath (vp_key: string) (vp_suffix: "string list")

definition vpath_path :: "vpath \<Rightarrow> path" where
  "vpath_path v = RootDir # map Normal (vp_key v # vp_suffix v)"

fun normal_name :: "component \<Rightarrow> string" where
  "normal_name (Normal s) = s"
| "normal_name c = comp_str c"

text \<open>\<^verbatim>\<open>Deserialize for VPath\<close>.\<close>

definition parse_vpath :: "string \<Rightarrow> vpath option" where
  "parse_vpath s =
     (if check_path s
      then (case map normal_name (tl (components s)) of
              [] \<Rightarrow> None
            | k # ns \<Rightarrow> Some (VPath k ns))
      else None)"

definition vp_level :: "vpath \<Rightarrow> nat" where
  "vp_level v = length (vp_suffix v)"

definition vp_key_vpath :: "vpath \<Rightarrow> vpath" where
  "vp_key_vpath v = VPath (vp_key v) []"

definition vp_parent :: "vpath \<Rightarrow> vpath option" where
  "vp_parent v = (if vp_suffix v = [] then None else Some (VPath (vp_key v) (butlast (vp_suffix v))))"

definition vp_parent_rel :: "vpath \<Rightarrow> string list option" where
  "vp_parent_rel v =
     (if vp_suffix v = [] then None else Some (vp_key v # butlast (vp_suffix v)))"

definition vp_final_name :: "vpath \<Rightarrow> string option" where
  "vp_final_name v = (if vp_suffix v = [] then None else Some (last (vp_suffix v)))"

definition vp_child :: "vpath \<Rightarrow> string \<Rightarrow> vpath" where
  "vp_child v n = VPath (vp_key v) (vp_suffix v @ [n])"

definition vp_join :: "vpath \<Rightarrow> string \<Rightarrow> vpath option" where
  "vp_join v s =
     (let cs = components s in
      if cs \<noteq> [] \<and> list_all is_normal cs
      then Some (VPath (vp_key v) (vp_suffix v @ map normal_name cs))
      else None)"

definition vp_matches_basedir :: "vpath \<Rightarrow> vpath \<Rightarrow> bool option" where
  "vp_matches_basedir v base = map_option (\<lambda>q. q = base) (vp_parent v)"

section \<open>The algebra of virtual paths\<close>

text \<open>
  What the daemon relies on: a path of level zero has no parent, a child's parent is the
  directory it was joined to, and a path with a parent is a child of it.
\<close>

locale vpath_algebra =
  fixes lvl :: "'p \<Rightarrow> nat"
    and par :: "'p \<Rightarrow> 'p option"
    and fin :: "'p \<Rightarrow> string option"
    and child :: "'p \<Rightarrow> string \<Rightarrow> 'p"
    and ky :: "'p \<Rightarrow> string"
  assumes par_None_iff: "par p = None \<longleftrightarrow> lvl p = 0"
    and par_child: "par (child p n) = Some p"
    and fin_child: "fin (child p n) = Some n"
    and lvl_child: "lvl (child p n) = Suc (lvl p)"
    and ky_child: "ky (child p n) = ky p"
    and child_of_par: "par p = Some q \<Longrightarrow> \<exists>n. fin p = Some n \<and> p = child q n"
begin

lemma child_inject: "child p n = child q m \<longleftrightarrow> p = q \<and> n = m"
  by (metis par_child fin_child option.inject)

lemma par_key: "par p = Some q \<Longrightarrow> ky q = ky p"
  by (metis child_of_par ky_child)

lemma par_level: "par p = Some q \<Longrightarrow> lvl p = Suc (lvl q)"
  by (metis child_of_par lvl_child)

lemma par_neq: "par p = Some q \<Longrightarrow> p \<noteq> q"
  using par_level by fastforce

lemma child_unique: "par p = Some q \<Longrightarrow> fin p = Some n \<Longrightarrow> p = child q n"
  by (metis child_of_par option.inject)

end

interpretation vp: vpath_algebra vp_level vp_parent vp_final_name vp_child vp_key
proof unfold_locales
  fix p q :: vpath
  assume *: "vp_parent p = Some q"
  then show "\<exists>n. vp_final_name p = Some n \<and> p = vp_child q n"
    by (cases p) (auto simp: vp_parent_def vp_final_name_def vp_child_def split: if_splits)
qed (auto simp: vp_level_def vp_parent_def vp_final_name_def vp_child_def)

lemmas vp_child_laws [simp, vpath_laws] =
  vp.par_child vp.fin_child vp.lvl_child vp.ky_child vp.child_inject

section \<open>Splitting at slashes\<close>

definition name_ok :: "string \<Rightarrow> bool" where
  "name_ok s \<longleftrightarrow> s \<noteq> [] \<and> s \<noteq> ''.'' \<and> s \<noteq> ''..'' \<and> CHR ''/'' \<notin> set s"

lemma split_slash_not_Nil [simp]: "split_slash s \<noteq> []"
  by (induction s) (auto split: list.splits)

lemma split_slash_no_slash: "CHR ''/'' \<notin> set s \<Longrightarrow> split_slash s = [s]"
  by (induction s) auto

lemma split_slash_append_slash:
  "CHR ''/'' \<notin> set s \<Longrightarrow> split_slash (s @ CHR ''/'' # t) = s # split_slash t"
  by (induction s) auto

lemma split_slash_pieces: "p \<in> set (split_slash s) \<Longrightarrow> CHR ''/'' \<notin> set p"
proof (induction s arbitrary: p)
  case Nil
  then show ?case by simp
next
  case (Cons c s)
  obtain q qs where q: "split_slash s = q # qs" by (cases "split_slash s") auto
  then have mem: "q \<in> set (split_slash s)" "set qs \<subseteq> set (split_slash s)" by auto
  show ?case
  proof (cases "c = CHR ''/''")
    case True
    then show ?thesis using Cons by auto
  next
    case False
    then have "p = c # q \<or> p \<in> set qs" using Cons.prems q by auto
    then show ?thesis using False Cons.IH mem by auto
  qed
qed

lemma piece_component_name: "name_ok s \<Longrightarrow> piece_component s = Some (Normal s)"
  by (auto simp: piece_component_def name_ok_def)

lemma piece_component_Normal:
  "piece_component s = Some (Normal t) \<Longrightarrow> CHR ''/'' \<notin> set s \<Longrightarrow> t = s \<and> name_ok s"
  by (auto simp: piece_component_def name_ok_def split: if_splits)

fun join_slash :: "string list \<Rightarrow> string" where
  "join_slash [] = []"
| "join_slash [s] = s"
| "join_slash (s # t # ts) = s @ CHR ''/'' # join_slash (t # ts)"

text \<open>The text of a checked path, as \<^verbatim>\<open>Display\<close> and \<^verbatim>\<open>to_str\<close> give it.\<close>

definition vpath_str :: "vpath \<Rightarrow> string" where
  "vpath_str v = CHR ''/'' # join_slash (vp_key v # vp_suffix v)"

definition vpath_ok :: "vpath \<Rightarrow> bool" where
  "vpath_ok v \<longleftrightarrow> list_all name_ok (vp_key v # vp_suffix v)"

lemma map_filter_Cons:
  "List.map_filter f (x # xs) =
     (case f x of None \<Rightarrow> List.map_filter f xs | Some y \<Rightarrow> y # List.map_filter f xs)"
  by (simp add: map_filter_simps)

lemma split_join_slash:
  "ns \<noteq> [] \<Longrightarrow> list_all name_ok ns \<Longrightarrow>
     List.map_filter piece_component (split_slash (join_slash ns)) = map Normal ns"
proof (induction ns rule: join_slash.induct)
  case (2 s)
  then show ?case
    by (simp add: name_ok_def split_slash_no_slash piece_component_def map_filter_simps)
next
  case (3 s t ts)
  then have "CHR ''/'' \<notin> set s" by (simp add: name_ok_def)
  then show ?case
    using 3 by (simp add: split_slash_append_slash map_filter_Cons piece_component_name)
qed simp

lemma components_vpath_str: "vpath_ok v \<Longrightarrow> components (vpath_str v) = vpath_path v"
  by (simp add: components_def vpath_str_def vpath_path_def vpath_ok_def split_join_slash)

lemma all_normal_map_Normal [simp]: "all_normal (map Normal ns) = Some (length ns)"
  by (induction ns) auto

lemma all_normal_Some:
  "all_normal cs = Some n \<Longrightarrow> n = length cs \<and> cs = map Normal (map normal_name cs)"
proof (induction cs arbitrary: n)
  case (Cons c cs)
  then show ?case by (cases c) auto
qed simp

lemma map_filter_Normal_ok:
  "all_normal (List.map_filter piece_component ps) = Some n \<Longrightarrow>
     \<forall>p \<in> set ps. CHR ''/'' \<notin> set p \<Longrightarrow>
     list_all name_ok (map normal_name (List.map_filter piece_component ps))"
proof (induction ps arbitrary: n)
  case Nil
  then show ?case by (simp add: map_filter_simps)
next
  case (Cons p ps)
  show ?case
  proof (cases "piece_component p")
    case None
    then show ?thesis using Cons by (simp add: map_filter_Cons)
  next
    case (Some c)
    then obtain t where "c = Normal t" using Cons.prems by (cases c) (auto simp: map_filter_Cons)
    then show ?thesis
      using Cons Some piece_component_Normal [of p t] by (auto simp: map_filter_Cons)
  qed
qed

lemma check_path_components:
  assumes "check_path s"
  shows "\<exists>v. vpath_ok v \<and> components s = vpath_path v \<and> parse_vpath s = Some v"
proof -
  obtain cs n where cs: "components s = RootDir # cs" "all_normal cs = Some n" "n \<ge> 1"
    using assms by (auto simp: check_path_def split: list.splits component.splits option.splits)
  obtain k ns where kn: "map normal_name cs = k # ns"
    using cs(2,3) all_normal_Some by (cases cs) fastforce+
  have "cs = map Normal (k # ns)" using all_normal_Some [OF cs(2)] kn by simp
  moreover have "list_all name_ok (k # ns)"
  proof -
    obtain r where r: "s = CHR ''/'' # r" "cs = List.map_filter piece_component (split_slash r)"
      using cs(1) by (auto simp: components_def piece_component_def map_filter_def
          split: list.splits if_splits)
    then show ?thesis
      using map_filter_Normal_ok [of "split_slash r" n] cs(2) kn split_slash_pieces by metis
  qed
  ultimately show ?thesis
    using assms cs(1) kn
    by (intro exI [of _ "VPath k ns"]) (simp add: vpath_ok_def vpath_path_def parse_vpath_def)
qed

lemma vpath_ok_check_path:
  assumes "vpath_ok v"
  shows "check_path (vpath_str v)"
proof -
  have "all_normal (map Normal (vp_key v # vp_suffix v)) = Some (length (vp_key v # vp_suffix v))"
    by (rule all_normal_map_Normal)
  then show ?thesis
    using assms components_vpath_str by (simp add: check_path_def vpath_path_def)
qed

section \<open>The daemon's paths implement the component-vpath_level operations\<close>

lemmas vpath_op_defs =
  vpath_key_def key_vpath_def vpath_level_def assert_level_def vpath_parent_def parent_rel_def vpath_suffix_def
  vpath_final_name_def vpath_path_def path_parent_def path_file_name_def strip_root_def

lemma vpath_key_refines: "vpath_key (vpath_path v) = Ok (vp_key v)"
  by (simp add: vpath_key_def vpath_path_def)

lemma vpath_level_refines: "vpath_level (vpath_path v) = Ok (vp_level v)"
  by (simp add: vpath_level_def vpath_path_def vp_level_def)

lemma assert_level_refines:
  "assert_level (vpath_path v) = (if vp_suffix v = [] then Panic else Ok ())"
  by (simp add: assert_level_def vpath_level_refines vp_level_def)

lemma vpath_parent_refines:
  "vpath_parent (vpath_path v) =
     (case vp_parent v of None \<Rightarrow> Panic | Some w \<Rightarrow> Ok (vpath_path w))"
  unfolding vpath_parent_def assert_level_refines
  by (simp add: vp_parent_def vpath_path_def path_parent_def last_map map_butlast)

lemma parent_rel_refines:
  "parent_rel (vpath_path v) =
     (case vp_parent_rel v of None \<Rightarrow> Panic | Some ns \<Rightarrow> Ok (map Normal ns))"
  unfolding parent_rel_def assert_level_refines
  by (simp add: vp_parent_rel_def vpath_path_def path_parent_def strip_root_def last_map
      map_butlast)

lemma vpath_suffix_refines: "vpath_suffix (vpath_path v) = Ok (map Normal (vp_suffix v))"
  by (simp add: vpath_suffix_def vpath_path_def)

lemma vpath_final_name_refines:
  "vpath_final_name (vpath_path v) = (case vp_final_name v of None \<Rightarrow> Panic | Some n \<Rightarrow> Ok n)"
  unfolding vpath_final_name_def assert_level_refines
  by (simp add: vp_final_name_def vpath_path_def path_file_name_def last_map)

lemma map_Normal_normal_name: "list_all is_normal cs \<Longrightarrow> map (Normal \<circ> normal_name) cs = cs"
proof (induction cs)
  case (Cons c cs)
  then show ?case by (cases c) auto
qed simp

lemma filter_CurDir_normal: "list_all is_normal cs \<Longrightarrow> filter (\<lambda>c. c \<noteq> CurDir) cs = cs"
proof (induction cs)
  case (Cons c cs)
  then show ?case by (cases c) auto
qed simp

lemma not_absolute_normal: "list_all is_normal cs \<Longrightarrow> \<not> is_absolute cs"
  by (cases cs) (auto simp: is_absolute_def split: component.splits)

lemma vpath_join_refines:
  "vpath_join (vpath_path v) (components s) =
     (case vp_join v s of None \<Rightarrow> Panic | Some w \<Rightarrow> Ok (vpath_path w))"
  by (simp add: vpath_join_def vp_join_def Let_def path_join_def vpath_path_def
      map_Normal_normal_name filter_CurDir_normal not_absolute_normal)

lemma inj_vpath_path: "inj vpath_path"
  by (rule injI) (auto simp: vpath_path_def inj_map_eq_map inj_def intro: vpath.expand)

lemma matches_basedir_refines:
  "matches_basedir (vpath_path v) (vpath_path base) =
     (case vp_matches_basedir v base of None \<Rightarrow> Panic | Some b \<Rightarrow> Ok b)"
proof (cases "vp_parent v")
  case None
  then have "vp_suffix v = []" by (auto simp: vp_parent_def split: if_splits)
  then show ?thesis
    by (simp add: matches_basedir_def assert_level_refines vp_matches_basedir_def None)
next
  case (Some w)
  then have ne: "vp_suffix v \<noteq> []" by (auto simp: vp_parent_def split: if_splits)
  have "expect (path_parent (vpath_path v)) = vpath_parent (vpath_path v)"
    by (simp add: vpath_parent_def assert_level_refines ne)
  then have "expect (path_parent (vpath_path v)) = (Ok (vpath_path w) :: (path, path_error) result)"
    by (simp add: vpath_parent_refines Some)
  then show ?thesis
    using inj_vpath_path
    by (simp add: matches_basedir_def assert_level_refines ne vp_matches_basedir_def Some
        inj_eq)
qed

lemma key_vpath_refines:
  "name_ok (vp_key v) \<Longrightarrow> key_vpath (vpath_path v) = Ok (vpath_path (vp_key_vpath v))"
  using components_vpath_str [of "vp_key_vpath v"]
  unfolding key_vpath_def vpath_key_refines
  by (simp add: vpath_from_def vp_key_vpath_def vpath_str_def vpath_ok_def vpath_path_def
      is_absolute_def)

lemma vp_join_name: "name_ok n \<Longrightarrow> vp_join v n = Some (vp_child v n)"
proof -
  assume n: "name_ok n"
  then obtain c s where cs: "n = c # s" "c \<noteq> CHR ''/''" by (cases n) (auto simp: name_ok_def)
  have "components n = [Normal n]"
    using n cs by (simp add: components_def split_slash_no_slash name_ok_def map_filter_Cons
        piece_component_name map_filter_simps(2))
  then show ?thesis by (simp add: vp_join_def vp_child_def)
qed

section \<open>Properties\<close>

text \<open>
  The key-and-names view of a virtual path that the rest of the development uses
  refines the component-level operations of the code: for every daemon path the key,
  the level, the parent, the final name, the suffix, the join with an arbitrary
  string and the test against a base directory agree with the source's operations on
  path components, the assertion failures included.
\<close>

theorem vpath_operations_refine:
  "vpath_key (vpath_path v) = Ok (vp_key v) \<and>
   vpath_level (vpath_path v) = Ok (vp_level v) \<and>
   vpath_suffix (vpath_path v) = Ok (map Normal (vp_suffix v)) \<and>
   vpath_parent (vpath_path v) =
     (case vp_parent v of None \<Rightarrow> Panic | Some w \<Rightarrow> Ok (vpath_path w)) \<and>
   parent_rel (vpath_path v) =
     (case vp_parent_rel v of None \<Rightarrow> Panic | Some ns \<Rightarrow> Ok (map Normal ns)) \<and>
   vpath_final_name (vpath_path v) =
     (case vp_final_name v of None \<Rightarrow> Panic | Some n \<Rightarrow> Ok n) \<and>
   vpath_join (vpath_path v) (components s) =
     (case vp_join v s of None \<Rightarrow> Panic | Some w \<Rightarrow> Ok (vpath_path w)) \<and>
   matches_basedir (vpath_path v) (vpath_path base) =
     (case vp_matches_basedir v base of None \<Rightarrow> Panic | Some b \<Rightarrow> Ok b)"
  by (intro conjI vpath_key_refines vpath_level_refines vpath_suffix_refines vpath_parent_refines
      parent_rel_refines vpath_final_name_refines vpath_join_refines matches_basedir_refines)

text \<open>
  C39. Printing and parsing a virtual path are inverse, and the check of an incoming path
  accepts exactly what parses: a well-formed path prints to a text that \<^verbatim>\<open>check_path\<close>
  accepts and that parses back to it, and every text that parses gives a well-formed path
  (names that are not empty, not a dot, not two dots and hold no slash). So no accepted
  path climbs out of its base directory.
\<close>

theorem vpath_text_roundtrip:
  "(vpath_ok v \<longrightarrow> check_path (vpath_str v) \<and> parse_vpath (vpath_str v) = Some v) \<and>
   (parse_vpath s \<noteq> None \<longleftrightarrow> check_path s) \<and>
   (\<forall>w. parse_vpath s = Some w \<longrightarrow> vpath_ok w \<and> components s = vpath_path w)"
proof (intro conjI impI allI)
  assume v: "vpath_ok v"
  show ck: "check_path (vpath_str v)" by (rule vpath_ok_check_path [OF v])
  show "parse_vpath (vpath_str v) = Some v"
    using ck components_vpath_str [OF v] by (simp add: parse_vpath_def vpath_path_def comp_def)
next
  show "parse_vpath s \<noteq> None \<longleftrightarrow> check_path s"
    using check_path_components [of s] by (auto simp: parse_vpath_def)
next
  fix w assume w: "parse_vpath s = Some w"
  then have "check_path s" by (auto simp: parse_vpath_def split: if_splits)
  from check_path_components [OF this] w
  show "vpath_ok w" "components s = vpath_path w" by auto
qed

theorem vpath_text_roundtrip_witness:
  "check_path ''/k/a/b'' \<and> parse_vpath ''/k/a/b'' = Some (VPath ''k'' [''a'', ''b''])"
proof -
  have "vpath_ok (VPath ''k'' [''a'', ''b''])" by (simp add: vpath_ok_def name_ok_def)
  with vpath_text_roundtrip [of "VPath ''k'' [''a'', ''b'']" "''/k/a/b''"]
  show ?thesis by (simp add: vpath_str_def)
qed

end
