(* ===== verification/Identifiers.thy ===== *)
theory Identifiers
  imports Ciruela_Prelude
begin

text \<open>
  The identifiers of the system and their wire forms: \<^verbatim>\<open>ImageId\<close> (\<^verbatim>\<open>src/id.rs\<close>),
  \<^verbatim>\<open>BlockHash\<close> (\<^verbatim>\<open>src/block_id.rs\<close>), \<^verbatim>\<open>Hash\<close> (\<^verbatim>\<open>src/proto/hash.rs\<close>) and
  \<^verbatim>\<open>MachineId\<close> (\<^verbatim>\<open>src/machine_id.rs\<close>). The hexadecimal codec of the \<^verbatim>\<open>hex\<close> crate is a
  parameter of the functions that use it, with its documented behaviour as the named
  hypothesis \<open>hex_codec\<close>.
\<close>

section \<open>Wire values\<close>

text \<open>What a serde visitor is given and what a serializer is told to write.\<close>

datatype wire = WStr string | WBytes bytes | WOther

datatype de_error = InvalidLength nat | InvalidValue | InvalidType

type_synonym to_hex = "bytes \<Rightarrow> string"
type_synonym from_hex = "string \<Rightarrow> bytes option"

text \<open>The documented behaviour of the \<^verbatim>\<open>hex\<close> crate: two characters a byte, and decoding inverts.\<close>

definition hex_codec :: "to_hex \<Rightarrow> from_hex \<Rightarrow> bool" where
  "hex_codec th fh \<longleftrightarrow>
     (\<forall>b. fh (th b) = Some b \<and> length (th b) = 2 * length b) \<and>
     (\<forall>s b. fh s = Some b \<longrightarrow> length s = 2 * length b)"

section \<open>ImageId\<close>

datatype image_id = B32 bytes | Other bytes

datatype parse_error = ParseError

definition image_from :: "bytes \<Rightarrow> image_id" where
  "image_from value = (if length value = 32 then B32 value else Other value)"

definition image_from_str :: "from_hex \<Rightarrow> string \<Rightarrow> (image_id, parse_error) result" where
  "image_from_str fh value =
     (if length value = 64
      then bind_result (ok_or (fh value) ParseError)
             (\<lambda>array. if length array = 32 then Ok (B32 array) else Err ParseError)
      else bind_result (ok_or (fh value) ParseError) (\<lambda>v. Ok (Other v)))"

fun image_as_ref :: "image_id \<Rightarrow> bytes" where
  "image_as_ref (B32 ar) = ar"
| "image_as_ref (Other slc) = slc"

definition image_display :: "to_hex \<Rightarrow> image_id \<Rightarrow> string" where
  "image_display th i = th (image_as_ref i)"

text \<open>The visitor has \<^verbatim>\<open>visit_bytes\<close> only; serde rejects any other kind of value.\<close>

fun image_deserialize :: "wire \<Rightarrow> (image_id, de_error) result" where
  "image_deserialize (WBytes value) =
     Ok (if length value = 32 then B32 value else Other value)"
| "image_deserialize (WStr s) = Err InvalidType"
| "image_deserialize WOther = Err InvalidType"

definition image_serialize :: "to_hex \<Rightarrow> bool \<Rightarrow> image_id \<Rightarrow> wire" where
  "image_serialize th human_readable i =
     (if human_readable then WStr (image_display th i) else WBytes (image_as_ref i))"

fun image_ok :: "image_id \<Rightarrow> bool" where
  "image_ok (B32 b) \<longleftrightarrow> length b = 32"
| "image_ok (Other b) \<longleftrightarrow> length b \<noteq> 32"

section \<open>BlockHash\<close>

datatype block_hash = BlockHash bytes

fun block_bytes :: "block_hash \<Rightarrow> bytes" where
  "block_bytes (BlockHash b) = b"

definition block_from_bytes :: "bytes \<Rightarrow> block_hash option" where
  "block_from_bytes bs = (if length bs = 32 then Some (BlockHash bs) else None)"

text \<open>\<^verbatim>\<open>hash_bytes\<close>: the 32-byte Blake2b digest is a parameter.\<close>

definition block_hash_bytes :: "(bytes \<Rightarrow> bytes) \<Rightarrow> bytes \<Rightarrow> block_hash" where
  "block_hash_bytes blake2b bs = BlockHash (blake2b bs)"

fun block_deserialize :: "wire \<Rightarrow> (block_hash, de_error) result" where
  "block_deserialize (WBytes value) =
     (if length value = 32 then Ok (BlockHash value) else Err (InvalidLength (length value)))"
| "block_deserialize (WStr s) = Err InvalidType"
| "block_deserialize WOther = Err InvalidType"

definition block_serialize :: "block_hash \<Rightarrow> wire" where
  "block_serialize h = WBytes (block_bytes h)"

definition block_ok :: "block_hash \<Rightarrow> bool" where
  "block_ok h \<longleftrightarrow> length (block_bytes h) = 32"

section \<open>Hash\<close>

datatype hash = Hash bytes

fun hash_bytes :: "hash \<Rightarrow> bytes" where
  "hash_bytes (Hash b) = b"

definition hash_new :: "bytes \<Rightarrow> (hash, de_error) result" where
  "hash_new h = (if length h = 32 then Ok (Hash h) else Panic)"

definition hash_display :: "to_hex \<Rightarrow> hash \<Rightarrow> string" where
  "hash_display th h = th (hash_bytes h)"

text \<open>\<^verbatim>\<open>copy_from_slice\<close> panics when the lengths differ.\<close>

definition copy_array :: "nat \<Rightarrow> bytes \<Rightarrow> (bytes, de_error) result" where
  "copy_array n v = (if length v = n then Ok v else Panic)"

fun hash_deserialize :: "from_hex \<Rightarrow> wire \<Rightarrow> (hash, de_error) result" where
  "hash_deserialize fh (WBytes value) =
     (if length value = 32 then Ok (Hash value) else Err (InvalidLength (length value)))"
| "hash_deserialize fh (WStr value) =
     (if length value = 64
      then bind_result (ok_or (fh value) InvalidValue)
             (\<lambda>v. bind_result (copy_array 32 v) (\<lambda>a. Ok (Hash a)))
      else Err (InvalidLength (length value)))"
| "hash_deserialize fh WOther = Err InvalidType"

definition hash_serialize :: "to_hex \<Rightarrow> bool \<Rightarrow> hash \<Rightarrow> wire" where
  "hash_serialize th human_readable h =
     (if human_readable then WStr (hash_display th h) else WBytes (hash_bytes h))"

definition hash_ok :: "hash \<Rightarrow> bool" where
  "hash_ok h \<longleftrightarrow> length (hash_bytes h) = 32"

section \<open>MachineId\<close>

datatype machine_id = MachineId bytes

fun machine_bytes :: "machine_id \<Rightarrow> bytes" where
  "machine_bytes (MachineId b) = b"

text \<open>
  \<^verbatim>\<open>MachineId::read\<close> on the text of \<^verbatim>\<open>/etc/machine-id\<close>; \<^verbatim>\<open>None\<close> is a file that cannot be
  opened or read.
\<close>

datatype id_error = WrongLength | BadHex | IoError

definition machine_read :: "from_hex \<Rightarrow> string option \<Rightarrow> (machine_id, id_error) result" where
  "machine_read fh file =
     (case file of
        None \<Rightarrow> Err IoError
      | Some buf \<Rightarrow>
          if length buf \<noteq> 32 \<and> length buf \<noteq> 33 then Err WrongLength
          else bind_result (ok_or (fh (take 32 buf)) BadHex)
                 (\<lambda>v. if length v = 16 then Ok (MachineId v) else Panic))"

definition machine_from_str :: "from_hex \<Rightarrow> string \<Rightarrow> (machine_id, id_error) result" where
  "machine_from_str fh s =
     (if length s \<noteq> 32 then Err WrongLength
      else bind_result (ok_or (fh s) BadHex)
             (\<lambda>v. if length v = 16 then Ok (MachineId v) else Panic))"

definition machine_display :: "to_hex \<Rightarrow> machine_id \<Rightarrow> string" where
  "machine_display th m = th (machine_bytes m)"

fun machine_deserialize :: "from_hex \<Rightarrow> wire \<Rightarrow> (machine_id, de_error) result" where
  "machine_deserialize fh (WBytes value) =
     (if length value = 16 then Ok (MachineId value) else Err (InvalidLength (length value)))"
| "machine_deserialize fh (WStr value) =
     (if length value = 32
      then bind_result (ok_or (fh value) InvalidValue)
             (\<lambda>v. bind_result (copy_array 16 v) (\<lambda>a. Ok (MachineId a)))
      else Err (InvalidLength (length value)))"
| "machine_deserialize fh WOther = Err InvalidType"

definition machine_serialize :: "to_hex \<Rightarrow> bool \<Rightarrow> machine_id \<Rightarrow> wire" where
  "machine_serialize th human_readable m =
     (if human_readable then WStr (machine_display th m) else WBytes (machine_bytes m))"

definition machine_ok :: "machine_id \<Rightarrow> bool" where
  "machine_ok m \<longleftrightarrow> length (machine_bytes m) = 16"

section \<open>The contract of a binary identifier\<close>

text \<open>
  In the binary protocol every identifier is written as a byte string and read back by a
  visitor that checks the length. The contract: writing and reading are inverse on the
  well-formed values, and reading gives well-formed values only.
\<close>

locale byte_identifier =
  fixes wr :: "'i \<Rightarrow> wire"
    and rd :: "wire \<Rightarrow> ('i, de_error) result"
    and ok :: "'i \<Rightarrow> bool"
  assumes rd_wr: "ok i \<Longrightarrow> rd (wr i) = Ok i"
    and rd_ok: "rd w = Ok i \<Longrightarrow> ok i"
begin

lemma wr_inj: "ok i \<Longrightarrow> ok j \<Longrightarrow> wr i = wr j \<longleftrightarrow> i = j"
  by (metis rd_wr result.inject(1))

lemma ok_iff_readable: "ok i \<longleftrightarrow> rd (wr i) = Ok i"
  using rd_wr rd_ok by blast

lemma rd_wr_rd: "rd w = Ok i \<Longrightarrow> rd (wr i) = rd w"
  using rd_wr rd_ok by simp

end

interpretation image: byte_identifier "image_serialize th False" image_deserialize image_ok
proof unfold_locales
  fix i show "image_ok i \<Longrightarrow> image_deserialize (image_serialize th False i) = Ok i"
    by (cases i) (auto simp: image_serialize_def)
next
  fix w i show "image_deserialize w = Ok i \<Longrightarrow> image_ok i"
    by (cases w) auto
qed

interpretation block: byte_identifier block_serialize block_deserialize block_ok
proof unfold_locales
  fix i show "block_ok i \<Longrightarrow> block_deserialize (block_serialize i) = Ok i"
    by (cases i) (auto simp: block_serialize_def block_ok_def)
next
  fix w i show "block_deserialize w = Ok i \<Longrightarrow> block_ok i"
    by (cases w) (auto simp: block_ok_def split: if_splits)
qed

lemma copy_array_Ok: "copy_array n v = Ok a \<longleftrightarrow> a = v \<and> length v = n"
  by (auto simp: copy_array_def)

lemma hash_deserialize_ok: "hash_deserialize fh w = Ok h \<Longrightarrow> hash_ok h"
  by (cases w) (auto simp: hash_ok_def copy_array_Ok split: if_splits)

lemma machine_deserialize_ok: "machine_deserialize fh w = Ok m \<Longrightarrow> machine_ok m"
  by (cases w) (auto simp: machine_ok_def copy_array_Ok split: if_splits)

interpretation hash: byte_identifier "hash_serialize th False" "hash_deserialize fh" hash_ok
proof unfold_locales
  fix i show "hash_ok i \<Longrightarrow> hash_deserialize fh (hash_serialize th False i) = Ok i"
    by (cases i) (auto simp: hash_serialize_def hash_ok_def)
qed (rule hash_deserialize_ok)

interpretation machine: byte_identifier "machine_serialize th False" "machine_deserialize fh" machine_ok
proof unfold_locales
  fix i show "machine_ok i \<Longrightarrow> machine_deserialize fh (machine_serialize th False i) = Ok i"
    by (cases i) (auto simp: machine_serialize_def machine_ok_def)
qed (rule machine_deserialize_ok)

section \<open>Text forms\<close>

lemma hex_codec_decode: "hex_codec th fh \<Longrightarrow> fh (th b) = Some b"
  by (simp add: hex_codec_def)

lemma hex_codec_length: "hex_codec th fh \<Longrightarrow> length (th b) = 2 * length b"
  by (simp add: hex_codec_def)

lemma hex_codec_decoded_length: "hex_codec th fh \<Longrightarrow> fh s = Some b \<Longrightarrow> length s = 2 * length b"
  by (simp add: hex_codec_def)

lemma machine_read_newline:
  "hex_codec th fh \<Longrightarrow> machine_ok m \<Longrightarrow>
     machine_read fh (Some (machine_display th m @ [c])) = Ok m"
  by (cases m) (simp add: machine_read_def machine_display_def machine_ok_def hex_codec_def)

lemma hash_text_roundtrip:
  "hex_codec th fh \<Longrightarrow> hash_ok h \<Longrightarrow> hash_deserialize fh (hash_serialize th hr h) = Ok h"
  by (cases h) (simp add: hash_serialize_def hash_display_def hash_ok_def hex_codec_def copy_array_def)

lemma machine_text_roundtrip:
  "hex_codec th fh \<Longrightarrow> machine_ok m \<Longrightarrow>
     machine_deserialize fh (machine_serialize th hr m) = Ok m"
  by (cases m)
    (simp add: machine_serialize_def machine_display_def machine_ok_def hex_codec_def copy_array_def)

lemma image_str_roundtrip:
  "hex_codec th fh \<Longrightarrow> image_ok i \<Longrightarrow> image_from_str fh (image_display th i) = Ok i"
  by (cases i) (auto simp: image_from_str_def image_display_def hex_codec_def)

lemma hash_deserialize_total: "hex_codec th fh \<Longrightarrow> hash_deserialize fh w \<noteq> Panic"
  by (cases w) (auto simp: copy_array_def dest: hex_codec_decoded_length split: if_splits)

lemma machine_deserialize_total: "hex_codec th fh \<Longrightarrow> machine_deserialize fh w \<noteq> Panic"
  by (cases w) (auto simp: copy_array_def dest: hex_codec_decoded_length split: if_splits)

section \<open>A concrete codec\<close>

text \<open>Lower-case hexadecimal, an instance of \<^const>\<open>hex_codec\<close>.\<close>

definition hex_digit :: "nat \<Rightarrow> char" where
  "hex_digit n = (if n < 10 then char_of (48 + n) else char_of (87 + n))"

definition hex_value :: "char \<Rightarrow> nat option" where
  "hex_value c =
     (let n = of_char c in
      if 48 \<le> n \<and> n < 58 then Some (n - 48)
      else if 97 \<le> n \<and> n < 103 then Some (n - 87)
      else None)"

fun plain_to_hex :: to_hex where
  "plain_to_hex [] = []"
| "plain_to_hex (w # ws) = hex_digit (unat w div 16) # hex_digit (unat w mod 16) # plain_to_hex ws"

fun plain_from_hex :: from_hex where
  "plain_from_hex [] = Some []"
| "plain_from_hex [c] = None"
| "plain_from_hex (c # d # s) =
     (case (hex_value c, hex_value d, plain_from_hex s) of
        (Some a, Some b, Some ws) \<Rightarrow> Some (word_of_nat (16 * a + b) # ws)
      | _ \<Rightarrow> None)"

lemma hex_value_digit: "n < 16 \<Longrightarrow> hex_value (hex_digit n) = Some n"
  by (simp add: hex_value_def hex_digit_def Let_def)

lemma plain_hex_codec: "hex_codec plain_to_hex plain_from_hex"
proof -
  have "plain_from_hex (plain_to_hex b) = Some b \<and> length (plain_to_hex b) = 2 * length b" for b
  proof (induction b)
    case (Cons w ws)
    have "unat w < 2 ^ LENGTH(8)" by (rule unsigned_less)
    then have "unat w < 256" by simp
    then show ?case using Cons by (simp add: hex_value_digit)
  qed simp
  moreover have "plain_from_hex s = Some b \<Longrightarrow> length s = 2 * length b" for s b
    by (induction s arbitrary: b rule: plain_from_hex.induct) (auto split: option.splits)
  ultimately show ?thesis unfolding hex_codec_def by blast
qed

section \<open>Properties\<close>

text \<open>
  Identifiers survive the wire formats. In the binary protocol every well-formed
  \<^verbatim>\<open>ImageId\<close>, \<^verbatim>\<open>BlockHash\<close>, \<^verbatim>\<open>Hash\<close> and \<^verbatim>\<open>MachineId\<close> is read back as itself; in a
  human-readable format \<^verbatim>\<open>Hash\<close> and \<^verbatim>\<open>MachineId\<close> are too, and the printed text of an
  \<^verbatim>\<open>ImageId\<close> parses back to it (with \<^verbatim>\<open>FromStr\<close>: its serde visitor reads bytes only, so
  the text that its own serializer writes in a human-readable format is refused).
\<close>

theorem identifiers_roundtrip:
  assumes "hex_codec th fh" and "image_ok i" and "block_ok b" and "hash_ok h" and "machine_ok m"
  shows "image_deserialize (image_serialize th False i) = Ok i \<and>
    image_from_str fh (image_display th i) = Ok i \<and>
    image_deserialize (image_serialize th True i) = Err InvalidType \<and>
    block_deserialize (block_serialize b) = Ok b \<and>
    hash_deserialize fh (hash_serialize th hr h) = Ok h \<and>
    machine_deserialize fh (machine_serialize th hr m) = Ok m \<and>
    machine_from_str fh (machine_display th m) = Ok m"
proof (intro conjI)
  show "image_deserialize (image_serialize th True i) = Err InvalidType"
    by (simp add: image_serialize_def)
  show "machine_from_str fh (machine_display th m) = Ok m"
    using assms by (cases m) (simp add: machine_from_str_def machine_display_def machine_ok_def hex_codec_def)
qed (use assms in \<open>auto intro: image.rd_wr image_str_roundtrip block.rd_wr hash_text_roundtrip
      machine_text_roundtrip\<close>)

theorem identifiers_roundtrip_witness:
  "image_from_str plain_from_hex (image_display plain_to_hex (Other [1, 171])) = Ok (Other [1, 171]) \<and>
   machine_from_str plain_from_hex (machine_display plain_to_hex (MachineId (replicate 16 7))) =
     Ok (MachineId (replicate 16 7))"
  using identifiers_roundtrip [OF plain_hex_codec, of "Other [1, 171]" "BlockHash (replicate 32 0)"
      "Hash (replicate 32 0)" "MachineId (replicate 16 7)" True]
  by (simp add: block_ok_def hash_ok_def machine_ok_def)

end
