(* ===== verification/Time_Util.thy ===== *)
theory Time_Util
  imports Ciruela_Prelude
begin

text \<open>
  Wall-clock times and durations and their millisecond wire form
  (\<^verbatim>\<open>src/time_util.rs\<close>, \<^verbatim>\<open>src/serialize/timestamp.rs\<close>, \<^verbatim>\<open>src/serialize/duration.rs\<close>).
  A \<^verbatim>\<open>SystemTime\<close> is its distance from the Unix epoch in nanoseconds, which is negative
  before the epoch; a \<^verbatim>\<open>Duration\<close> is a number of nanoseconds.
\<close>

type_synonym system_time = int
type_synonym duration = nat

definition UNIX_EPOCH :: system_time where
  "UNIX_EPOCH = 0"

section \<open>Durations\<close>

definition as_secs :: "duration \<Rightarrow> nat" where
  "as_secs d = d div 1000000000"

definition subsec_nanos :: "duration \<Rightarrow> nat" where
  "subsec_nanos d = d mod 1000000000"

definition duration_new :: "nat \<Rightarrow> nat \<Rightarrow> duration" where
  "duration_new secs nanos = secs * 1000000000 + nanos"

text \<open>
  \<^verbatim>\<open>d.as_secs()*1000 + (d.subsec_nanos() / 1000000) as u64\<close>: an overflow of the
  \<^verbatim>\<open>u64\<close> arithmetic is a panic.
\<close>

definition duration_ms :: "duration \<Rightarrow> (u64, unit) result" where
  "duration_ms d =
     (let ms = as_secs d * 1000 + subsec_nanos d div 1000000 in
      if ms < 2 ^ 64 then Ok (word_of_nat ms) else Panic)"

definition duration_serialize :: "duration \<Rightarrow> (u64, unit) result" where
  "duration_serialize d = duration_ms d"

definition duration_deserialize :: "u64 \<Rightarrow> duration" where
  "duration_deserialize ms = duration_new (unat ms div 1000) (unat ms mod 1000 * 1000000)"

section \<open>Timestamps\<close>

definition duration_since_epoch :: "system_time \<Rightarrow> duration option" where
  "duration_since_epoch t = (if t < UNIX_EPOCH then None else Some (nat (t - UNIX_EPOCH)))"

definition to_ms :: "system_time \<Rightarrow> (u64, unit) result" where
  "to_ms t = bind_result (expect (duration_since_epoch t)) duration_ms"

definition from_ms :: "u64 \<Rightarrow> system_time" where
  "from_ms ms = UNIX_EPOCH + int (duration_new (unat ms div 1000) (unat ms mod 1000 * 1000000))"

definition timestamp_serialize :: "system_time \<Rightarrow> (u64, unit) result" where
  "timestamp_serialize t = to_ms t"

definition timestamp_deserialize :: "u64 \<Rightarrow> system_time" where
  "timestamp_deserialize ms = from_ms ms"

section \<open>Facts\<close>

lemma duration_ms_div: "as_secs d * 1000 + subsec_nanos d div 1000000 = d div 1000000"
proof -
  have "d div 1000000 = (d div 1000000000 * 1000000000 + d mod 1000000000) div 1000000"
    by simp
  also have "\<dots> = ((d div 1000000000 * 1000) * 1000000 + d mod 1000000000) div 1000000"
    by (simp add: mult.assoc)
  also have "\<dots> = d div 1000000000 * 1000 + d mod 1000000000 div 1000000"
    by (subst div_mult_self3) simp_all
  finally show ?thesis by (simp add: as_secs_def subsec_nanos_def)
qed

lemma duration_ms_eq:
  "duration_ms d = (if d div 1000000 < 2 ^ 64 then Ok (word_of_nat (d div 1000000)) else Panic)"
  unfolding duration_ms_def duration_ms_div Let_def by simp

lemma duration_new_ms: "duration_new (n div 1000) (n mod 1000 * 1000000) = n * 1000000"
proof -
  have "n div 1000 * 1000000000 + n mod 1000 * 1000000 = (n div 1000 * 1000 + n mod 1000) * 1000000"
    by (simp only: algebra_simps)
  then show ?thesis by (simp add: duration_new_def div_mult_mod_eq)
qed

lemma unat_u64_less: "unat (ms :: u64) < 2 ^ 64"
  using unsigned_less [of ms] by simp

lemma duration_ms_from: "duration_ms (unat ms * 1000000) = Ok ms"
  using unat_u64_less [of ms] by (simp add: duration_ms_eq)

lemma from_ms_eq: "from_ms ms = int (unat ms) * 1000000"
  by (simp add: from_ms_def UNIX_EPOCH_def duration_new_ms)

lemma to_ms_from_ms: "to_ms (from_ms ms) = Ok ms"
proof -
  have "nat (int (unat ms) * 1000000) = unat ms * 1000000"
    by (metis nat_int of_nat_mult of_nat_numeral)
  then show ?thesis
    by (simp add: to_ms_def duration_since_epoch_def from_ms_eq UNIX_EPOCH_def duration_ms_from)
qed

lemma to_ms_Ok:
  assumes "to_ms t = Ok ms"
  shows "0 \<le> t" and "from_ms ms = t div 1000000 * 1000000"
proof -
  show t: "0 \<le> t"
    using assms by (auto simp: to_ms_def duration_since_epoch_def UNIX_EPOCH_def split: if_splits)
  then have "duration_ms (nat t) = Ok ms"
    using assms by (simp add: to_ms_def duration_since_epoch_def UNIX_EPOCH_def)
  then have ms: "ms = word_of_nat (nat t div 1000000)" "nat t div 1000000 < 2 ^ 64"
    by (auto simp: duration_ms_eq split: if_splits)
  then have "unat ms = nat t div 1000000" by (simp add: unat_of_nat)
  then have "int (unat ms) = t div 1000000" using t by (simp add: zdiv_int)
  then show "from_ms ms = t div 1000000 * 1000000" by (simp add: from_ms_eq)
qed

lemma to_ms_defined_iff:
  "(\<exists>ms. to_ms t = Ok ms) \<longleftrightarrow> 0 \<le> t \<and> t div 1000000 < 2 ^ 64"
proof (cases "0 \<le> t")
  case True
  then have "int (nat t div 1000000) = t div 1000000" by (simp add: zdiv_int)
  then have "nat t div 1000000 < 2 ^ 64 \<longleftrightarrow> t div 1000000 < 2 ^ 64"
    by (metis of_nat_less_iff of_nat_numeral of_nat_power)
  then show ?thesis
    using True by (simp add: to_ms_def duration_since_epoch_def UNIX_EPOCH_def duration_ms_eq)
next
  case False
  then show ?thesis by (simp add: to_ms_def duration_since_epoch_def UNIX_EPOCH_def)
qed

section \<open>Properties\<close>

text \<open>
  The millisecond form of a time is lossless on what was received and truncates what
  is sent: every \<^verbatim>\<open>u64\<close> is the millisecond count of the time it denotes, and a time at or
  after the epoch (and below \<^verbatim>\<open>2^64\<close> ms) is rounded down to a whole millisecond, once: a
  second pass changes nothing. Any other time panics.
\<close>

lemma timestamp_roundtrip:
  "timestamp_serialize (timestamp_deserialize ms) = Ok ms \<and>
   (case timestamp_serialize t of
      Ok ms' \<Rightarrow> 0 \<le> t \<and> timestamp_deserialize ms' \<le> t \<and> t < timestamp_deserialize ms' + 1000000 \<and>
               timestamp_serialize (timestamp_deserialize ms') = Ok ms'
    | Err e \<Rightarrow> False
    | Panic \<Rightarrow> t < 0 \<or> 2 ^ 64 \<le> t div 1000000)"
proof (cases "to_ms t :: (u64, unit) result")
  case (Ok ms')
  have "t div 1000000 * 1000000 \<le> t" "t < t div 1000000 * 1000000 + 1000000"
    by presburger+
  with to_ms_Ok [OF Ok] Ok to_ms_from_ms [of ms'] show ?thesis
    by (simp add: timestamp_serialize_def timestamp_deserialize_def to_ms_from_ms [of ms])
next
  case (Err e)
  then show ?thesis
    by (auto simp: to_ms_def duration_ms_eq duration_since_epoch_def split: if_splits)
next
  case Panic
  then have "\<nexists>ms. to_ms t = Ok ms" by (metis to_ms_defined_iff result.distinct(3))
  then show ?thesis
    using Panic to_ms_defined_iff [of t]
    by (auto simp: timestamp_serialize_def timestamp_deserialize_def to_ms_from_ms)
qed

end
