(* ===== verification/Failure_Tracker.thy ===== *)
theory Failure_Tracker
  imports Ciruela_Prelude
begin

text \<open>
  Failure tracking with back-off (\<^verbatim>\<open>src/failure_tracker.rs\<close>). The clock is an argument:
  an \<^verbatim>\<open>Instant\<close> is a number of nanoseconds, and subtracting a later instant gives zero.
\<close>

type_synonym instant = nat

definition RETRY_TIME :: nat where
  "RETRY_TIME = 1000000000"

definition SLOW_RETRY_TIME :: nat where
  "SLOW_RETRY_TIME = 10000000000"

datatype policy = DefaultPolicy | SlowerPolicy

record failure =
  subsequent :: u32
  last_failed :: instant

record 'k failures =
  fail_items :: "'k \<rightharpoonup> failure"
  fail_policy :: policy

section \<open>Policies\<close>

definition default_can_try :: "instant \<Rightarrow> failure \<Rightarrow> bool" where
  "default_can_try now entry \<longleftrightarrow>
     (let since = now - last_failed entry in since > RETRY_TIME * unat (subsequent entry))"

definition slower_can_try :: "instant \<Rightarrow> failure \<Rightarrow> bool" where
  "slower_can_try now entry \<longleftrightarrow>
     (let since = now - last_failed entry in since > SLOW_RETRY_TIME * unat (subsequent entry))"

fun policy_can_try :: "policy \<Rightarrow> instant \<Rightarrow> failure \<Rightarrow> bool" where
  "policy_can_try DefaultPolicy now entry = default_can_try now entry"
| "policy_can_try SlowerPolicy now entry = slower_can_try now entry"

section \<open>The tracker\<close>

definition failures_new_default :: "'k failures" where
  "failures_new_default = \<lparr>fail_items = Map.empty, fail_policy = DefaultPolicy\<rparr>"

definition failures_new_slow :: "'k failures" where
  "failures_new_slow = \<lparr>fail_items = Map.empty, fail_policy = SlowerPolicy\<rparr>"

definition saturating_succ :: "u32 \<Rightarrow> u32" where
  "saturating_succ n = (if n = - 1 then n else n + 1)"

definition add_failure :: "instant \<Rightarrow> 'k \<Rightarrow> 'k failures \<Rightarrow> 'k failures" where
  "add_failure now name f =
     f\<lparr>fail_items := map_entry_update name \<lparr>subsequent = 0, last_failed = now\<rparr>
         (\<lambda>entry. entry\<lparr>subsequent := saturating_succ (subsequent entry), last_failed := now\<rparr>)
         (fail_items f)\<rparr>"

definition failures_reset :: "'k \<Rightarrow> 'k failures \<Rightarrow> 'k failures" where
  "failures_reset name f = f\<lparr>fail_items := (fail_items f)(name := None)\<rparr>"

definition can_try :: "instant \<Rightarrow> 'k failures \<Rightarrow> 'k \<Rightarrow> bool" where
  "can_try now f name =
     (case fail_items f name of
        None \<Rightarrow> True
      | Some entry \<Rightarrow> policy_can_try (fail_policy f) now entry)"

section \<open>The contract of a policy\<close>

text \<open>
  The trait \<^verbatim>\<open>Policy\<close>: an entry blocks its host for a delay that is proportional to the
  number of subsequent failures, counted from the last one.
\<close>

locale retry_policy =
  fixes may_try :: "instant \<Rightarrow> failure \<Rightarrow> bool"
    and delay :: nat
  assumes may_try_iff:
    "may_try now entry \<longleftrightarrow> now > last_failed entry + delay * unat (subsequent entry)"
begin

lemma blocked_after_failure: "\<not> may_try (last_failed entry) entry"
  by (simp add: may_try_iff)

lemma may_try_mono: "may_try now entry \<Longrightarrow> now \<le> later \<Longrightarrow> may_try later entry"
  by (auto simp: may_try_iff)

lemma more_failures_block_longer:
  "subsequent entry \<le> subsequent entry' \<Longrightarrow> last_failed entry \<le> last_failed entry' \<Longrightarrow>
     may_try now entry' \<Longrightarrow> may_try now entry"
proof -
  assume "subsequent entry \<le> subsequent entry'" and l: "last_failed entry \<le> last_failed entry'"
    and t: "may_try now entry'"
  then have "delay * unat (subsequent entry) \<le> delay * unat (subsequent entry')"
    by (simp add: word_le_nat_alt)
  with l t show ?thesis unfolding may_try_iff by linarith
qed

lemma eventually_may_try: "may_try (Suc (last_failed entry + delay * unat (subsequent entry))) entry"
  by (simp add: may_try_iff)

end

interpretation default_policy: retry_policy default_can_try RETRY_TIME
  by unfold_locales (auto simp: default_can_try_def Let_def less_diff_conv)

interpretation slower_policy: retry_policy slower_can_try SLOW_RETRY_TIME
  by unfold_locales (auto simp: slower_can_try_def Let_def less_diff_conv)

fun policy_delay :: "policy \<Rightarrow> nat" where
  "policy_delay DefaultPolicy = RETRY_TIME"
| "policy_delay SlowerPolicy = SLOW_RETRY_TIME"

interpretation any_policy: retry_policy "policy_can_try p" "policy_delay p"
  by unfold_locales
    (cases p; simp add: default_policy.may_try_iff slower_policy.may_try_iff)

section \<open>Facts\<close>

lemma unat_max_u32: "unat (- 1 :: u32) = 2 ^ 32 - 1"
  by (simp add: unsigned_minus_1_eq_mask mask_eq_exp_minus_1)

lemma unat_saturating_succ: "unat (saturating_succ n) = min (Suc (unat n)) (2 ^ 32 - 1)"
proof (cases "n = - 1")
  case True
  then show ?thesis by (simp add: saturating_succ_def unat_max_u32)
next
  case False
  have "unat n < 2 ^ 32" using unsigned_less [of n] by simp
  moreover have "unat n \<noteq> 2 ^ 32 - 1"
  proof
    assume "unat n = 2 ^ 32 - 1"
    then have "unat n = unat (- 1 :: u32)" by (simp add: unat_max_u32)
    with False show False using word_unat_eq_iff by blast
  qed
  ultimately have "Suc (unat n) < 2 ^ 32" by simp
  then have "unat (n + 1) = Suc (unat n)"
    by (simp add: unat_word_ariths)
  then show ?thesis using False \<open>Suc (unat n) < 2 ^ 32\<close> by (simp add: saturating_succ_def)
qed

lemma add_failure_other: "k \<noteq> name \<Longrightarrow> can_try now (add_failure t name f) k = can_try now f k"
  by (simp add: can_try_def add_failure_def split: option.split)

lemma can_try_reset [simp]: "can_try now (failures_reset name f) name"
  by (simp add: can_try_def failures_reset_def)

lemma failures_reset_other:
  "k \<noteq> name \<Longrightarrow> can_try now (failures_reset name f) k = can_try now f k"
  by (simp add: can_try_def failures_reset_def split: option.split)

lemma can_try_new [simp]:
  "can_try now failures_new_default k" "can_try now failures_new_slow k"
  by (simp_all add: can_try_def failures_new_default_def failures_new_slow_def)

definition fail_count :: "'k failures \<Rightarrow> 'k \<Rightarrow> nat" where
  "fail_count f k = (case fail_items f k of None \<Rightarrow> 0 | Some e \<Rightarrow> unat (subsequent e))"

lemma fail_count_add:
  "fail_count (add_failure t k f) k = min (Suc (fail_count f k)) (2 ^ 32 - 1)"
  by (cases "fail_items f k")
    (simp_all add: fail_count_def add_failure_def unat_saturating_succ)

lemma can_try_add_failure:
  "can_try now (add_failure t k f) k \<longleftrightarrow>
     now > t + policy_delay (fail_policy f) * fail_count (add_failure t k f) k"
  by (simp add: can_try_def fail_count_def add_failure_def any_policy.may_try_iff)

lemma fold_add_failure_policy [simp]:
  "fail_policy (fold (\<lambda>t. add_failure t k) ts f) = fail_policy f"
  by (induction ts arbitrary: f) (simp_all add: add_failure_def)

lemma fold_add_failure_count:
  "fail_count f k < 2 ^ 32 \<Longrightarrow>
     fail_count (fold (\<lambda>t. add_failure t k) ts f) k = min (fail_count f k + length ts) (2 ^ 32 - 1)"
proof (induction ts arbitrary: f)
  case Nil
  then show ?case by simp
next
  case (Cons t ts)
  have "fail_count (add_failure t k f) k < 2 ^ 32" by (simp add: fail_count_add)
  then have "fail_count (fold (\<lambda>t. add_failure t k) ts (add_failure t k f)) k =
      min (fail_count (add_failure t k f) k + length ts) (2 ^ 32 - 1)"
    by (rule Cons.IH)
  then show ?case by (simp add: fail_count_add)
qed

section \<open>Properties\<close>

text \<open>
  Linear back-off: after \<open>n + 1\<close> failures of a host in a row, the last one at time \<open>t\<close>,
  the host may be tried again exactly when more than \<open>n + 1\<close> delays of the policy have
  passed since \<open>t\<close> (the count saturates at \<^verbatim>\<open>u32::MAX\<close>); other hosts are not affected,
  and a reset unblocks the host at once.
\<close>

theorem failure_backoff:
  assumes "fail_items f host = None" and "other \<noteq> host"
    and g_def: "g = add_failure t host (fold (\<lambda>t. add_failure t host) ts f)"
  shows "(can_try now g host \<longleftrightarrow>
            now > t + policy_delay (fail_policy f) * min (Suc (length ts)) (2 ^ 32 - 1)) \<and>
    can_try now g other = can_try now f other \<and>
    can_try now (failures_reset host g) host"
proof (intro conjI)
  have zero: "fail_count f host = 0" using assms(1) by (simp add: fail_count_def)
  then have "fail_count (fold (\<lambda>t. add_failure t host) ts f) host = min (length ts) (2 ^ 32 - 1)"
    using fold_add_failure_count [of f host ts] by simp
  then show "can_try now g host \<longleftrightarrow>
      now > t + policy_delay (fail_policy f) * min (Suc (length ts)) (2 ^ 32 - 1)"
    unfolding g_def can_try_add_failure by (simp add: fail_count_add min_def)
  have "can_try now (fold (\<lambda>t. add_failure t host) ts f) other = can_try now f other"
    using assms(2) by (induction ts arbitrary: f) (simp_all add: add_failure_other)
  with assms(2) show "can_try now g other = can_try now f other"
    by (simp add: g_def add_failure_other)
qed simp

theorem failure_backoff_witness:
  "\<not> can_try 2500000000 (add_failure 1000000000 (1::nat)
        (fold (\<lambda>t. add_failure t 1) [0] failures_new_default)) 1 \<and>
   can_try 3000000001 (add_failure 1000000000 (1::nat)
        (fold (\<lambda>t. add_failure t 1) [0] failures_new_default)) 1"
  using failure_backoff [OF _ _ refl, where f = failures_new_default and host = "1::nat" and other = 2
      and t = 1000000000 and ts = "[0]" and now = 2500000000]
    failure_backoff [OF _ _ refl, where f = failures_new_default and host = "1::nat" and other = 2
      and t = 1000000000 and ts = "[0]" and now = 3000000001]
  by (simp add: failures_new_default_def RETRY_TIME_def)

end
