(* ===== verification/Signatures.thy ===== *)
theory Signatures
  imports Identifiers Virtual_Path Time_Util "HOL-Library.List_Lexorder"
begin

text \<open>
  Signatures of uploads: the signature value with its order and wire form and the
  functions \<^verbatim>\<open>sign\<close> and \<^verbatim>\<open>verify\<close> (\<^verbatim>\<open>src/proto/signature.rs\<close>), the state of an image on
  disk (\<^verbatim>\<open>src/database/signatures.rs\<close>), the upload requests with the data they sign
  (\<^verbatim>\<open>src/proto/dir_commands.rs\<close>, \<^verbatim>\<open>src/signature.rs\<close>). Ed25519 and the CBOR encoding of the
  signed data are parameters.
\<close>

section \<open>Signatures and their order\<close>

datatype signature = SshEd25519 bytes

fun sig_bytes :: "signature \<Rightarrow> bytes" where
  "sig_bytes (SshEd25519 b) = b"

instantiation signature :: linorder
begin

definition less_eq_signature :: "signature \<Rightarrow> signature \<Rightarrow> bool" where
  "x \<le> y \<longleftrightarrow> sig_bytes x \<le> sig_bytes y"

definition less_signature :: "signature \<Rightarrow> signature \<Rightarrow> bool" where
  "x < y \<longleftrightarrow> sig_bytes x < sig_bytes y"

instance
proof
  fix x y :: signature
  assume "x \<le> y" "y \<le> x"
  then show "x = y" by (cases x; cases y) (auto simp: less_eq_signature_def)
qed (auto simp: less_eq_signature_def less_signature_def)

end

datatype signature_entry = SignatureEntry (timestamp: system_time) (signature: signature)

text \<open>The derived order: by timestamp, then by signature.\<close>

instantiation signature_entry :: linorder
begin

definition less_eq_signature_entry :: "signature_entry \<Rightarrow> signature_entry \<Rightarrow> bool" where
  "x \<le> y \<longleftrightarrow> timestamp x < timestamp y \<or> timestamp x = timestamp y \<and> signature x \<le> signature y"

definition less_signature_entry :: "signature_entry \<Rightarrow> signature_entry \<Rightarrow> bool" where
  "x < y \<longleftrightarrow> timestamp x < timestamp y \<or> timestamp x = timestamp y \<and> signature x < signature y"

instance
proof
  fix x y :: signature_entry
  assume "x \<le> y" "y \<le> x"
  then show "x = y" by (cases x; cases y) (auto simp: less_eq_signature_entry_def)
qed (auto simp: less_eq_signature_entry_def less_signature_entry_def)

end

record state =
  st_image :: image_id
  st_signatures :: "signature_entry list"

section \<open>Wire forms\<close>

text \<open>\<^verbatim>\<open>base64\<close> is a parameter; a binary signature is a sequence of a type name and 64 bytes.\<close>

datatype sig_wire = SigText string | SigSeq "wire list"

definition signature_serialize :: "(bytes \<Rightarrow> string) \<Rightarrow> bool \<Rightarrow> signature \<Rightarrow> sig_wire" where
  "signature_serialize base64 human_readable s =
     (if human_readable then SigText (''ssh-ed25519 '' @ base64 (sig_bytes s))
      else SigSeq [WStr ''ssh-ed25519'', WBytes (sig_bytes s)])"

datatype sig_error = UnknownField | SigLength nat | SigCustom | SigType

fun visit_signature_type :: "wire \<Rightarrow> (unit, sig_error) result" where
  "visit_signature_type (WStr value) =
     (if value = ''ssh-ed25519'' then Ok () else Err UnknownField)"
| "visit_signature_type _ = Err SigType"

fun visit_ed25519 :: "wire \<Rightarrow> (bytes, sig_error) result" where
  "visit_ed25519 (WBytes value) = (if length value \<noteq> 64 then Err (SigLength 1) else Ok value)"
| "visit_ed25519 _ = Err SigType"

fun signature_visit_seq :: "wire list \<Rightarrow> (signature, sig_error) result" where
  "signature_visit_seq [] = Err SigCustom"
| "signature_visit_seq [t] =
     bind_result (visit_signature_type t) (\<lambda>_. Err (SigLength 1))"
| "signature_visit_seq (t # v # _) =
     bind_result (visit_signature_type t)
       (\<lambda>_. bind_result (visit_ed25519 v) (\<lambda>b. Ok (SshEd25519 b)))"

fun signature_deserialize :: "sig_wire \<Rightarrow> (signature, sig_error) result" where
  "signature_deserialize (SigSeq ws) = signature_visit_seq ws"
| "signature_deserialize (SigText s) = Err SigType"

definition signature_ok :: "signature \<Rightarrow> bool" where
  "signature_ok s \<longleftrightarrow> length (sig_bytes s) = 64"

text \<open>A signature entry in the binary form: the millisecond count and the signature.\<close>

definition entry_serialize :: "signature_entry \<Rightarrow> (u64 \<times> sig_wire, unit) result" where
  "entry_serialize e =
     bind_result (to_ms (timestamp e)) (\<lambda>ts. Ok (ts, signature_serialize (\<lambda>_. []) False (signature e)))"

definition entry_deserialize :: "u64 \<times> sig_wire \<Rightarrow> (signature_entry, sig_error) result" where
  "entry_deserialize p =
     bind_result (signature_deserialize (snd p)) (\<lambda>sig. Ok (SignatureEntry (from_ms (fst p)) sig))"

section \<open>Signing and verifying\<close>

record sig_data =
  sd_path :: string
  sd_image :: bytes
  sd_timestamp :: u64

datatype private_key = PrivEd25519 bytes | PrivOther
datatype public_key = PubEd25519 bytes | PubOther

text \<open>
  The parameters: the CBOR encoding of the triple that is signed, Ed25519 signing
  (message, private key) and verification (message, public key, signature).
\<close>

record 'm sig_env =
  sig_cbor :: "string \<times> bytes \<times> u64 \<Rightarrow> 'm"
  ed_sign :: "'m \<Rightarrow> bytes \<Rightarrow> bytes"
  ed_verify :: "'m \<Rightarrow> bytes \<Rightarrow> bytes \<Rightarrow> bool"

definition sig_message :: "'m sig_env \<Rightarrow> sig_data \<Rightarrow> 'm" where
  "sig_message env src = sig_cbor env (sd_path src, sd_image src, sd_timestamp src)"

text \<open>A key of another kind ends the process (\<^verbatim>\<open>exit(101)\<close>), modelled as a panic.\<close>

fun sign_with :: "'m sig_env \<Rightarrow> 'm \<Rightarrow> private_key list \<Rightarrow> (signature list, unit) result" where
  "sign_with env buf [] = Ok []"
| "sign_with env buf (PrivEd25519 b # keys) =
     bind_result (sign_with env buf keys) (\<lambda>res. Ok (SshEd25519 (ed_sign env buf b) # res))"
| "sign_with env buf (PrivOther # keys) = Panic"

definition sign :: "'m sig_env \<Rightarrow> sig_data \<Rightarrow> private_key list \<Rightarrow> (signature list, unit) result" where
  "sign env src keys = sign_with env (sig_message env src) keys"

fun verify_key :: "'m sig_env \<Rightarrow> 'm \<Rightarrow> signature \<Rightarrow> public_key \<Rightarrow> bool" where
  "verify_key env buf (SshEd25519 sig) (PubEd25519 key) = ed_verify env buf key sig"
| "verify_key env buf _ PubOther = False"

definition verify :: "'m sig_env \<Rightarrow> sig_data \<Rightarrow> signature \<Rightarrow> public_key list \<Rightarrow> bool" where
  "verify env src sig keys = list_ex (verify_key env (sig_message env src) sig) keys"

section \<open>Upload requests\<close>

text \<open>
  A request carries the path both as the daemon identifies it and in the spelling that was
  sent, since the spelling is what is signed.
\<close>

record append_dir =
  ad_path :: vpath
  ad_spelling :: string
  ad_image :: image_id
  ad_timestamp :: system_time
  ad_signatures :: "signature list"

record replace_dir =
  rd_path :: vpath
  rd_spelling :: string
  rd_image :: image_id
  rd_old_image :: "image_id option"
  rd_timestamp :: system_time
  rd_signatures :: "signature list"

definition append_sig_data :: "append_dir \<Rightarrow> (sig_data, unit) result" where
  "append_sig_data a =
     bind_result (to_ms (ad_timestamp a)) (\<lambda>ts.
       Ok \<lparr>sd_path = ad_spelling a, sd_image = image_as_ref (ad_image a), sd_timestamp = ts\<rparr>)"

definition replace_sig_data :: "replace_dir \<Rightarrow> (sig_data, unit) result" where
  "replace_sig_data r =
     bind_result (to_ms (rd_timestamp r)) (\<lambda>ts.
       Ok \<lparr>sd_path = rd_spelling r, sd_image = image_as_ref (rd_image r), sd_timestamp = ts\<rparr>)"

record signed_upload =
  su_spelling :: string
  su_image :: image_id
  su_timestamp :: system_time
  su_signatures :: "signature list"

definition sign_upload ::
  "'m sig_env \<Rightarrow> string \<Rightarrow> image_id \<Rightarrow> system_time \<Rightarrow> private_key list \<Rightarrow> (signed_upload, unit) result" where
  "sign_upload env p img ts keys =
     bind_result (to_ms ts) (\<lambda>ms.
       bind_result
         (sign env \<lparr>sd_path = p, sd_image = image_as_ref img, sd_timestamp = ms\<rparr> keys)
         (\<lambda>sigs. Ok \<lparr>su_spelling = p, su_image = img, su_timestamp = ts, su_signatures = sigs\<rparr>))"

text \<open>
  The request as the server deserialises it: the timestamp has passed through its
  millisecond form.
\<close>

definition received_append :: "signed_upload \<Rightarrow> vpath \<Rightarrow> (append_dir, unit) result" where
  "received_append up v =
     bind_result (timestamp_serialize (su_timestamp up)) (\<lambda>ms.
       Ok \<lparr>ad_path = v, ad_spelling = su_spelling up, ad_image = su_image up,
            ad_timestamp = timestamp_deserialize ms, ad_signatures = su_signatures up\<rparr>)"

section \<open>Facts\<close>

lemma signature_roundtrip:
  "signature_ok s \<Longrightarrow> signature_deserialize (signature_serialize b False s) = Ok s"
  by (cases s) (simp add: signature_serialize_def signature_ok_def)

lemma signature_visit_seq_ok:
  "signature_visit_seq ws = Ok s \<Longrightarrow> signature_ok s"
proof (induction ws rule: signature_visit_seq.induct)
  case (3 t v ws)
  then show ?case by (cases v) (auto simp: signature_ok_def split: if_splits)
qed auto

lemma signature_deserialize_ok: "signature_deserialize w = Ok s \<Longrightarrow> signature_ok s"
  by (cases w) (auto dest: signature_visit_seq_ok)

lemma sign_with_verify:
  assumes "sign_with env buf keys = Ok sigs" and "PrivEd25519 priv \<in> set keys"
    and "ed_verify env buf pub (ed_sign env buf priv)"
  shows "\<exists>s \<in> set sigs. verify_key env buf s (PubEd25519 pub)"
  using assms
proof (induction keys arbitrary: sigs)
  case (Cons k keys)
  then show ?case by (cases k) auto
qed simp

lemma to_ms_timestamp_wire:
  "timestamp_serialize t = Ok ms \<Longrightarrow> to_ms (timestamp_deserialize ms) = Ok ms"
  by (simp add: timestamp_deserialize_def to_ms_from_ms)

section \<open>Properties\<close>

text \<open>
  C38. A signed upload verifies at the server. If Ed25519 accepts the signatures it makes
  for a key pair, then the request that a client builds with \<^verbatim>\<open>sign_upload\<close> is accepted by
  \<^verbatim>\<open>verify\<close> under the public key after its timestamp has passed through the wire: the
  truncation to milliseconds does not change the signed data.
\<close>

theorem signed_upload_verifies:
  assumes "\<And>m. ed_verify env m pub (ed_sign env m priv)"
    and "PrivEd25519 priv \<in> set keys" and "PubEd25519 pub \<in> set pubs"
    and "sign_upload env p img ts keys = Ok up"
    and "received_append up v = Ok req"
  shows "\<exists>d. append_sig_data req = Ok d \<and> (\<exists>s \<in> set (ad_signatures req). verify env d s pubs)"
proof -
  obtain ms sigs where ms: "to_ms ts = Ok ms"
    and sigs: "sign env \<lparr>sd_path = p, sd_image = image_as_ref img, sd_timestamp = ms\<rparr> keys = Ok sigs"
    and up: "up = \<lparr>su_spelling = p, su_image = img, su_timestamp = ts, su_signatures = sigs\<rparr>"
    using assms(4) by (auto simp: sign_upload_def)
  let ?d = "\<lparr>sd_path = p, sd_image = image_as_ref img, sd_timestamp = ms\<rparr>"
  have req: "req = \<lparr>ad_path = v, ad_spelling = p, ad_image = img,
      ad_timestamp = timestamp_deserialize ms, ad_signatures = sigs\<rparr>"
    using assms(5) ms by (auto simp: received_append_def up timestamp_serialize_def)
  have "append_sig_data req = Ok ?d"
    using to_ms_timestamp_wire [of ts ms] ms
    by (simp add: append_sig_data_def req timestamp_serialize_def)
  moreover have "\<exists>s \<in> set sigs. verify_key env (sig_message env ?d) s (PubEd25519 pub)"
    by (rule sign_with_verify [OF sigs [unfolded sign_def] assms(2,1)])
  ultimately show ?thesis
    using assms(3) by (auto simp: req verify_def list_ex_iff)
qed

definition demo_sig_env :: "(string \<times> bytes \<times> u64) sig_env" where
  "demo_sig_env = \<lparr>sig_cbor = id, ed_sign = (\<lambda>m k. k), ed_verify = (\<lambda>m k s. k = s)\<rparr>"

theorem signed_upload_verifies_witness:
  "\<exists>d. append_sig_data \<lparr>ad_path = VPath ''k'' [''x''], ad_spelling = ''/k/x'', ad_image = Other [1],
         ad_timestamp = 5000000, ad_signatures = [SshEd25519 [7]]\<rparr> = Ok d \<and>
     (\<exists>s \<in> {SshEd25519 [7]}. verify demo_sig_env d s [PubEd25519 [7]])"
proof -
  have up: "sign_upload demo_sig_env ''/k/x'' (Other [1]) 5000123 [PrivEd25519 [7]] =
      Ok \<lparr>su_spelling = ''/k/x'', su_image = Other [1], su_timestamp = 5000123,
          su_signatures = [SshEd25519 [7]]\<rparr>"
    by (simp add: sign_upload_def sign_def demo_sig_env_def to_ms_def duration_since_epoch_def
        UNIX_EPOCH_def duration_ms_def as_secs_def subsec_nanos_def)
  have req: "received_append \<lparr>su_spelling = ''/k/x'', su_image = Other [1], su_timestamp = 5000123,
          su_signatures = [SshEd25519 [7]]\<rparr> (VPath ''k'' [''x'']) =
      Ok \<lparr>ad_path = VPath ''k'' [''x''], ad_spelling = ''/k/x'', ad_image = Other [1],
          ad_timestamp = 5000000, ad_signatures = [SshEd25519 [7]]\<rparr>"
    by (simp add: received_append_def timestamp_serialize_def timestamp_deserialize_def to_ms_def
        duration_since_epoch_def UNIX_EPOCH_def duration_ms_def as_secs_def subsec_nanos_def
        from_ms_def duration_new_def)
  show ?thesis
    using signed_upload_verifies [OF _ _ _ up req, of "[7]" "[7]" "[PubEd25519 [7]]"]
    by (simp add: demo_sig_env_def)
qed

end
