(* ===== verification/Config.thy ===== *)
theory Config
  imports Virtual_Path Identifiers Time_Util
begin

text \<open>
  The daemon's configuration (\<^verbatim>\<open>src/daemon/config.rs\<close>) and the part of a directory's
  configuration that peers compare (\<^verbatim>\<open>src/daemon/peers/config.rs\<close>). Reading and validating
  the YAML files is done by the \<^verbatim>\<open>quire\<close> crate and is not modelled.
\<close>

record directory =
  directory_path :: string
  append_only :: bool
  num_levels :: nat
  upload_keys :: "string list"
  download_keys :: "string list"
  auto_clean :: bool
  keep_list_file :: "string option"
  keep_min_directories :: nat
  keep_max_directories :: nat
  keep_recent :: duration

record config =
  cf_machine_id :: machine_id
  cf_hostname :: string
  cf_port :: u16
  cf_aggressive_index_gc :: bool
  cf_dirs :: "string \<rightharpoonup> directory"

definition is_valid_destination :: "config \<Rightarrow> vpath \<Rightarrow> bool" where
  "is_valid_destination cfg v =
     (case cf_dirs cfg (vp_key v) of
        Some d \<Rightarrow> num_levels d = vp_level v
      | None \<Rightarrow> False)"

text \<open>The bounds that \<^verbatim>\<open>directory_validator\<close> puts on a directory.\<close>

definition directory_valid :: "directory \<Rightarrow> bool" where
  "directory_valid d \<longleftrightarrow>
     1 \<le> num_levels d \<and> num_levels d \<le> 16 \<and>
     1 \<le> keep_min_directories d \<and> 1 \<le> keep_max_directories d"

section \<open>What peers compare\<close>

record remote_config =
  rc_num_levels :: nat
  rc_auto_clean :: bool
  rc_keep_min_directories :: nat
  rc_keep_max_directories :: nat
  rc_keep_recent_ms :: u64

text \<open>The hash of a serialised object is a parameter; a duration is serialised in milliseconds.\<close>

definition remote_config_of :: "directory \<Rightarrow> (remote_config, unit) result" where
  "remote_config_of d =
     bind_result (duration_serialize (keep_recent d)) (\<lambda>ms.
       Ok \<lparr>rc_num_levels = num_levels d, rc_auto_clean = auto_clean d,
           rc_keep_min_directories = keep_min_directories d,
           rc_keep_max_directories = keep_max_directories d, rc_keep_recent_ms = ms\<rparr>)"

definition get_hash :: "(remote_config \<Rightarrow> hash) \<Rightarrow> directory \<Rightarrow> (hash, unit) result" where
  "get_hash for_object d = bind_result (remote_config_of d) (\<lambda>rc. Ok (for_object rc))"

lemma is_valid_destination_level:
  "is_valid_destination cfg v \<Longrightarrow> cf_dirs cfg (vp_key v) = Some d \<Longrightarrow> directory_valid d \<Longrightarrow>
     \<exists>q. vp_parent v = Some q"
  using vp.par_None_iff [of v]
  by (cases "vp_parent v") (auto simp: is_valid_destination_def directory_valid_def)

end
