(* ===== verification/Cleanup.thy ===== *)
theory Cleanup
  imports Config Signatures "HOL-Library.Multiset"
begin

text \<open>
  Which images of a directory stay and which are cleaned up
  (\<^verbatim>\<open>src/daemon/cleanup/calc.rs\<close>). The current time is an argument. A stable
  \<^verbatim>\<open>sort_by\<close> is the library's stable \<^const>\<open>sort_key\<close>.
\<close>

record 'a sorted_out =
  so_used :: "'a list"
  so_unused :: "'a list"

text \<open>The name is the source's; it takes the \<^emph>\<open>smallest\<close> timestamp of the signatures.\<close>

definition biggest_timestamp :: "state \<Rightarrow> system_time" where
  "biggest_timestamp st =
     (case map timestamp (st_signatures st) of
        [] \<Rightarrow> UNIX_EPOCH
      | t # ts \<Rightarrow> fold min ts t)"

definition keeps_recent :: "directory \<Rightarrow> system_time \<Rightarrow> 't \<times> state \<Rightarrow> bool" where
  "keeps_recent cfg now p \<longleftrightarrow> biggest_timestamp (snd p) \<ge> now - int (keep_recent cfg)"

definition cap_recent ::
  "nat \<Rightarrow> ('t \<times> state) list \<times> ('t \<times> state) list \<Rightarrow> ('t \<times> state) list \<times> ('t \<times> state) list" where
  "cap_recent mx uc =
     (case uc of (used, candidates) \<Rightarrow>
        if length used > mx
        then (let u = sort_key (\<lambda>p. - biggest_timestamp (snd p)) used
              in (take mx u, candidates @ drop mx u))
        else (used, candidates))"

definition apply_keep_list ::
  "'t set \<Rightarrow> ('t \<times> state) list \<times> ('t \<times> state) list \<Rightarrow> ('t \<times> state) list \<times> ('t \<times> state) list" where
  "apply_keep_list kl uc =
     (case uc of (used, candidates) \<Rightarrow>
        (used @ filter (\<lambda>p. fst p \<in> kl) candidates, filter (\<lambda>p. fst p \<notin> kl) candidates))"

definition refill_minimum ::
  "nat \<Rightarrow> ('t \<times> state) list \<times> ('t \<times> state) list \<Rightarrow> ('t \<times> state) list \<times> ('t \<times> state) list" where
  "refill_minimum mn uu =
     (case uu of (used, unused) \<Rightarrow>
        if length used < mn
        then (let u = sort_key (\<lambda>p. biggest_timestamp (snd p)) unused;
                  needs = mn - length used;
                  cut = length u - min (length u) needs
              in (used @ drop cut u, take cut u))
        else (used, unused))"

definition sort_out ::
  "directory \<Rightarrow> system_time \<Rightarrow> ('t \<times> state) list \<Rightarrow> 't list \<Rightarrow> ('t \<times> state) sorted_out" where
  "sort_out cfg now its keep_list =
     (if length its \<le> keep_min_directories cfg
      then \<lparr>so_used = its, so_unused = []\<rparr>
      else (case refill_minimum (keep_min_directories cfg)
                   (apply_keep_list (set keep_list)
                     (cap_recent (keep_max_directories cfg)
                       (filter (keeps_recent cfg now) its,
                        filter (\<lambda>p. \<not> keeps_recent cfg now p) its))) of
              (used, unused) \<Rightarrow> \<lparr>so_used = used, so_unused = unused\<rparr>))"

section \<open>The steps keep every image once\<close>

definition pair_mset :: "'a list \<times> 'a list \<Rightarrow> 'a multiset" where
  "pair_mset p = mset (fst p) + mset (snd p)"

lemma mset_take_drop: "mset (take n xs) + mset (drop n xs) = mset xs"
  by (metis append_take_drop_id mset_append)

lemma pair_mset_cap: "pair_mset (cap_recent mx uc) = pair_mset uc"
proof (cases uc)
  case (Pair used cands)
  have "mset (take n u) + (c + mset (drop n u)) = mset u + c"
    for n and u :: "('a \<times> state) list" and c
    by (metis mset_take_drop add.commute add.left_commute)
  then show ?thesis by (simp add: Pair cap_recent_def pair_mset_def Let_def)
qed

lemma pair_mset_keep: "pair_mset (apply_keep_list kl uc) = pair_mset uc"
  by (cases uc) (simp add: apply_keep_list_def pair_mset_def)

lemma pair_mset_refill: "pair_mset (refill_minimum mn uu) = pair_mset uu"
proof (cases uu)
  case (Pair used unused)
  have "mset (drop n u) + mset (take n u) = mset u" for n and u :: "('a \<times> state) list"
    by (metis mset_take_drop add.commute)
  then show ?thesis
    by (auto simp: Pair refill_minimum_def pair_mset_def Let_def add.assoc)
qed

section \<open>What each step guarantees\<close>

lemma fold_min_le: "fold min ts t \<le> (t :: int)"
proof (induction ts arbitrary: t)
  case (Cons a ts)
  have "fold min ts (min a t) \<le> min a t" by (rule Cons.IH)
  then show ?case by simp
qed simp

lemma fold_min_le_mem: "x \<in> set ts \<Longrightarrow> fold min ts t \<le> (x :: int)"
proof (induction ts arbitrary: t)
  case (Cons a ts)
  show ?case
  proof (cases "x = a")
    case True
    have "fold min ts (min a t) \<le> min a t" by (rule fold_min_le)
    then show ?thesis using True by simp
  next
    case False
    then show ?thesis using Cons by simp
  qed
qed simp

lemma biggest_timestamp_le:
  "e \<in> set (st_signatures st) \<Longrightarrow> biggest_timestamp st \<le> timestamp e"
  by (cases "st_signatures st")
    (auto simp: biggest_timestamp_def intro: fold_min_le fold_min_le_mem)

lemma cap_recent_used_subset: "set (fst (cap_recent mx uc)) \<subseteq> set (fst uc)"
  by (cases uc) (auto simp: cap_recent_def Let_def dest: in_set_takeD)

lemma cap_recent_used_mset: "mset (fst (cap_recent mx (used, cands))) \<subseteq># mset used"
proof -
  have "mset (take mx u) \<subseteq># mset u" for u :: "('a \<times> state) list"
    by (metis mset_subset_eq_add_left mset_take_drop)
  from this [of "sort_key (\<lambda>p. - biggest_timestamp (snd p)) used"]
  show ?thesis by (simp add: cap_recent_def Let_def)
qed

lemma cap_recent_length: "length (fst (cap_recent mx uc)) = min mx (length (fst uc))"
  by (cases uc) (auto simp: cap_recent_def Let_def)

lemma cap_recent_new_candidate:
  assumes "p \<in> set (snd (cap_recent mx (used, cands)))" and "p \<notin> set cands"
  shows "length (fst (cap_recent mx (used, cands))) = mx \<and>
    (\<forall>q \<in> set (fst (cap_recent mx (used, cands))).
       biggest_timestamp (snd q) \<ge> biggest_timestamp (snd p))"
proof -
  let ?f = "\<lambda>p :: 'a \<times> state. - biggest_timestamp (snd p)"
  let ?u = "sort_key ?f used"
  have big: "mx < length used" and p: "p \<in> set (drop mx ?u)"
    using assms by (auto simp: cap_recent_def Let_def split: if_splits)
  obtain i where i: "i < length (drop mx ?u)" "p = drop mx ?u ! i"
    using p by (metis in_set_conv_nth)
  have "?f q \<le> ?f p" if q: "q \<in> set (take mx ?u)" for q
  proof -
    obtain j where j: "j < mx" "j < length ?u" "q = ?u ! j"
      using q unfolding in_set_conv_nth by fastforce
    have "map ?f ?u ! j \<le> map ?f ?u ! (mx + i)"
      using i j by (intro sorted_nth_mono sorted_sort_key) auto
    with i j show ?thesis by simp
  qed
  with big show ?thesis by (auto simp: cap_recent_def Let_def)
qed

lemma keep_list_kept:
  "p \<in> set (snd (apply_keep_list kl uc)) \<Longrightarrow> fst p \<notin> kl"
  by (cases uc) (auto simp: apply_keep_list_def)

lemma refill_unused_subset: "set (snd (refill_minimum mn uu)) \<subseteq> set (snd uu)"
  by (cases uu) (auto simp: refill_minimum_def Let_def dest: in_set_takeD)

lemma refill_used_subset: "set (fst uu) \<subseteq> set (fst (refill_minimum mn uu))"
  by (cases uu) (auto simp: refill_minimum_def Let_def)

lemma refill_length:
  "length (fst (refill_minimum mn uu)) \<ge> min mn (length (fst uu) + length (snd uu))"
  by (cases uu) (auto simp: refill_minimum_def Let_def)

lemma sort_out_parts:
  "so_used (sort_out cfg now its kl) = fst (refill_minimum (keep_min_directories cfg)
      (apply_keep_list (set kl) (cap_recent (keep_max_directories cfg)
        (filter (keeps_recent cfg now) its, filter (\<lambda>p. \<not> keeps_recent cfg now p) its)))) \<and>
   so_unused (sort_out cfg now its kl) = snd (refill_minimum (keep_min_directories cfg)
      (apply_keep_list (set kl) (cap_recent (keep_max_directories cfg)
        (filter (keeps_recent cfg now) its, filter (\<lambda>p. \<not> keeps_recent cfg now p) its))))"
  if "length its > keep_min_directories cfg"
  using that by (auto simp: sort_out_def split: prod.splits)

lemma sort_out_mset:
  "mset (so_used (sort_out cfg now its kl)) + mset (so_unused (sort_out cfg now its kl)) = mset its"
proof (cases "length its \<le> keep_min_directories cfg")
  case True
  then show ?thesis by (simp add: sort_out_def)
next
  case False
  have "pair_mset (filter P its, filter (\<lambda>p. \<not> P p) its) = mset its" for P
    by (simp add: pair_mset_def)
  then show ?thesis
    using sort_out_parts [of cfg its now kl] False
      pair_mset_refill pair_mset_keep pair_mset_cap
    unfolding pair_mset_def by (metis not_le)
qed

lemma sort_out_guarantee:
  "mset (so_used (sort_out cfg now its kl)) + mset (so_unused (sort_out cfg now its kl)) = mset its \<and>
   fst ` set (so_unused (sort_out cfg now its kl)) \<inter> set kl = {} \<and>
   length (so_used (sort_out cfg now its kl)) \<ge> min (keep_min_directories cfg) (length its)"
proof (cases "length its \<le> keep_min_directories cfg")
  case True
  then show ?thesis by (simp add: sort_out_def)
next
  case False
  let ?c = "cap_recent (keep_max_directories cfg)
      (filter (keeps_recent cfg now) its, filter (\<lambda>p. \<not> keeps_recent cfg now p) its)"
  let ?k = "apply_keep_list (set kl) ?c"
  let ?r = "refill_minimum (keep_min_directories cfg) ?k"
  have parts: "so_used (sort_out cfg now its kl) = fst ?r" "so_unused (sort_out cfg now its kl) = snd ?r"
    using sort_out_parts [of cfg its now kl] False by auto
  have "size (pair_mset ?k) = size (mset its)"
    by (simp add: pair_mset_keep pair_mset_cap) (simp add: pair_mset_def)
  then have "length (fst ?k) + length (snd ?k) = length its" by (simp add: pair_mset_def)
  then have "length (fst ?r) \<ge> min (keep_min_directories cfg) (length its)"
    using refill_length [of "keep_min_directories cfg" ?k] by simp
  moreover have "\<forall>p \<in> set (snd ?r). fst p \<notin> set kl"
    using refill_unused_subset keep_list_kept by (metis subsetD)
  ultimately have "length (so_used (sort_out cfg now its kl)) \<ge> min (keep_min_directories cfg) (length its)"
    "fst ` set (so_unused (sort_out cfg now its kl)) \<inter> set kl = {}"
    unfolding parts by blast+
  then show ?thesis using sort_out_mset by blast
qed

section \<open>Properties\<close>

text \<open>
  The cleanup decision loses and invents nothing, and keeps what it promises: every
  image of the directory is either used or unused, exactly once; no image of the keep
  list is unused; and at least \<^verbatim>\<open>keep_min_directories\<close> images stay (or all of them).
\<close>

theorem sort_out_partition:
  "mset (so_used (sort_out cfg now its kl)) + mset (so_unused (sort_out cfg now its kl)) = mset its \<and>
   fst ` set (so_unused (sort_out cfg now its kl)) \<inter> set kl = {} \<and>
   length (so_used (sort_out cfg now its kl)) \<ge> min (keep_min_directories cfg) (length its)"
  by (rule sort_out_guarantee)

text \<open>
  What cleanup removes is old or in excess. An image that \<^verbatim>\<open>sort_out\<close> gives up is either
  signed (by its earliest signature) before the \<^verbatim>\<open>keep_recent\<close> window, or
  \<^verbatim>\<open>keep_max_directories\<close> images that are at least as new are kept.
\<close>

theorem sort_out_removes_old_or_excess:
  assumes "p \<in> set (so_unused (sort_out cfg now its kl))"
  shows "biggest_timestamp (snd p) < now - int (keep_recent cfg) \<or>
    (\<exists>newer. length newer = keep_max_directories cfg \<and>
       mset newer \<subseteq># mset (filter (keeps_recent cfg now) its) \<and>
       set newer \<subseteq> set (so_used (sort_out cfg now its kl)) \<and>
       (\<forall>q \<in> set newer. biggest_timestamp (snd q) \<ge> biggest_timestamp (snd p)))"
proof (cases "keeps_recent cfg now p")
  case False
  then show ?thesis by (simp add: keeps_recent_def)
next
  case True
  have big: "\<not> length its \<le> keep_min_directories cfg"
    using assms by (auto simp: sort_out_def)
  let ?old = "filter (\<lambda>p. \<not> keeps_recent cfg now p) its"
  let ?c = "cap_recent (keep_max_directories cfg) (filter (keeps_recent cfg now) its, ?old)"
  let ?k = "apply_keep_list (set kl) ?c"
  let ?r = "refill_minimum (keep_min_directories cfg) ?k"
  have parts: "so_used (sort_out cfg now its kl) = fst ?r" "so_unused (sort_out cfg now its kl) = snd ?r"
    using sort_out_parts [of cfg its now kl] big by auto
  have "p \<in> set (snd ?k)"
    using assms unfolding parts by (rule subsetD [OF refill_unused_subset])
  then have pc: "p \<in> set (snd ?c)"
    by (cases ?c) (auto simp: apply_keep_list_def)
  have "p \<notin> set ?old" using True by simp
  note newer = cap_recent_new_candidate [OF pc this]
  have sub: "set (fst ?c) \<subseteq> set (fst ?r)"
  proof -
    have "set (fst ?c) \<subseteq> set (fst ?k)" by (cases ?c) (auto simp: apply_keep_list_def)
    then show ?thesis using refill_used_subset by blast
  qed
  have "mset (fst ?c) \<subseteq># mset (filter (keeps_recent cfg now) its)"
    by (rule cap_recent_used_mset)
  then show ?thesis unfolding parts using newer sub by blast
qed

theorem sort_out_removes_old_or_excess_witness:
  "biggest_timestamp \<lparr>st_image = Other [], st_signatures = []\<rparr> < 100 - int 5 \<or>
    (\<exists>newer. length newer = 2 \<and> (\<forall>q \<in> set newer. biggest_timestamp (snd (q :: nat \<times> state)) \<ge> 0))"
proof -
  let ?cfg = "\<lparr>directory_path = [], append_only = True, num_levels = 1, upload_keys = [], download_keys = [],
        auto_clean = True, keep_list_file = None, keep_min_directories = 1,
        keep_max_directories = 2, keep_recent = 5\<rparr>"
  let ?its = "[(1::nat, \<lparr>st_image = Other [], st_signatures = []\<rparr>),
            (2, \<lparr>st_image = Other [1], st_signatures = []\<rparr>)]"
  have bt: "biggest_timestamp \<lparr>st_image = i, st_signatures = []\<rparr> = 0" for i
    by (simp add: biggest_timestamp_def UNIX_EPOCH_def)
  have "(1, \<lparr>st_image = Other [], st_signatures = []\<rparr>) \<in> set (so_unused (sort_out ?cfg 100 ?its []))"
    by (simp add: sort_out_def keeps_recent_def bt cap_recent_def apply_keep_list_def
        refill_minimum_def)
  from sort_out_removes_old_or_excess [OF this] show ?thesis by (auto simp: bt)
qed

end
