(* ===== verification/Metadata_Dir.thy ===== *)
theory Metadata_Dir
  imports Virtual_Path Ciruela_Prelude
begin

text \<open>
  The directory handle of the metadata store (\<^verbatim>\<open>src/daemon/metadata/dir.rs\<close>) and its errors
  (\<^verbatim>\<open>src/daemon/metadata/error.rs\<close>). The file system is reached through the \<^verbatim>\<open>openat\<close> crate,
  which is a parameter: a record of its calls on a state of the caller's choice. What the code
  relies on is the predicate \<^verbatim>\<open>posix_dirs\<close>. A handle is the list of names from the metadata
  root; the daemon never removes or renames a directory, so a handle stays valid.
\<close>

section \<open>The calls of openat\<close>

type_synonym dpath = "string list"

datatype io_kind = NotFound | AlreadyExists | OtherIo

datatype simple_type = TFile | TDir | TSymlink | TOther

datatype dir_entry = DirEntry "string option" "simple_type option"

text \<open>
  \<^verbatim>\<open>oa_put\<close> is the writing through an open file: it stores the whole contents or fails. A
  call that changes the file system returns its error, if any, and the new state.
\<close>

record ('s, 'b) openat =
  oa_sub_dir :: "'s \<Rightarrow> dpath \<Rightarrow> string \<Rightarrow> io_kind option"
  oa_create_dir :: "'s \<Rightarrow> dpath \<Rightarrow> string \<Rightarrow> io_kind option \<times> 's"
  oa_metadata :: "'s \<Rightarrow> dpath \<Rightarrow> string \<Rightarrow> io_kind + simple_type \<times> u64"
  oa_open_file :: "'s \<Rightarrow> dpath \<Rightarrow> string \<Rightarrow> io_kind + 'b"
  oa_write_file :: "'s \<Rightarrow> dpath \<Rightarrow> string \<Rightarrow> io_kind option \<times> 's"
  oa_put :: "'s \<Rightarrow> dpath \<Rightarrow> string \<Rightarrow> 'b \<Rightarrow> io_kind option \<times> 's"
  oa_remove_file :: "'s \<Rightarrow> dpath \<Rightarrow> string \<Rightarrow> io_kind option \<times> 's"
  oa_local_rename :: "'s \<Rightarrow> dpath \<Rightarrow> string \<Rightarrow> string \<Rightarrow> io_kind option \<times> 's"
  oa_list_dir :: "'s \<Rightarrow> dpath \<Rightarrow> io_kind + (io_kind + dir_entry) list"

section \<open>Errors\<close>

datatype meta_error =
    InvalidPath
  | PathNotFound vpath
  | FileWasVanished dpath
  | CleanupCanceled vpath
  | LevelMismatch nat nat
  | OpenRoot dpath io_kind
  | CreateDirRace dpath io_kind
  | Open dpath io_kind
  | Read dpath io_kind
  | Encode dpath
  | Decode dpath
  | ListDir dpath io_kind
  | Rename dpath dpath io_kind
  | CreateDir dpath io_kind
  | WriteMeta dpath io_kind
  | Remove dpath io_kind
  | SerializeError
  | ReadKey dpath io_kind
  | IndexNotFound
  | IndexError
  | MergeError
  | ResumeConflict vpath
  | ResumeNoFile vpath
  | IndexGcInterrupted

section \<open>Operations\<close>

fun check_component :: "component \<Rightarrow> (string, meta_error) result" where
  "check_component (Normal x) = Ok x"
| "check_component c = Err InvalidPath"

definition sub_dir_or ::
  "('s, 'b) openat \<Rightarrow> dpath \<Rightarrow> string \<Rightarrow> (io_kind \<Rightarrow> meta_error) \<Rightarrow> ('s, dpath, meta_error) io" where
  "sub_dir_or oa d n err = (\<lambda>s. case oa_sub_dir oa s d n of
      None \<Rightarrow> (Ok (d @ [n]), s)
    | Some e \<Rightarrow> (Err (err e), s))"

definition create_component ::
  "('s, 'b) openat \<Rightarrow> dpath \<Rightarrow> string \<Rightarrow> ('s, dpath, meta_error) io" where
  "create_component oa d n = (\<lambda>s. case oa_sub_dir oa s d n of
      None \<Rightarrow> (Ok (d @ [n]), s)
    | Some NotFound \<Rightarrow>
        (case oa_create_dir oa s d n of
           (None, t) \<Rightarrow> sub_dir_or oa d n (CreateDirRace (d @ [n])) t
         | (Some AlreadyExists, t) \<Rightarrow> sub_dir_or oa d n (Open (d @ [n])) t
         | (Some e, t) \<Rightarrow> (Err (CreateDir (d @ [n]) e), t))
    | Some e \<Rightarrow> (Err (Open (d @ [n]) e), s))"

fun ensure_dir :: "('s, 'b) openat \<Rightarrow> dpath \<Rightarrow> path \<Rightarrow> ('s, dpath, meta_error) io" where
  "ensure_dir oa d [] = ret (Ok d)"
| "ensure_dir oa d (c # cs) =
     bind_io (ret (check_component c)) (\<lambda>n.
     bind_io (create_component oa d n) (\<lambda>d'. ensure_dir oa d' cs))"

fun open_names :: "('s, 'b) openat \<Rightarrow> dpath \<Rightarrow> string list \<Rightarrow> ('s, dpath, meta_error) io" where
  "open_names oa d [] = ret (Ok d)"
| "open_names oa d (n # ns) =
     bind_io (sub_dir_or oa d n (Open (d @ [n]))) (\<lambda>d'. open_names oa d' ns)"

definition open_vpath :: "('s, 'b) openat \<Rightarrow> dpath \<Rightarrow> vpath \<Rightarrow> ('s, dpath, meta_error) io" where
  "open_vpath oa d v = open_names oa d (vp_key v # vp_suffix v)"

fun open_path :: "('s, 'b) openat \<Rightarrow> dpath \<Rightarrow> path \<Rightarrow> ('s, dpath, meta_error) io" where
  "open_path oa d [] = ret (Ok d)"
| "open_path oa d (c # cs) =
     bind_io (ret (check_component c)) (\<lambda>n.
     bind_io (sub_dir_or oa d n (Open (d @ [n]))) (\<lambda>d'. open_path oa d' cs))"

definition dir_if_exists ::
  "('s, 'b) openat \<Rightarrow> dpath \<Rightarrow> string \<Rightarrow> ('s, dpath option, meta_error) io" where
  "dir_if_exists oa d n = (\<lambda>s.
     if n = ''.'' \<or> n = ''..'' \<or> CHR ''/'' \<in> set n then (Panic, s)
     else (case oa_sub_dir oa s d n of
             None \<Rightarrow> (Ok (Some (d @ [n])), s)
           | Some NotFound \<Rightarrow> (Ok None, s)
           | Some e \<Rightarrow> (Err (Open (d @ [n]) e), s)))"

definition file_meta ::
  "('s, 'b) openat \<Rightarrow> dpath \<Rightarrow> string \<Rightarrow> ('s, (simple_type \<times> u64) option, meta_error) io" where
  "file_meta oa d n = (\<lambda>s. case oa_metadata oa s d n of
      Inr m \<Rightarrow> (Ok (Some m), s)
    | Inl NotFound \<Rightarrow> (Ok None, s)
    | Inl e \<Rightarrow> (Err (Read (d @ [n]) e), s))"

definition remove_file :: "('s, 'b) openat \<Rightarrow> dpath \<Rightarrow> string \<Rightarrow> ('s, unit, meta_error) io" where
  "remove_file oa d n = (\<lambda>s. case oa_remove_file oa s d n of
      (None, t) \<Rightarrow> (Ok (), t)
    | (Some NotFound, t) \<Rightarrow> (Ok (), t)
    | (Some e, t) \<Rightarrow> (Err (Remove (d @ [n]) e), t))"

definition tmpname :: "string \<Rightarrow> string" where
  "tmpname n = ''.tmp.'' @ n"

definition backup_name :: "string \<Rightarrow> string" where
  "backup_name n = ''.'' @ n @ ''.backup''"

definition replace_file ::
  "('s, 'b) openat \<Rightarrow> dpath \<Rightarrow> string \<Rightarrow> 'b \<Rightarrow> ('s, unit, meta_error) io" where
  "replace_file oa d n b = (\<lambda>s. case oa_write_file oa s d (tmpname n) of
      (Some e, t) \<Rightarrow> (Err (WriteMeta (d @ [n]) e), t)
    | (None, t) \<Rightarrow>
        (case oa_put oa t d (tmpname n) b of
           (Some e, u) \<Rightarrow> (Err (Encode (d @ [n])), u)
         | (None, u) \<Rightarrow>
             (case oa_local_rename oa u d (tmpname n) n of
                (Some e, v) \<Rightarrow> (Err (WriteMeta (d @ [n]) e), v)
              | (None, v) \<Rightarrow> (Ok (), v))))"

definition dir_rename ::
  "('s, 'b) openat \<Rightarrow> dpath \<Rightarrow> string \<Rightarrow> string \<Rightarrow> ('s, unit, meta_error) io" where
  "dir_rename oa d from to = (\<lambda>s. case oa_local_rename oa s d from to of
      (None, t) \<Rightarrow> (Ok (), t)
    | (Some e, t) \<Rightarrow> (Err (Rename (d @ [from]) (d @ [to]) e), t))"

definition rename_broken_file ::
  "('s, 'b) openat \<Rightarrow> dpath \<Rightarrow> string \<Rightarrow> ('s, unit, meta_error) io" where
  "rename_broken_file oa d n = (\<lambda>s. (Ok (), snd (oa_local_rename oa s d n (backup_name n))))"

definition open_file ::
  "('s, 'b) openat \<Rightarrow> dpath \<Rightarrow> string \<Rightarrow> ('s, 'b option, meta_error) io" where
  "open_file oa d n = (\<lambda>s. case oa_open_file oa s d n of
      Inr b \<Rightarrow> (Ok (Some b), s)
    | Inl NotFound \<Rightarrow> (Ok None, s)
    | Inl e \<Rightarrow> (Err (Read (d @ [n]) e), s))"

text \<open>The decoding function returns \<^const>\<open>None\<close> for contents it rejects.\<close>

definition read_file ::
  "('s, 'b) openat \<Rightarrow> ('b \<Rightarrow> 'r option) \<Rightarrow> dpath \<Rightarrow> string \<Rightarrow> ('s, 'r option, meta_error) io" where
  "read_file oa dec d n = (\<lambda>s. case oa_open_file oa s d n of
      Inl NotFound \<Rightarrow> (Ok None, s)
    | Inl e \<Rightarrow> (Err (Read (d @ [n]) e), s)
    | Inr b \<Rightarrow> (case dec b of None \<Rightarrow> (Err (Decode (d @ [n])), s) | Some r \<Rightarrow> (Ok (Some r), s)))"

definition starts_with :: "string \<Rightarrow> string \<Rightarrow> bool" where
  "starts_with s p \<longleftrightarrow> take (length p) s = p"

definition ends_with :: "string \<Rightarrow> string \<Rightarrow> bool" where
  "ends_with s suf \<longleftrightarrow> drop (length s - length suf) s = suf"

text \<open>The loop of \<^verbatim>\<open>list_dirs\<close> and \<^verbatim>\<open>list_files\<close> over the entries, for a wanted type.\<close>

fun list_entries ::
  "('s, 'b) openat \<Rightarrow> 's \<Rightarrow> dpath \<Rightarrow> (string \<Rightarrow> bool) \<Rightarrow> simple_type \<Rightarrow> (io_kind + dir_entry) list \<Rightarrow>
     (string list, meta_error) result" where
  "list_entries oa s d P ty [] = Ok []"
| "list_entries oa s d P ty (Inl e # es) = Err (ListDir d e)"
| "list_entries oa s d P ty (Inr (DirEntry None t) # es) = list_entries oa s d P ty es"
| "list_entries oa s d P ty (Inr (DirEntry (Some n) t) # es) =
     (if \<not> P n then list_entries oa s d P ty es
      else (case t of
         Some t' \<Rightarrow>
           (if t' = ty then bind_result (list_entries oa s d P ty es) (\<lambda>r. Ok (n # r))
            else list_entries oa s d P ty es)
       | None \<Rightarrow>
           (case oa_metadata oa s d n of
              Inl e \<Rightarrow> Err (ListDir d e)
            | Inr (t', _) \<Rightarrow>
                if t' = ty then bind_result (list_entries oa s d P ty es) (\<lambda>r. Ok (n # r))
                else list_entries oa s d P ty es)))"

definition list_dirs :: "('s, 'b) openat \<Rightarrow> dpath \<Rightarrow> ('s, string list, meta_error) io" where
  "list_dirs oa d = (\<lambda>s. case oa_list_dir oa s d of
      Inl e \<Rightarrow> (Err (ListDir d e), s)
    | Inr es \<Rightarrow> (list_entries oa s d (\<lambda>_. True) TDir es, s))"

definition list_files :: "('s, 'b) openat \<Rightarrow> string \<Rightarrow> dpath \<Rightarrow> ('s, string list, meta_error) io" where
  "list_files oa suf d = (\<lambda>s. case oa_list_dir oa s d of
      Inl e \<Rightarrow> (Err (ListDir d e), s)
    | Inr es \<Rightarrow>
        (list_entries oa s d (\<lambda>n. \<not> starts_with n ''.'' \<and> ends_with n suf) TFile es, s))"

section \<open>What the code relies on\<close>

definition under :: "dpath \<Rightarrow> dpath \<Rightarrow> bool" where
  "under p d \<longleftrightarrow> take (length p) d = p"

text \<open>
  The documented behaviour of the calls, seen through \<^const>\<open>oa_open_file\<close>: creating a directory
  changes no file; writing, removing and renaming change the named files and nothing else; a
  failed removal or rename changes nothing; a directory that is not found has no files below it.
  (A rename of something other than a readable file may move a whole directory, so the law for
  that case speaks only of places outside the two names.)
\<close>

definition posix_dirs :: "('s, 'b) openat \<Rightarrow> bool" where
  "posix_dirs oa \<longleftrightarrow>
     (\<forall>s d n. oa_open_file oa (snd (oa_create_dir oa s d n)) = oa_open_file oa s) \<and>
     (\<forall>s d n d' n'. (d', n') \<noteq> (d, n) \<longrightarrow>
        oa_open_file oa (snd (oa_write_file oa s d n)) d' n' = oa_open_file oa s d' n') \<and>
     (\<forall>s d n b d' n'. (d', n') \<noteq> (d, n) \<longrightarrow>
        oa_open_file oa (snd (oa_put oa s d n b)) d' n' = oa_open_file oa s d' n') \<and>
     (\<forall>s d n b. fst (oa_put oa s d n b) = None \<longrightarrow>
        oa_open_file oa (snd (oa_put oa s d n b)) d n = Inr b) \<and>
     (\<forall>s d n d' n'. (d', n') \<noteq> (d, n) \<longrightarrow>
        oa_open_file oa (snd (oa_remove_file oa s d n)) d' n' = oa_open_file oa s d' n') \<and>
     (\<forall>s d n. fst (oa_remove_file oa s d n) = None \<longrightarrow>
        oa_open_file oa (snd (oa_remove_file oa s d n)) d n = Inl NotFound) \<and>
     (\<forall>s d n. fst (oa_remove_file oa s d n) \<noteq> None \<longrightarrow>
        oa_open_file oa (snd (oa_remove_file oa s d n)) = oa_open_file oa s) \<and>
     (\<forall>s d from to b. from \<noteq> to \<longrightarrow> oa_open_file oa s d from = Inr b \<longrightarrow>
        fst (oa_local_rename oa s d from to) = None \<longrightarrow>
        oa_open_file oa (snd (oa_local_rename oa s d from to)) d to = Inr b \<and>
        oa_open_file oa (snd (oa_local_rename oa s d from to)) d from = Inl NotFound) \<and>
     (\<forall>s d from to d' n'. (d', n') \<noteq> (d, from) \<longrightarrow> (d', n') \<noteq> (d, to) \<longrightarrow>
        \<not> under (d @ [from]) d' \<longrightarrow> \<not> under (d @ [to]) d' \<longrightarrow>
        oa_open_file oa (snd (oa_local_rename oa s d from to)) d' n' = oa_open_file oa s d' n') \<and>
     (\<forall>s d from to d' n' b. (d', n') \<noteq> (d, from) \<longrightarrow> (d', n') \<noteq> (d, to) \<longrightarrow>
        oa_open_file oa s d from = Inr b \<longrightarrow>
        oa_open_file oa (snd (oa_local_rename oa s d from to)) d' n' = oa_open_file oa s d' n') \<and>
     (\<forall>s d from to. fst (oa_local_rename oa s d from to) \<noteq> None \<longrightarrow>
        oa_open_file oa (snd (oa_local_rename oa s d from to)) = oa_open_file oa s) \<and>
     (\<forall>s d n e m. oa_sub_dir oa s d n = Some NotFound \<longrightarrow>
        oa_open_file oa s (d @ n # e) m = Inl NotFound)"

text \<open>Listing a directory shows its files and its directories with their types.\<close>

definition lists_all :: "('s, 'b) openat \<Rightarrow> bool" where
  "lists_all oa \<longleftrightarrow>
     (\<forall>s d es n b. oa_list_dir oa s d = Inr es \<longrightarrow> oa_open_file oa s d n = Inr b \<longrightarrow>
        (\<exists>t. Inr (DirEntry (Some n) t) \<in> set es \<and>
           (t = Some TFile \<or> t = None \<and> (\<exists>i. oa_metadata oa s d n = Inr (TFile, i))))) \<and>
     (\<forall>s d es n e m b. oa_list_dir oa s d = Inr es \<longrightarrow> oa_open_file oa s (d @ n # e) m = Inr b \<longrightarrow>
        (\<exists>t. Inr (DirEntry (Some n) t) \<in> set es \<and>
           (t = Some TDir \<or> t = None \<and> (\<exists>i. oa_metadata oa s d n = Inr (TDir, i)))))"

lemma posix_create:
  "posix_dirs oa \<Longrightarrow> oa_create_dir oa s d n = (e, t) \<Longrightarrow> oa_open_file oa t = oa_open_file oa s"
  unfolding posix_dirs_def by (metis snd_conv)

lemma posix_write:
  "posix_dirs oa \<Longrightarrow> oa_write_file oa s d n = (e, t) \<Longrightarrow> (d', n') \<noteq> (d, n) \<Longrightarrow>
     oa_open_file oa t d' n' = oa_open_file oa s d' n'"
  unfolding posix_dirs_def by (metis snd_conv)

lemma posix_put:
  "posix_dirs oa \<Longrightarrow> oa_put oa s d n b = (e, t) \<Longrightarrow> (d', n') \<noteq> (d, n) \<Longrightarrow>
     oa_open_file oa t d' n' = oa_open_file oa s d' n'"
  unfolding posix_dirs_def by (metis snd_conv)

lemma posix_put_same:
  "posix_dirs oa \<Longrightarrow> oa_put oa s d n b = (None, t) \<Longrightarrow> oa_open_file oa t d n = Inr b"
  unfolding posix_dirs_def by (metis fst_conv snd_conv)

lemma posix_remove:
  "posix_dirs oa \<Longrightarrow> oa_remove_file oa s d n = (e, t) \<Longrightarrow> (d', n') \<noteq> (d, n) \<Longrightarrow>
     oa_open_file oa t d' n' = oa_open_file oa s d' n'"
  unfolding posix_dirs_def by (metis snd_conv)

lemma posix_remove_same:
  "posix_dirs oa \<Longrightarrow> oa_remove_file oa s d n = (None, t) \<Longrightarrow> oa_open_file oa t d n = Inl NotFound"
  unfolding posix_dirs_def by (metis fst_conv snd_conv)

lemma posix_remove_err:
  "posix_dirs oa \<Longrightarrow> oa_remove_file oa s d n = (Some e, t) \<Longrightarrow> oa_open_file oa t = oa_open_file oa s"
  unfolding posix_dirs_def by (metis fst_conv snd_conv option.distinct(1))

lemma posix_rename_ok:
  "posix_dirs oa \<Longrightarrow> oa_local_rename oa s d from to = (None, t) \<Longrightarrow> from \<noteq> to \<Longrightarrow>
     oa_open_file oa s d from = Inr b \<Longrightarrow>
     oa_open_file oa t d to = Inr b \<and> oa_open_file oa t d from = Inl NotFound"
  unfolding posix_dirs_def by (metis fst_conv snd_conv)

lemma posix_rename_frame:
  "posix_dirs oa \<Longrightarrow> oa_local_rename oa s d from to = (e, t) \<Longrightarrow> (d', n') \<noteq> (d, from) \<Longrightarrow>
     (d', n') \<noteq> (d, to) \<Longrightarrow> \<not> under (d @ [from]) d' \<Longrightarrow> \<not> under (d @ [to]) d' \<Longrightarrow>
     oa_open_file oa t d' n' = oa_open_file oa s d' n'"
  unfolding posix_dirs_def by (metis snd_conv)

lemma posix_rename_file_frame:
  "posix_dirs oa \<Longrightarrow> oa_local_rename oa s d from to = (e, t) \<Longrightarrow> (d', n') \<noteq> (d, from) \<Longrightarrow>
     (d', n') \<noteq> (d, to) \<Longrightarrow> oa_open_file oa s d from = Inr b \<Longrightarrow>
     oa_open_file oa t d' n' = oa_open_file oa s d' n'"
  unfolding posix_dirs_def by (metis snd_conv)

lemma posix_rename_err:
  "posix_dirs oa \<Longrightarrow> oa_local_rename oa s d from to = (Some e, t) \<Longrightarrow>
     oa_open_file oa t = oa_open_file oa s"
  unfolding posix_dirs_def by (metis fst_conv snd_conv option.distinct(1))

lemma posix_sub_dir:
  "posix_dirs oa \<Longrightarrow> oa_sub_dir oa s d n = Some NotFound \<Longrightarrow>
     oa_open_file oa s (d @ n # e) m = Inl NotFound"
  unfolding posix_dirs_def by blast

section \<open>A file system in memory\<close>

text \<open>An instance of the parameter that satisfies the laws, for concrete runs.\<close>

record 'b mem_fs =
  mf_dirs :: "dpath list"
  mf_files :: "((dpath \<times> string) \<times> ('b \<times> u64)) list"
  mf_now :: u64

definition mem_has_dir :: "'b mem_fs \<Rightarrow> dpath \<Rightarrow> bool" where
  "mem_has_dir s d \<longleftrightarrow>
     list_ex (under d) (mf_dirs s) \<or> list_ex (\<lambda>f. under d (fst (fst f))) (mf_files s)"

definition mem_set :: "'b mem_fs \<Rightarrow> dpath \<Rightarrow> string \<Rightarrow> 'b \<times> u64 \<Rightarrow> 'b mem_fs" where
  "mem_set s d n b = s\<lparr>mf_files := ((d, n), b) # filter (\<lambda>f. fst f \<noteq> (d, n)) (mf_files s)\<rparr>"

definition mem_del :: "'b mem_fs \<Rightarrow> dpath \<Rightarrow> string \<Rightarrow> 'b mem_fs" where
  "mem_del s d n = s\<lparr>mf_files := filter (\<lambda>f. fst f \<noteq> (d, n)) (mf_files s)\<rparr>"

definition mem_names :: "'b mem_fs \<Rightarrow> dpath \<Rightarrow> string list" where
  "mem_names s d = remdups (List.map_filter
     (\<lambda>p. if under d p \<and> length p > length d then Some (p ! length d) else None)
     (mf_dirs s @ map (fst \<circ> fst) (mf_files s)))"

definition mem_openat :: "'b \<Rightarrow> ('b mem_fs, 'b) openat" where
  "mem_openat blank = \<lparr>
     oa_sub_dir = (\<lambda>s d n. if mem_has_dir s (d @ [n]) then None else Some NotFound),
     oa_create_dir = (\<lambda>s d n. (None, s\<lparr>mf_dirs := (d @ [n]) # mf_dirs s\<rparr>)),
     oa_metadata = (\<lambda>s d n. case map_of (mf_files s) (d, n) of
         None \<Rightarrow> Inl NotFound | Some (b, t) \<Rightarrow> Inr (TFile, t)),
     oa_open_file = (\<lambda>s d n. case map_of (mf_files s) (d, n) of
         None \<Rightarrow> Inl NotFound | Some (b, t) \<Rightarrow> Inr b),
     oa_write_file = (\<lambda>s d n. (None, mem_set s d n (blank, mf_now s))),
     oa_put = (\<lambda>s d n b. (None, mem_set s d n (b, mf_now s))),
     oa_remove_file = (\<lambda>s d n. case map_of (mf_files s) (d, n) of
         None \<Rightarrow> (Some NotFound, s) | Some b \<Rightarrow> (None, mem_del s d n)),
     oa_local_rename = (\<lambda>s d from to. case map_of (mf_files s) (d, from) of
         None \<Rightarrow> (Some NotFound, s)
       | Some b \<Rightarrow> (None, mem_set (mem_del s d from) d to b)),
     oa_list_dir = (\<lambda>s d. Inr (
         map (\<lambda>f. Inr (DirEntry (Some (snd (fst f))) (Some TFile)))
           (filter (\<lambda>f. fst (fst f) = d) (mf_files s)) @
         map (\<lambda>n. Inr (DirEntry (Some n) (Some TDir))) (mem_names s d)))\<rparr>"

lemma map_of_filter_neq:
  "map_of (filter (\<lambda>f. fst f \<noteq> k) xs) k' = (if k' = k then None else map_of xs k')"
  by (induction xs) auto

lemma map_of_mem_set:
  "map_of (mf_files (mem_set s d n b)) k = (if k = (d, n) then Some b else map_of (mf_files s) k)"
  by (simp add: mem_set_def map_of_filter_neq)

lemma map_of_mem_del:
  "map_of (mf_files (mem_del s d n)) k = (if k = (d, n) then None else map_of (mf_files s) k)"
  by (simp add: mem_del_def map_of_filter_neq)

lemma mem_no_dir_no_file:
  "\<not> mem_has_dir s (d @ [n]) \<Longrightarrow> map_of (mf_files s) (d @ n # e, m) = None"
proof (rule ccontr)
  assume no: "\<not> mem_has_dir s (d @ [n])" and "map_of (mf_files s) (d @ n # e, m) \<noteq> None"
  then obtain b where "((d @ n # e, m), b) \<in> set (mf_files s)"
    by (auto dest: map_of_SomeD)
  then have "mem_has_dir s (d @ [n])"
    by (force simp: mem_has_dir_def list_ex_iff under_def)
  with no show False by simp
qed

lemma mem_openat_posix: "posix_dirs (mem_openat blank)"
  unfolding posix_dirs_def
  by (intro conjI allI impI)
    (auto simp: mem_openat_def map_of_mem_set map_of_mem_del mem_no_dir_no_file
      split: option.splits if_splits prod.splits)

lemma map_filter_memI: "x \<in> set xs \<Longrightarrow> g x = Some y \<Longrightarrow> y \<in> set (List.map_filter g xs)"
  by (induction xs) (auto simp: map_filter_simps split: option.splits)

lemma mem_openat_lists: "lists_all (mem_openat blank)"
  unfolding lists_all_def
proof (intro conjI allI impI)
  fix s :: "'a mem_fs" and d es n b
  assume *: "oa_list_dir (mem_openat blank) s d = Inr es" "oa_open_file (mem_openat blank) s d n = Inr b"
  then obtain t where "((d, n), (b, t)) \<in> set (mf_files s)"
    by (auto simp: mem_openat_def split: option.splits dest: map_of_SomeD)
  with *(1) show "\<exists>t. Inr (DirEntry (Some n) t) \<in> set es \<and>
     (t = Some TFile \<or> t = None \<and> (\<exists>i. oa_metadata (mem_openat blank) s d n = Inr (TFile, i)))"
    by (intro exI [of _ "Some TFile"]) (force simp: mem_openat_def)
next
  fix s :: "'a mem_fs" and d es n e m b
  assume *: "oa_list_dir (mem_openat blank) s d = Inr es"
    "oa_open_file (mem_openat blank) s (d @ n # e) m = Inr b"
  then obtain t where "((d @ n # e, m), (b, t)) \<in> set (mf_files s)"
    by (auto simp: mem_openat_def split: option.splits dest: map_of_SomeD)
  then have "d @ n # e \<in> set (mf_dirs s @ map (fst \<circ> fst) (mf_files s))" by force
  then have "n \<in> set (mem_names s d)"
    unfolding mem_names_def set_remdups
    by (rule map_filter_memI) (simp add: under_def nth_append)
  with *(1) show "\<exists>t. Inr (DirEntry (Some n) t) \<in> set es \<and>
     (t = Some TDir \<or> t = None \<and> (\<exists>i. oa_metadata (mem_openat blank) s d n = Inr (TDir, i)))"
    by (intro exI [of _ "Some TDir"]) (auto simp: mem_openat_def)
qed

section \<open>What the operations change\<close>

text \<open>The file at a place, as opening it shows.\<close>

definition file_is :: "('s, 'b) openat \<Rightarrow> dpath \<Rightarrow> string \<Rightarrow> io_kind + 'b \<Rightarrow> 's \<Rightarrow> bool" where
  "file_is oa d n v s \<longleftrightarrow> oa_open_file oa s d n = v"

text \<open>Operations that only look.\<close>

definition reads_only :: "('s, 'a, 'e) io \<Rightarrow> bool" where
  "reads_only m \<longleftrightarrow> (\<forall>s. snd (m s) = s)"

named_theorems reads_only_rules \<open>operations that do not change the state\<close>

lemma reads_only_keeps: "reads_only m \<Longrightarrow> keeps P m"
  by (simp add: reads_only_def keeps_def)

lemma reads_only_ret [reads_only_rules]: "reads_only (ret r)"
  by (simp add: reads_only_def)

lemma reads_only_bind [reads_only_rules]:
  "reads_only m \<Longrightarrow> (\<And>x. reads_only (f x)) \<Longrightarrow> reads_only (bind_io m f)"
  unfolding reads_only_def bind_io_def
  by (auto split: prod.splits result.splits) (metis snd_conv)+

lemma reads_only_eq: "reads_only m \<Longrightarrow> m s = (r, t) \<Longrightarrow> t = s"
  by (metis reads_only_def snd_conv)

lemma reads_only_dir_ops [reads_only_rules]:
  "reads_only (sub_dir_or oa d n err)" "reads_only (dir_if_exists oa d n)" "reads_only (file_meta oa d n)"
  "reads_only (open_file oa d n)" "reads_only (read_file oa dec d n)"
  "reads_only (list_dirs oa d)" "reads_only (list_files oa suf d)"
  by (auto simp: reads_only_def sub_dir_or_def dir_if_exists_def file_meta_def open_file_def
      read_file_def list_dirs_def list_files_def split: option.splits sum.splits io_kind.splits)

lemma reads_only_open_names [reads_only_rules]: "reads_only (open_names oa d ns)"
  by (induction ns arbitrary: d) (auto intro: reads_only_rules)

lemma reads_only_open_path [reads_only_rules]: "reads_only (open_path oa d cs)"
  by (induction cs arbitrary: d) (auto intro: reads_only_rules)

lemma reads_only_open_vpath [reads_only_rules]: "reads_only (open_vpath oa d v)"
  unfolding open_vpath_def by (rule reads_only_open_names)

lemmas dir_reads_keep [keeps_rules] = reads_only_dir_ops [THEN reads_only_keeps]
  reads_only_open_names [THEN reads_only_keeps] reads_only_open_path [THEN reads_only_keeps]
  reads_only_open_vpath [THEN reads_only_keeps]

text \<open>Creating directories changes no file.\<close>

lemma create_component_files:
  "posix_dirs oa \<Longrightarrow> oa_open_file oa (snd (create_component oa d n s)) = oa_open_file oa s"
  by (auto simp: create_component_def sub_dir_or_def split: option.splits io_kind.splits prod.splits
      dest: posix_create)

lemma ensure_dir_files:
  "posix_dirs oa \<Longrightarrow> oa_open_file oa (snd (ensure_dir oa d cs s)) = oa_open_file oa s"
proof (induction cs arbitrary: d s)
  case (Cons c cs)
  show ?case
  proof (cases "check_component c")
    case (Ok n)
    obtain r t where rt: "create_component oa d n s = (r, t)" by (cases "create_component oa d n s")
    have t: "oa_open_file oa t = oa_open_file oa s"
      using create_component_files [OF Cons.prems, of d n s] rt by simp
    show ?thesis using Cons.IH [OF Cons.prems] t Ok rt by (cases r) (simp_all add: Ok)
  qed simp_all
qed simp

lemma keeps_ensure_dir [keeps_rules]:
  "posix_dirs oa \<Longrightarrow> keeps (file_is oa d' n' v) (ensure_dir oa d cs)"
  unfolding keeps_def file_is_def by (simp add: ensure_dir_files)

lemma ensure_dir_handle: "ensure_dir oa d (map Normal ns) s = (Ok e, t) \<Longrightarrow> e = d @ ns"
proof (induction ns arbitrary: d s)
  case (Cons n ns)
  then obtain d' u where "create_component oa d n s = (Ok d', u)"
    "ensure_dir oa d' (map Normal ns) u = (Ok e, t)" by (auto simp: bind_io_Ok_iff)
  moreover from this(1) have "d' = d @ [n]"
    by (auto simp: create_component_def sub_dir_or_def split: option.splits io_kind.splits prod.splits)
  ultimately show ?case using Cons.IH by fastforce
qed simp

lemma open_names_handle: "open_names oa d ns s = (Ok e, t) \<Longrightarrow> e = d @ ns"
proof (induction ns arbitrary: d s)
  case (Cons n ns)
  then obtain u where "open_names oa (d @ [n]) ns u = (Ok e, t)"
    by (auto simp: bind_io_Ok_iff sub_dir_or_def split: option.splits)
  from Cons.IH [OF this] show ?case by simp
qed simp

lemma open_path_names: "open_path oa d (map Normal ns) = open_names oa d ns"
  by (induction ns arbitrary: d) simp_all

lemma tmpname_neq [simp]: "tmpname n \<noteq> n" "n \<noteq> tmpname n"
  by (simp_all add: tmpname_def)

lemma backup_name_neq [simp]: "backup_name n \<noteq> n" "n \<noteq> backup_name n"
proof -
  have "length (backup_name n) \<noteq> length n" by (simp add: backup_name_def)
  then show "backup_name n \<noteq> n" "n \<noteq> backup_name n" by metis+
qed

lemma not_under_self [simp]: "\<not> under (d @ [n]) d"
  by (simp add: under_def)

lemma replace_file_steps:
  assumes "replace_file oa d n b s = (r, t)"
  obtains (not_written) e where "oa_write_file oa s d (tmpname n) = (Some e, t)" "r \<noteq> Ok ()"
  | (put) e u where "oa_write_file oa s d (tmpname n) = (None, u)"
      "oa_put oa u d (tmpname n) b = (Some e, t)" "r \<noteq> Ok ()"
  | (rename) e u v where "oa_write_file oa s d (tmpname n) = (None, u)"
      "oa_put oa u d (tmpname n) b = (None, v)"
      "oa_local_rename oa v d (tmpname n) n = (Some e, t)" "r \<noteq> Ok ()"
  | (all_ok) u v where "oa_write_file oa s d (tmpname n) = (None, u)"
      "oa_put oa u d (tmpname n) b = (None, v)"
      "oa_local_rename oa v d (tmpname n) n = (None, t)" "r = Ok ()"
  using assms by (auto simp: replace_file_def split: prod.splits option.splits)

lemma replace_file_ok:
  assumes fs: "posix_dirs oa" and run: "replace_file oa d n b s = (Ok (), t)"
  shows "oa_open_file oa t d n = Inr b"
proof -
  obtain u v where w: "oa_write_file oa s d (tmpname n) = (None, u)"
    and p: "oa_put oa u d (tmpname n) b = (None, v)"
    and r: "oa_local_rename oa v d (tmpname n) n = (None, t)"
    using run by (auto simp: replace_file_def split: prod.splits option.splits)
  show ?thesis using posix_rename_ok [OF fs r] posix_put_same [OF fs p] by simp
qed

lemma replace_file_err:
  assumes fs: "posix_dirs oa" and run: "replace_file oa d n b s = (r, t)" and "r \<noteq> Ok ()"
  shows "oa_open_file oa t d n = oa_open_file oa s d n"
proof -
  have ne: "(d, n) \<noteq> (d, tmpname n)" by simp
  from run show ?thesis
  proof (cases rule: replace_file_steps)
    case (rename e u v)
    then show ?thesis
      using posix_write [OF fs _ ne] posix_put [OF fs _ ne] posix_rename_err [OF fs] by metis
  qed (use \<open>r \<noteq> Ok ()\<close> posix_write [OF fs _ ne] posix_put [OF fs _ ne] in \<open>metis\<close>)+
qed

lemma replace_file_frame:
  assumes fs: "posix_dirs oa" and run: "replace_file oa d n b s = (r, t)"
    and ne: "(d', n') \<noteq> (d, n)" "(d', n') \<noteq> (d, tmpname n)"
  shows "oa_open_file oa t d' n' = oa_open_file oa s d' n'"
  using run
  by (cases rule: replace_file_steps)
    (metis posix_write [OF fs _ ne(2)] posix_put [OF fs _ ne(2)] posix_put_same [OF fs]
      posix_rename_file_frame [OF fs _ ne(2,1)] posix_rename_err [OF fs])+

lemma dir_rename_ok:
  "posix_dirs oa \<Longrightarrow> dir_rename oa d from to s = (Ok (), t) \<Longrightarrow> from \<noteq> to \<Longrightarrow>
     oa_open_file oa s d from = Inr b \<Longrightarrow>
     oa_open_file oa t d to = Inr b \<and> oa_open_file oa t d from = Inl NotFound"
  by (auto simp: dir_rename_def split: prod.splits option.splits dest: posix_rename_ok)

lemma dir_rename_err:
  "posix_dirs oa \<Longrightarrow> dir_rename oa d from to s = (r, t) \<Longrightarrow> r \<noteq> Ok () \<Longrightarrow>
     oa_open_file oa t = oa_open_file oa s"
  by (auto simp: dir_rename_def split: prod.splits option.splits dest: posix_rename_err)

lemma dir_rename_frame:
  "posix_dirs oa \<Longrightarrow> dir_rename oa d from to s = (r, t) \<Longrightarrow> (d', n') \<noteq> (d, from) \<Longrightarrow>
     (d', n') \<noteq> (d, to) \<Longrightarrow> \<not> under (d @ [from]) d' \<Longrightarrow> \<not> under (d @ [to]) d' \<Longrightarrow>
     oa_open_file oa t d' n' = oa_open_file oa s d' n'"
  unfolding dir_rename_def
  by (cases "oa_local_rename oa s d from to")
    (drule (5) posix_rename_frame, auto split: option.splits)

lemma remove_file_frame:
  "posix_dirs oa \<Longrightarrow> remove_file oa d n s = (r, t) \<Longrightarrow> (d', n') \<noteq> (d, n) \<Longrightarrow>
     oa_open_file oa t d' n' = oa_open_file oa s d' n'"
  by (auto simp: remove_file_def split: prod.splits option.splits io_kind.splits dest: posix_remove)

lemma rename_broken_frame:
  "posix_dirs oa \<Longrightarrow> rename_broken_file oa d n s = (r, t) \<Longrightarrow> (d', n') \<noteq> (d, n) \<Longrightarrow>
     (d', n') \<noteq> (d, backup_name n) \<Longrightarrow> oa_open_file oa s d n = Inr b \<Longrightarrow>
     oa_open_file oa t d' n' = oa_open_file oa s d' n'"
  unfolding rename_broken_file_def
  by (cases "oa_local_rename oa s d n (backup_name n)") (drule (4) posix_rename_file_frame, auto)

lemma rename_broken_same:
  assumes "posix_dirs oa" "rename_broken_file oa d n s = (r, t)" "oa_open_file oa s d n = Inr b"
  shows "oa_open_file oa t d n \<in> {Inr b, Inl NotFound}"
proof -
  obtain e where e: "oa_local_rename oa s d n (backup_name n) = (e, t)"
    using assms(2) by (cases "oa_local_rename oa s d n (backup_name n)") (auto simp: rename_broken_file_def)
  show ?thesis
    using posix_rename_ok [OF assms(1)] posix_rename_err [OF assms(1)] e assms(3) by (cases e) auto
qed

lemma list_entries_mem:
  "list_entries oa s d P ty es = Ok ns \<Longrightarrow> n \<in> set ns \<Longrightarrow> P n"
proof (induction oa s d P ty es arbitrary: ns rule: list_entries.induct)
  case (4 oa s d P ty n t es)
  then show ?case by (auto split: if_splits option.splits sum.splits prod.splits)
qed auto

lemma list_entries_complete:
  "list_entries oa s d P ty es = Ok ns \<Longrightarrow> Inr (DirEntry (Some n) t) \<in> set es \<Longrightarrow> P n \<Longrightarrow>
     t = Some ty \<or> t = None \<and> (\<exists>i. oa_metadata oa s d n = Inr (ty, i)) \<Longrightarrow> n \<in> set ns"
proof (induction oa s d P ty es arbitrary: ns rule: list_entries.induct)
  case (4 oa s d P ty m t' es)
  then show ?case by (auto split: if_splits option.splits sum.splits prod.splits)
qed auto

lemma list_files_complete:
  assumes "lists_all oa" "list_files oa suf d s = (Ok ns, t)" "oa_open_file oa s d n = Inr b"
    and "\<not> starts_with n ''.''" "ends_with n suf"
  shows "n \<in> set ns"
proof -
  obtain es where es: "oa_list_dir oa s d = Inr es"
    "list_entries oa s d (\<lambda>n. \<not> starts_with n ''.'' \<and> ends_with n suf) TFile es = Ok ns"
    using assms(2) by (auto simp: list_files_def split: sum.splits)
  then show ?thesis
    using assms list_entries_complete [OF es(2)] unfolding lists_all_def by meson
qed

lemma list_dirs_complete:
  assumes "lists_all oa" "list_dirs oa d s = (Ok ns, t)" "oa_open_file oa s (d @ n # e) m = Inr b"
  shows "n \<in> set ns"
proof -
  obtain es where es: "oa_list_dir oa s d = Inr es" "list_entries oa s d (\<lambda>n. True) TDir es = Ok ns"
    using assms(2) by (auto simp: list_dirs_def split: sum.splits)
  then show ?thesis
    using assms list_entries_complete [OF es(2)] unfolding lists_all_def by meson
qed

section \<open>Properties\<close>

text \<open>
  Replacing a metadata file is atomic for its readers, whatever fails on the way: after
  \<^verbatim>\<open>replace_file\<close> the file reads as the new contents when the call succeeded and as before when
  it did not, and no other file changes except the temporary one.
\<close>

theorem replace_file_atomic:
  assumes "posix_dirs oa" and "replace_file oa d n b s = (r, t)"
  shows "oa_open_file oa t d n = (if r = Ok () then Inr b else oa_open_file oa s d n) \<and>
    (\<forall>m. m \<notin> {n, tmpname n} \<longrightarrow> oa_open_file oa t d m = oa_open_file oa s d m)"
  using replace_file_ok [OF assms(1)] replace_file_err [OF assms] replace_file_frame [OF assms, of d]
    assms(2) by auto

theorem replace_file_atomic_witness:
  "oa_open_file (mem_openat 0)
     (snd (replace_file (mem_openat 0) [] ''a'' (7 :: nat) \<lparr>mf_dirs = [], mf_files = [], mf_now = 3\<rparr>))
     [] ''a'' = Inr 7"
proof -
  let ?s = "\<lparr>mf_dirs = [], mf_files = [], mf_now = 3\<rparr> :: nat mem_fs"
  obtain t where t: "replace_file (mem_openat 0) [] ''a'' (7 :: nat) ?s = (Ok (), t)"
    by (simp add: replace_file_def mem_openat_def mem_set_def tmpname_def)
  from replace_file_atomic [OF mem_openat_posix t] t show ?thesis by simp
qed

end
