(* ===== verification/Metadata.thy ===== *)
theory Metadata
  imports Metadata_Dir Signatures Config
begin

text \<open>
  The metadata store (\<^verbatim>\<open>src/daemon/metadata/mod.rs\<close>, \<^verbatim>\<open>upload.rs\<close>, \<^verbatim>\<open>keys.rs\<close>, \<^verbatim>\<open>scan.rs\<close>,
  \<^verbatim>\<open>first_scan.rs\<close>, \<^verbatim>\<open>read_index.rs\<close>, \<^verbatim>\<open>store_index.rs\<close>): which image each directory holds, with
  the signatures that allow it, and which uploads are in progress. Every operation runs on a
  disk thread; those that touch the table of uploads hold its lock to the end, so each is one
  atomic step here. Log output is left out.
\<close>

section \<open>State and environment\<close>

record writing =
  wr_image :: image_id
  wr_signatures :: "signature_entry list"
  wr_replacing :: bool

record 's meta =
  mt_fs :: 's
  mt_writing :: "vpath \<rightharpoonup> writing"
  mt_collecting :: "image_id set option"

text \<open>
  The configuration with the order in which its table of directories is iterated, and the
  parameters: the file system, the encoding of state files, the bytes of a file, the parser of
  an index, the signature library, hexadecimal notation, and the files of the configuration
  directory (\<^verbatim>\<open>me_key_file\<close> gives the lines of a key file, of the sub-directory \<^verbatim>\<open>keys\<close> when the
  flag is set; a line that cannot be read is \<^const>\<open>None\<close>).
\<close>

record ('s, 'b, 'm, 'i) meta_env =
  me_oa :: "('s, 'b) openat"
  me_config :: config
  me_dirs_order :: "string list"
  me_enc :: "state \<Rightarrow> 'b"
  me_dec :: "'b \<Rightarrow> state option"
  me_of_bytes :: "bytes \<Rightarrow> 'b"
  me_to_bytes :: "'b \<Rightarrow> bytes"
  me_parse_index :: "image_id \<Rightarrow> 'b \<Rightarrow> 'i option"
  me_sig :: "'m sig_env"
  me_to_hex :: to_hex
  me_from_hex :: from_hex
  me_config_dir :: "io_kind option"
  me_keys_dir :: "io_kind option"
  me_key_file :: "bool \<Rightarrow> string \<Rightarrow> io_kind + string option list"
  me_parse_key :: "string \<Rightarrow> public_key option"

definition state_codec :: "('s, 'b, 'm, 'i) meta_env \<Rightarrow> bool" where
  "state_codec env \<longleftrightarrow> (\<forall>st. me_dec env (me_enc env st) = Some st)"

definition meta_new :: "'s \<Rightarrow> 's meta" where
  "meta_new fs = \<lparr>mt_fs = fs, mt_writing = Map.empty, mt_collecting = None\<rparr>"

definition lift_fs :: "('s, 'a, 'e) io \<Rightarrow> ('s meta, 'a, 'e) io" where
  "lift_fs m = (\<lambda>s. case m (mt_fs s) of (r, t) \<Rightarrow> (r, s\<lparr>mt_fs := t\<rparr>))"

definition no_error :: "('a, unit) result \<Rightarrow> ('a, 'e) result" where
  "no_error r = (case r of Ok x \<Rightarrow> Ok x | Err _ \<Rightarrow> Panic | Panic \<Rightarrow> Panic)"

definition meta_signatures :: "('s, 'b, 'm, 'i) meta_env \<Rightarrow> ('s meta, dpath, meta_error) io" where
  "meta_signatures env = lift_fs (ensure_dir (me_oa env) [] [Normal ''signatures''])"

definition meta_indexes :: "('s, 'b, 'm, 'i) meta_env \<Rightarrow> ('s meta, dpath, meta_error) io" where
  "meta_indexes env = lift_fs (ensure_dir (me_oa env) [] [Normal ''indexes''])"

definition mark_used :: "image_id \<Rightarrow> ('s meta, unit, meta_error) io" where
  "mark_used img = (\<lambda>s. (Ok (), s\<lparr>mt_collecting := map_option (insert img) (mt_collecting s)\<rparr>))"

text \<open>\<^verbatim>\<open>meta.signatures()?.ensure_dir(vpath.parent_rel())?\<close>.\<close>

definition image_dir :: "('s, 'b, 'm, 'i) meta_env \<Rightarrow> vpath \<Rightarrow> ('s meta, dpath, meta_error) io" where
  "image_dir env v =
     bind_io (meta_signatures env) (\<lambda>d.
     bind_io (ret (expect (vp_parent_rel v))) (\<lambda>rel.
       lift_fs (ensure_dir (me_oa env) d (map Normal rel))))"

definition state_file :: "string \<Rightarrow> string" where
  "state_file n = n @ ''.state''"

definition new_state_file :: "string \<Rightarrow> string" where
  "new_state_file n = n @ ''.new.state''"

section \<open>Upload keys\<close>

definition is_space :: "char \<Rightarrow> bool" where
  "is_space c \<longleftrightarrow> of_char c \<in> {9, 10, 11, 12, 13, 32 :: nat}"

definition trim :: "string \<Rightarrow> string" where
  "trim s = rev (dropWhile is_space (rev (dropWhile is_space s)))"

fun read_key_lines :: "(string \<Rightarrow> public_key option) \<Rightarrow> string option list \<Rightarrow> public_key list \<Rightarrow> public_key list" where
  "read_key_lines parse [] keys = keys"
| "read_key_lines parse (None # ls) keys = keys"
| "read_key_lines parse (Some l # ls) keys =
     (let line = trim l in
      if line = [] \<or> starts_with line ''#'' then read_key_lines parse ls keys
      else (case parse line of
              Some key \<Rightarrow> read_key_lines parse ls (keys @ [key])
            | None \<Rightarrow> keys))"

text \<open>A missing or unreadable file adds no key; whether its absence is logged is not modelled.\<close>

definition read_keys ::
  "('s, 'b, 'm, 'i) meta_env \<Rightarrow> bool \<Rightarrow> string \<Rightarrow> public_key list \<Rightarrow> public_key list" where
  "read_keys env sub n keys =
     (case me_key_file env sub n of
        Inl e \<Rightarrow> keys
      | Inr ls \<Rightarrow> read_key_lines (me_parse_key env) ls keys)"

definition read_upload_keys ::
  "('s, 'b, 'm, 'i) meta_env \<Rightarrow> directory \<Rightarrow> (public_key list, meta_error) result" where
  "read_upload_keys env cfg =
     (case me_config_dir env of
        Some e \<Rightarrow> Err (ReadKey [] e)
      | None \<Rightarrow>
          (let res = read_keys env False ''master.key'' [] in
           case me_keys_dir env of
             None \<Rightarrow> Ok (fold (\<lambda>key. read_keys env True (key @ ''.key'')) (upload_keys cfg) res)
           | Some NotFound \<Rightarrow> Ok res
           | Some e \<Rightarrow> Err (ReadKey [''keys''] e)))"

definition check_keys ::
  "('s, 'b, 'm, 'i) meta_env \<Rightarrow> sig_data \<Rightarrow> signature list \<Rightarrow> directory \<Rightarrow> (bool, meta_error) result" where
  "check_keys env sigdata signatures cfg =
     bind_result (read_upload_keys env cfg) (\<lambda>keys.
       Ok (list_ex (\<lambda>sig. verify (me_sig env) sigdata sig keys) signatures))"

section \<open>Uploads\<close>

datatype accept = New | InProgress | AlreadyDone

datatype upload = Accepted accept | Rejected string "image_id option"

definition sort_signatures :: "signature_entry list \<Rightarrow> signature_entry list" where
  "sort_signatures sigs = sort sigs"

definition append_signatures :: "signature_entry list \<Rightarrow> signature_entry list \<Rightarrow> signature_entry list" where
  "append_signatures old new =
     sort_signatures (fold (\<lambda>sig acc. if sig \<in> set acc then acc else acc @ [sig]) new old)"

definition read_state ::
  "('s, 'b, 'm, 'i) meta_env \<Rightarrow> dpath \<Rightarrow> string \<Rightarrow> ('s meta, state option, meta_error) io" where
  "read_state env d n = lift_fs (read_file (me_oa env) (me_dec env) d n)"

definition write_state ::
  "('s, 'b, 'm, 'i) meta_env \<Rightarrow> dpath \<Rightarrow> string \<Rightarrow> state \<Rightarrow> ('s meta, unit, meta_error) io" where
  "write_state env d n st = lift_fs (replace_file (me_oa env) d n (me_enc env st))"

definition set_writing :: "vpath \<Rightarrow> writing \<Rightarrow> ('s meta, unit, meta_error) io" where
  "set_writing v w = (\<lambda>s. (Ok (), s\<lparr>mt_writing := (mt_writing s)(v \<mapsto> w)\<rparr>))"

definition get_writing :: "vpath \<Rightarrow> ('s meta, writing option, meta_error) io" where
  "get_writing v = (\<lambda>s. (Ok (mt_writing s v), s))"

definition signature_entries :: "system_time \<Rightarrow> signature list \<Rightarrow> signature_entry list" where
  "signature_entries ts sigs = sort_signatures (map (SignatureEntry ts) sigs)"

text \<open>The steps that both kinds of upload share once the entry of the table is decided.\<close>

definition begin_writing ::
  "('s, 'b, 'm, 'i) meta_env \<Rightarrow> vpath \<Rightarrow> dpath \<Rightarrow> string \<Rightarrow> image_id \<Rightarrow> signature_entry list \<Rightarrow> bool \<Rightarrow>
     ('s meta, upload, meta_error) io" where
  "begin_writing env v d name img sigs replacing =
     bind_io (set_writing v \<lparr>wr_image = img, wr_signatures = sigs, wr_replacing = replacing\<rparr>) (\<lambda>_.
     bind_io (write_state env d (new_state_file name) \<lparr>st_image = img, st_signatures = sigs\<rparr>) (\<lambda>_.
       ret (Ok (Accepted New))))"

definition continue_writing ::
  "('s, 'b, 'm, 'i) meta_env \<Rightarrow> vpath \<Rightarrow> dpath \<Rightarrow> string \<Rightarrow> writing \<Rightarrow> signature_entry list \<Rightarrow>
     ('s meta, upload, meta_error) io" where
  "continue_writing env v d name old sigs =
     (let sigs' = (if sigs \<noteq> wr_signatures old then append_signatures (wr_signatures old) sigs
                   else wr_signatures old) in
     bind_io (set_writing v (old\<lparr>wr_signatures := sigs'\<rparr>)) (\<lambda>_.
     bind_io (write_state env d (new_state_file name) \<lparr>st_image = wr_image old, st_signatures = sigs'\<rparr>) (\<lambda>_.
       ret (Ok (Accepted InProgress)))))"

definition already_done ::
  "('s, 'b, 'm, 'i) meta_env \<Rightarrow> dpath \<Rightarrow> string \<Rightarrow> state \<Rightarrow> signature_entry list \<Rightarrow>
     ('s meta, upload, meta_error) io" where
  "already_done env d name st sigs =
     bind_io (write_state env d (state_file name)
       (st\<lparr>st_signatures := append_signatures (st_signatures st) sigs\<rparr>)) (\<lambda>_.
       ret (Ok (Accepted AlreadyDone)))"

text \<open>
  What follows the lookup of the configuration in both handlers: the signatures are checked
  against the upload keys, and the directory of the state files is created.
\<close>

definition with_valid_keys ::
  "('s, 'b, 'm, 'i) meta_env \<Rightarrow> vpath \<Rightarrow> (sig_data, unit) result \<Rightarrow> signature list \<Rightarrow> directory \<Rightarrow>
     (dpath \<Rightarrow> string \<Rightarrow> ('s meta, upload, meta_error) io) \<Rightarrow> ('s meta, upload, meta_error) io" where
  "with_valid_keys env v sig_data sigs cfg k =
     bind_io (ret (no_error sig_data)) (\<lambda>sd.
     bind_io (ret (check_keys env sd sigs cfg)) (\<lambda>valid.
     if \<not> valid then ret (Ok (Rejected ''signature_mismatch'' None))
     else
       bind_io (image_dir env v) (\<lambda>d.
       bind_io (ret (expect (vp_final_name v))) (\<lambda>name. k d name))))"

definition append_entry ::
  "('s, 'b, 'm, 'i) meta_env \<Rightarrow> append_dir \<Rightarrow> dpath \<Rightarrow> string \<Rightarrow> ('s meta, upload, meta_error) io" where
  "append_entry env params d name =
     (let v = ad_path params;
          sigs = signature_entries (ad_timestamp params) (ad_signatures params) in
      bind_io (get_writing v) (\<lambda>entry.
      case entry of
        None \<Rightarrow>
          bind_io (read_state env d (state_file name)) (\<lambda>st.
          case st of
            Some st \<Rightarrow>
              if st_image st = ad_image params then already_done env d name st sigs
              else ret (Ok (Rejected ''already_exists'' (Some (st_image st))))
          | None \<Rightarrow> begin_writing env v d name (ad_image params) sigs False)
      | Some old \<Rightarrow>
          if wr_image old = ad_image params then continue_writing env v d name old sigs
          else ret (Ok (Rejected ''already_uploading_different_version'' (Some (wr_image old))))))"

definition start_append ::
  "('s, 'b, 'm, 'i) meta_env \<Rightarrow> append_dir \<Rightarrow> ('s meta, upload, meta_error) io" where
  "start_append env params =
     bind_io (mark_used (ad_image params)) (\<lambda>_.
     let v = ad_path params in
     case cf_dirs (me_config env) (vp_key v) of
       None \<Rightarrow> ret (Err (PathNotFound v))
     | Some cfg \<Rightarrow>
         if vp_level v \<noteq> num_levels cfg then ret (Ok (Rejected ''config_level_mismatch'' None))
         else with_valid_keys env v (append_sig_data params) (ad_signatures params) cfg
                (append_entry env params))"

definition replace_entry ::
  "('s, 'b, 'm, 'i) meta_env \<Rightarrow> replace_dir \<Rightarrow> dpath \<Rightarrow> string \<Rightarrow> ('s meta, upload, meta_error) io" where
  "replace_entry env params d name =
     (let v = rd_path params;
          sigs = signature_entries (rd_timestamp params) (rd_signatures params) in
      bind_io (get_writing v) (\<lambda>entry.
      case entry of
        None \<Rightarrow>
          bind_io (read_state env d (state_file name)) (\<lambda>st.
          case st of
            Some st \<Rightarrow>
              if st_image st = rd_image params then already_done env d name st sigs
              else if rd_old_image params \<noteq> None \<and> rd_old_image params \<noteq> Some (st_image st)
              then ret (Ok (Rejected ''replace_doesnt_match_index'' (Some (st_image st))))
              else begin_writing env v d name (rd_image params) sigs True
          | None \<Rightarrow> begin_writing env v d name (rd_image params) sigs False)
      | Some old \<Rightarrow>
          if wr_image old = rd_image params then continue_writing env v d name old sigs
          else if rd_old_image params \<noteq> None \<and> rd_old_image params \<noteq> Some (wr_image old)
          then ret (Ok (Rejected ''replace_doesnt_match_index'' (Some (wr_image old))))
          else ret (Ok (Rejected ''already_uploading_different_version'' (Some (wr_image old))))))"

definition start_replace ::
  "('s, 'b, 'm, 'i) meta_env \<Rightarrow> replace_dir \<Rightarrow> ('s meta, upload, meta_error) io" where
  "start_replace env params =
     bind_io (mark_used (rd_image params)) (\<lambda>_.
     let v = rd_path params in
     case cf_dirs (me_config env) (vp_key v) of
       None \<Rightarrow> ret (Err (PathNotFound v))
     | Some cfg \<Rightarrow>
         if vp_level v \<noteq> num_levels cfg then ret (Ok (Rejected ''config_level_mismatch'' None))
         else if append_only cfg then ret (Ok (Rejected ''dir_is_append_only'' None))
         else with_valid_keys env v (replace_sig_data params) (rd_signatures params) cfg
                (replace_entry env params))"

definition resume_upload ::
  "('s, 'b, 'm, 'i) meta_env \<Rightarrow> vpath \<Rightarrow> ('s meta, image_id, meta_error) io" where
  "resume_upload env v =
     (case cf_dirs (me_config env) (vp_key v) of
       None \<Rightarrow> ret (Err (PathNotFound v))
     | Some cfg \<Rightarrow>
         if vp_level v \<noteq> num_levels cfg then ret (Err (LevelMismatch (vp_level v) (num_levels cfg)))
         else
           bind_io (image_dir env v) (\<lambda>d.
           bind_io (ret (expect (vp_final_name v))) (\<lambda>name.
           bind_io (get_writing v) (\<lambda>entry.
           case entry of
             Some _ \<Rightarrow> ret (Err (ResumeConflict v))
           | None \<Rightarrow>
               bind_io (read_state env d (state_file name)) (\<lambda>st.
               case st of
                 Some st \<Rightarrow>
                   bind_io (lift_fs (dir_rename (me_oa env) d (state_file name) (new_state_file name))) (\<lambda>_.
                   bind_io (set_writing v \<lparr>wr_image = st_image st, wr_signatures = st_signatures st,
                                            wr_replacing = False\<rparr>) (\<lambda>_.
                     ret (Ok (st_image st))))
               | None \<Rightarrow>
                   bind_io (read_state env d (new_state_file name)) (\<lambda>st.
                   case st of
                     Some st \<Rightarrow>
                       bind_io (set_writing v \<lparr>wr_image = st_image st, wr_signatures = st_signatures st,
                                                wr_replacing = False\<rparr>) (\<lambda>_.
                         ret (Ok (st_image st)))
                   | None \<Rightarrow> ret (Err (ResumeNoFile v))))))))"

definition abort_dir :: "('s, 'b, 'm, 'i) meta_env \<Rightarrow> vpath \<Rightarrow> ('s meta, unit, meta_error) io" where
  "abort_dir env v =
     bind_io (ret (expect (vp_final_name v))) (\<lambda>name.
     bind_io (image_dir env v) (\<lambda>d.
       lift_fs (remove_file (me_oa env) d (new_state_file name))))"

definition commit_dir :: "('s, 'b, 'm, 'i) meta_env \<Rightarrow> vpath \<Rightarrow> ('s meta, unit, meta_error) io" where
  "commit_dir env v =
     bind_io (ret (expect (vp_final_name v))) (\<lambda>name.
     bind_io (image_dir env v) (\<lambda>d.
       lift_fs (dir_rename (me_oa env) d (new_state_file name) (state_file name))))"

text \<open>An error is logged and dropped: the caller gets a result in any case.\<close>

definition logged :: "('s, unit, 'e) io \<Rightarrow> ('s, unit, 'e) io" where
  "logged m = (\<lambda>s. case m s of (Err e, t) \<Rightarrow> (Ok (), t) | (Ok x, t) \<Rightarrow> (Ok (), t) | (Panic, t) \<Rightarrow> (Panic, t))"

definition del_writing :: "vpath \<Rightarrow> ('s meta, unit, meta_error) io" where
  "del_writing v = (\<lambda>s. (Ok (), s\<lparr>mt_writing := (mt_writing s)(v := None)\<rparr>))"

definition dir_aborted :: "('s, 'b, 'm, 'i) meta_env \<Rightarrow> vpath \<Rightarrow> ('s meta, unit, meta_error) io" where
  "dir_aborted env v =
     bind_io (get_writing v) (\<lambda>entry.
       case entry of
         Some wr \<Rightarrow> bind_io (del_writing v) (\<lambda>_. logged (abort_dir env v))
       | None \<Rightarrow> ret (Ok ()))"

definition dir_committed :: "('s, 'b, 'm, 'i) meta_env \<Rightarrow> vpath \<Rightarrow> ('s meta, unit, meta_error) io" where
  "dir_committed env v =
     bind_io (get_writing v) (\<lambda>entry.
       case entry of
         Some wr \<Rightarrow> bind_io (del_writing v) (\<lambda>_. logged (commit_dir env v))
       | None \<Rightarrow> ret (Ok ()))"

section \<open>Reading and removing\<close>

definition get_image_id ::
  "('s, 'b, 'm, 'i) meta_env \<Rightarrow> vpath \<Rightarrow> ('s meta, image_id, meta_error) io" where
  "get_image_id env v =
     bind_io (image_dir env v) (\<lambda>d.
     bind_io (ret (expect (vp_final_name v))) (\<lambda>name.
     bind_io (read_state env d (state_file name)) (\<lambda>st.
       case st of
         Some st \<Rightarrow> ret (Ok (st_image st))
       | None \<Rightarrow> ret (Err (PathNotFound v)))))"

text \<open>The modification time is in whole seconds; the subtraction of one second may underflow.\<close>

definition is_fresher :: "u64 \<Rightarrow> system_time \<Rightarrow> (bool, 'e) result" where
  "is_fresher mtime at =
     bind_result (expect (duration_since_epoch at)) (\<lambda>dur.
       if as_secs dur = 0 then Panic else Ok (unat mtime > as_secs dur - 1))"

definition remove_state_file ::
  "('s, 'b, 'm, 'i) meta_env \<Rightarrow> vpath \<Rightarrow> system_time \<Rightarrow> ('s meta, unit, meta_error) io" where
  "remove_state_file env v at =
     bind_io (get_writing v) (\<lambda>entry.
     if entry \<noteq> None then ret (Err (CleanupCanceled v))
     else
       bind_io (meta_signatures env) (\<lambda>root.
       bind_io (ret (expect (vp_parent_rel v))) (\<lambda>rel.
       bind_io (lift_fs (open_path (me_oa env) root (map Normal rel))) (\<lambda>parent.
       bind_io (ret (expect (vp_final_name v))) (\<lambda>name.
       bind_io (lift_fs (file_meta (me_oa env) parent (state_file name))) (\<lambda>m.
       case m of
         Some (ty, mtime) \<Rightarrow>
           bind_io (ret (is_fresher mtime at)) (\<lambda>fresher.
           if fresher then ret (Err (CleanupCanceled v))
           else lift_fs (remove_file (me_oa env) parent (state_file name)))
       | None \<Rightarrow> ret (Err (FileWasVanished (parent @ [state_file name])))))))))"

definition is_writing :: "vpath \<Rightarrow> ('s meta, bool, meta_error) io" where
  "is_writing v = bind_io (get_writing v) (\<lambda>entry. ret (Ok (entry \<noteq> None)))"

section \<open>Scanning a directory of states\<close>

text \<open>An operation whose error is looked at by the caller.\<close>

definition attempt :: "('s, 'a, 'e) io \<Rightarrow> ('s, ('a, 'e) result, 'e) io" where
  "attempt m = (\<lambda>s. case m s of (Panic, t) \<Rightarrow> (Panic, t) | (r, t) \<Rightarrow> (Ok r, t))"

text \<open>\<^verbatim>\<open>name.truncate(name.len() - n)\<close>.\<close>

definition cut :: "nat \<Rightarrow> string \<Rightarrow> string" where
  "cut n name = take (length name - n) name"

definition insert_state :: "string \<Rightarrow> state \<Rightarrow> (string \<rightharpoonup> state) \<Rightarrow> (string \<rightharpoonup> state)" where
  "insert_state name st res =
     (let name = cut 6 name in
      if ends_with name ''.new'' then res(cut 4 name \<mapsto> st)
      else if res name = None then res(name \<mapsto> st)
      else res)"

definition scan_file ::
  "('s, 'b, 'm, 'i) meta_env \<Rightarrow> dpath \<Rightarrow> string \<Rightarrow> (string \<rightharpoonup> state) \<Rightarrow>
     ('s meta, string \<rightharpoonup> state, meta_error) io" where
  "scan_file env d name res =
     bind_io (attempt (read_state env d name)) (\<lambda>read.
     case read of
       Ok (Some st) \<Rightarrow>
         if st_signatures st = []
         then bind_io (lift_fs (rename_broken_file (me_oa env) d name)) (\<lambda>_. ret (Ok res))
         else ret (Ok (insert_state name st res))
     | Err (Decode _) \<Rightarrow> bind_io (lift_fs (rename_broken_file (me_oa env) d name)) (\<lambda>_. ret (Ok res))
     | _ \<Rightarrow> ret (Ok res))"

fun scan_files ::
  "('s, 'b, 'm, 'i) meta_env \<Rightarrow> vpath \<Rightarrow> dpath \<Rightarrow> string list \<Rightarrow> (string \<rightharpoonup> state) \<Rightarrow>
     ('s meta, string \<rightharpoonup> state, meta_error) io" where
  "scan_files env v d [] res = ret (Ok res)"
| "scan_files env v d (name # ns) res =
     (if ends_with name ''.new.state''
      then
        bind_io (ret (expect (vp_join v (cut 10 name)))) (\<lambda>p.
        bind_io (get_writing p) (\<lambda>entry.
        if entry = None
        then bind_io (logged (lift_fs (remove_file (me_oa env) d name))) (\<lambda>_. scan_files env v d ns res)
        else bind_io (scan_file env d name res) (scan_files env v d ns)))
      else bind_io (scan_file env d name res) (scan_files env v d ns))"

definition all_states ::
  "('s, 'b, 'm, 'i) meta_env \<Rightarrow> vpath \<Rightarrow> dpath \<Rightarrow> ('s meta, string \<rightharpoonup> state, meta_error) io" where
  "all_states env v d =
     bind_io (lift_fs (list_files (me_oa env) ''.state'' d)) (\<lambda>names.
       scan_files env v d names Map.empty)"

definition meta_scan_dir ::
  "('s, 'b, 'm, 'i) meta_env \<Rightarrow> vpath \<Rightarrow> ('s meta, string \<rightharpoonup> state, meta_error) io" where
  "meta_scan_dir env v =
     bind_io (meta_signatures env) (\<lambda>root.
     bind_io (attempt (lift_fs (open_vpath (me_oa env) root v))) (\<lambda>opened.
     case opened of
       Ok d \<Rightarrow> all_states env v d
     | Err (Open _ NotFound) \<Rightarrow> ret (Ok Map.empty)
     | Err e \<Rightarrow> ret (Err e)
     | Panic \<Rightarrow> ret Panic))"

section \<open>The first scan\<close>

text \<open>
  The directories at the last level below a configured key, in the order they are listed.
  The recursion is on the level, which is at least one by the validator.
\<close>

fun first_scan_dir ::
  "('s, 'b, 'm, 'i) meta_env \<Rightarrow> dpath \<Rightarrow> vpath \<Rightarrow> nat \<Rightarrow> ('s meta, vpath list, meta_error) io"
and first_scan_items ::
  "('s, 'b, 'm, 'i) meta_env \<Rightarrow> dpath \<Rightarrow> vpath \<Rightarrow> nat \<Rightarrow> string list \<Rightarrow> ('s meta, vpath list, meta_error) io" where
  "first_scan_dir env d v 0 = ret (Ok [v])"
| "first_scan_dir env d v (Suc n) =
     (if n = 0 then ret (Ok [v])
      else bind_io (lift_fs (list_dirs (me_oa env) d)) (\<lambda>items. first_scan_items env d v n items))"
| "first_scan_items env d v n [] = ret (Ok [])"
| "first_scan_items env d v n (item # items) =
     bind_io (lift_fs (dir_if_exists (me_oa env) d item)) (\<lambda>sub.
     bind_io (case sub of
                Some sd \<Rightarrow> first_scan_dir env sd (vp_child v item) n
              | None \<Rightarrow> ret (Ok [])) (\<lambda>vs.
     bind_io (first_scan_items env d v n items) (\<lambda>ws. ret (Ok (vs @ ws)))))"

fun first_scan_roots ::
  "('s, 'b, 'm, 'i) meta_env \<Rightarrow> dpath \<Rightarrow> string list \<Rightarrow> ('s meta, vpath list, meta_error) io" where
  "first_scan_roots env root [] = ret (Ok [])"
| "first_scan_roots env root (key # keys) =
     (case cf_dirs (me_config env) key of
        None \<Rightarrow> first_scan_roots env root keys
      | Some cfg \<Rightarrow>
          bind_io (lift_fs (dir_if_exists (me_oa env) root key)) (\<lambda>sub.
          bind_io (case sub of
                     Some sd \<Rightarrow> first_scan_dir env sd (VPath key []) (num_levels cfg)
                   | None \<Rightarrow> ret (Ok [])) (\<lambda>vs.
          bind_io (first_scan_roots env root keys) (\<lambda>ws. ret (Ok (vs @ ws))))))"

definition first_scan :: "('s, 'b, 'm, 'i) meta_env \<Rightarrow> ('s meta, vpath list, meta_error) io" where
  "first_scan env =
     bind_io (meta_signatures env) (\<lambda>root. first_scan_roots env root (me_dirs_order env))"

section \<open>Indexes\<close>

text \<open>\<^verbatim>\<open>&hex_id[..2]\<close> panics for an identifier of less than one byte.\<close>

definition hex_prefix :: "string \<Rightarrow> (string, 'e) result" where
  "hex_prefix hex_id = (if length hex_id < 2 then Panic else Ok (take 2 hex_id))"

definition index_file :: "('s, 'b, 'm, 'i) meta_env \<Rightarrow> image_id \<Rightarrow> string" where
  "index_file env img = image_display (me_to_hex env) img @ ''.ds1''"

definition index_base ::
  "('s, 'b, 'm, 'i) meta_env \<Rightarrow> image_id \<Rightarrow> ('s meta, dpath, meta_error) io" where
  "index_base env img =
     bind_io (meta_indexes env) (\<lambda>root.
     bind_io (ret (hex_prefix (image_display (me_to_hex env) img))) (\<lambda>prefix.
     bind_io (lift_fs (dir_if_exists (me_oa env) root prefix)) (\<lambda>sub.
       ret (ok_or sub IndexNotFound))))"

definition read_bytes ::
  "('s, 'b, 'm, 'i) meta_env \<Rightarrow> image_id \<Rightarrow> ('s meta, bytes, meta_error) io" where
  "read_bytes env img =
     bind_io (index_base env img) (\<lambda>base.
     bind_io (lift_fs (read_file (me_oa env) (\<lambda>b. Some (me_to_bytes env b)) base (index_file env img))) (\<lambda>r.
       ret (ok_or r IndexNotFound)))"

definition read_index ::
  "('s, 'b, 'm, 'i) meta_env \<Rightarrow> image_id \<Rightarrow> ('s meta, 'i, meta_error) io" where
  "read_index env img =
     bind_io (index_base env img) (\<lambda>base.
     bind_io (attempt (lift_fs (read_file (me_oa env) (me_parse_index env img) base (index_file env img)))) (\<lambda>file_res.
     case file_res of
       Ok (Some data) \<Rightarrow> ret (Ok data)
     | Ok None \<Rightarrow> ret (Err IndexNotFound)
     | Err (Decode p) \<Rightarrow>
         bind_io (lift_fs (rename_broken_file (me_oa env) base (index_file env img))) (\<lambda>_.
           ret (Err IndexNotFound))
     | Err e \<Rightarrow> ret (Err e)
     | Panic \<Rightarrow> ret Panic))"

definition store_index_write ::
  "('s, 'b, 'm, 'i) meta_env \<Rightarrow> image_id \<Rightarrow> bytes \<Rightarrow> ('s meta, unit, meta_error) io" where
  "store_index_write env img data =
     bind_io (meta_indexes env) (\<lambda>root.
     bind_io (ret (hex_prefix (image_display (me_to_hex env) img))) (\<lambda>prefix.
     bind_io (lift_fs (ensure_dir (me_oa env) root [Normal prefix])) (\<lambda>base.
       lift_fs (replace_file (me_oa env) base (index_file env img) (me_of_bytes env data)))))"

definition store_index ::
  "('s, 'b, 'm, 'i) meta_env \<Rightarrow> image_id \<Rightarrow> bytes \<Rightarrow> ('s meta, unit, meta_error) io" where
  "store_index env img data =
     bind_io (mark_used img) (\<lambda>_. logged (store_index_write env img data))"

section \<open>Where an operation can change the state\<close>

definition state_dir :: "vpath \<Rightarrow> dpath" where
  "state_dir v = ''signatures'' # vp_key v # butlast (vp_suffix v)"

text \<open>An operation is quiet when it changes neither the table of uploads nor any file.\<close>

definition quiet :: "('s, 'b, 'm, 'i) meta_env \<Rightarrow> ('s meta, 'a, 'e) io \<Rightarrow> bool" where
  "quiet env m \<longleftrightarrow> (\<forall>s. mt_writing (snd (m s)) = mt_writing s \<and>
     oa_open_file (me_oa env) (mt_fs (snd (m s))) = oa_open_file (me_oa env) (mt_fs s))"

named_theorems quiet_rules \<open>operations that change no upload and no file\<close>

lemma quietD:
  "quiet env m \<Longrightarrow> m s = (r, t) \<Longrightarrow> mt_writing t = mt_writing s \<and>
     oa_open_file (me_oa env) (mt_fs t) = oa_open_file (me_oa env) (mt_fs s)"
  by (metis quiet_def snd_conv)

lemma quiet_ret [quiet_rules]: "quiet env (ret r)"
  by (simp add: quiet_def)

lemma quiet_bind [quiet_rules]:
  "quiet env m \<Longrightarrow> (\<And>x. quiet env (f x)) \<Longrightarrow> quiet env (bind_io m f)"
  unfolding quiet_def bind_io_def
  by (auto split: prod.splits result.splits) (metis snd_conv)+

lemma lift_fs_eq: "lift_fs m s = (r, t) \<longleftrightarrow> (\<exists>u. m (mt_fs s) = (r, u) \<and> t = s\<lparr>mt_fs := u\<rparr>)"
  by (auto simp: lift_fs_def split: prod.splits)

lemma lift_reads_eq: "reads_only m \<Longrightarrow> lift_fs m s = (r, t) \<Longrightarrow> t = s"
  by (auto simp: lift_fs_eq dest: reads_only_eq)

lemma quiet_lift_reads [quiet_rules]: "reads_only m \<Longrightarrow> quiet env (lift_fs m)"
  unfolding quiet_def lift_fs_def reads_only_def by (auto split: prod.splits) (metis snd_conv)

lemma quiet_lift_ensure_dir [quiet_rules]:
  "posix_dirs (me_oa env) \<Longrightarrow> quiet env (lift_fs (ensure_dir (me_oa env) d cs))"
  unfolding quiet_def lift_fs_def
  by (auto split: prod.splits) (metis ensure_dir_files snd_conv)

lemma quiet_mark_used [quiet_rules]: "quiet env (mark_used img)"
  by (simp add: quiet_def mark_used_def)

lemma quiet_get_writing [quiet_rules]: "quiet env (get_writing v)"
  by (simp add: quiet_def get_writing_def)

lemma quiet_read_state [quiet_rules]: "quiet env (read_state env d n)"
  unfolding read_state_def by (intro quiet_rules reads_only_rules)

lemma quiet_meta_signatures [quiet_rules]: "posix_dirs (me_oa env) \<Longrightarrow> quiet env (meta_signatures env)"
  unfolding meta_signatures_def by (intro quiet_rules)

lemma quiet_meta_indexes [quiet_rules]: "posix_dirs (me_oa env) \<Longrightarrow> quiet env (meta_indexes env)"
  unfolding meta_indexes_def by (intro quiet_rules)

lemma quiet_image_dir [quiet_rules]: "posix_dirs (me_oa env) \<Longrightarrow> quiet env (image_dir env v)"
  unfolding image_dir_def by (intro quiet_rules)

lemma quiet_get_image_id [quiet_rules]: "posix_dirs (me_oa env) \<Longrightarrow> quiet env (get_image_id env v)"
  unfolding get_image_id_def by (intro quiet_rules) (auto split: option.splits intro: quiet_rules)

lemma image_dir_handle: "image_dir env v s = (Ok d, t) \<Longrightarrow> d = state_dir v"
proof -
  assume "image_dir env v s = (Ok d, t)"
  then obtain e u rel w where e: "meta_signatures env s = (Ok e, u)"
    and rel: "vp_parent_rel v = Some rel"
    and d: "ensure_dir (me_oa env) e (map Normal rel) (mt_fs u) = (Ok d, w)"
    by (auto simp: image_dir_def bind_io_Ok_iff lift_fs_eq)
  obtain w' where "ensure_dir (me_oa env) [] (map Normal [''signatures'']) (mt_fs s) = (Ok e, w')"
    using e by (auto simp: meta_signatures_def lift_fs_eq)
  from ensure_dir_handle [OF this] ensure_dir_handle [OF d] rel
  show ?thesis by (auto simp: state_dir_def vp_parent_rel_def split: if_splits)
qed

lemma get_writing_eq [simp]: "get_writing v s = (Ok (mt_writing s v), s)"
  by (simp add: get_writing_def)

lemma set_writing_eq [simp]: "set_writing v w s = (Ok (), s\<lparr>mt_writing := (mt_writing s)(v \<mapsto> w)\<rparr>)"
  by (simp add: set_writing_def)

lemma del_writing_eq [simp]: "del_writing v s = (Ok (), s\<lparr>mt_writing := (mt_writing s)(v := None)\<rparr>)"
  by (simp add: del_writing_def)

lemma mark_used_eq [simp]:
  "mark_used img s = (Ok (), s\<lparr>mt_collecting := map_option (insert img) (mt_collecting s)\<rparr>)"
  by (simp add: mark_used_def)

end
