(* ===== verification/Metadata_Spec.thy ===== *)
theory Metadata_Spec
  imports Metadata
begin

text \<open>
  What the metadata store promises for one path, as a specification without a file system:
  the state of a path is its committed state file, its pending state file and its entry in the
  table of uploads. The handlers of \<^verbatim>\<open>src/daemon/metadata/upload.rs\<close> and \<^verbatim>\<open>mod.rs\<close> refine the
  functions below, and leave every other path alone.
\<close>

section \<open>The view of one path\<close>

text \<open>
  A state file is absent (\<^term>\<open>Some None\<close>), holds a state, or cannot be read or decoded
  (\<^const>\<open>None\<close>).
\<close>

type_synonym slot = "state option option"

record path_view =
  pv_done :: slot
  pv_new :: slot
  pv_writing :: "writing option"

definition file_slot :: "('b \<Rightarrow> state option) \<Rightarrow> io_kind + 'b \<Rightarrow> slot" where
  "file_slot dec f = (case f of
      Inl NotFound \<Rightarrow> Some None
    | Inl e \<Rightarrow> None
    | Inr b \<Rightarrow> (case dec b of None \<Rightarrow> None | Some st \<Rightarrow> Some (Some st)))"

definition vp_name :: "vpath \<Rightarrow> string" where
  "vp_name v = last (vp_suffix v)"

definition slot_at :: "('s, 'b, 'm, 'i) meta_env \<Rightarrow> 's meta \<Rightarrow> dpath \<Rightarrow> string \<Rightarrow> slot" where
  "slot_at env s d n = file_slot (me_dec env) (oa_open_file (me_oa env) (mt_fs s) d n)"

definition path_view :: "('s, 'b, 'm, 'i) meta_env \<Rightarrow> 's meta \<Rightarrow> vpath \<Rightarrow> path_view" where
  "path_view env s v =
     \<lparr>pv_done = slot_at env s (state_dir v) (state_file (vp_name v)),
      pv_new = slot_at env s (state_dir v) (new_state_file (vp_name v)),
      pv_writing = mt_writing s v\<rparr>"

section \<open>The specification\<close>

definition spec_begin :: "image_id \<Rightarrow> signature_entry list \<Rightarrow> bool \<Rightarrow> path_view \<Rightarrow> upload \<times> path_view" where
  "spec_begin img sigs replacing p =
     (Accepted New,
      p\<lparr>pv_new := Some (Some \<lparr>st_image = img, st_signatures = sigs\<rparr>),
        pv_writing := Some \<lparr>wr_image = img, wr_signatures = sigs, wr_replacing = replacing\<rparr>\<rparr>)"

definition spec_continue :: "writing \<Rightarrow> signature_entry list \<Rightarrow> path_view \<Rightarrow> upload \<times> path_view" where
  "spec_continue old sigs p =
     (let sigs' = (if sigs = wr_signatures old then sigs else append_signatures (wr_signatures old) sigs)
      in (Accepted InProgress,
          p\<lparr>pv_new := Some (Some \<lparr>st_image = wr_image old, st_signatures = sigs'\<rparr>),
            pv_writing := Some (old\<lparr>wr_signatures := sigs'\<rparr>)\<rparr>))"

definition spec_done :: "state \<Rightarrow> signature_entry list \<Rightarrow> path_view \<Rightarrow> upload \<times> path_view" where
  "spec_done st sigs p =
     (Accepted AlreadyDone,
      p\<lparr>pv_done := Some (Some (st\<lparr>st_signatures := append_signatures (st_signatures st) sigs\<rparr>))\<rparr>)"

definition spec_append :: "image_id \<Rightarrow> signature_entry list \<Rightarrow> path_view \<Rightarrow> upload \<times> path_view" where
  "spec_append img sigs p =
     (case (pv_writing p, pv_done p) of
        (Some old, _) \<Rightarrow>
          if wr_image old = img then spec_continue old sigs p
          else (Rejected ''already_uploading_different_version'' (Some (wr_image old)), p)
      | (None, Some (Some st)) \<Rightarrow>
          if st_image st = img then spec_done st sigs p
          else (Rejected ''already_exists'' (Some (st_image st)), p)
      | (None, _) \<Rightarrow> spec_begin img sigs False p)"

definition spec_replace ::
  "image_id \<Rightarrow> image_id option \<Rightarrow> signature_entry list \<Rightarrow> path_view \<Rightarrow> upload \<times> path_view" where
  "spec_replace img expected sigs p =
     (case (pv_writing p, pv_done p) of
        (Some old, _) \<Rightarrow>
          if wr_image old = img then spec_continue old sigs p
          else if expected \<in> {None, Some (wr_image old)}
          then (Rejected ''already_uploading_different_version'' (Some (wr_image old)), p)
          else (Rejected ''replace_doesnt_match_index'' (Some (wr_image old)), p)
      | (None, Some (Some st)) \<Rightarrow>
          if st_image st = img then spec_done st sigs p
          else if expected \<in> {None, Some (st_image st)} then spec_begin img sigs True p
          else (Rejected ''replace_doesnt_match_index'' (Some (st_image st)), p)
      | (None, _) \<Rightarrow> spec_begin img sigs False p)"

text \<open>Committing moves the pending state over the committed one; aborting drops it.\<close>

definition spec_commit :: "path_view \<Rightarrow> path_view" where
  "spec_commit p = p\<lparr>pv_done := pv_new p, pv_new := Some None, pv_writing := None\<rparr>"

definition spec_abort :: "path_view \<Rightarrow> path_view" where
  "spec_abort p = p\<lparr>pv_new := Some None, pv_writing := None\<rparr>"

section \<open>Files of different paths\<close>

text \<open>
  A final name is plain when it cannot be confused with the files the store keeps beside a
  state file: the state file of \<^verbatim>\<open>x.new\<close> is the pending file of \<^verbatim>\<open>x\<close>, and the state file of
  \<^verbatim>\<open>.tmp.x\<close> is the temporary file of \<^verbatim>\<open>x\<close>. (The pending file of \<^verbatim>\<open>.tmp\<close> is the temporary file
  of the state file of \<^verbatim>\<open>new\<close>, so every name that begins with \<^verbatim>\<open>.tmp\<close> is excluded.)
\<close>

definition plain_name :: "string \<Rightarrow> bool" where
  "plain_name n \<longleftrightarrow> \<not> ends_with n ''.new'' \<and> \<not> starts_with n ''.tmp''"

definition plain_path :: "vpath \<Rightarrow> bool" where
  "plain_path v \<longleftrightarrow> vp_suffix v \<noteq> [] \<and> plain_name (vp_name v)"

lemma ends_with_append [simp]: "ends_with (s @ t) t"
  by (simp add: ends_with_def)

lemma starts_with_append [simp]: "starts_with (p @ s) p"
  by (simp add: starts_with_def)

lemma new_state_file_eq: "new_state_file n = state_file (n @ ''.new'')"
  by (simp add: state_file_def new_state_file_def)

lemma state_file_inject [simp]: "state_file n = state_file m \<longleftrightarrow> n = m"
  by (simp add: state_file_def)

lemma tmpname_state_file: "tmpname (state_file n) = state_file (''.tmp.'' @ n)"
  by (simp add: state_file_def tmpname_def)

lemma tmpname_new_state_file: "tmpname (new_state_file n) = state_file (''.tmp.'' @ n @ ''.new'')"
  by (simp add: state_file_def new_state_file_def tmpname_def)

lemmas state_file_names = new_state_file_eq tmpname_state_file tmpname_new_state_file

text \<open>The files that an operation on the path \<open>v\<close> may touch.\<close>

definition own_files :: "vpath \<Rightarrow> string set" where
  "own_files v = {state_file (vp_name v), new_state_file (vp_name v),
     tmpname (state_file (vp_name v)), tmpname (new_state_file (vp_name v))}"

lemma own_files_apart:
  assumes "plain_name (vp_name v)" "plain_name (vp_name w)" "vp_name v \<noteq> vp_name w"
    and "f \<in> {state_file (vp_name w), new_state_file (vp_name w)}"
  shows "f \<notin> own_files v"
proof
  assume "f \<in> own_files v"
  then obtain n m where "f = state_file n" "f = state_file m"
    and n: "n = vp_name w \<or> n = vp_name w @ ''.new''"
    and m: "m \<in> {vp_name v, vp_name v @ ''.new'', ''.tmp.'' @ vp_name v, ''.tmp.'' @ vp_name v @ ''.new''}"
    using assms(4) unfolding own_files_def state_file_names by auto
  then have "n = m" by simp
  have pre: "starts_with (vp_name w) ''.tmp''" if "vp_name w @ ''.new'' = ''.tmp.'' @ x" for x
  proof (rule ccontr)
    assume no: "\<not> starts_with (vp_name w) ''.tmp''"
    have "take 4 (vp_name w @ ''.new'') = ''.tmp''" by (simp add: that)
    with no have "length (vp_name w) < 4"
      by (cases "length (vp_name w) < 4") (simp_all add: starts_with_def numeral_eq_Suc)
    then have "length (vp_name w) = 0 \<or> length (vp_name w) = 1 \<or> length (vp_name w) = 2 \<or>
        length (vp_name w) = 3" by arith
    with that show False
      by (auto simp: length_Suc_conv numeral_eq_Suc)
  qed
  have tmp: "starts_with (''.tmp.'' @ x) ''.tmp''" for x by (simp add: starts_with_def)
  show False
  proof (cases "n = vp_name w")
    case True
    then show ?thesis using \<open>n = m\<close> m assms(1-3)
      by (metis (no_types, lifting) ends_with_append insertE plain_name_def singletonD tmp)
  next
    case False
    then have "vp_name w @ ''.new'' = m" using n \<open>n = m\<close> by simp
    then show ?thesis using m assms(1-3) pre
      by (metis (no_types, lifting) append_same_eq ends_with_append insertE plain_name_def singletonD)
  qed
qed

text \<open>Paths of one key have one level, as the configuration demands.\<close>

definition same_shape :: "vpath \<Rightarrow> vpath \<Rightarrow> bool" where
  "same_shape v w \<longleftrightarrow> (vp_key v = vp_key w \<longrightarrow> vp_level v = vp_level w)"

lemma state_dir_not_under:
  assumes "same_shape v w" "vp_suffix v \<noteq> []"
  shows "\<not> under (state_dir v @ [f]) (state_dir w)"
proof
  assume u: "under (state_dir v @ [f]) (state_dir w)"
  then have "vp_key v = vp_key w" by (simp add: under_def state_dir_def)
  then have "vp_level v = vp_level w" using assms(1) by (simp add: same_shape_def)
  then have "length (state_dir w) = length (state_dir v)"
    using assms(2) by (simp add: state_dir_def vp_level_def)
  moreover have "length (state_dir w) \<ge> length (state_dir v @ [f])"
    using u unfolding under_def by (metis length_take min.cobounded2 min.commute)
  ultimately show False by simp
qed

lemma path_files_apart:
  assumes "plain_path v" "plain_path w" "v \<noteq> w"
    and "f \<in> {state_file (vp_name w), new_state_file (vp_name w)}"
  shows "state_dir w \<noteq> state_dir v \<or> f \<notin> own_files v"
proof (cases "state_dir w = state_dir v")
  case True
  then have "vp_name v \<noteq> vp_name w"
    using assms(1-3) unfolding state_dir_def plain_path_def vp_name_def
    by (metis append_butlast_last_id list.inject vpath.expand)
  then show ?thesis using own_files_apart assms unfolding plain_path_def by blast
qed simp

section \<open>Reading and writing the slots\<close>

definition same_data :: "('s, 'b, 'm, 'i) meta_env \<Rightarrow> 's meta \<Rightarrow> 's meta \<Rightarrow> bool" where
  "same_data env s t \<longleftrightarrow> mt_writing t = mt_writing s \<and>
     oa_open_file (me_oa env) (mt_fs t) = oa_open_file (me_oa env) (mt_fs s)"

lemma same_data_refl [simp]: "same_data env s s"
  by (simp add: same_data_def)

lemma same_data_trans [trans]: "same_data env s t \<Longrightarrow> same_data env t u \<Longrightarrow> same_data env s u"
  by (simp add: same_data_def)

lemma quiet_same_data: "quiet env m \<Longrightarrow> m s = (r, t) \<Longrightarrow> same_data env s t"
  using quietD unfolding same_data_def by metis

lemma same_data_view: "same_data env s t \<Longrightarrow> path_view env t v = path_view env s v"
  by (simp add: same_data_def path_view_def slot_at_def)

lemma same_data_slot: "same_data env s t \<Longrightarrow> slot_at env t d n = slot_at env s d n"
  by (simp add: same_data_def slot_at_def)

lemma file_slot_absent: "file_slot dec f = Some None \<longleftrightarrow> f = Inl NotFound"
  by (auto simp: file_slot_def split: sum.splits io_kind.splits option.splits)

lemma file_slot_state: "file_slot dec f = Some (Some st) \<longleftrightarrow> (\<exists>b. f = Inr b \<and> dec b = Some st)"
  by (auto simp: file_slot_def split: sum.splits io_kind.splits option.splits)

lemma read_state_slot:
  "read_state env d n s = (Ok st, t) \<Longrightarrow> slot_at env s d n = Some st \<and> t = s"
  unfolding read_state_def lift_fs_eq read_file_def slot_at_def file_slot_def
  by (cases "oa_open_file (me_oa env) (mt_fs s) d n")
    (auto split: io_kind.splits option.splits, metis)

lemma write_state_ok:
  assumes "posix_dirs (me_oa env)" "state_codec env" "write_state env d n st s = (Ok (), t)"
  shows "slot_at env t d n = Some (Some st)"
proof -
  obtain u where "replace_file (me_oa env) d n (me_enc env st) (mt_fs s) = (Ok (), u)" "t = s\<lparr>mt_fs := u\<rparr>"
    using assms(3) by (auto simp: write_state_def lift_fs_eq)
  with replace_file_ok [OF assms(1)] assms(2) show ?thesis
    by (simp add: slot_at_def file_slot_state state_codec_def)
qed

lemma write_state_frame:
  assumes "posix_dirs (me_oa env)" "write_state env d n st s = (r, t)"
    and "(d', n') \<noteq> (d, n)" "(d', n') \<noteq> (d, tmpname n)"
  shows "slot_at env t d' n' = slot_at env s d' n'"
proof -
  obtain u where "replace_file (me_oa env) d n (me_enc env st) (mt_fs s) = (r, u)" "t = s\<lparr>mt_fs := u\<rparr>"
    using assms(2) by (auto simp: write_state_def lift_fs_eq)
  with replace_file_frame [OF assms(1)] assms(3-) show ?thesis by (simp add: slot_at_def)
qed

lemma write_state_writing: "write_state env d n st s = (r, t) \<Longrightarrow> mt_writing t = mt_writing s"
  by (auto simp: write_state_def lift_fs_eq)

text \<open>A change at the path \<open>v\<close> only: every other plain path looks as before.\<close>

definition only_at :: "('s, 'b, 'm, 'i) meta_env \<Rightarrow> vpath \<Rightarrow> 's meta \<Rightarrow> 's meta \<Rightarrow> bool" where
  "only_at env v s t \<longleftrightarrow>
     (\<forall>w. w \<noteq> v \<longrightarrow> mt_writing t w = mt_writing s w) \<and>
     (\<forall>d n. d \<noteq> state_dir v \<or> n \<notin> own_files v \<longrightarrow>
        \<not> (\<exists>f. under (state_dir v @ [f]) d) \<longrightarrow> slot_at env t d n = slot_at env s d n)"

lemma only_at_same_data: "same_data env s t \<Longrightarrow> only_at env v s t"
  by (simp add: only_at_def same_data_slot) (simp add: same_data_def)

lemma only_at_trans: "only_at env v s t \<Longrightarrow> only_at env v t u \<Longrightarrow> only_at env v s u"
  by (simp add: only_at_def)

lemma only_at_other:
  assumes "only_at env v s t" "plain_path v" "plain_path w" "same_shape v w" "w \<noteq> v"
  shows "path_view env t w = path_view env s w"
proof -
  have "slot_at env t (state_dir w) f = slot_at env s (state_dir w) f"
    if "f \<in> {state_file (vp_name w), new_state_file (vp_name w)}" for f
    using assms path_files_apart [OF assms(2,3) _ that] state_dir_not_under [OF assms(4)]
    unfolding only_at_def plain_path_def by blast
  then show ?thesis using assms(1,5) by (simp add: path_view_def only_at_def)
qed

lemma write_state_only_at:
  assumes "posix_dirs (me_oa env)" "write_state env (state_dir v) f st s = (r, t)"
    and "f = state_file (vp_name v) \<or> f = new_state_file (vp_name v)"
  shows "only_at env v s t"
  unfolding only_at_def
proof (intro conjI allI impI)
  show "mt_writing t w = mt_writing s w" for w using write_state_writing [OF assms(2)] by simp
next
  fix d n assume "d \<noteq> state_dir v \<or> n \<notin> own_files v" "\<nexists>f. under (state_dir v @ [f]) d"
  then show "slot_at env t d n = slot_at env s d n"
    using assms(3) by (intro write_state_frame [OF assms(1,2)]) (auto simp: own_files_def)
qed

lemma set_writing_only_at: "only_at env v s (s\<lparr>mt_writing := (mt_writing s)(v := w)\<rparr>)"
  by (simp add: only_at_def slot_at_def)

lemma new_state_file_neq [simp]:
  "new_state_file n \<noteq> state_file n" "state_file n \<noteq> new_state_file n"
  "new_state_file n \<noteq> tmpname (state_file n)" "state_file n \<noteq> tmpname (new_state_file n)"
proof -
  show "new_state_file n \<noteq> state_file n" "state_file n \<noteq> new_state_file n"
    by (simp_all add: new_state_file_eq)
  have "length (new_state_file n) \<noteq> length (tmpname (state_file n))"
    "length (state_file n) \<noteq> length (tmpname (new_state_file n))"
    by (simp_all add: new_state_file_def state_file_def tmpname_def)
  then show "new_state_file n \<noteq> tmpname (state_file n)" "state_file n \<noteq> tmpname (new_state_file n)"
    by metis+
qed

lemma write_new_keeps_done:
  assumes "posix_dirs (me_oa env)" "write_state env d (new_state_file n) st s = (r, t)"
  shows "slot_at env t d (state_file n) = slot_at env s d (state_file n)"
  by (rule write_state_frame [OF assms]) simp_all

lemma write_done_keeps_new:
  assumes "posix_dirs (me_oa env)" "write_state env d (state_file n) st s = (r, t)"
  shows "slot_at env t d (new_state_file n) = slot_at env s d (new_state_file n)"
  by (rule write_state_frame [OF assms]) simp_all

section \<open>The steps of an upload\<close>

lemma begin_writing_spec:
  assumes "posix_dirs (me_oa env)" "state_codec env"
    and "begin_writing env v (state_dir v) (vp_name v) img sigs rp s = (Ok u, t)"
  shows "(u, path_view env t v) = spec_begin img sigs rp (path_view env s v)"
proof -
  let ?s = "s\<lparr>mt_writing := (mt_writing s)(v \<mapsto> \<lparr>wr_image = img, wr_signatures = sigs, wr_replacing = rp\<rparr>)\<rparr>"
  have w: "write_state env (state_dir v) (new_state_file (vp_name v)) \<lparr>st_image = img, st_signatures = sigs\<rparr> ?s = (Ok (), t)"
    and u: "u = Accepted New"
    using assms(3) by (auto simp: begin_writing_def bind_io_Ok_iff)
  show ?thesis
    using write_state_ok [OF assms(1,2) w] write_new_keeps_done [OF assms(1) w] write_state_writing [OF w]
    by (simp add: path_view_def spec_begin_def u slot_at_def)
qed

lemma continue_writing_spec:
  assumes "posix_dirs (me_oa env)" "state_codec env"
    and "continue_writing env v (state_dir v) (vp_name v) old sigs s = (Ok u, t)"
  shows "(u, path_view env t v) = spec_continue old sigs (path_view env s v)"
proof -
  let ?g = "if sigs = wr_signatures old then sigs else append_signatures (wr_signatures old) sigs"
  let ?s = "s\<lparr>mt_writing := (mt_writing s)(v \<mapsto> old\<lparr>wr_signatures := ?g\<rparr>)\<rparr>"
  have w: "write_state env (state_dir v) (new_state_file (vp_name v))
      \<lparr>st_image = wr_image old, st_signatures = ?g\<rparr> ?s = (Ok (), t)"
    and u: "u = Accepted InProgress"
    using assms(3) by (auto simp: continue_writing_def bind_io_Ok_iff Let_def split: if_splits)
  show ?thesis
    using write_state_ok [OF assms(1,2) w] write_new_keeps_done [OF assms(1) w] write_state_writing [OF w]
    by (simp add: path_view_def spec_continue_def u slot_at_def Let_def)
qed

lemma already_done_spec:
  assumes "posix_dirs (me_oa env)" "state_codec env"
    and "already_done env (state_dir v) (vp_name v) st sigs s = (Ok u, t)"
  shows "(u, path_view env t v) = spec_done st sigs (path_view env s v)"
proof -
  have w: "write_state env (state_dir v) (state_file (vp_name v))
      (st\<lparr>st_signatures := append_signatures (st_signatures st) sigs\<rparr>) s = (Ok (), t)"
    and u: "u = Accepted AlreadyDone"
    using assms(3) by (auto simp: already_done_def bind_io_Ok_iff)
  show ?thesis
    using write_state_ok [OF assms(1,2) w] write_done_keeps_new [OF assms(1) w] write_state_writing [OF w]
    by (simp add: path_view_def spec_done_def u)
qed

section \<open>Operations local to a path\<close>

definition local_op :: "('s, 'b, 'm, 'i) meta_env \<Rightarrow> vpath \<Rightarrow> ('s meta, 'a, 'e) io \<Rightarrow> bool" where
  "local_op env v m \<longleftrightarrow> (\<forall>s. only_at env v s (snd (m s)))"

named_theorems local_rules \<open>operations that change one path only\<close>

lemma local_opD: "local_op env v m \<Longrightarrow> m s = (r, t) \<Longrightarrow> only_at env v s t"
  by (metis local_op_def snd_conv)

lemma local_op_bind [local_rules]:
  assumes "local_op env v m" "\<And>x. local_op env v (f x)"
  shows "local_op env v (bind_io m f)"
  unfolding local_op_def
proof
  fix s
  obtain r t where m: "m s = (r, t)" by (cases "m s")
  have "only_at env v s t" using assms(1) m by (rule local_opD)
  then show "only_at env v s (snd (bind_io m f s))"
    using m assms(2) unfolding local_op_def by (cases r) (auto intro: only_at_trans)
qed

lemma quiet_local_op: "quiet env m \<Longrightarrow> local_op env v m"
  unfolding local_op_def quiet_def by (metis only_at_same_data same_data_def)

lemmas quiet_locals [local_rules] =
  quiet_ret [THEN quiet_local_op] quiet_get_writing [THEN quiet_local_op]
  quiet_read_state [THEN quiet_local_op] quiet_image_dir [THEN quiet_local_op]
  quiet_mark_used [THEN quiet_local_op]

lemma set_writing_local [local_rules]: "local_op env v (set_writing v w)"
  by (simp add: local_op_def set_writing_only_at)

lemma del_writing_local [local_rules]: "local_op env v (del_writing v)"
  by (simp add: local_op_def set_writing_only_at)

lemma write_state_local [local_rules]:
  "posix_dirs (me_oa env) \<Longrightarrow> f = state_file (vp_name v) \<or> f = new_state_file (vp_name v) \<Longrightarrow>
     local_op env v (write_state env (state_dir v) f st)"
  unfolding local_op_def using write_state_only_at by (metis prod.collapse)

lemma dir_rename_local [local_rules]:
  assumes "posix_dirs (me_oa env)" "{f, g} \<subseteq> own_files v"
  shows "local_op env v (lift_fs (dir_rename (me_oa env) (state_dir v) f g))"
  unfolding local_op_def
proof
  fix s :: "'a meta"
  obtain r u where u: "dir_rename (me_oa env) (state_dir v) f g (mt_fs s) = (r, u)" by fastforce
  show "only_at env v s (snd (lift_fs (dir_rename (me_oa env) (state_dir v) f g) s))"
  proof -
    have "oa_open_file (me_oa env) u d n = oa_open_file (me_oa env) (mt_fs s) d n"
      if "d \<noteq> state_dir v \<or> n \<notin> own_files v" "\<not> (\<exists>f. under (state_dir v @ [f]) d)" for d n
      by (rule dir_rename_frame [OF assms(1) u]) (use that assms(2) in blast)+
    then show ?thesis by (auto simp: only_at_def lift_fs_def u slot_at_def)
  qed
qed

lemma remove_file_local [local_rules]:
  assumes "posix_dirs (me_oa env)" "f \<in> own_files v"
  shows "local_op env v (lift_fs (remove_file (me_oa env) (state_dir v) f))"
  unfolding local_op_def
proof
  fix s :: "'a meta"
  obtain r u where u: "remove_file (me_oa env) (state_dir v) f (mt_fs s) = (r, u)" by fastforce
  show "only_at env v s (snd (lift_fs (remove_file (me_oa env) (state_dir v) f) s))"
  proof -
    have "oa_open_file (me_oa env) u d n = oa_open_file (me_oa env) (mt_fs s) d n"
      if "d \<noteq> state_dir v \<or> n \<notin> own_files v" for d n
      by (rule remove_file_frame [OF assms(1) u]) (use that assms(2) in blast)
    then show ?thesis by (auto simp: only_at_def lift_fs_def u slot_at_def)
  qed
qed

lemma logged_local [local_rules]: "local_op env v m \<Longrightarrow> local_op env v (logged m)"
  unfolding local_op_def logged_def by (auto split: prod.splits result.splits) (metis snd_conv)+

lemma begin_writing_local [local_rules]:
  "posix_dirs (me_oa env) \<Longrightarrow> local_op env v (begin_writing env v (state_dir v) (vp_name v) img sigs rp)"
  unfolding begin_writing_def by (intro local_rules) simp_all

lemma continue_writing_local [local_rules]:
  "posix_dirs (me_oa env) \<Longrightarrow> local_op env v (continue_writing env v (state_dir v) (vp_name v) old sigs)"
  unfolding continue_writing_def Let_def by (intro local_rules) simp_all

lemma already_done_local [local_rules]:
  "posix_dirs (me_oa env) \<Longrightarrow> local_op env v (already_done env (state_dir v) (vp_name v) st sigs)"
  unfolding already_done_def by (intro local_rules) simp_all

lemma append_entry_local:
  "posix_dirs (me_oa env) \<Longrightarrow> ad_path params = v \<Longrightarrow>
     local_op env v (append_entry env params (state_dir v) (vp_name v))"
  unfolding append_entry_def Let_def
  by (intro local_rules) (auto split: option.splits intro!: local_rules)

lemma replace_entry_local:
  "posix_dirs (me_oa env) \<Longrightarrow> rd_path params = v \<Longrightarrow>
     local_op env v (replace_entry env params (state_dir v) (vp_name v))"
  unfolding replace_entry_def Let_def
  by (intro local_rules) (auto split: option.splits intro!: local_rules)

section \<open>The table entry decides as specified\<close>

lemma append_entry_spec:
  assumes "posix_dirs (me_oa env)" "state_codec env" and v: "v = ad_path params"
    and run: "append_entry env params (state_dir v) (vp_name v) s = (Ok u, t)"
  shows "(u, path_view env t v) = spec_append (ad_image params)
    (signature_entries (ad_timestamp params) (ad_signatures params)) (path_view env s v)"
proof (cases "mt_writing s v")
  case (Some old)
  then show ?thesis
    using run continue_writing_spec [OF assms(1,2)]
    by (auto simp: append_entry_def Let_def spec_append_def path_view_def v split: if_splits)
next
  case None
  then obtain st x where st: "read_state env (state_dir v) (state_file (vp_name v)) s = (Ok st, x)"
    using run by (auto simp: append_entry_def Let_def bind_io_Ok_iff v)
  then have slot: "slot_at env s (state_dir v) (state_file (vp_name v)) = Some st" and x: "x = s"
    using read_state_slot by blast+
  show ?thesis
    using run None st slot x begin_writing_spec [OF assms(1,2)] already_done_spec [OF assms(1,2)]
    by (cases st) (auto simp: append_entry_def Let_def spec_append_def path_view_def v split: if_splits)
qed

lemma replace_entry_spec:
  assumes "posix_dirs (me_oa env)" "state_codec env" and v: "v = rd_path params"
    and run: "replace_entry env params (state_dir v) (vp_name v) s = (Ok u, t)"
  shows "(u, path_view env t v) = spec_replace (rd_image params) (rd_old_image params)
    (signature_entries (rd_timestamp params) (rd_signatures params)) (path_view env s v)"
proof (cases "mt_writing s v")
  case (Some old)
  then show ?thesis
    using run continue_writing_spec [OF assms(1,2)]
    by (auto simp: replace_entry_def Let_def spec_replace_def path_view_def v split: if_splits)
next
  case None
  then obtain st x where st: "read_state env (state_dir v) (state_file (vp_name v)) s = (Ok st, x)"
    using run by (auto simp: replace_entry_def Let_def bind_io_Ok_iff v)
  then have slot: "slot_at env s (state_dir v) (state_file (vp_name v)) = Some st" and x: "x = s"
    using read_state_slot by blast+
  show ?thesis
    using run None st slot x begin_writing_spec [OF assms(1,2)] already_done_spec [OF assms(1,2)]
    by (cases st) (auto simp: replace_entry_def Let_def spec_replace_def path_view_def v split: if_splits)
qed

section \<open>The handlers\<close>

text \<open>The authorisation that both handlers demand.\<close>

definition authorised ::
  "('s, 'b, 'm, 'i) meta_env \<Rightarrow> vpath \<Rightarrow> (sig_data, unit) result \<Rightarrow> signature list \<Rightarrow> directory \<Rightarrow> bool" where
  "authorised env v sdr sigs cfg \<longleftrightarrow>
     cf_dirs (me_config env) (vp_key v) = Some cfg \<and> vp_level v = num_levels cfg \<and>
     (\<exists>sd keys. sdr = Ok sd \<and> read_upload_keys env cfg = Ok keys \<and>
        (\<exists>sig \<in> set sigs. verify (me_sig env) sd sig keys))"

lemma no_error_Ok [simp]: "no_error r = Ok x \<longleftrightarrow> r = Ok x"
  by (auto simp: no_error_def split: result.splits)

lemma check_keys_True:
  "check_keys env sd sigs cfg = Ok True \<longleftrightarrow>
     (\<exists>keys. read_upload_keys env cfg = Ok keys \<and> (\<exists>sig \<in> set sigs. verify (me_sig env) sd sig keys))"
  by (auto simp: check_keys_def list_ex_iff)

lemma vp_final_name_name: "vp_final_name v = Some n \<Longrightarrow> n = vp_name v \<and> vp_suffix v \<noteq> []"
  by (auto simp: vp_final_name_def vp_name_def split: if_splits)

lemma with_valid_keys_run:
  assumes "posix_dirs (me_oa env)" "with_valid_keys env v sdr sigs cfg k s = (r, t)"
    and "cf_dirs (me_config env) (vp_key v) = Some cfg" "vp_level v = num_levels cfg"
  shows "(\<forall>a. r \<noteq> Ok (Accepted a)) \<and> same_data env s t \<or>
    authorised env v sdr sigs cfg \<and> vp_suffix v \<noteq> [] \<and>
      (\<exists>u. same_data env s u \<and> k (state_dir v) (vp_name v) u = (r, t))"
proof -
  consider (early) "t = s" "\<forall>a. r \<noteq> Ok (Accepted a)"
    | (valid) sd where "sdr = Ok sd" "check_keys env sd sigs cfg = Ok True"
      "bind_io (image_dir env v) (\<lambda>d. bind_io (ret (expect (vp_final_name v))) (k d)) s = (r, t)"
    using assms(2)
    by (cases sdr) (auto simp: with_valid_keys_def no_error_def bind_io_def ret_def
        split: result.splits if_splits)
  then show ?thesis
  proof cases
    case early
    then show ?thesis by simp
  next
    case valid
    obtain x u where x: "image_dir env v s = (x, u)" by fastforce
    have su: "same_data env s u" using quiet_same_data [OF quiet_image_dir [OF assms(1)] x] .
    have au: "authorised env v sdr sigs cfg"
      using valid(1,2) assms(3,4) by (auto simp: authorised_def check_keys_True)
    show ?thesis
    proof (cases x)
      case (Ok d)
      then have d: "d = state_dir v" using x image_dir_handle by blast
      show ?thesis
        using valid(3) x Ok su au d vp_final_name_name [of v]
        by (cases "vp_final_name v") auto
    qed (use valid(3) x su in auto)
  qed
qed

lemma start_append_run:
  assumes "posix_dirs (me_oa env)" "start_append env params s = (r, t)" and v: "v = ad_path params"
  shows "(\<forall>a. r \<noteq> Ok (Accepted a)) \<and> same_data env s t \<or>
    (\<exists>cfg u. authorised env v (append_sig_data params) (ad_signatures params) cfg \<and> vp_suffix v \<noteq> [] \<and>
      same_data env s u \<and> append_entry env params (state_dir v) (vp_name v) u = (r, t))"
proof -
  let ?s = "s\<lparr>mt_collecting := map_option (insert (ad_image params)) (mt_collecting s)\<rparr>"
  have same: "same_data env s ?s" by (simp add: same_data_def)
  show ?thesis
  proof (cases "cf_dirs (me_config env) (vp_key v)")
    case None
    then show ?thesis using assms(2) same by (auto simp: start_append_def v)
  next
    case (Some cfg)
    show ?thesis
    proof (cases "vp_level v = num_levels cfg")
      case False
      then show ?thesis using assms(2) same Some by (auto simp: start_append_def v)
    next
      case True
      then have "with_valid_keys env v (append_sig_data params) (ad_signatures params) cfg
          (append_entry env params) ?s = (r, t)"
        using assms(2) Some by (simp add: start_append_def v)
      from with_valid_keys_run [OF assms(1) this Some True] same_data_trans [OF same] show ?thesis
        by blast
    qed
  qed
qed

lemma start_replace_run:
  assumes "posix_dirs (me_oa env)" "start_replace env params s = (r, t)" and v: "v = rd_path params"
  shows "(\<forall>a. r \<noteq> Ok (Accepted a)) \<and> same_data env s t \<or>
    (\<exists>cfg u. authorised env v (replace_sig_data params) (rd_signatures params) cfg \<and>
      \<not> append_only cfg \<and> vp_suffix v \<noteq> [] \<and>
      same_data env s u \<and> replace_entry env params (state_dir v) (vp_name v) u = (r, t))"
proof -
  let ?s = "s\<lparr>mt_collecting := map_option (insert (rd_image params)) (mt_collecting s)\<rparr>"
  have same: "same_data env s ?s" by (simp add: same_data_def)
  show ?thesis
  proof (cases "cf_dirs (me_config env) (vp_key v)")
    case None
    then show ?thesis using assms(2) same by (auto simp: start_replace_def v)
  next
    case (Some cfg)
    show ?thesis
    proof (cases "vp_level v = num_levels cfg \<and> \<not> append_only cfg")
      case False
      then show ?thesis using assms(2) same Some by (auto simp: start_replace_def v Let_def split: if_splits)
    next
      case True
      then have "with_valid_keys env v (replace_sig_data params) (rd_signatures params) cfg
          (replace_entry env params) ?s = (r, t)"
        using assms(2) Some by (simp add: start_replace_def v)
      from with_valid_keys_run [OF assms(1) this Some] True same_data_trans [OF same] show ?thesis
        by blast
    qed
  qed
qed

text \<open>
  The contract of an upload handler: an upload that changes anything is authorised, an answer
  refines the specification, and other paths are left alone. Both handlers satisfy it, and what
  follows from it is proved once.
\<close>

locale upload_handler =
  fixes handler :: "('s, 'b, 'm, 'i) meta_env \<Rightarrow> 'p \<Rightarrow> ('s meta, upload, meta_error) io"
    and path_of :: "'p \<Rightarrow> vpath"
    and image_of :: "'p \<Rightarrow> image_id"
    and signed :: "'p \<Rightarrow> (sig_data, unit) result"
    and signatures_of :: "'p \<Rightarrow> signature list"
    and spec :: "'p \<Rightarrow> path_view \<Rightarrow> upload \<times> path_view"
  assumes changes_authorised:
      "posix_dirs (me_oa env) \<Longrightarrow> handler env p s = (r, t) \<Longrightarrow>
         (\<forall>a. r \<noteq> Ok (Accepted a)) \<and> same_data env s t \<or>
         (\<exists>cfg. authorised env (path_of p) (signed p) (signatures_of p) cfg)"
    and refines:
      "posix_dirs (me_oa env) \<Longrightarrow> state_codec env \<Longrightarrow> handler env p s = (Ok u, t) \<Longrightarrow>
         (\<forall>a. u \<noteq> Accepted a) \<and> same_data env s t \<or>
         (u, path_view env t (path_of p)) = spec p (path_view env s (path_of p))"
    and touches:
      "posix_dirs (me_oa env) \<Longrightarrow> handler env p s = (r, t) \<Longrightarrow> only_at env (path_of p) s t"
    and spec_new:
      "spec p v = (Accepted New, w) \<Longrightarrow>
         pv_writing v = None \<and> (\<exists>wr. pv_writing w = Some wr \<and> wr_image wr = image_of p)"
    and spec_progress:
      "spec p v = (Accepted InProgress, w) \<Longrightarrow> \<exists>wr. pv_writing v = Some wr \<and> wr_image wr = image_of p"
    and spec_already:
      "spec p v = (Accepted AlreadyDone, w) \<Longrightarrow>
         pv_writing v = None \<and> (\<exists>st. pv_done v = Some (Some st) \<and> st_image st = image_of p)"
begin

lemma accepted_authorised:
  "posix_dirs (me_oa env) \<Longrightarrow> handler env p s = (Ok (Accepted a), t) \<Longrightarrow>
     \<exists>cfg. authorised env (path_of p) (signed p) (signatures_of p) cfg"
  using changes_authorised by blast

lemma accepted_spec:
  "posix_dirs (me_oa env) \<Longrightarrow> state_codec env \<Longrightarrow> handler env p s = (Ok (Accepted a), t) \<Longrightarrow>
     (Accepted a, path_view env t (path_of p)) = spec p (path_view env s (path_of p))"
  using refines by blast

text \<open>An accepted upload never runs beside an upload of another image to the same path.\<close>

lemma accepted_no_conflict:
  assumes "posix_dirs (me_oa env)" "state_codec env" "handler env p s = (Ok (Accepted a), t)"
    and wr: "mt_writing s (path_of p) = Some wr"
  shows "wr_image wr = image_of p"
proof -
  have v: "pv_writing (path_view env s (path_of p)) = Some wr" by (simp add: path_view_def wr)
  have run: "spec p (path_view env s (path_of p)) = (Accepted a, path_view env t (path_of p))"
    using accepted_spec [OF assms(1-3)] by simp
  show ?thesis
  proof (cases a)
    case New
    with spec_new run v show ?thesis by fastforce
  next
    case InProgress
    with spec_progress run v show ?thesis by fastforce
  next
    case AlreadyDone
    with spec_already run v show ?thesis by fastforce
  qed
qed

lemma unauthorised_refused:
  assumes "posix_dirs (me_oa env)" "handler env p s = (r, t)"
    and "\<nexists>cfg. authorised env (path_of p) (signed p) (signatures_of p) cfg"
  shows "same_data env s t \<and> (\<forall>a. r \<noteq> Ok (Accepted a))"
  using changes_authorised assms by blast

lemma other_paths:
  "posix_dirs (me_oa env) \<Longrightarrow> handler env p s = (r, t) \<Longrightarrow> plain_path (path_of p) \<Longrightarrow> plain_path w \<Longrightarrow>
     same_shape (path_of p) w \<Longrightarrow> w \<noteq> path_of p \<Longrightarrow> path_view env t w = path_view env s w"
  using touches only_at_other by blast

end

lemma spec_accepted_cases:
  "spec_begin img sigs rp p = (u, w) \<Longrightarrow> u = Accepted New \<and> pv_writing w = Some \<lparr>wr_image = img, wr_signatures = sigs, wr_replacing = rp\<rparr>"
  "spec_continue old sigs p = (u, w) \<Longrightarrow> u = Accepted InProgress"
  "spec_done st sigs p = (u, w) \<Longrightarrow> u = Accepted AlreadyDone"
  by (auto simp: spec_begin_def spec_continue_def spec_done_def Let_def)

definition append_spec :: "append_dir \<Rightarrow> path_view \<Rightarrow> upload \<times> path_view" where
  "append_spec params = spec_append (ad_image params)
     (signature_entries (ad_timestamp params) (ad_signatures params))"

definition replace_spec :: "replace_dir \<Rightarrow> path_view \<Rightarrow> upload \<times> path_view" where
  "replace_spec params = spec_replace (rd_image params) (rd_old_image params)
     (signature_entries (rd_timestamp params) (rd_signatures params))"

interpretation append_handler: upload_handler start_append ad_path ad_image append_sig_data ad_signatures append_spec
proof unfold_locales
  fix env :: "('a, 'b, 'c, 'd) meta_env" and p s r t
  assume "posix_dirs (me_oa env)" "start_append env p s = (r, t)"
  note run = start_append_run [OF this refl]
  show "(\<forall>a. r \<noteq> Ok (Accepted a)) \<and> same_data env s t \<or>
      (\<exists>cfg. authorised env (ad_path p) (append_sig_data p) (ad_signatures p) cfg)"
    using run by blast
  show "only_at env (ad_path p) s t"
    using run local_opD [OF append_entry_local [OF \<open>posix_dirs (me_oa env)\<close> refl]]
      only_at_same_data only_at_trans by blast
next
  fix env :: "('a, 'b, 'c, 'd) meta_env" and p s u t
  assume a: "posix_dirs (me_oa env)" "state_codec env" "start_append env p s = (Ok u, t)"
  from start_append_run [OF a(1,3) refl]
  show "(\<forall>a. u \<noteq> Accepted a) \<and> same_data env s t \<or>
      (u, path_view env t (ad_path p)) = append_spec p (path_view env s (ad_path p))"
    using append_entry_spec [OF a(1,2) refl] same_data_view unfolding append_spec_def by (metis result.inject(1))
next
  fix p v w
  show "append_spec p v = (Accepted New, w) \<Longrightarrow>
      pv_writing v = None \<and> (\<exists>wr. pv_writing w = Some wr \<and> wr_image wr = ad_image p)"
    by (auto simp: append_spec_def spec_append_def split: option.splits if_splits dest: spec_accepted_cases)
  show "append_spec p v = (Accepted InProgress, w) \<Longrightarrow> \<exists>wr. pv_writing v = Some wr \<and> wr_image wr = ad_image p"
    by (auto simp: append_spec_def spec_append_def split: option.splits if_splits dest: spec_accepted_cases)
  show "append_spec p v = (Accepted AlreadyDone, w) \<Longrightarrow>
      pv_writing v = None \<and> (\<exists>st. pv_done v = Some (Some st) \<and> st_image st = ad_image p)"
    by (auto simp: append_spec_def spec_append_def split: option.splits if_splits dest: spec_accepted_cases)
qed

interpretation replace_handler: upload_handler start_replace rd_path rd_image replace_sig_data rd_signatures replace_spec
proof unfold_locales
  fix env :: "('a, 'b, 'c, 'd) meta_env" and p s r t
  assume "posix_dirs (me_oa env)" "start_replace env p s = (r, t)"
  note run = start_replace_run [OF this refl]
  show "(\<forall>a. r \<noteq> Ok (Accepted a)) \<and> same_data env s t \<or>
      (\<exists>cfg. authorised env (rd_path p) (replace_sig_data p) (rd_signatures p) cfg)"
    using run by blast
  show "only_at env (rd_path p) s t"
    using run local_opD [OF replace_entry_local [OF \<open>posix_dirs (me_oa env)\<close> refl]]
      only_at_same_data only_at_trans by blast
next
  fix env :: "('a, 'b, 'c, 'd) meta_env" and p s u t
  assume a: "posix_dirs (me_oa env)" "state_codec env" "start_replace env p s = (Ok u, t)"
  from start_replace_run [OF a(1,3) refl]
  show "(\<forall>a. u \<noteq> Accepted a) \<and> same_data env s t \<or>
      (u, path_view env t (rd_path p)) = replace_spec p (path_view env s (rd_path p))"
    using replace_entry_spec [OF a(1,2) refl] same_data_view unfolding replace_spec_def by (metis result.inject(1))
next
  fix p v w
  show "replace_spec p v = (Accepted New, w) \<Longrightarrow>
      pv_writing v = None \<and> (\<exists>wr. pv_writing w = Some wr \<and> wr_image wr = rd_image p)"
    by (auto simp: replace_spec_def spec_replace_def split: option.splits if_splits dest: spec_accepted_cases)
  show "replace_spec p v = (Accepted InProgress, w) \<Longrightarrow> \<exists>wr. pv_writing v = Some wr \<and> wr_image wr = rd_image p"
    by (auto simp: replace_spec_def spec_replace_def split: option.splits if_splits dest: spec_accepted_cases)
  show "replace_spec p v = (Accepted AlreadyDone, w) \<Longrightarrow>
      pv_writing v = None \<and> (\<exists>st. pv_done v = Some (Some st) \<and> st_image st = rd_image p)"
    by (auto simp: replace_spec_def spec_replace_def split: option.splits if_splits dest: spec_accepted_cases)
qed

end
