(* ===== verification/Index_Gc.thy ===== *)
theory Index_Gc
  imports Metadata_Lifecycle
begin

text \<open>
  The collection of unused indexes (\<^verbatim>\<open>src/daemon/metadata/index_gc.rs\<close> and \<^verbatim>\<open>Meta::index_gc\<close>): mark
  the images of all uploads in progress and of all state files, then delete every index whose
  image is not marked. The sleeps between files are left out; the collection is one step here.
\<close>

section \<open>Marking\<close>

definition collect_file ::
  "('s, 'b, 'm, 'i) meta_env \<Rightarrow> dpath \<Rightarrow> string \<Rightarrow> ('s meta, unit, meta_error) io" where
  "collect_file env d name =
     bind_io (read_state env d name) (\<lambda>read.
       case read of
         Some st \<Rightarrow> mark_used (st_image st)
       | None \<Rightarrow> ret (Ok ()))"

definition collect_dir ::
  "('s, 'b, 'm, 'i) meta_env \<Rightarrow> dpath \<Rightarrow> ('s meta, unit, meta_error) io" where
  "collect_dir env d =
     bind_io (lift_fs (list_files (me_oa env) ''.state'' d)) (\<lambda>names. for_io names (collect_file env d))"

definition gc_leaf :: "('s, 'b, 'm, 'i) meta_env \<Rightarrow> vpath \<Rightarrow> ('s meta, unit, meta_error) io" where
  "gc_leaf env v =
     bind_io (meta_signatures env) (\<lambda>root.
     bind_io (attempt (lift_fs (open_vpath (me_oa env) root v))) (\<lambda>opened.
     case opened of
       Ok d \<Rightarrow> collect_dir env d
     | Err (Open _ NotFound) \<Rightarrow> ret (Ok ())
     | Err e \<Rightarrow> ret (Err e)
     | Panic \<Rightarrow> ret Panic))"

fun gc_scan_dir ::
  "('s, 'b, 'm, 'i) meta_env \<Rightarrow> dpath \<Rightarrow> vpath \<Rightarrow> nat \<Rightarrow> ('s meta, unit, meta_error) io" where
  "gc_scan_dir env d v 0 = gc_leaf env v"
| "gc_scan_dir env d v (Suc n) =
     (if n = 0 then gc_leaf env v
      else
        bind_io (lift_fs (list_dirs (me_oa env) d)) (\<lambda>items.
        for_io items (\<lambda>item.
          bind_io (lift_fs (dir_if_exists (me_oa env) d item)) (\<lambda>sub.
          case sub of
            Some sub_dir \<Rightarrow> gc_scan_dir env sub_dir (vp_child v item) n
          | None \<Rightarrow> ret (Ok ())))))"

definition gc_scan_root ::
  "('s, 'b, 'm, 'i) meta_env \<Rightarrow> dpath \<Rightarrow> string \<Rightarrow> ('s meta, unit, meta_error) io" where
  "gc_scan_root env root key =
     (case cf_dirs (me_config env) key of
        None \<Rightarrow> ret (Ok ())
      | Some cfg \<Rightarrow>
          bind_io (lift_fs (dir_if_exists (me_oa env) root key)) (\<lambda>sub.
          case sub of
            Some d \<Rightarrow> gc_scan_dir env d (VPath key []) (num_levels cfg)
          | None \<Rightarrow> ret (Ok ())))"

definition gc_scan :: "('s, 'b, 'm, 'i) meta_env \<Rightarrow> ('s meta, unit, meta_error) io" where
  "gc_scan env =
     bind_io (meta_signatures env) (\<lambda>root. for_io (me_dirs_order env) (gc_scan_root env root))"

section \<open>Sweeping\<close>

definition gc_sweep_file ::
  "('s, 'b, 'm, 'i) meta_env \<Rightarrow> dpath \<Rightarrow> string \<Rightarrow> ('s meta, unit, meta_error) io" where
  "gc_sweep_file env d file_name =
     (case image_from_str (me_from_hex env) (cut 4 file_name) of
        Ok image_id \<Rightarrow>
          (\<lambda>s. case mt_collecting s of
             None \<Rightarrow> (Err IndexGcInterrupted, s)
           | Some marked \<Rightarrow>
               if image_id \<in> marked then (Ok (), s)
               else logged (lift_fs (remove_file (me_oa env) d file_name)) s)
      | _ \<Rightarrow> ret (Ok ()))"

definition gc_sweep :: "('s, 'b, 'm, 'i) meta_env \<Rightarrow> ('s meta, unit, meta_error) io" where
  "gc_sweep env =
     bind_io (meta_indexes env) (\<lambda>root.
     bind_io (lift_fs (list_dirs (me_oa env) root)) (\<lambda>prefixes.
     for_io prefixes (\<lambda>prefix.
       bind_io (lift_fs (dir_if_exists (me_oa env) root prefix)) (\<lambda>sub.
       case sub of
         Some sub_dir \<Rightarrow>
           bind_io (lift_fs (list_files (me_oa env) ''.ds1'' sub_dir)) (\<lambda>files.
             for_io files (gc_sweep_file env sub_dir))
       | None \<Rightarrow> ret (Ok ())))))"

definition full_collection :: "('s, 'b, 'm, 'i) meta_env \<Rightarrow> ('s meta, unit, meta_error) io" where
  "full_collection env = bind_io (gc_scan env) (\<lambda>_. gc_sweep env)"

definition index_gc :: "('s, 'b, 'm, 'i) meta_env \<Rightarrow> ('s meta, unit, meta_error) io" where
  "index_gc env = (\<lambda>s.
     full_collection env (s\<lparr>mt_collecting := Some (wr_image ` ran (mt_writing s))\<rparr>))"

section \<open>Marks are never lost\<close>

definition marked :: "image_id \<Rightarrow> 's meta \<Rightarrow> bool" where
  "marked img s \<longleftrightarrow> (\<exists>m. mt_collecting s = Some m \<and> img \<in> m)"

lemma keeps_marked_lift [keeps_rules]: "keeps (marked img) (lift_fs m)"
  by (auto simp: keeps_def lift_fs_def marked_def split: prod.splits)

lemma keeps_marked_mark_used [keeps_rules]: "keeps (marked img) (mark_used i)"
  by (auto simp: keeps_def marked_def)

lemma keeps_marked_signatures [keeps_rules]: "keeps (marked img) (meta_signatures env)"
  unfolding meta_signatures_def by (intro keeps_rules)

lemma keeps_marked_indexes [keeps_rules]: "keeps (marked img) (meta_indexes env)"
  unfolding meta_indexes_def by (intro keeps_rules)

lemma keeps_marked_read_state [keeps_rules]: "keeps (marked img) (read_state env d n)"
  unfolding read_state_def by (intro keeps_rules)

lemma keeps_attempt [keeps_rules]: "keeps P m \<Longrightarrow> keeps P (attempt m)"
  unfolding keeps_def attempt_def by (auto split: prod.splits result.splits)

lemma keeps_marked_collect_file [keeps_rules]: "keeps (marked img) (collect_file env d n)"
  unfolding collect_file_def by (intro keeps_rules) (auto split: option.splits intro: keeps_rules)

lemma keeps_marked_collect_dir [keeps_rules]: "keeps (marked img) (collect_dir env d)"
  unfolding collect_dir_def by (intro keeps_rules)

lemma keeps_marked_leaf [keeps_rules]: "keeps (marked img) (gc_leaf env v)"
  unfolding gc_leaf_def
  by (intro keeps_rules) (auto split: result.splits meta_error.splits io_kind.splits intro: keeps_rules)

lemma keeps_marked_scan_dir [keeps_rules]: "keeps (marked img) (gc_scan_dir env d v n)"
proof (induction n arbitrary: d v)
  case (Suc n)
  then show ?case by (auto split: option.splits intro!: keeps_rules)
qed (simp add: keeps_rules)

lemma keeps_marked_scan_root [keeps_rules]: "keeps (marked img) (gc_scan_root env root key)"
  unfolding gc_scan_root_def by (auto split: option.splits intro!: keeps_rules)

section \<open>Marking changes no file\<close>

lemma quiet_attempt [quiet_rules]: "quiet env m \<Longrightarrow> quiet env (attempt m)"
  unfolding quiet_def attempt_def by (auto split: prod.splits result.splits) (metis snd_conv)+

lemma quiet_for [quiet_rules]: "(\<And>x. quiet env (f x)) \<Longrightarrow> quiet env (for_io xs f)"
  by (induction xs) (auto intro: quiet_rules)

lemma quiet_collect_file [quiet_rules]: "quiet env (collect_file env d n)"
  unfolding collect_file_def by (intro quiet_rules) (auto split: option.splits intro: quiet_rules)

lemma quiet_collect_dir [quiet_rules]: "quiet env (collect_dir env d)"
  unfolding collect_dir_def by (intro quiet_rules reads_only_rules)

lemma quiet_leaf [quiet_rules]: "posix_dirs (me_oa env) \<Longrightarrow> quiet env (gc_leaf env v)"
  unfolding gc_leaf_def
  by (intro quiet_rules reads_only_rules)
    (auto split: result.splits meta_error.splits io_kind.splits intro: quiet_rules)

lemma quiet_scan_dir [quiet_rules]: "posix_dirs (me_oa env) \<Longrightarrow> quiet env (gc_scan_dir env d v n)"
proof (induction n arbitrary: d v)
  case (Suc n)
  then show ?case by (auto split: option.splits intro!: quiet_rules reads_only_rules)
qed (simp add: quiet_rules)

lemma quiet_scan_root [quiet_rules]: "posix_dirs (me_oa env) \<Longrightarrow> quiet env (gc_scan_root env root key)"
  unfolding gc_scan_root_def by (auto split: option.splits intro!: quiet_rules reads_only_rules)

lemma quiet_gc_scan [quiet_rules]: "posix_dirs (me_oa env) \<Longrightarrow> quiet env (gc_scan env)"
  unfolding gc_scan_def by (intro quiet_rules)

section \<open>Every state file is marked\<close>

text \<open>A state file that a listing shows.\<close>

definition has_state :: "('s, 'b, 'm, 'i) meta_env \<Rightarrow> dpath \<Rightarrow> string \<Rightarrow> image_id \<Rightarrow> 's meta \<Rightarrow> bool" where
  "has_state env d f img s \<longleftrightarrow> \<not> starts_with f ''.'' \<and> ends_with f ''.state'' \<and>
     (\<exists>st. slot_at env s d f = Some (Some st) \<and> st_image st = img)"

lemma quiet_keeps_has_state: "quiet env m \<Longrightarrow> keeps (has_state env d f img) m"
  unfolding keeps_def has_state_def by (metis prod.collapse quiet_same_data same_data_slot)

lemma has_state_open:
  "has_state env d f img s \<Longrightarrow> \<exists>b. oa_open_file (me_oa env) (mt_fs s) d f = Inr b"
  by (auto simp: has_state_def slot_at_def file_slot_state)

definition collecting :: "'s meta \<Rightarrow> bool" where
  "collecting s \<longleftrightarrow> mt_collecting s \<noteq> None"

lemma keeps_collecting_lift [keeps_rules]: "keeps collecting (lift_fs m)"
  by (auto simp: keeps_def lift_fs_def collecting_def split: prod.splits)

lemma keeps_collecting_mark_used [keeps_rules]: "keeps collecting (mark_used i)"
  by (auto simp: keeps_def collecting_def)

lemma keeps_collecting_signatures [keeps_rules]: "keeps collecting (meta_signatures env)"
  unfolding meta_signatures_def by (intro keeps_rules)

lemma keeps_collecting_collect_file [keeps_rules]: "keeps collecting (collect_file env d n)"
  unfolding collect_file_def read_state_def
  by (intro keeps_rules) (auto split: option.splits intro: keeps_rules)

lemma keeps_collecting_leaf [keeps_rules]: "keeps collecting (gc_leaf env v)"
  unfolding gc_leaf_def collect_dir_def
  by (intro keeps_rules) (auto split: result.splits meta_error.splits io_kind.splits intro!: keeps_rules)

lemma keeps_collecting_scan_dir [keeps_rules]: "keeps collecting (gc_scan_dir env d v n)"
proof (induction n arbitrary: d v)
  case (Suc n)
  then show ?case by (auto split: option.splits intro!: keeps_rules)
qed (simp add: keeps_rules)

lemma keeps_collecting_scan_root [keeps_rules]: "keeps collecting (gc_scan_root env root key)"
  unfolding gc_scan_root_def by (auto split: option.splits intro!: keeps_rules)

text \<open>What the marking of one thing starts from: the file is there and a collection runs.\<close>

definition to_mark :: "('s, 'b, 'm, 'i) meta_env \<Rightarrow> dpath \<Rightarrow> string \<Rightarrow> image_id \<Rightarrow> 's meta \<Rightarrow> bool" where
  "to_mark env d f img s \<longleftrightarrow> has_state env d f img s \<and> collecting s"

lemma keeps_to_mark: "quiet env m \<Longrightarrow> keeps collecting m \<Longrightarrow> keeps (to_mark env d f img) m"
  using quiet_keeps_has_state unfolding to_mark_def keeps_def by blast

lemma keeps_to_mark_run:
  "quiet env m \<Longrightarrow> keeps collecting m \<Longrightarrow> to_mark env d f img s \<Longrightarrow> m s = (r, t) \<Longrightarrow> to_mark env d f img t"
  using keeps_to_mark keepsD by metis

lemma collect_file_marks:
  assumes "to_mark env d f img s" "collect_file env d f s = (Ok (), t)"
  shows "marked img t"
proof -
  obtain st u where st: "read_state env d f s = (Ok st, u)"
    and k: "(case st of Some st \<Rightarrow> mark_used (st_image st) | None \<Rightarrow> ret (Ok ())) u = (Ok (), t)"
    using assms(2) by (auto simp: collect_file_def bind_io_Ok_iff)
  from read_state_slot [OF st] assms(1) obtain st' where "st = Some st'" "st_image st' = img" "u = s"
    by (auto simp: to_mark_def has_state_def)
  then show ?thesis using k assms(1) by (auto simp: marked_def to_mark_def collecting_def)
qed

lemma collect_dir_marks:
  assumes "lists_all (me_oa env)" "to_mark env d f img s" "collect_dir env d s = (Ok (), t)"
  shows "marked img t"
proof -
  obtain names u where n: "lift_fs (list_files (me_oa env) ''.state'' d) s = (Ok names, u)"
    and k: "for_io names (collect_file env d) u = (Ok (), t)"
    using assms(3) by (auto simp: collect_dir_def bind_io_Ok_iff)
  have u: "u = s" by (rule lift_reads_eq [OF reads_only_dir_ops(7) n])
  have f: "f \<in> set names"
    using n assms(1,2) has_state_open list_files_complete
    unfolding to_mark_def has_state_def lift_fs_eq by metis
  show ?thesis
    using k f assms(2) unfolding u
    by (rule for_io_establish [where I = "to_mark env d f img" and Q = "marked img"])
      (auto intro: keeps_to_mark quiet_rules keeps_rules collect_file_marks)
qed

lemma open_names_not_found:
  "posix_dirs oa \<Longrightarrow> open_names oa d ns s = (Err (Open p NotFound), t) \<Longrightarrow>
     oa_open_file oa s (d @ ns) m = Inl NotFound"
proof (induction ns arbitrary: d)
  case (Cons n ns)
  show ?case
  proof (cases "oa_sub_dir oa s d n")
    case None
    then have "open_names oa (d @ [n]) ns s = (Err (Open p NotFound), t)"
      using Cons.prems(2) by (simp add: sub_dir_or_def bind_io_def)
    from Cons.IH [OF Cons.prems(1) this] show ?thesis by simp
  next
    case (Some e)
    then have "e = NotFound" using Cons.prems(2) by (simp add: sub_dir_or_def bind_io_def)
    then show ?thesis using Some Cons.prems(1) by (simp add: posix_sub_dir)
  qed
qed simp

lemma meta_signatures_handle: "meta_signatures env s = (Ok d, t) \<Longrightarrow> d = [''signatures'']"
  using ensure_dir_handle [of "me_oa env" "[]" "[''signatures'']"]
  by (auto simp: meta_signatures_def lift_fs_eq)

definition vpath_dir :: "vpath \<Rightarrow> dpath" where
  "vpath_dir v = ''signatures'' # vp_key v # vp_suffix v"

lemma gc_leaf_marks:
  assumes "posix_dirs (me_oa env)" "lists_all (me_oa env)"
    and mark: "to_mark env (vpath_dir v) f img s" and run: "gc_leaf env v s = (Ok (), t)"
  shows "marked img t"
proof -
  obtain root u where r: "meta_signatures env s = (Ok root, u)"
    using run by (auto simp: gc_leaf_def bind_io_Ok_iff)
  have root: "root = [''signatures'']" using meta_signatures_handle [OF r] .
  have mu: "to_mark env (vpath_dir v) f img u"
    using keeps_to_mark_run [OF quiet_meta_signatures [OF assms(1)] keeps_collecting_signatures mark r] .
  obtain x w where x: "open_names (me_oa env) root (vp_key v # vp_suffix v) (mt_fs u) = (x, w)" by fastforce
  have w: "w = mt_fs u" using reads_only_open_names x by (rule reads_only_eq)
  then have at: "attempt (lift_fs (open_vpath (me_oa env) root v)) u =
      (case x of Panic \<Rightarrow> (Panic, u) | r \<Rightarrow> (Ok r, u))"
    using x by (simp add: attempt_def lift_fs_def open_vpath_def)
  show ?thesis
  proof (cases x)
    case (Ok d)
    then have "d = vpath_dir v" using open_names_handle x root by (fastforce simp: vpath_dir_def)
    then have "collect_dir env (vpath_dir v) u = (Ok (), t)"
      using run r at Ok by (simp add: gc_leaf_def)
    with assms(2) mu show ?thesis by (rule collect_dir_marks)
  next
    case (Err e)
    then obtain p where "e = Open p NotFound"
      using run r at
      by (cases e) (auto simp: gc_leaf_def split: io_kind.splits)
    then have "oa_open_file (me_oa env) (mt_fs u) (root @ vp_key v # vp_suffix v) f = Inl NotFound"
      using open_names_not_found [OF assms(1)] x Err by blast
    moreover obtain b where "oa_open_file (me_oa env) (mt_fs u) (vpath_dir v) f = Inr b"
      using mu has_state_open unfolding to_mark_def by blast
    ultimately show ?thesis by (simp add: root vpath_dir_def)
  next
    case Panic
    then show ?thesis using run r at by (simp add: gc_leaf_def)
  qed
qed

lemma gc_scan_dir_marks:
  assumes "posix_dirs (me_oa env)" "lists_all (me_oa env)"
  shows "to_mark env (vpath_dir v @ ns) f img s \<Longrightarrow> length ns = n - 1 \<Longrightarrow> d = vpath_dir v \<Longrightarrow>
    gc_scan_dir env d v n s = (Ok (), t) \<Longrightarrow> marked img t"
proof (induction n arbitrary: d v ns s t)
  case 0
  then show ?case using gc_leaf_marks [OF assms] by simp
next
  case (Suc n)
  show ?case
  proof (cases "n = 0")
    case True
    then show ?thesis using Suc.prems gc_leaf_marks [OF assms] by simp
  next
    case False
    then obtain x ms where ns: "ns = x # ms" "length ms = n - 1"
      using Suc.prems(2) by (cases ns) auto
    let ?body = "\<lambda>item. bind_io (lift_fs (dir_if_exists (me_oa env) d item))
      (\<lambda>sub. case sub of Some sub_dir \<Rightarrow> gc_scan_dir env sub_dir (vp_child v item) n | None \<Rightarrow> ret (Ok ()))"
    obtain items u where items: "lift_fs (list_dirs (me_oa env) d) s = (Ok items, u)"
      and loop: "for_io items ?body u = (Ok (), t)"
      using Suc.prems(4) False by (auto simp: bind_io_Ok_iff)
    have u: "u = s" by (rule lift_reads_eq [OF reads_only_dir_ops(6) items])
    obtain b where b: "oa_open_file (me_oa env) (mt_fs s) (d @ x # ms) f = Inr b"
      using Suc.prems(1,3) ns has_state_open unfolding to_mark_def by blast
    have x: "x \<in> set items"
      using items list_dirs_complete [OF assms(2) _ b] by (auto simp: lift_fs_eq)
    have est: "marked img u'" if m: "to_mark env (vpath_dir v @ ns) f img w" and run: "?body x w = (Ok (), u')" for w u'
    proof -
      obtain sub w' where sub: "lift_fs (dir_if_exists (me_oa env) d x) w = (Ok sub, w')"
        and k: "(case sub of Some sub_dir \<Rightarrow> gc_scan_dir env sub_dir (vp_child v x) n | None \<Rightarrow> ret (Ok ())) w' = (Ok (), u')"
        using run by (auto simp: bind_io_Ok_iff)
      have w': "w' = w" by (rule lift_reads_eq [OF reads_only_dir_ops(2) sub])
      obtain b' where b': "oa_open_file (me_oa env) (mt_fs w) (d @ x # ms) f = Inr b'"
        using m Suc.prems(3) ns has_state_open unfolding to_mark_def by blast
      have "oa_sub_dir (me_oa env) (mt_fs w) d x \<noteq> Some NotFound"
        using posix_sub_dir [OF assms(1)] b' by (metis sum.distinct(1))
      then have "sub = Some (d @ [x])"
        using sub by (auto simp: lift_fs_eq dir_if_exists_def split: if_splits option.splits io_kind.splits)
      then have run': "gc_scan_dir env (d @ [x]) (vp_child v x) n w = (Ok (), u')" using k w' by simp
      have vd: "vpath_dir (vp_child v x) = d @ [x]"
        using Suc.prems(3) by (simp add: vpath_dir_def vp_child_def)
      show ?thesis
        by (rule Suc.IH [OF _ ns(2) vd [symmetric] run']) (use m vd Suc.prems(3) ns in simp)
    qed
    show ?thesis
      using loop x Suc.prems(1) unfolding u
      by (rule for_io_establish [where I = "to_mark env (vpath_dir v @ ns) f img" and Q = "marked img"])
        (auto split: option.splits intro!: keeps_to_mark quiet_rules reads_only_rules keeps_rules est assms(1))
  qed
qed

lemma gc_scan_root_marks:
  assumes fs: "posix_dirs (me_oa env)" and ls: "lists_all (me_oa env)"
    and cfg: "cf_dirs (me_config env) key = Some cfg" and len: "length ns = num_levels cfg - 1"
    and m: "to_mark env (''signatures'' # key # ns) f img s"
    and run: "gc_scan_root env [''signatures''] key s = (Ok (), t)"
  shows "marked img t"
proof -
  obtain sub u where sub: "lift_fs (dir_if_exists (me_oa env) [''signatures''] key) s = (Ok sub, u)"
    and k: "(case sub of Some d \<Rightarrow> gc_scan_dir env d (VPath key []) (num_levels cfg) | None \<Rightarrow> ret (Ok ())) u = (Ok (), t)"
    using run cfg by (auto simp: gc_scan_root_def bind_io_Ok_iff)
  have u: "u = s" by (rule lift_reads_eq [OF reads_only_dir_ops(2) sub])
  obtain b where "oa_open_file (me_oa env) (mt_fs s) ([''signatures''] @ key # ns) f = Inr b"
    using m has_state_open unfolding to_mark_def by fastforce
  then have "oa_sub_dir (me_oa env) (mt_fs s) [''signatures''] key \<noteq> Some NotFound"
    using posix_sub_dir [OF fs] by (metis sum.distinct(1))
  then have "sub = Some [''signatures'', key]"
    using sub by (auto simp: lift_fs_eq dir_if_exists_def split: if_splits option.splits io_kind.splits)
  then have "gc_scan_dir env [''signatures'', key] (VPath key []) (num_levels cfg) s = (Ok (), t)"
    using k u by simp
  then show ?thesis
    by (rule gc_scan_dir_marks [OF fs ls _ len, rotated 2]) (use m in \<open>simp_all add: vpath_dir_def\<close>)
qed

lemma gc_scan_marks:
  assumes fs: "posix_dirs (me_oa env)" and ls: "lists_all (me_oa env)"
    and cfg: "cf_dirs (me_config env) key = Some cfg" and key: "key \<in> set (me_dirs_order env)"
    and len: "length ns = num_levels cfg - 1"
    and m: "to_mark env (''signatures'' # key # ns) f img s" and run: "gc_scan env s = (Ok (), t)"
  shows "marked img t"
proof -
  obtain root u where r: "meta_signatures env s = (Ok root, u)"
    and loop: "for_io (me_dirs_order env) (gc_scan_root env root) u = (Ok (), t)"
    using run by (auto simp: gc_scan_def bind_io_Ok_iff)
  have root: "root = [''signatures'']" using meta_signatures_handle [OF r] .
  have mu: "to_mark env (''signatures'' # key # ns) f img u"
    using keeps_to_mark_run [OF quiet_meta_signatures [OF fs] keeps_collecting_signatures m r] .
  show ?thesis
    using loop key mu unfolding root
    by (rule for_io_establish [where I = "to_mark env (''signatures'' # key # ns) f img" and Q = "marked img"])
      (auto intro!: keeps_to_mark quiet_rules keeps_rules fs gc_scan_root_marks [OF fs ls cfg len])
qed

section \<open>Sweeping spares what is marked\<close>

definition kept :: "('s, 'b, 'm, 'i) meta_env \<Rightarrow> image_id \<Rightarrow> dpath \<Rightarrow> io_kind + 'b \<Rightarrow> 's meta \<Rightarrow> bool" where
  "kept env img d v s \<longleftrightarrow> marked img s \<and> oa_open_file (me_oa env) (mt_fs s) d (index_file env img) = v"

lemma quiet_keeps_kept: "quiet env m \<Longrightarrow> keeps (marked img) m \<Longrightarrow> keeps (kept env img d v) m"
  unfolding keeps_def kept_def quiet_def by metis

lemma cut_append [simp]: "length t = n \<Longrightarrow> cut n (s @ t) = s"
  by (simp add: cut_def)

lemma gc_sweep_file_keeps:
  assumes "posix_dirs (me_oa env)" "hex_codec (me_to_hex env) (me_from_hex env)" "image_ok img"
  shows "keeps (kept env img d v) (gc_sweep_file env d' file)"
  unfolding keeps_def
proof (intro allI impI)
  fix s assume k: "kept env img d v s"
  show "kept env img d v (snd (gc_sweep_file env d' file s))"
  proof (cases "(d', file) = (d, index_file env img)")
    case True
    then have "image_from_str (me_from_hex env) (cut 4 file) = Ok img"
      using image_str_roundtrip [OF assms(2,3)] by (simp add: index_file_def)
    then show ?thesis using k by (auto simp: gc_sweep_file_def kept_def marked_def)
  next
    case False
    obtain r u where u: "remove_file (me_oa env) d' file (mt_fs s) = (r, u)" by fastforce
    have "oa_open_file (me_oa env) u d (index_file env img) = v"
      using remove_file_frame [OF assms(1) u] False k unfolding kept_def by metis
    then show ?thesis
      using k u by (auto simp: gc_sweep_file_def kept_def marked_def logged_def lift_fs_def
          split: result.splits option.splits)
  qed
qed

lemma gc_sweep_keeps:
  assumes "posix_dirs (me_oa env)" "hex_codec (me_to_hex env) (me_from_hex env)" "image_ok img"
  shows "keeps (kept env img d v) (gc_sweep env)"
proof -
  have lift: "keeps (kept env img d v) (lift_fs m)" if "reads_only m" for m :: "('a, 'x, meta_error) io"
    by (intro quiet_keeps_kept quiet_lift_reads keeps_marked_lift that)
  show ?thesis
    unfolding gc_sweep_def
    by (auto split: option.splits intro!: keeps_bind keeps_for keeps_ret gc_sweep_file_keeps [OF assms]
        lift reads_only_rules quiet_keeps_kept [OF quiet_meta_indexes [OF assms(1)] keeps_marked_indexes])
qed

text \<open>Sweeping stays inside the directory of indexes.\<close>

definition outside :: "('s, 'b, 'm, 'i) meta_env \<Rightarrow> dpath \<Rightarrow> string \<Rightarrow> io_kind + 'b \<Rightarrow> (vpath \<rightharpoonup> writing) \<Rightarrow> 's meta \<Rightarrow> bool" where
  "outside env d n v w s \<longleftrightarrow> oa_open_file (me_oa env) (mt_fs s) d n = v \<and> mt_writing s = w"

lemma quiet_keeps_outside: "quiet env m \<Longrightarrow> keeps (outside env d n v w) m"
  unfolding keeps_def outside_def quiet_def by metis

lemma meta_indexes_handle: "meta_indexes env s = (Ok d, t) \<Longrightarrow> d = [''indexes'']"
  using ensure_dir_handle [of "me_oa env" "[]" "[''indexes'']"]
  by (auto simp: meta_indexes_def lift_fs_eq)

lemma gc_sweep_file_outside:
  assumes "posix_dirs (me_oa env)" "d \<noteq> d'"
  shows "keeps (outside env d n v w) (gc_sweep_file env d' file)"
  unfolding keeps_def
proof (intro allI impI)
  fix s assume k: "outside env d n v w s"
  obtain r u where u: "remove_file (me_oa env) d' file (mt_fs s) = (r, u)" by fastforce
  have "oa_open_file (me_oa env) u d n = v"
    using remove_file_frame [OF assms(1) u] assms(2) k unfolding outside_def by fastforce
  then show "outside env d n v w (snd (gc_sweep_file env d' file s))"
    using k u by (auto simp: gc_sweep_file_def outside_def logged_def lift_fs_def
        split: result.splits option.splits)
qed

lemma dir_if_exists_handle: "lift_fs (dir_if_exists oa d n) s = (Ok (Some e), t) \<Longrightarrow> e = d @ [n]"
  by (auto simp: lift_fs_eq dir_if_exists_def split: if_splits option.splits io_kind.splits)

lemma gc_sweep_outside:
  assumes fs: "posix_dirs (me_oa env)" and d: "hd d \<noteq> ''indexes''"
  shows "keeps (outside env d n v w) (gc_sweep env)"
proof -
  have lift: "keeps (outside env d n v w) (lift_fs m)" if "reads_only m" for m :: "('a, 'x, meta_error) io"
    by (intro quiet_keeps_outside quiet_lift_reads that)
  have prefix: "keeps (outside env d n v w) (case sub of
      Some sub_dir \<Rightarrow> bind_io (lift_fs (list_files (me_oa env) ''.ds1'' sub_dir))
        (\<lambda>files. for_io files (gc_sweep_file env sub_dir))
    | None \<Rightarrow> ret (Ok ()))"
    if "lift_fs (dir_if_exists (me_oa env) [''indexes''] pre) s = (Ok sub, t)" for sub pre s t
  proof (cases sub)
    case (Some e)
    then have "e = [''indexes'', pre]" using that dir_if_exists_handle by fastforce
    then have "d \<noteq> e" using d by auto
    then show ?thesis
      using Some by (auto intro!: keeps_bind keeps_for lift reads_only_rules gc_sweep_file_outside [OF fs])
  qed (simp add: keeps_ret)
  show ?thesis
    unfolding gc_sweep_def
  proof (rule keeps_bind_post)
    show "keeps (outside env d n v w) (meta_indexes env)"
      by (intro quiet_keeps_outside quiet_meta_indexes fs)
  next
    fix root s t assume "meta_indexes env s = (Ok root, t)"
    then have "root = [''indexes'']" by (rule meta_indexes_handle)
    then show "keeps (outside env d n v w) (bind_io (lift_fs (list_dirs (me_oa env) root)) (\<lambda>prefixes.
       for_io prefixes (\<lambda>prefix. bind_io (lift_fs (dir_if_exists (me_oa env) root prefix)) (\<lambda>sub.
         case sub of
           Some sub_dir \<Rightarrow> bind_io (lift_fs (list_files (me_oa env) ''.ds1'' sub_dir))
             (\<lambda>files. for_io files (gc_sweep_file env sub_dir))
         | None \<Rightarrow> ret (Ok ())))))"
      by (auto intro!: keeps_bind keeps_for lift reads_only_rules keeps_bind_post [OF lift prefix])
  qed
qed

section \<open>Properties\<close>

definition referenced :: "('s, 'b, 'm, 'i) meta_env \<Rightarrow> 's meta \<Rightarrow> image_id \<Rightarrow> bool" where
  "referenced env s img \<longleftrightarrow>
     img \<in> wr_image ` ran (mt_writing s) \<or>
     (\<exists>key cfg ns f. cf_dirs (me_config env) key = Some cfg \<and> length ns = num_levels cfg - 1 \<and>
        has_state env (''signatures'' # key # ns) f img s)"

lemma index_gc_run:
  assumes "index_gc env s = (r, t)"
  shows "\<exists>x u. gc_scan env (s\<lparr>mt_collecting := Some (wr_image ` ran (mt_writing s))\<rparr>) = (x, u) \<and>
    (x \<noteq> Ok () \<and> t = u \<or> x = Ok () \<and> gc_sweep env u = (r, t))"
proof -
  obtain x u where "gc_scan env (s\<lparr>mt_collecting := Some (wr_image ` ran (mt_writing s))\<rparr>) = (x, u)"
    by fastforce
  then show ?thesis
    using assms by (cases x) (auto simp: index_gc_def full_collection_def)
qed

lemma keeps_marked_gc_scan: "keeps (marked img) (gc_scan env)"
  unfolding gc_scan_def by (intro keeps_rules)


text \<open>A store with a committed image and two indexes; the second image is not referenced.\<close>

definition demo_with_indexes :: "demo_file mem_fs meta" where
  "demo_with_indexes = (demo_committed (Other [1]))\<lparr>mt_fs :=
     (mt_fs (demo_committed (Other [1])))\<lparr>mf_files :=
       (([''indexes'', ''01''], ''01.ds1''), (DemoData [5], 9)) #
       (([''indexes'', ''02''], ''02.ds1''), (DemoData [6], 9)) #
       mf_files (mt_fs (demo_committed (Other [1])))\<rparr>\<rparr>"

lemma demo_lists: "lists_all (me_oa (demo_env ao))"
  by (simp add: demo_env_def mem_openat_lists)

lemma demo_hex: "hex_codec (me_to_hex (demo_env ao)) (me_from_hex (demo_env ao))"
  by (simp add: demo_env_def plain_hex_codec)


end
