(* ===== verification/Metadata_Invariant.thy ===== *)
theory Metadata_Invariant
  imports Index_Gc
begin

text \<open>
  The metadata store as a transition system: every operation of \<^verbatim>\<open>src/daemon/metadata/mod.rs\<close> is
  a step, in any order and with any requests. The invariant of the table of uploads, and what it
  means for directories that are configured append-only.
\<close>

section \<open>Resuming and removing\<close>

lemma read_state_run: "read_state env d n s = (r, t) \<Longrightarrow> t = s"
  unfolding read_state_def by (rule lift_reads_eq [OF reads_only_dir_ops(5)])

lemma resume_upload_run:
  assumes fs: "posix_dirs (me_oa env)" and run: "resume_upload env v s = (r, t)"
  shows "same_data env s t \<or>
    (\<exists>cfg w. cf_dirs (me_config env) (vp_key v) = Some cfg \<and> vp_level v = num_levels cfg \<and>
      mt_writing s v = None \<and> mt_writing t = (mt_writing s)(v \<mapsto> w) \<and> \<not> wr_replacing w \<and>
      pv_done (path_view env t v) = Some None \<and> only_at env v s t)"
proof (cases "\<exists>cfg. cf_dirs (me_config env) (vp_key v) = Some cfg \<and> vp_level v = num_levels cfg")
  case False
  then show ?thesis using run by (auto simp: resume_upload_def split: option.splits if_splits)
next
  case True
  then obtain cfg where cfg: "cf_dirs (me_config env) (vp_key v) = Some cfg" "vp_level v = num_levels cfg"
    by blast
  obtain x u where x: "image_dir env v s = (x, u)" by fastforce
  have su: "same_data env s u" using quiet_same_data [OF quiet_image_dir [OF fs] x] .
  show ?thesis
  proof (cases "\<exists>d. x = Ok d \<and> vp_final_name v \<noteq> None \<and> mt_writing u v = None")
    case False
    then show ?thesis
      using run cfg x su
      by (cases x; cases "vp_final_name v") (auto simp: resume_upload_def split: option.splits)
  next
    case True
    then have x': "x = Ok (state_dir v)" and fin: "vp_final_name v = Some (vp_name v)"
      and none: "mt_writing u v = None"
      using x image_dir_handle vp_final_name_name by fastforce+
    let ?f = "state_file (vp_name v)" and ?g = "new_state_file (vp_name v)"
    obtain a where a: "read_state env (state_dir v) ?f u = (a, u)"
      using read_state_run by (metis prod.exhaust)
    obtain b where b: "read_state env (state_dir v) ?g u = (b, u)"
      using read_state_run by (metis prod.exhaust)
    let ?w = "\<lambda>st :: state. \<lparr>wr_image = st_image st, wr_signatures = st_signatures st, wr_replacing = False\<rparr>"
    obtain y w where yw: "lift_fs (dir_rename (me_oa env) (state_dir v) ?f ?g) u = (y, w)" by fastforce
    have "t = u \<or> (\<exists>st. a = Ok (Some st) \<and>
          (y = Ok () \<and> t = w\<lparr>mt_writing := (mt_writing w)(v \<mapsto> ?w st)\<rparr> \<or> y \<noteq> Ok () \<and> t = w)) \<or>
        (\<exists>st. a = Ok None \<and> t = u\<lparr>mt_writing := (mt_writing u)(v \<mapsto> ?w st)\<rparr>)"
    proof (cases a)
      case (Ok st)
      show ?thesis
      proof (cases st)
        case None
        show ?thesis
        proof (cases b)
          case (Ok st')
          have "t = u \<or> (\<exists>st. st' = Some st \<and> t = u\<lparr>mt_writing := (mt_writing u)(v \<mapsto> ?w st)\<rparr>)"
            using run cfg x x' fin none a \<open>a = Ok st\<close> None b Ok
            by (cases st') (simp_all add: resume_upload_def)
          then show ?thesis using \<open>a = Ok st\<close> None by blast
        qed (use run cfg x x' fin none a Ok None b in \<open>simp_all add: resume_upload_def\<close>)
      next
        case (Some st')
        then show ?thesis
          using run cfg x x' fin none a Ok yw by (cases y) (simp_all add: resume_upload_def)
      qed
    qed (use run cfg x x' fin none a in \<open>simp_all add: resume_upload_def\<close>)
    then consider (quiet) "t = u"
      | (old) st where "a = Ok (Some st)"
          "y = Ok () \<and> t = w\<lparr>mt_writing := (mt_writing w)(v \<mapsto> ?w st)\<rparr> \<or> y \<noteq> Ok () \<and> t = w"
      | (new) st where "a = Ok None" "t = u\<lparr>mt_writing := (mt_writing u)(v \<mapsto> ?w st)\<rparr>"
      by blast
    then show ?thesis
    proof cases
      case quiet
      then show ?thesis using su by simp
    next
      case (new st)
      have "slot_at env u (state_dir v) ?f = Some None" using read_state_slot a new(1) by blast
      moreover have "only_at env v s t"
        using new(2) only_at_trans [OF only_at_same_data [OF su] set_writing_only_at] by blast
      moreover have "mt_writing s v = None" "mt_writing t = (mt_writing s)(v \<mapsto> ?w st)"
        using new(2) su none by (simp_all add: same_data_def)
      moreover have "pv_done (path_view env t v) = slot_at env u (state_dir v) ?f"
        using new(2) by (simp add: path_view_def)
      moreover have "\<not> wr_replacing (?w st)" by simp
      ultimately show ?thesis using cfg by metis
    next
      case (old st)
      have slot: "slot_at env u (state_dir v) ?f = Some (Some st)" using read_state_slot a old(1) by blast
      note sl = dir_rename_slots [OF fs slot _ yw]
      show ?thesis
      proof (cases "y = Ok ()")
        case True
        have "only_at env v u w"
          using local_opD [OF dir_rename_local [OF fs] yw] by (simp add: own_files_def)
        moreover have "t = w\<lparr>mt_writing := (mt_writing w)(v \<mapsto> ?w st)\<rparr>" using old(2) True by blast
        ultimately have "only_at env v s t"
          using only_at_trans [OF only_at_trans [OF only_at_same_data [OF su]] set_writing_only_at] by blast
        moreover have "mt_writing s v = None" "mt_writing t = (mt_writing s)(v \<mapsto> ?w st)"
          using sl True old(2) su none by (auto simp: same_data_def)
        moreover have "pv_done (path_view env t v) = Some None"
          using sl True old(2) by (auto simp: path_view_def)
        moreover have "\<not> wr_replacing (?w st)" by simp
        ultimately show ?thesis using cfg by metis
      next
        case False
        obtain z where z: "dir_rename (me_oa env) (state_dir v) ?f ?g (mt_fs u) = (y, z)" "w = u\<lparr>mt_fs := z\<rparr>"
          using yw by (auto simp: lift_fs_eq)
        have "same_data env u w" using dir_rename_err [OF fs z(1) False] z(2) by (simp add: same_data_def)
        then show ?thesis using old(2) False su same_data_trans by blast
      qed
    qed
  qed
qed

lemma remove_state_file_run:
  assumes fs: "posix_dirs (me_oa env)" and run: "remove_state_file env v at s = (r, t)"
  shows "mt_writing t = mt_writing s \<and>
    (mt_writing s v \<noteq> None \<longrightarrow> t = s) \<and>
    slot_at env t (state_dir v) (state_file (vp_name v)) \<in>
      {slot_at env s (state_dir v) (state_file (vp_name v)), Some None} \<and>
    (\<forall>d n. (d, n) \<noteq> (state_dir v, state_file (vp_name v)) \<longrightarrow> slot_at env t d n = slot_at env s d n)"
    (is "?goal t")
proof -
  have same: "?goal t" if "same_data env s t" "mt_writing s v = None"
    using that same_data_slot [OF that(1)] by (simp add: same_data_def)
  show ?thesis
  proof (cases "mt_writing s v")
    case (Some w)
    then show ?thesis using run by (simp add: remove_state_file_def)
  next
    case None
    obtain x u where x: "meta_signatures env s = (x, u)" by fastforce
    have su: "same_data env s u" using quiet_same_data [OF quiet_meta_signatures [OF fs] x] .
    show ?thesis
    proof (cases "\<exists>root. x = Ok root \<and> vp_suffix v \<noteq> []")
      case False
      then have "t = u"
        using run None x by (cases x) (auto simp: remove_state_file_def vp_parent_rel_def)
      then show ?thesis using same su None by blast
    next
      case True
      then have root: "x = Ok [''signatures'']" and ne: "vp_suffix v \<noteq> []"
        using x meta_signatures_handle by blast+
      let ?rel = "vp_key v # butlast (vp_suffix v)"
      obtain y where y: "lift_fs (open_path (me_oa env) [''signatures''] (map Normal ?rel)) u = (y, u)"
        using lift_reads_eq [OF reads_only_open_path] by (metis prod.exhaust)
      show ?thesis
      proof (cases y)
        case (Ok parent)
        have "open_names (me_oa env) [''signatures''] ?rel (mt_fs u) = (Ok parent, mt_fs u)"
          using y Ok reads_only_eq [OF reads_only_open_names]
          unfolding lift_fs_eq open_path_names by metis
        then have p: "parent = state_dir v" using open_names_handle by (fastforce simp: state_dir_def)
        obtain m where m: "lift_fs (file_meta (me_oa env) parent (state_file (vp_name v))) u = (m, u)"
          using lift_reads_eq [OF reads_only_dir_ops(3)] by (metis prod.exhaust)
        have "t = u \<or> lift_fs (remove_file (me_oa env) parent (state_file (vp_name v))) u = (r, t)"
          using run None x root ne y Ok m
          by (cases m)
            (auto simp: remove_state_file_def vp_parent_rel_def vp_final_name_def vp_name_def bind_io_def
              split: option.splits if_splits result.splits)
        then show ?thesis
          using remove_file_slot [OF fs, of parent "state_file (vp_name v)" u r t] su None same
            same_data_slot [OF su] p
          unfolding same_data_def by (metis insert_iff)
      qed (use run None x root ne y su same in \<open>auto simp: remove_state_file_def vp_parent_rel_def\<close>)
    qed
  qed
qed

section \<open>Scanning\<close>

text \<open>A scan only takes state files away: a file reads as before or is gone.\<close>

definition shrunk ::
  "('s, 'b, 'm, 'i) meta_env \<Rightarrow> dpath \<Rightarrow> string \<Rightarrow> slot \<Rightarrow> (vpath \<rightharpoonup> writing) \<Rightarrow> 's meta \<Rightarrow> bool" where
  "shrunk env d f x w s \<longleftrightarrow> mt_writing s = w \<and> slot_at env s d f \<in> {x, Some None}"

lemma quiet_keeps_shrunk: "quiet env m \<Longrightarrow> keeps (shrunk env d f x w) m"
  unfolding keeps_def shrunk_def
  by (metis prod.collapse quiet_same_data same_data_def same_data_slot)

lemma remove_keeps_shrunk:
  assumes "posix_dirs (me_oa env)"
  shows "keeps (shrunk env d f x w) (lift_fs (remove_file (me_oa env) d' n))"
  unfolding keeps_def shrunk_def
proof (intro allI impI)
  fix s assume *: "mt_writing s = w \<and> slot_at env s d f \<in> {x, Some None}"
  obtain r t where rt: "lift_fs (remove_file (me_oa env) d' n) s = (r, t)" by fastforce
  from remove_file_slot [OF assms rt] * rt
  show "mt_writing (snd (lift_fs (remove_file (me_oa env) d' n) s)) = w \<and>
      slot_at env (snd (lift_fs (remove_file (me_oa env) d' n) s)) d f \<in> {x, Some None}"
    by (cases "(d, f) = (d', n)") auto
qed

lemma keeps_logged [keeps_rules]: "keeps P m \<Longrightarrow> keeps P (logged m)"
  unfolding keeps_def logged_def by (auto split: prod.splits result.splits)

lemma rename_broken_shrunk:
  assumes "posix_dirs (me_oa env)" "shrunk env d f x w s" "\<not> ends_with f ''.backup''"
    and "oa_open_file (me_oa env) (mt_fs s) d' n = Inr b"
  shows "shrunk env d f x w (snd (lift_fs (rename_broken_file (me_oa env) d' n) s))"
proof -
  obtain r u where u: "rename_broken_file (me_oa env) d' n (mt_fs s) = (r, u)" by fastforce
  have bu: "f \<noteq> backup_name n"
    using assms(3) ends_with_append [of "''.'' @ n" "''.backup''"] unfolding backup_name_def by auto
  have "oa_open_file (me_oa env) u d f \<in> {oa_open_file (me_oa env) (mt_fs s) d f, Inl NotFound}"
  proof (cases "(d, f) = (d', n)")
    case True
    then show ?thesis using rename_broken_same [OF assms(1) u assms(4)] assms(4) by auto
  next
    case False
    then show ?thesis using rename_broken_frame [OF assms(1) u False _ assms(4)] bu by auto
  qed
  then have "file_slot (me_dec env) (oa_open_file (me_oa env) u d f) \<in> {slot_at env s d f, Some None}"
    by (auto simp: slot_at_def file_slot_absent)
  then show ?thesis using assms(2) u by (auto simp: shrunk_def lift_fs_def slot_at_def)
qed

lemma read_state_found:
  "read_state env d n s = (Ok (Some st), t) \<Longrightarrow> \<exists>b. oa_open_file (me_oa env) (mt_fs s) d n = Inr b"
  "read_state env d n s = (Err (Decode p), t) \<Longrightarrow> \<exists>b. oa_open_file (me_oa env) (mt_fs s) d n = Inr b"
  by (auto simp: read_state_def lift_fs_eq read_file_def split: sum.splits io_kind.splits)

lemma attempt_Ok: "attempt m s = (Ok r, t) \<longleftrightarrow> m s = (r, t) \<and> r \<noteq> Panic"
  by (auto simp: attempt_def split: prod.splits result.splits)

lemma scan_file_shrunk:
  assumes "posix_dirs (me_oa env)" "\<not> ends_with f ''.backup''"
  shows "keeps (shrunk env d f x w) (scan_file env d' n res)"
  unfolding scan_file_def
proof (rule keeps_bind_state)
  show "keeps (shrunk env d f x w) (attempt (read_state env d' n))"
    by (intro keeps_rules quiet_keeps_shrunk quiet_rules)
next
  fix read s t
  assume *: "shrunk env d f x w s" "attempt (read_state env d' n) s = (Ok read, t)" "shrunk env d f x w t"
  then have read: "read_state env d' n s = (read, t)" "t = s"
    using read_state_run by (auto simp: attempt_Ok)
  have bad: "shrunk env d f x w (snd (bind_io (lift_fs (rename_broken_file (me_oa env) d' n)) (\<lambda>_. ret (Ok res)) t))"
    if "oa_open_file (me_oa env) (mt_fs s) d' n = Inr b" for b
    using rename_broken_shrunk [OF assms(1) *(1) assms(2) that] read(2)
    by (simp add: bind_io_def lift_fs_def rename_broken_file_def)
  show "shrunk env d f x w (snd ((case read of
       Ok (Some st) \<Rightarrow>
         if st_signatures st = []
         then bind_io (lift_fs (rename_broken_file (me_oa env) d' n)) (\<lambda>_. ret (Ok res))
         else ret (Ok (insert_state n st res))
     | Err (Decode _) \<Rightarrow> bind_io (lift_fs (rename_broken_file (me_oa env) d' n)) (\<lambda>_. ret (Ok res))
     | _ \<Rightarrow> ret (Ok res)) t))"
    using *(3) read bad read_state_found [of env d' n s]
    by (auto split: result.splits option.splits meta_error.splits)
qed

lemma scan_files_shrunk:
  assumes "posix_dirs (me_oa env)" "\<not> ends_with f ''.backup''"
  shows "keeps (shrunk env d f x w) (scan_files env v d' ns res)"
proof (induction ns arbitrary: res)
  case (Cons n ns)
  then show ?case
    by (auto intro!: keeps_bind keeps_ret keeps_logged scan_file_shrunk [OF assms] remove_keeps_shrunk
        assms(1) quiet_keeps_shrunk [OF quiet_get_writing])
qed (simp add: keeps_ret)

lemma scan_dir_shrunk:
  assumes fs: "posix_dirs (me_oa env)" and f: "\<not> ends_with f ''.backup''"
  shows "keeps (shrunk env d f x w) (meta_scan_dir env v)"
proof -
  have lift: "keeps (shrunk env d f x w) (lift_fs m)" if "reads_only m" for m :: "('a, 'x, meta_error) io"
    by (intro quiet_keeps_shrunk quiet_lift_reads that)
  show ?thesis
    unfolding meta_scan_dir_def all_states_def
    by (intro keeps_bind quiet_keeps_shrunk [OF quiet_meta_signatures [OF fs]] keeps_attempt lift reads_only_rules)
      (auto split: result.splits meta_error.splits io_kind.splits
        intro!: keeps_bind keeps_ret lift reads_only_rules scan_files_shrunk [OF assms])
qed

section \<open>The invariant of one path\<close>

definition append_only_at :: "('s, 'b, 'm, 'i) meta_env \<Rightarrow> vpath \<Rightarrow> bool" where
  "append_only_at env v \<longleftrightarrow> (\<exists>cfg. cf_dirs (me_config env) (vp_key v) = Some cfg \<and> append_only cfg)"

definition configured :: "('s, 'b, 'm, 'i) meta_env \<Rightarrow> vpath \<Rightarrow> bool" where
  "configured env v \<longleftrightarrow>
     (\<exists>cfg. cf_dirs (me_config env) (vp_key v) = Some cfg \<and> vp_level v = num_levels cfg)"

text \<open>
  An upload that does not replace has no committed state beside it; an upload that replaces is in
  a directory that allows it.
\<close>

definition inv_view :: "('s, 'b, 'm, 'i) meta_env \<Rightarrow> vpath \<Rightarrow> path_view \<Rightarrow> bool" where
  "inv_view env v p \<longleftrightarrow> (\<forall>w. pv_writing p = Some w \<longrightarrow>
     (wr_replacing w \<longrightarrow> \<not> append_only_at env v) \<and> (\<not> wr_replacing w \<longrightarrow> pv_done p = Some None))"

definition same_image :: "path_view \<Rightarrow> path_view \<Rightarrow> bool" where
  "same_image p q \<longleftrightarrow>
     (\<forall>st st'. pv_done p = Some (Some st) \<longrightarrow> pv_done q = Some (Some st') \<longrightarrow> st_image st = st_image st')"

definition allowed :: "('s, 'b, 'm, 'i) meta_env \<Rightarrow> vpath \<Rightarrow> path_view \<Rightarrow> path_view \<Rightarrow> bool" where
  "allowed env v p q \<longleftrightarrow> (inv_view env v p \<longrightarrow>
     inv_view env v q \<and> (append_only_at env v \<longrightarrow> same_image p q))"

lemma allowed_refl [simp]: "allowed env v p p"
  by (simp add: allowed_def same_image_def)

lemma allowed_shrink:
  "pv_writing q = pv_writing p \<Longrightarrow> pv_done q \<in> {pv_done p, Some None} \<Longrightarrow> allowed env v p q"
  by (auto simp: allowed_def inv_view_def same_image_def)

lemma allowed_begin:
  "pv_writing q = Some w \<Longrightarrow> pv_done q = pv_done p \<Longrightarrow> (wr_replacing w \<Longrightarrow> \<not> append_only_at env v) \<Longrightarrow>
     (\<not> wr_replacing w \<Longrightarrow> pv_done p = Some None) \<Longrightarrow> allowed env v p q"
  by (auto simp: allowed_def inv_view_def same_image_def)

lemma allowed_continue:
  "pv_writing p = Some old \<Longrightarrow> pv_writing q = Some w \<Longrightarrow> wr_replacing w = wr_replacing old \<Longrightarrow>
     pv_done q = pv_done p \<Longrightarrow> allowed env v p q"
  by (auto simp: allowed_def inv_view_def same_image_def)

lemma allowed_again:
  "pv_writing p = None \<Longrightarrow> pv_writing q = None \<Longrightarrow> pv_done p = Some (Some st) \<Longrightarrow>
     pv_done q \<in> {pv_done p, Some (Some (st\<lparr>st_signatures := sigs\<rparr>))} \<Longrightarrow> allowed env v p q"
  by (auto simp: allowed_def inv_view_def same_image_def)

lemma allowed_end:
  "pv_writing p = Some w \<Longrightarrow> pv_writing q = None \<Longrightarrow> allowed env v p q"
  by (cases "wr_replacing w") (auto simp: allowed_def inv_view_def same_image_def)

lemma begin_writing_view:
  assumes "posix_dirs (me_oa env)" "begin_writing env v (state_dir v) (vp_name v) img sigs rp s = (r, t)"
  shows "pv_writing (path_view env t v) = Some \<lparr>wr_image = img, wr_signatures = sigs, wr_replacing = rp\<rparr> \<and>
    pv_done (path_view env t v) = pv_done (path_view env s v)"
proof -
  let ?s = "s\<lparr>mt_writing := (mt_writing s)(v \<mapsto> \<lparr>wr_image = img, wr_signatures = sigs, wr_replacing = rp\<rparr>)\<rparr>"
  obtain x where w: "write_state env (state_dir v) (new_state_file (vp_name v)) \<lparr>st_image = img, st_signatures = sigs\<rparr> ?s = (x, t)"
  proof -
    obtain x u where "write_state env (state_dir v) (new_state_file (vp_name v)) \<lparr>st_image = img, st_signatures = sigs\<rparr> ?s = (x, u)"
      by fastforce
    then show ?thesis using assms(2) that by (cases x) (auto simp: begin_writing_def)
  qed
  show ?thesis
    using write_new_keeps_done [OF assms(1) w] write_state_writing [OF w] by (simp add: path_view_def)
qed

lemma continue_writing_view:
  assumes "posix_dirs (me_oa env)" "continue_writing env v (state_dir v) (vp_name v) old sigs s = (r, t)"
  shows "(\<exists>w. pv_writing (path_view env t v) = Some w \<and> wr_replacing w = wr_replacing old) \<and>
    pv_done (path_view env t v) = pv_done (path_view env s v)"
proof -
  let ?g = "if sigs \<noteq> wr_signatures old then append_signatures (wr_signatures old) sigs else wr_signatures old"
  let ?s = "s\<lparr>mt_writing := (mt_writing s)(v \<mapsto> old\<lparr>wr_signatures := ?g\<rparr>)\<rparr>"
  let ?st = "\<lparr>st_image = wr_image old, st_signatures = ?g\<rparr>"
  obtain x u where w: "write_state env (state_dir v) (new_state_file (vp_name v)) ?st ?s = (x, u)" by fastforce
  have "t = u" using assms(2) w by (cases x) (auto simp: continue_writing_def Let_def)
  then show ?thesis
    using write_new_keeps_done [OF assms(1) w] write_state_writing [OF w] by (simp add: path_view_def)
qed

lemma already_done_view:
  assumes "posix_dirs (me_oa env)" "state_codec env"
    and "already_done env (state_dir v) (vp_name v) st sigs s = (r, t)"
  shows "mt_writing t = mt_writing s \<and> (\<exists>g. pv_done (path_view env t v) \<in>
    {pv_done (path_view env s v), Some (Some (st\<lparr>st_signatures := g\<rparr>))})"
proof -
  let ?g = "append_signatures (st_signatures st) sigs"
  obtain x u where w: "write_state env (state_dir v) (state_file (vp_name v)) (st\<lparr>st_signatures := ?g\<rparr>) s = (x, u)"
    by fastforce
  have t: "t = u" using assms(3) w by (cases x) (auto simp: already_done_def)
  obtain z where z: "replace_file (me_oa env) (state_dir v) (state_file (vp_name v))
      (me_enc env (st\<lparr>st_signatures := ?g\<rparr>)) (mt_fs s) = (x, z)" "u = s\<lparr>mt_fs := z\<rparr>"
    using w by (auto simp: write_state_def lift_fs_eq)
  show ?thesis
  proof (cases "x = Ok ()")
    case True
    then show ?thesis
      using write_state_ok [OF assms(1,2)] w t write_state_writing [OF w] by (auto simp: path_view_def)
  next
    case False
    then show ?thesis
      using replace_file_err [OF assms(1) z(1)] z(2) t by (auto simp: path_view_def slot_at_def)
  qed
qed

lemma append_entry_allowed:
  assumes fs: "posix_dirs (me_oa env)" and "state_codec env" and v: "v = ad_path a"
    and run: "append_entry env a (state_dir v) (vp_name v) s = (r, t)"
  shows "allowed env v (path_view env s v) (path_view env t v)"
proof (cases "mt_writing s v")
  case (Some old)
  then have old: "pv_writing (path_view env s v) = Some old" by (simp add: path_view_def)
  show ?thesis
  proof (cases "wr_image old = ad_image a")
    case True
    then have "continue_writing env v (state_dir v) (vp_name v) old
        (signature_entries (ad_timestamp a) (ad_signatures a)) s = (r, t)"
      using run Some by (simp add: append_entry_def Let_def v)
    from continue_writing_view [OF fs this] show ?thesis using old allowed_continue by metis
  qed (use run Some in \<open>auto simp: append_entry_def Let_def v\<close>)
next
  case None
  obtain x where x: "read_state env (state_dir v) (state_file (vp_name v)) s = (x, s)"
    using read_state_run by (metis prod.exhaust)
  have w: "pv_writing (path_view env s v) = None" using None by (simp add: path_view_def)
  show ?thesis
  proof (cases x)
    case (Ok st)
    have slot: "pv_done (path_view env s v) = Some st"
      using read_state_slot x Ok by (fastforce simp: path_view_def)
    show ?thesis
    proof (cases st)
      case None
      then have "begin_writing env v (state_dir v) (vp_name v) (ad_image a)
          (signature_entries (ad_timestamp a) (ad_signatures a)) False s = (r, t)"
        using run \<open>mt_writing s v = None\<close> x Ok by (simp add: append_entry_def Let_def v)
      from begin_writing_view [OF fs this] show ?thesis
        by (intro allowed_begin) (use slot None in auto)
    next
      case (Some st')
      show ?thesis
      proof (cases "st_image st' = ad_image a")
        case True
        then have "already_done env (state_dir v) (vp_name v) st'
            (signature_entries (ad_timestamp a) (ad_signatures a)) s = (r, t)"
          using run \<open>mt_writing s v = None\<close> x Ok Some by (simp add: append_entry_def Let_def v)
        from already_done_view [OF assms(1,2) this] obtain g where
          "mt_writing t = mt_writing s" "pv_done (path_view env t v) \<in>
            {pv_done (path_view env s v), Some (Some (st'\<lparr>st_signatures := g\<rparr>))}" by blast
        then show ?thesis
          by (intro allowed_again [OF w]) (use slot Some None in \<open>auto simp: path_view_def\<close>)
      qed (use run None x Ok Some in \<open>auto simp: append_entry_def Let_def v\<close>)
    qed
  qed (use run None x in \<open>auto simp: append_entry_def Let_def v\<close>)
qed

lemma replace_entry_allowed:
  assumes fs: "posix_dirs (me_oa env)" and "state_codec env" and v: "v = rd_path a"
    and run: "replace_entry env a (state_dir v) (vp_name v) s = (r, t)" and ao: "\<not> append_only_at env v"
  shows "allowed env v (path_view env s v) (path_view env t v)"
proof (cases "mt_writing s v")
  case (Some old)
  then have old: "pv_writing (path_view env s v) = Some old" by (simp add: path_view_def)
  show ?thesis
  proof (cases "wr_image old = rd_image a")
    case True
    then have "continue_writing env v (state_dir v) (vp_name v) old
        (signature_entries (rd_timestamp a) (rd_signatures a)) s = (r, t)"
      using run Some by (simp add: replace_entry_def Let_def v)
    from continue_writing_view [OF fs this] show ?thesis using old allowed_continue by metis
  qed (use run Some in \<open>auto simp: replace_entry_def Let_def v split: if_splits\<close>)
next
  case None
  obtain x where x: "read_state env (state_dir v) (state_file (vp_name v)) s = (x, s)"
    using read_state_run by (metis prod.exhaust)
  have w: "pv_writing (path_view env s v) = None" using None by (simp add: path_view_def)
  show ?thesis
  proof (cases x)
    case (Ok st)
    have slot: "pv_done (path_view env s v) = Some st"
      using read_state_slot x Ok by (fastforce simp: path_view_def)
    consider (same) "t = s"
      | (start) rp where "begin_writing env v (state_dir v) (vp_name v) (rd_image a)
          (signature_entries (rd_timestamp a) (rd_signatures a)) rp s = (r, t)" "rp \<or> st = None"
      | (again) st' where "st = Some st'" "already_done env (state_dir v) (vp_name v) st'
          (signature_entries (rd_timestamp a) (rd_signatures a)) s = (r, t)"
      using run None x Ok by (cases st) (auto simp: replace_entry_def Let_def v split: if_splits)
    then show ?thesis
    proof cases
      case (start rp)
      from begin_writing_view [OF fs start(1)] start(2) slot ao show ?thesis
        by (intro allowed_begin) auto
    next
      case (again st')
      from already_done_view [OF assms(1,2) again(2)] obtain g where
        "mt_writing t = mt_writing s" "pv_done (path_view env t v) \<in>
          {pv_done (path_view env s v), Some (Some (st'\<lparr>st_signatures := g\<rparr>))}" by blast
      then show ?thesis
        by (intro allowed_again [OF w]) (use slot again None in \<open>auto simp: path_view_def\<close>)
    qed simp
  qed (use run None x in \<open>auto simp: replace_entry_def Let_def v\<close>)
qed

section \<open>The transition system\<close>

inductive meta_step :: "('s, 'b, 'm, 'i) meta_env \<Rightarrow> 's meta \<Rightarrow> 's meta \<Rightarrow> bool"
  for env :: "('s, 'b, 'm, 'i) meta_env" where
  step_append: "plain_path (ad_path a) \<Longrightarrow> start_append env a s = (r, t) \<Longrightarrow> meta_step env s t"
| step_replace: "plain_path (rd_path p) \<Longrightarrow> start_replace env p s = (r, t) \<Longrightarrow> meta_step env s t"
| step_resume: "plain_path v \<Longrightarrow> resume_upload env v s = (r', t) \<Longrightarrow> meta_step env s t"
| step_commit: "dir_committed env v s = (r'', t) \<Longrightarrow> meta_step env s t"
| step_abort: "dir_aborted env v s = (r'', t) \<Longrightarrow> meta_step env s t"
| step_remove: "plain_path v \<Longrightarrow> remove_state_file env v at s = (r'', t) \<Longrightarrow> meta_step env s t"
| step_lookup: "get_image_id env v s = (r', t) \<Longrightarrow> meta_step env s t"
| step_scan: "meta_scan_dir env v s = (r3, t) \<Longrightarrow> meta_step env s t"
| step_store: "store_index env img data s = (r'', t) \<Longrightarrow> meta_step env s t"
| step_gc: "index_gc env s = (r'', t) \<Longrightarrow> meta_step env s t"

definition meta_init :: "('s, 'b, 'm, 'i) meta_env \<Rightarrow> 's meta \<Rightarrow> bool" where
  "meta_init env s \<longleftrightarrow> mt_writing s = Map.empty"

text \<open>
  The laws of the parameters are part of the invariant's statement, so that the system can be
  interpreted for every environment.
\<close>

definition lawful :: "('s, 'b, 'm, 'i) meta_env \<Rightarrow> bool" where
  "lawful env \<longleftrightarrow> posix_dirs (me_oa env) \<and> state_codec env"

definition uploads_inv :: "('s, 'b, 'm, 'i) meta_env \<Rightarrow> 's meta \<Rightarrow> bool" where
  "uploads_inv env s \<longleftrightarrow>
     (\<forall>v. mt_writing s v \<noteq> None \<longrightarrow> plain_path v \<and> configured env v) \<and>
     (\<forall>v. plain_path v \<longrightarrow> configured env v \<longrightarrow> inv_view env v (path_view env s v))"

text \<open>What a step may do to the store: allowed changes on every path of the configuration.\<close>

definition step_ok :: "('s, 'b, 'm, 'i) meta_env \<Rightarrow> 's meta \<Rightarrow> 's meta \<Rightarrow> bool" where
  "step_ok env s t \<longleftrightarrow>
     (\<forall>v. mt_writing t v \<noteq> None \<longrightarrow> mt_writing s v \<noteq> None \<or> plain_path v \<and> configured env v) \<and>
     (\<forall>v. plain_path v \<longrightarrow> configured env v \<longrightarrow> allowed env v (path_view env s v) (path_view env t v))"

lemma configured_same_shape: "configured env v \<Longrightarrow> configured env w \<Longrightarrow> same_shape v w"
  by (auto simp: configured_def same_shape_def)

lemma step_ok_same_data: "same_data env s t \<Longrightarrow> step_ok env s t"
  by (simp add: step_ok_def same_data_view) (simp add: same_data_def)

lemma step_ok_local:
  assumes "only_at env v s t" "plain_path v" "configured env v"
    and "allowed env v (path_view env s v) (path_view env t v)"
  shows "step_ok env s t"
  unfolding step_ok_def
proof (intro conjI allI impI)
  fix w assume "mt_writing t w \<noteq> None"
  then show "mt_writing s w \<noteq> None \<or> plain_path w \<and> configured env w"
    using assms(1-3) by (cases "w = v") (auto simp: only_at_def)
next
  fix w assume w: "plain_path w" "configured env w"
  show "allowed env w (path_view env s w) (path_view env t w)"
  proof (cases "w = v")
    case False
    then have "path_view env t w = path_view env s w"
      using only_at_other [OF assms(1,2) w(1) configured_same_shape [OF assms(3) w(2)]] by simp
    then show ?thesis by simp
  qed (use assms(4) in simp)
qed

lemma step_ok_shrink:
  assumes "mt_writing t = mt_writing s"
    and "\<And>v. plain_path v \<Longrightarrow> pv_done (path_view env t v) \<in> {pv_done (path_view env s v), Some None}"
  shows "step_ok env s t"
  unfolding step_ok_def using assms by (auto intro!: allowed_shrink) (auto simp: path_view_def)

lemma authorised_configured: "authorised env v sdr sigs cfg \<Longrightarrow> configured env v"
  by (auto simp: authorised_def configured_def)

lemma state_file_not_backup: "\<not> ends_with (state_file n) ''.backup''"
  by (auto simp: ends_with_def state_file_def)

lemma store_index_outside:
  assumes fs: "posix_dirs (me_oa env)" and d: "hd d \<noteq> ''indexes''"
  shows "keeps (outside env d n v w) (store_index env img data)"
proof -
  have repl: "keeps (outside env d n v w) (lift_fs (replace_file (me_oa env) base f b))"
    if "d \<noteq> base" for base f b
    unfolding keeps_def outside_def
  proof (intro allI impI)
    fix s :: "'a meta" assume *: "oa_open_file (me_oa env) (mt_fs s) d n = v \<and> mt_writing s = w"
    obtain r u where u: "replace_file (me_oa env) base f b (mt_fs s) = (r, u)" by fastforce
    have "oa_open_file (me_oa env) u d n = oa_open_file (me_oa env) (mt_fs s) d n"
      by (rule replace_file_frame [OF fs u]) (use that in auto)
    with * u show "oa_open_file (me_oa env) (mt_fs (snd (lift_fs (replace_file (me_oa env) base f b) s))) d n = v \<and>
        mt_writing (snd (lift_fs (replace_file (me_oa env) base f b) s)) = w"
      by (simp add: lift_fs_def)
  qed
  have base: "d \<noteq> b" if "meta_indexes env s1 = (Ok root, t1)"
    "lift_fs (ensure_dir (me_oa env) root [Normal pre]) s2 = (Ok b, t2)" for root pre b s1 t1 s2 t2
  proof -
    have "b = [''indexes''] @ [pre]"
      using that meta_indexes_handle [OF that(1)] ensure_dir_handle [of "me_oa env" "[''indexes'']" "[pre]"]
      by (auto simp: lift_fs_eq)
    then show ?thesis using d by auto
  qed
  show ?thesis
    unfolding store_index_def store_index_write_def
    by (intro keeps_bind [OF quiet_keeps_outside [OF quiet_mark_used]] keeps_logged
        keeps_bind_post [OF quiet_keeps_outside [OF quiet_meta_indexes [OF fs]]]
        keeps_bind [OF keeps_ret] keeps_bind_post [OF quiet_keeps_outside [OF quiet_lift_ensure_dir [OF fs]]]
        repl) (rule base)
qed

lemma step_ok_outside:
  assumes "\<And>d n v w. hd d \<noteq> ''indexes'' \<Longrightarrow> outside env d n v w s \<Longrightarrow> outside env d n v w t"
  shows "step_ok env s t"
proof (rule step_ok_shrink)
  show "mt_writing t = mt_writing s"
    using assms [of "[[]]" "[]" "oa_open_file (me_oa env) (mt_fs s) [[]] []" "mt_writing s"]
    by (simp add: outside_def)
next
  fix v
  show "pv_done (path_view env t v) \<in> {pv_done (path_view env s v), Some None}"
    using assms [of "state_dir v" "state_file (vp_name v)"
        "oa_open_file (me_oa env) (mt_fs s) (state_dir v) (state_file (vp_name v))" "mt_writing s"]
    by (simp add: outside_def path_view_def slot_at_def state_dir_def)
qed

lemma index_gc_outside:
  assumes fs: "posix_dirs (me_oa env)" and run: "index_gc env s = (r, t)"
    and "hd d \<noteq> ''indexes''" "outside env d n v w s"
  shows "outside env d n v w t"
proof -
  obtain x u where scan: "gc_scan env (s\<lparr>mt_collecting := Some (wr_image ` ran (mt_writing s))\<rparr>) = (x, u)"
    and rest: "x \<noteq> Ok () \<and> t = u \<or> x = Ok () \<and> gc_sweep env u = (r, t)"
    using index_gc_run [OF run] by blast
  have "outside env d n v w u"
    by (rule keepsD [OF quiet_keeps_outside [OF quiet_gc_scan [OF fs]] _ scan])
      (use assms(4) in \<open>simp add: outside_def\<close>)
  then show ?thesis using rest keepsD [OF gc_sweep_outside [OF fs assms(3)]] by blast
qed

lemma meta_step_ok:
  assumes law: "lawful env" and inv: "uploads_inv env s" and step: "meta_step env s t"
  shows "step_ok env s t"
proof -
  have fs: "posix_dirs (me_oa env)" and codec: "state_codec env" using law by (auto simp: lawful_def)
  from step show ?thesis
  proof cases
    case (step_append a r)
    from start_append_run [OF fs step_append(2) refl]
    consider "same_data env s t" | u where "configured env (ad_path a)" "same_data env s u"
      "append_entry env a (state_dir (ad_path a)) (vp_name (ad_path a)) u = (r, t)"
      using authorised_configured by blast
    then show ?thesis
    proof cases
      case (2 u)
      have "allowed env (ad_path a) (path_view env s (ad_path a)) (path_view env t (ad_path a))"
        using append_entry_allowed [OF fs codec refl 2(3)] same_data_view [OF 2(2)] by simp
      then show ?thesis
        using step_ok_local [OF append_handler.touches [OF fs step_append(2)] step_append(1) 2(1)] by blast
    qed (rule step_ok_same_data)
  next
    case (step_replace p r)
    from start_replace_run [OF fs step_replace(2) refl]
    consider "same_data env s t" | u where "configured env (rd_path p)" "\<not> append_only_at env (rd_path p)"
      "same_data env s u" "replace_entry env p (state_dir (rd_path p)) (vp_name (rd_path p)) u = (r, t)"
      using authorised_configured by (fastforce simp: authorised_def append_only_at_def)
    then show ?thesis
    proof cases
      case (2 u)
      have "allowed env (rd_path p) (path_view env s (rd_path p)) (path_view env t (rd_path p))"
        using replace_entry_allowed [OF fs codec refl 2(4,2)] same_data_view [OF 2(3)] by simp
      then show ?thesis
        using step_ok_local [OF replace_handler.touches [OF fs step_replace(2)] step_replace(1) 2(1)] by blast
    qed (rule step_ok_same_data)
  next
    case (step_resume v r)
    from resume_upload_run [OF fs step_resume(2)] show ?thesis
    proof (elim disjE exE conjE)
      fix cfg w
      assume cfg: "cf_dirs (me_config env) (vp_key v) = Some cfg" "vp_level v = num_levels cfg"
        and none: "mt_writing s v = None" and t: "mt_writing t = (mt_writing s)(v \<mapsto> w)" "\<not> wr_replacing w"
          "pv_done (path_view env t v) = Some None" "only_at env v s t"
      have "allowed env v (path_view env s v) (path_view env t v)"
        using none t by (auto simp: allowed_def inv_view_def same_image_def path_view_def)
      then show ?thesis using step_ok_local [OF t(4) step_resume(1)] cfg by (auto simp: configured_def)
    qed (rule step_ok_same_data)
  next
    case (step_commit v r)
    show ?thesis
    proof (cases "mt_writing s v")
      case None
      then have "t = s" using dir_committed_run [OF step_commit] by blast
      then show ?thesis by (simp add: step_ok_same_data)
    next
      case (Some w)
      have good: "plain_path v" "configured env v" using inv Some by (auto simp: uploads_inv_def)
      obtain x where x: "commit_dir env v (s\<lparr>mt_writing := (mt_writing s)(v := None)\<rparr>) = (x, t)"
        using dir_committed_run [OF step_commit] Some by auto
      have "mt_writing t v = None"
        using at_image_dir_run [OF fs x [unfolded commit_dir_def]]
        by (auto simp: same_data_def lift_fs_eq)
      then have "allowed env v (path_view env s v) (path_view env t v)"
        using Some by (intro allowed_end) (auto simp: path_view_def)
      then show ?thesis
        using step_ok_local [OF local_opD [OF dir_committed_local [OF fs] step_commit] good] by blast
    qed
  next
    case (step_abort v r)
    show ?thesis
    proof (cases "mt_writing s v")
      case None
      then have "t = s" using dir_aborted_run [OF step_abort] by blast
      then show ?thesis by (simp add: step_ok_same_data)
    next
      case (Some w)
      have good: "plain_path v" "configured env v" using inv Some by (auto simp: uploads_inv_def)
      have "path_view env t v \<in> {spec_abort (path_view env s v), drop_writing (path_view env s v)}"
        using dir_aborted_view [OF fs step_abort] Some by blast
      then have "allowed env v (path_view env s v) (path_view env t v)"
        using Some by (intro allowed_end) (auto simp: path_view_def spec_abort_def drop_writing_def)
      then show ?thesis
        using step_ok_local [OF local_opD [OF dir_aborted_local [OF fs] step_abort] good] by blast
    qed
  next
    case (step_remove v at r)
    note rm = remove_state_file_run [OF fs step_remove(2)]
    show ?thesis
    proof (rule step_ok_shrink)
      fix w assume "plain_path w"
      show "pv_done (path_view env t w) \<in> {pv_done (path_view env s w), Some None}"
        using rm by (cases "(state_dir w, state_file (vp_name w)) = (state_dir v, state_file (vp_name v))")
          (auto simp: path_view_def)
    qed (use rm in blast)
  next
    case (step_lookup v r)
    then show ?thesis using step_ok_same_data quiet_same_data [OF quiet_get_image_id [OF fs]] by blast
  next
    case (step_scan v r)
    have sh: "shrunk env d (state_file n) x w t" if "shrunk env d (state_file n) x w s" for d n x w
      using keepsD [OF scan_dir_shrunk [OF fs state_file_not_backup] that step_scan] .
    show ?thesis
    proof (rule step_ok_shrink)
      show "mt_writing t = mt_writing s"
        using sh [of "[]" "[]" "slot_at env s [] (state_file [])" "mt_writing s"] by (simp add: shrunk_def)
      fix w
      show "pv_done (path_view env t w) \<in> {pv_done (path_view env s w), Some None}"
        using sh [of "state_dir w" "vp_name w" "slot_at env s (state_dir w) (state_file (vp_name w))" "mt_writing s"]
        by (simp add: shrunk_def path_view_def)
    qed
  next
    case (step_store img data r)
    show ?thesis
      by (rule step_ok_outside) (rule keepsD [OF store_index_outside [OF fs] _ step_store])
  next
    case (step_gc r)
    show ?thesis by (rule step_ok_outside) (rule index_gc_outside [OF fs step_gc])
  qed
qed

lemma step_ok_inv: "uploads_inv env s \<Longrightarrow> step_ok env s t \<Longrightarrow> uploads_inv env t"
  unfolding uploads_inv_def step_ok_def allowed_def by blast

interpretation store: invariant_system "\<lambda>s. lawful env \<and> meta_init env s" "\<lambda>s t. lawful env \<and> meta_step env s t"
  "\<lambda>s. lawful env \<and> uploads_inv env s"
proof unfold_locales
  fix s assume "lawful env \<and> meta_init env s"
  then show "lawful env \<and> uploads_inv env s"
    by (simp add: meta_init_def uploads_inv_def inv_view_def path_view_def)
next
  fix s t assume "lawful env \<and> uploads_inv env s" "lawful env \<and> meta_step env s t"
  then show "lawful env \<and> uploads_inv env t" using meta_step_ok step_ok_inv by blast
qed


lemma demo_lawful: "lawful (demo_env ao)"
  by (simp add: lawful_def demo_posix demo_codec)

lemma demo_plain: "plain_path (VPath ''k'' [''a''])"
  by (simp add: plain_path_def plain_name_def vp_name_def ends_with_def starts_with_def)

lemma demo_uploading_reachable:
  "reachable (meta_init (demo_env ao)) (meta_step (demo_env ao)) (demo_uploading (Other [1]))"
proof -
  have "reachable (meta_init (demo_env ao)) (meta_step (demo_env ao)) (meta_new demo_fs)"
    by (rule reach_init) (simp add: meta_init_def meta_new_def)
  moreover have "meta_step (demo_env ao) (meta_new demo_fs) (demo_uploading (Other [1]))"
    by (rule step_append [OF _ demo_append_new]) (simp add: demo_append_def demo_plain)
  ultimately show ?thesis by (rule reach_step)
qed

lemma demo_committed_reachable:
  "reachable (meta_init (demo_env ao)) (meta_step (demo_env ao)) (demo_committed (Other [1]))"
  by (rule reach_step [OF demo_uploading_reachable step_commit [OF demo_commit]])




end
