(* ===== verification/Metadata_Scan.thy ===== *)
theory Metadata_Scan
  imports Metadata_Invariant
begin

text \<open>
  What a scan of a directory finds (\<^verbatim>\<open>all_states\<close> of \<^verbatim>\<open>src/daemon/metadata/scan.rs\<close>): the result does
  not depend on the order in which the file system lists the files, although the scan deletes and
  renames files on its way.
\<close>

section \<open>The contribution of one file\<close>

definition scan_value :: "('s, 'b, 'm, 'i) meta_env \<Rightarrow> 's meta \<Rightarrow> dpath \<Rightarrow> string \<Rightarrow> state option" where
  "scan_value env s d n = (case slot_at env s d n of
      Some (Some st) \<Rightarrow> if st_signatures st = [] then None else Some st
    | _ \<Rightarrow> None)"

definition uploading_name :: "'s meta \<Rightarrow> vpath \<Rightarrow> string \<Rightarrow> bool" where
  "uploading_name s v n \<longleftrightarrow> (\<exists>p. vp_join v n = Some p \<and> mt_writing s p \<noteq> None)"

definition stale :: "'s meta \<Rightarrow> vpath \<Rightarrow> string \<Rightarrow> bool" where
  "stale s v f \<longleftrightarrow> ends_with f ''.new.state'' \<and> \<not> uploading_name s v (cut 10 f)"

definition file_value ::
  "('s, 'b, 'm, 'i) meta_env \<Rightarrow> 's meta \<Rightarrow> vpath \<Rightarrow> dpath \<Rightarrow> string \<Rightarrow> state option" where
  "file_value env s v d f = (if stale s v f then None else scan_value env s d f)"

definition add_value :: "(string \<Rightarrow> state option) \<Rightarrow> string \<Rightarrow> (string \<rightharpoonup> state) \<Rightarrow> (string \<rightharpoonup> state)" where
  "add_value val f res = (case val f of Some st \<Rightarrow> insert_state f st res | None \<Rightarrow> res)"

text \<open>Processing one file leaves what later files contribute as it was.\<close>

definition same_values ::
  "('s, 'b, 'm, 'i) meta_env \<Rightarrow> vpath \<Rightarrow> dpath \<Rightarrow> 's meta \<Rightarrow> 's meta \<Rightarrow> bool" where
  "same_values env v d s t \<longleftrightarrow> mt_writing t = mt_writing s \<and>
     (\<forall>f. \<not> starts_with f ''.'' \<longrightarrow> file_value env t v d f = file_value env s v d f)"

lemma scan_value_cases:
  "scan_value env s d n = Some st \<longleftrightarrow> slot_at env s d n = Some (Some st) \<and> st_signatures st \<noteq> []"
  by (auto simp: scan_value_def split: option.splits)

lemma same_values_by_slot:
  assumes "mt_writing t = mt_writing s"
    and "\<And>f. \<not> starts_with f ''.'' \<Longrightarrow> slot_at env t d f = slot_at env s d f \<or>
       f = n \<and> file_value env s v d f = None \<and> (slot_at env t d f = Some None \<or> stale s v f)"
  shows "same_values env v d s t"
  unfolding same_values_def
proof (intro conjI allI impI)
  fix f assume f: "\<not> starts_with f ''.''"
  have st: "stale t v f = stale s v f" using assms(1) by (simp add: stale_def uploading_name_def)
  show "file_value env t v d f = file_value env s v d f"
    using assms(2) [OF f]
  proof (elim disjE conjE)
    assume "slot_at env t d f = slot_at env s d f"
    then show ?thesis by (simp add: file_value_def st scan_value_def)
  next
    assume "file_value env s v d f = None" "slot_at env t d f = Some None"
    then show ?thesis by (simp add: file_value_def scan_value_def)
  next
    assume "file_value env s v d f = None" "stale s v f"
    then show ?thesis by (simp add: file_value_def st)
  qed
qed (rule assms(1))

lemma rename_broken_slots:
  assumes "posix_dirs (me_oa env)" "lift_fs (rename_broken_file (me_oa env) d n) s = (r, t)"
    and "oa_open_file (me_oa env) (mt_fs s) d n = Inr b" and "\<not> starts_with f ''.''"
  shows "slot_at env t d f = slot_at env s d f \<or> f = n \<and> slot_at env t d f = Some None"
proof -
  obtain u where u: "rename_broken_file (me_oa env) d n (mt_fs s) = (r, u)" "t = s\<lparr>mt_fs := u\<rparr>"
    using assms(2) by (auto simp: lift_fs_eq)
  have ne: "f \<noteq> backup_name n" using assms(4) by (auto simp: backup_name_def starts_with_def)
  show ?thesis
  proof (cases "f = n")
    case True
    then show ?thesis
      using rename_broken_same [OF assms(1) u(1) assms(3)] u(2) assms(3)
      by (auto simp: slot_at_def file_slot_absent)
  next
    case False
    then have "oa_open_file (me_oa env) u d f = oa_open_file (me_oa env) (mt_fs s) d f"
      using rename_broken_frame [OF assms(1) u(1) _ _ assms(3), of d f] ne by simp
    then show ?thesis using u(2) by (simp add: slot_at_def)
  qed
qed

lemma scan_file_run:
  assumes fs: "posix_dirs (me_oa env)" and fresh: "\<not> stale s v n"
    and run: "scan_file env d n res s = (Ok res', t)"
  shows "res' = add_value (file_value env s v d) n res \<and> same_values env v d s t"
proof -
  obtain x where x: "read_state env d n s = (x, s)" using read_state_run by (metis prod.exhaust)
  have broken: "same_values env v d s t"
    if "oa_open_file (me_oa env) (mt_fs s) d n = Inr b" "file_value env s v d n = None"
      "lift_fs (rename_broken_file (me_oa env) d n) s = (r, t)" for b r
  proof (rule same_values_by_slot [where n = n])
    show "mt_writing t = mt_writing s" using that(3) by (auto simp: lift_fs_eq)
    show "slot_at env t d f = slot_at env s d f \<or>
       f = n \<and> file_value env s v d f = None \<and> (slot_at env t d f = Some None \<or> stale s v f)"
      if "\<not> starts_with f ''.''" for f
      using rename_broken_slots [OF fs _ _ that] \<open>oa_open_file (me_oa env) (mt_fs s) d n = Inr b\<close>
        \<open>file_value env s v d n = None\<close> \<open>lift_fs (rename_broken_file (me_oa env) d n) s = (r, t)\<close> by blast
  qed
  have refl: "same_values env v d s s" by (simp add: same_values_def)
  have rb: "\<exists>r. lift_fs (rename_broken_file (me_oa env) d n) s = (r, t) \<and> res' = res"
    if "bind_io (lift_fs (rename_broken_file (me_oa env) d n)) (\<lambda>_. ret (Ok res)) s = (Ok res', t)"
    using that by (auto simp: bind_io_Ok_iff)
  have at: "attempt (read_state env d n) s = (if x = Panic then (Panic, s) else (Ok x, s))"
    using x by (cases x) (simp_all add: attempt_def)
  show ?thesis
  proof (cases x)
    case (Ok st)
    have slot: "slot_at env s d n = Some st" using read_state_slot x Ok by blast
    show ?thesis
    proof (cases "\<exists>st'. st = Some st' \<and> st_signatures st' = []")
      case True
      then have none: "file_value env s v d n = None"
        using slot by (auto simp: file_value_def scan_value_def)
      have "bind_io (lift_fs (rename_broken_file (me_oa env) d n)) (\<lambda>_. ret (Ok res)) s = (Ok res', t)"
        using run True at Ok by (auto simp: scan_file_def)
      moreover obtain b where "oa_open_file (me_oa env) (mt_fs s) d n = Inr b"
        using read_state_found(1) [of env d n s] x Ok True by blast
      ultimately show ?thesis using rb broken none by (auto simp: add_value_def)
    next
      case False
      then show ?thesis
        using run at Ok slot fresh refl
        by (auto simp: scan_file_def add_value_def file_value_def scan_value_def split: option.splits)
    qed
  next
    case (Err e)
    have none: "file_value env s v d n = None"
      using x Err by (auto simp: file_value_def scan_value_def slot_at_def file_slot_def read_state_def
          lift_fs_eq read_file_def split: sum.splits io_kind.splits option.splits)
    show ?thesis
    proof (cases "\<exists>p. e = Decode p")
      case True
      then have "bind_io (lift_fs (rename_broken_file (me_oa env) d n)) (\<lambda>_. ret (Ok res)) s = (Ok res', t)"
        using run at Err by (auto simp: scan_file_def)
      moreover obtain b where "oa_open_file (me_oa env) (mt_fs s) d n = Inr b"
        using read_state_found(2) [of env d n s] x Err True by blast
      ultimately show ?thesis using rb broken none by (auto simp: add_value_def)
    next
      case False
      then show ?thesis
        using run at Err none refl by (cases e) (auto simp: scan_file_def add_value_def)
    qed
  qed (use run at in \<open>auto simp: scan_file_def\<close>)
qed

lemma same_values_fold:
  "same_values env v d s t \<Longrightarrow> \<forall>f \<in> set ns. \<not> starts_with f ''.'' \<Longrightarrow>
     fold (add_value (file_value env t v d)) ns res = fold (add_value (file_value env s v d)) ns res"
  by (intro fold_cong) (auto simp: same_values_def add_value_def fun_eq_iff)

lemma scan_files_fold:
  "posix_dirs (me_oa env) \<Longrightarrow> \<forall>f \<in> set ns. \<not> starts_with f ''.'' \<Longrightarrow>
     scan_files env v d ns res s = (Ok res', t) \<Longrightarrow>
     res' = fold (add_value (file_value env s v d)) ns res"
proof (induction ns arbitrary: res s)
  case (Cons n ns)
  have visible: "\<forall>f \<in> set ns. \<not> starts_with f ''.''" using Cons.prems(2) by simp
  show ?case
  proof (cases "stale s v n")
    case True
    then obtain p where p: "vp_join v (cut 10 n) = Some p" "mt_writing s p = None"
      using Cons.prems(3) by (cases "vp_join v (cut 10 n)") (auto simp: stale_def uploading_name_def)
    obtain x u where u: "lift_fs (remove_file (me_oa env) d n) s = (x, u)" by fastforce
    have run: "scan_files env v d ns res u = (Ok res', t)"
      using Cons.prems(3) True p u by (cases x) (auto simp: stale_def logged_def)
    have none: "file_value env s v d n = None" using True by (simp add: file_value_def)
    have "same_values env v d s u"
    proof (rule same_values_by_slot [where n = n])
      show "mt_writing u = mt_writing s" using remove_file_slot [OF Cons.prems(1) u] by blast
      show "slot_at env u d f = slot_at env s d f \<or>
          f = n \<and> file_value env s v d f = None \<and> (slot_at env u d f = Some None \<or> stale s v f)" for f
        using remove_file_slot [OF Cons.prems(1) u] none True by (cases "f = n") auto
    qed
    moreover have "add_value (file_value env s v d) n res = res" by (simp add: add_value_def none)
    ultimately show ?thesis
      using Cons.IH [OF Cons.prems(1) visible run] same_values_fold [OF _ visible] by simp
  next
    case False
    obtain res1 u where one: "scan_file env d n res s = (Ok res1, u)"
      and run: "scan_files env v d ns res1 u = (Ok res', t)"
      using Cons.prems(3) False
      by (auto simp: stale_def uploading_name_def bind_io_Ok_iff split: if_splits)
    have "same_values env v d s u" "res1 = add_value (file_value env s v d) n res"
      using scan_file_run [OF Cons.prems(1) False one] by blast+
    then show ?thesis
      using Cons.IH [OF Cons.prems(1) visible run] same_values_fold [OF _ visible] by simp
  qed
qed simp

section \<open>The result as a function of the files\<close>

lemma ends_with_split: "ends_with f suf \<longleftrightarrow> (\<exists>p. f = p @ suf)"
  by (auto simp: ends_with_def) (metis append_take_drop_id)

lemma cut_state_file [simp]: "cut 6 (state_file n) = n" "cut 10 (new_state_file n) = n"
  by (simp_all add: state_file_def new_state_file_def)

lemma cut_new [simp]: "cut 4 (n @ ''.new'') = n"
  by simp

lemma insert_state_new: "insert_state (new_state_file n) st res = res(n \<mapsto> st)"
  by (simp add: insert_state_def new_state_file_eq)

lemma insert_state_done:
  "\<not> ends_with n ''.new'' \<Longrightarrow>
     insert_state (state_file n) st res = (if res n = None then res(n \<mapsto> st) else res)"
  by (simp add: insert_state_def)

lemma insert_state_other:
  assumes "ends_with f ''.state''" "f \<noteq> state_file n" "f \<noteq> new_state_file n"
  shows "insert_state f st res n = res n"
proof -
  obtain m where m: "f = state_file m" using assms(1) by (auto simp: ends_with_split state_file_def)
  show ?thesis
  proof (cases "ends_with m ''.new''")
    case True
    then obtain k where "m = k @ ''.new''" by (auto simp: ends_with_split)
    then show ?thesis using assms m by (auto simp: insert_state_def new_state_file_eq)
  next
    case False
    then show ?thesis using assms m by (auto simp: insert_state_done)
  qed
qed

lemma fold_add_value:
  assumes "\<not> ends_with n ''.new''" "\<forall>f \<in> set ns. ends_with f ''.state''"
  shows "fold (add_value val) ns res n =
    (if new_state_file n \<in> set ns \<and> val (new_state_file n) \<noteq> None then val (new_state_file n)
     else case res n of Some x \<Rightarrow> Some x
       | None \<Rightarrow> if state_file n \<in> set ns then val (state_file n) else None)"
  using assms(2)
proof (induction ns arbitrary: res)
  case (Cons f ns)
  consider "f = new_state_file n" | "f = state_file n" | "f \<noteq> new_state_file n" "f \<noteq> state_file n" by blast
  then show ?case
  proof cases
    case 1
    then show ?thesis using Cons by (auto simp: add_value_def insert_state_new split: option.splits)
  next
    case 2
    then show ?thesis
      using Cons assms(1) by (auto simp: add_value_def insert_state_done split: option.splits)
  next
    case 3
    then have "add_value val f res n = res n"
      using Cons.prems insert_state_other by (auto simp: add_value_def split: option.splits)
    then show ?thesis using Cons 3 by auto
  qed
qed (simp split: option.splits)

lemma list_files_shown:
  "list_files oa suf d s = (Ok ns, t) \<Longrightarrow> f \<in> set ns \<Longrightarrow> \<not> starts_with f ''.'' \<and> ends_with f suf"
  by (auto simp: list_files_def split: sum.splits dest: list_entries_mem)

lemma scan_value_listed:
  assumes "lists_all (me_oa env)" "lift_fs (list_files (me_oa env) ''.state'' d) s = (Ok ns, t)"
    and "\<not> starts_with f ''.''" "ends_with f ''.state''" "f \<notin> set ns"
  shows "scan_value env s d f = None"
proof (rule ccontr)
  assume "scan_value env s d f \<noteq> None"
  then obtain st where "slot_at env s d f = Some (Some st)" by (auto simp: scan_value_cases)
  then obtain b where "oa_open_file (me_oa env) (mt_fs s) d f = Inr b"
    by (auto simp: slot_at_def file_slot_state)
  then show False using list_files_complete [OF assms(1)] assms(2-5) by (auto simp: lift_fs_eq)
qed

text \<open>
  C24. A scan of a directory reports, for every visible name that does not end in \<^verbatim>\<open>.new\<close>, the pending
  state if the name is being uploaded and its pending file holds a signed state, and otherwise the
  committed state if that is signed, and nothing otherwise. This is a function of the files at the
  start and of the uploads: the order of the listing, the deletion of stale pending files and the
  renaming of broken ones do not show in it.
\<close>

theorem all_states_result:
  assumes fs: "posix_dirs (me_oa env)" and ls: "lists_all (me_oa env)"
    and run: "all_states env v d s = (Ok res, t)"
    and name: "\<not> ends_with n ''.new''" "n \<noteq> []" "\<not> starts_with n ''.''"
  shows "res n =
    (if uploading_name s v n \<and> scan_value env s d (new_state_file n) \<noteq> None
     then scan_value env s d (new_state_file n) else scan_value env s d (state_file n))"
proof -
  obtain ns u where ns: "lift_fs (list_files (me_oa env) ''.state'' d) s = (Ok ns, u)"
    and scan: "scan_files env v d ns Map.empty u = (Ok res, t)"
    using run by (auto simp: all_states_def bind_io_Ok_iff)
  have u: "u = s" by (rule lift_reads_eq [OF reads_only_dir_ops(7) ns])
  have shown: "\<forall>f \<in> set ns. \<not> starts_with f ''.''" "\<forall>f \<in> set ns. ends_with f ''.state''"
    using ns list_files_shown by (fastforce simp: lift_fs_eq)+
  have res: "res = fold (add_value (file_value env s v d)) ns Map.empty"
    using scan_files_fold [OF fs shown(1) scan] u by simp
  have vis: "\<not> starts_with (state_file n) ''.''" "\<not> starts_with (new_state_file n) ''.''"
    "ends_with (state_file n) ''.state''" "ends_with (new_state_file n) ''.state''"
    using name(2,3) by (cases n; simp add: starts_with_def state_file_def new_state_file_def ends_with_def)+
  have "ends_with (new_state_file n) ''.new.state''" "\<not> ends_with (state_file n) ''.new.state''"
    using name(1) by (auto simp: ends_with_split new_state_file_def state_file_def)
  then have st: "stale s v (new_state_file n) \<longleftrightarrow> \<not> uploading_name s v n" "\<not> stale s v (state_file n)"
    by (simp_all add: stale_def)
  have miss: "scan_value env s d f = None" if "f \<in> {state_file n, new_state_file n}" "f \<notin> set ns" for f
    using scan_value_listed [OF ls ns] vis that by auto
  show ?thesis
    unfolding res fold_add_value [OF name(1) shown(2)]
    using miss [of "state_file n"] miss [of "new_state_file n"] st
    by (auto simp: file_value_def)
qed

theorem all_states_result_witness:
  "\<exists>res t. all_states (demo_env True) (VPath ''k'' []) [''signatures'', ''k''] (demo_committed (Other [1])) = (Ok res, t) \<and>
     res ''a'' = Some (demo_state (Other [1]))"
proof -
  let ?s = "demo_committed (Other [1])" and ?d = "[''signatures'', ''k'']" and ?v = "VPath ''k'' []"
  obtain res t where run: "all_states (demo_env True) ?v ?d ?s = (Ok res, t)"
    by (simp add: all_states_def bind_io_def lift_fs_def list_files_def demo_env_def mem_openat_def
        demo_committed_def starts_with_def ends_with_def mem_names_def under_def map_filter_def
        scan_file_def attempt_def read_state_def read_file_def demo_state_def)
  have vals: "scan_value (demo_env True) ?s ?d ''a.state'' = Some (demo_state (Other [1]))"
    "scan_value (demo_env True) ?s ?d ''a.new.state'' = None"
    by (simp_all add: scan_value_def slot_at_def file_slot_def demo_env_def mem_openat_def
        demo_committed_def demo_state_def)
  have name: "\<not> ends_with ''a'' ''.new''" "''a'' \<noteq> []" "\<not> starts_with ''a'' ''.''"
    by (simp_all add: ends_with_def starts_with_def)
  from all_states_result [OF demo_posix demo_lists run name] vals
  have "res ''a'' = Some (demo_state (Other [1]))" by (simp add: new_state_file_def state_file_def)
  with run show ?thesis by blast
qed

section \<open>Names that end in .new\<close>

lemmas demo_scan_eval =
  meta_scan_dir_def all_states_def list_files_def attempt_def open_vpath_def sub_dir_or_def
  ends_with_def mem_names_def map_filter_def cut_def vp_join_def components_def split_slash.simps
  piece_component_def

definition demo_new_committed :: "demo_file mem_fs meta" where
  "demo_new_committed = \<lparr>mt_fs = \<lparr>mf_dirs = [[''signatures'', ''k''], [''signatures'']],
       mf_files = [(([''signatures'', ''k''], ''a.new.state''), (DemoState (demo_state (Other [1])), 100))],
       mf_now = 100\<rparr>,
     mt_writing = Map.empty, mt_collecting = None\<rparr>"

lemma demo_new_upload:
  "dir_committed (demo_env True) (VPath ''k'' [''a.new''])
     (snd (start_append (demo_env True) (demo_append ''a.new'' (Other [1])) (meta_new demo_fs))) =
     (Ok (), demo_new_committed)"
  by (simp add: demo_eval demo_state_def demo_new_committed_def)

lemma demo_new_lookup:
  "get_image_id (demo_env True) (VPath ''k'' [''a.new'']) demo_new_committed = (Ok (Other [1]), demo_new_committed)"
  by (simp add: demo_eval demo_state_def demo_new_committed_def)

lemma demo_new_scan:
  "get_image_id (demo_env True) (VPath ''k'' [''a.new''])
     (snd (meta_scan_dir (demo_env True) (VPath ''k'' []) demo_new_committed)) =
     (Err (PathNotFound (VPath ''k'' [''a.new''])), demo_new_committed\<lparr>mt_fs := (mt_fs demo_new_committed)\<lparr>mf_files := []\<rparr>\<rparr>)"
  by (simp add: demo_eval demo_scan_eval demo_state_def demo_new_committed_def)

text \<open>
  A directory whose name ends in \<^verbatim>\<open>.new\<close> loses its state to a scan. An image uploaded to
  \<^verbatim>\<open>/k/a.new\<close> is accepted, committed and found by a lookup; a scan of \<^verbatim>\<open>/k\<close> then takes its state file
  \<^verbatim>\<open>a.new.state\<close> for the pending file of \<^verbatim>\<open>/k/a\<close>, which is not being uploaded, and deletes it, so that
  the next lookup does not find the path.
\<close>

theorem new_suffix_state_lost:
  "\<exists>s t u. start_append (demo_env True) (demo_append ''a.new'' (Other [1])) (meta_new demo_fs) = (Ok (Accepted New), s) \<and>
     dir_committed (demo_env True) (VPath ''k'' [''a.new'']) s = (Ok (), t) \<and>
     fst (get_image_id (demo_env True) (VPath ''k'' [''a.new'']) t) = Ok (Other [1]) \<and>
     snd (meta_scan_dir (demo_env True) (VPath ''k'' []) t) = u \<and>
     fst (get_image_id (demo_env True) (VPath ''k'' [''a.new'']) u) = Err (PathNotFound (VPath ''k'' [''a.new'']))"
proof -
  have "fst (start_append (demo_env True) (demo_append ''a.new'' (Other [1])) (meta_new demo_fs)) = Ok (Accepted New)"
    by (simp add: demo_eval)
  then obtain s where "start_append (demo_env True) (demo_append ''a.new'' (Other [1])) (meta_new demo_fs) =
      (Ok (Accepted New), s)" by (metis prod.collapse)
  then show ?thesis using demo_new_upload demo_new_lookup demo_new_scan by fastforce
qed

end
