(* ===== verification/Progress.thy ===== *)
theory Progress
  imports Mask Identifiers Failure_Tracker Config "HOL-Library.Multiset"
begin

text \<open>
  The progress of one download (\<^verbatim>\<open>src/daemon/tracking/progress.rs\<close>): the blocks of an index are cut
  into at most fifteen slices, and the mask that peers see says which slices are fetched.
\<close>

definition MAX_SLICES :: nat where
  "MAX_SLICES = 15"

text \<open>An entry of an index, as the \<^verbatim>\<open>dir_signature\<close> crate defines it.\<close>

datatype entry =
    EntryDir string
  | EntryLink string string
  | EntryFile (ef_path: string) (ef_exe: bool) (ef_size: u64) (ef_hashes: "bytes list")

record index =
  ix_id :: image_id
  ix_entries :: "entry list"
  ix_bytes_total :: u64
  ix_blocks_total :: u64
  ix_block_size :: u64

datatype block = Block (blk_hash: block_hash) (blk_path: string) (blk_offset: u64)

record 'a slice =
  sl_index :: nat
  sl_in_progress :: nat
  sl_blocks :: "block list"
  sl_failures :: "'a failures"

record 'a downloading =
  dw_virtual_path :: vpath
  dw_replacing :: bool
  dw_image_id :: image_id
  dw_config :: directory
  dw_slices :: "'a slice list"
  dw_mask :: u16
  dw_index_fetched :: bool
  dw_bytes_total :: u64
  dw_bytes_fetched :: u64
  dw_blocks_total :: u64
  dw_blocks_fetched :: u64
  dw_stalled :: bool

definition slice_new :: "nat \<Rightarrow> 'a slice" where
  "slice_new i = \<lparr>sl_index = i, sl_in_progress = 0, sl_blocks = [], sl_failures = failures_new_default\<rparr>"

definition add_blocks :: "'a slice \<Rightarrow> block list \<Rightarrow> 'a slice" where
  "add_blocks s bs = s\<lparr>sl_blocks := sl_blocks s @ bs\<rparr>"

definition notify_stalled :: "'a downloading \<Rightarrow> 'a downloading" where
  "notify_stalled d = d\<lparr>dw_stalled := True\<rparr>"

definition notify_unstalled :: "'a downloading \<Rightarrow> 'a downloading" where
  "notify_unstalled d = d\<lparr>dw_stalled := False\<rparr>"

definition index_fetched :: "index \<Rightarrow> 'a downloading \<Rightarrow> 'a downloading" where
  "index_fetched ix d = (notify_unstalled d)\<lparr>dw_bytes_total := ix_bytes_total ix,
     dw_blocks_total := ix_blocks_total ix, dw_index_fetched := True\<rparr>"

text \<open>Atomic counters wrap around.\<close>

definition report_block :: "bytes \<Rightarrow> 'a downloading \<Rightarrow> 'a downloading" where
  "report_block data d = (notify_unstalled d)\<lparr>
     dw_bytes_fetched := dw_bytes_fetched d + word_of_nat (length data),
     dw_blocks_fetched := dw_blocks_fetched d + 1\<rparr>"

definition report_slice :: "nat \<Rightarrow> 'a downloading \<Rightarrow> ('a downloading, unit) result" where
  "report_slice s d = bind_result (atomic_set_fetched (dw_mask d) s) (\<lambda>m. Ok (d\<lparr>dw_mask := m\<rparr>))"

section \<open>Cutting the blocks into slices\<close>

text \<open>The offset is a 64-bit product: an overflow is a panic, as is a hash of another length.\<close>

fun file_blocks :: "string \<Rightarrow> u64 \<Rightarrow> nat \<Rightarrow> bytes list \<Rightarrow> (block list, unit) result" where
  "file_blocks p bs i [] = Ok []"
| "file_blocks p bs i (h # hs) =
     bind_result (expect (block_from_bytes h)) (\<lambda>hash.
     if i * unat bs \<ge> 2 ^ 64 then Panic
     else bind_result (file_blocks p bs (Suc i) hs) (\<lambda>rest.
       Ok (Block hash p (word_of_nat (i * unat bs)) # rest)))"

fun index_blocks :: "u64 \<Rightarrow> string set \<Rightarrow> entry list \<Rightarrow> (block list, unit) result" where
  "index_blocks bs hardlinks [] = Ok []"
| "index_blocks bs hardlinks (EntryDir p # es) = index_blocks bs hardlinks es"
| "index_blocks bs hardlinks (EntryLink p d # es) = index_blocks bs hardlinks es"
| "index_blocks bs hardlinks (EntryFile p exe sz hashes # es) =
     (if p \<in> hardlinks then index_blocks bs hardlinks es
      else bind_result (file_blocks p bs 0 hashes) (\<lambda>b.
           bind_result (index_blocks bs hardlinks es) (\<lambda>rest. Ok (b @ rest))))"

function chunks :: "nat \<Rightarrow> 'x list \<Rightarrow> 'x list list" where
  "chunks n xs = (if xs = [] \<or> n = 0 then [] else take n xs # chunks n (drop n xs))"
  by pat_completeness auto
termination by (relation "measure (length \<circ> snd)") auto

declare chunks.simps [simp del]

definition grow_slices :: "nat \<Rightarrow> 'a slice list \<Rightarrow> 'a slice list" where
  "grow_slices s slices = slices @ map slice_new [length slices..<Suc s]"

fun add_chunks ::
  "nat \<Rightarrow> block list list \<Rightarrow> 'a slice list \<times> mask \<Rightarrow> ('a slice list \<times> mask, unit) result" where
  "add_chunks idx [] (slices, m) = Ok (slices, m)"
| "add_chunks idx (chunk # rest) (slices, m) =
     (let s = idx mod MAX_SLICES; slices = grow_slices s slices in
      bind_result (slice_unfetched m s) (\<lambda>m'.
        add_chunks (Suc idx) rest (slices[s := add_blocks (slices ! s) chunk], m')))"

text \<open>\<open>shuffle\<close> is the permutation that the random generator picks.\<close>

definition fill_blocks ::
  "('a slice list \<Rightarrow> 'a slice list) \<Rightarrow> index \<Rightarrow> string set \<Rightarrow> 'a downloading \<Rightarrow> ('a downloading, unit) result" where
  "fill_blocks shuffle ix hardlinks d =
     bind_result (index_blocks (ix_block_size ix) hardlinks (ix_entries ix)) (\<lambda>blocks.
     bind_result (add_chunks 0 (chunks 100 blocks) ([], mask_full)) (\<lambda>(slices, m).
       Ok (d\<lparr>dw_slices := dw_slices d @ shuffle slices, dw_mask := atomic_set (dw_mask d) m\<rparr>)))"

section \<open>What filling does\<close>

definition slice_mset :: "'a slice list \<Rightarrow> block multiset" where
  "slice_mset slices = (\<Sum>s\<in>#mset slices. mset (sl_blocks s))"

lemma slice_mset_simps [simp]:
  "slice_mset [] = {#}" "slice_mset (s # ss) = mset (sl_blocks s) + slice_mset ss"
  "slice_mset (ss @ ts) = slice_mset ss + slice_mset ts"
  by (simp_all add: slice_mset_def)

lemma concat_chunks: "n > 0 \<Longrightarrow> concat (chunks n xs) = xs"
proof (induction n xs rule: chunks.induct)
  case (1 n xs)
  then show ?case by (subst chunks.simps) simp
qed

lemma slice_mset_new [simp]: "slice_mset (map slice_new is) = {#}"
  by (induction "is") (simp_all add: slice_new_def)

lemma slice_mset_grow [simp]: "slice_mset (grow_slices s slices) = slice_mset slices"
  by (simp add: grow_slices_def)

lemma slice_mset_update:
  "i < length ss \<Longrightarrow> slice_mset (ss[i := add_blocks (ss ! i) bs]) = slice_mset ss + mset bs"
proof (induction ss arbitrary: i)
  case (Cons s ss)
  then show ?case by (cases i) (auto simp: add_blocks_def)
qed simp

definition slots_ok :: "'a slice list \<Rightarrow> bool" where
  "slots_ok slices \<longleftrightarrow> map sl_index slices = [0..<length slices] \<and> length slices \<le> MAX_SLICES \<and>
     (\<forall>s \<in> set slices. sl_in_progress s = 0)"

lemma length_grow: "length (grow_slices s slices) = max (length slices) (Suc s)"
  by (simp add: grow_slices_def)

lemma slots_ok_grow:
  assumes "slots_ok slices" "s < MAX_SLICES"
  shows "slots_ok (grow_slices s slices)"
proof -
  have "map sl_index (grow_slices s slices) = [0..<length slices] @ [length slices..<Suc s]"
    using assms(1) by (simp add: grow_slices_def slots_ok_def slice_new_def comp_def)
  also have "\<dots> = [0..<max (length slices) (Suc s)]"
  proof (cases "length slices \<le> Suc s")
    case True
    then have "[0..<Suc s] = [0..<length slices] @ [length slices..<Suc s]"
      using upt_add_eq_append [of 0 "length slices" "Suc s - length slices"] by (simp del: upt_Suc)
    then show ?thesis using True by (simp add: max_def del: upt_Suc)
  qed (simp add: max_def)
  finally show ?thesis
    using assms by (auto simp: slots_ok_def length_grow grow_slices_def slice_new_def)
qed

lemma slots_ok_add: "slots_ok ss \<Longrightarrow> slots_ok (ss[i := add_blocks (ss ! i) bs])"
proof (cases "i < length ss")
  case True
  assume ok: "slots_ok ss"
  have "map sl_index (ss[i := add_blocks (ss ! i) bs]) = map sl_index ss"
    using True by (simp add: map_update add_blocks_def list_update_same_conv)
  moreover have "sl_in_progress s = 0" if "s \<in> set (ss[i := add_blocks (ss ! i) bs])" for s
    using that set_update_subset_insert [of ss i] ok True
    by (force simp: slots_ok_def add_blocks_def)
  ultimately show ?thesis using ok by (simp add: slots_ok_def)
qed (simp add: list_update_beyond)

lemma add_chunks_ok:
  assumes "slots_ok slices" "length slices = min idx MAX_SLICES" "mask_set m = {..<16} - {..<length slices}"
  shows "\<exists>slices' m'. add_chunks idx cs (slices, m) = Ok (slices', m') \<and> slots_ok slices' \<and>
    length slices' = min (idx + length cs) MAX_SLICES \<and>
    mask_set m' = {..<16} - {..<length slices'} \<and> slice_mset slices' = slice_mset slices + mset (concat cs)"
  using assms
proof (induction cs arbitrary: idx slices m)
  case Nil
  then show ?case by simp
next
  case (Cons c cs)
  let ?s = "idx mod MAX_SLICES"
  let ?g = "grow_slices ?s slices"
  let ?u = "?g[?s := add_blocks (?g ! ?s) c]"
  have s: "?s < MAX_SLICES" by (simp add: MAX_SLICES_def)
  then have s16: "?s < 16" by (simp add: MAX_SLICES_def)
  obtain m' where m': "slice_unfetched m ?s = (Ok m' :: (mask, unit) result)"
    using s16 by (simp add: slice_unfetched_def shl_one_def)
  have len: "length ?u = min (Suc idx) MAX_SLICES"
    using Cons.prems(2) by (auto simp: length_grow MAX_SLICES_def min_def max_def)
  have set: "mask_set m' = {..<16} - {..<length ?u}"
    using mask_set_unfetched [OF m'] Cons.prems(2,3) len
    by (auto simp: MAX_SLICES_def min_def)
  have ok: "slots_ok ?u" by (intro slots_ok_add slots_ok_grow Cons.prems(1) s)
  have ms: "slice_mset ?u = slice_mset slices + mset c"
    by (subst slice_mset_update) (simp_all add: length_grow)
  have step: "add_chunks idx (c # cs) (slices, m) = add_chunks (Suc idx) cs (?u, m')"
    by (simp add: Let_def m')
  from Cons.IH [OF ok len set] show ?case
    unfolding step ms by (simp add: add.assoc)
qed

text \<open>A download whose slices are in order: what filling establishes and fetching keeps.\<close>

definition slices_ok :: "'a slice list \<Rightarrow> mask \<Rightarrow> bool" where
  "slices_ok slices m \<longleftrightarrow> distinct (map sl_index slices) \<and> (\<forall>s \<in> set slices. sl_index s < MAX_SLICES) \<and>
     mask_set m = {..<16} - sl_index ` set slices"

lemma slots_ok_slices_ok:
  assumes "slots_ok ss" "mask_set m = {..<16} - {..<length ss}" "mset ts = mset ss"
  shows "slices_ok ts m \<and> length ts \<le> MAX_SLICES \<and> (\<forall>s \<in> set ts. sl_in_progress s = 0)"
proof -
  have ts: "set ts = set ss" "length ts = length ss" "mset (map sl_index ts) = mset (map sl_index ss)"
    using assms(3) by (auto dest: mset_eq_setD mset_eq_length)
  have idx: "map sl_index ss = [0..<length ss]" using assms(1) by (simp add: slots_ok_def)
  have "distinct (map sl_index ts)"
    using ts(3) idx by (metis distinct_upt mset_eq_imp_distinct_iff)
  moreover have "sl_index ` set ts = {..<length ss}"
    using idx ts(1) by (metis atLeast0LessThan atLeast_upt list.set_map)
  moreover have "sl_index s < MAX_SLICES" if "s \<in> set ts" for s
  proof -
    have "sl_index s \<in> {..<length ss}" using \<open>sl_index ` set ts = {..<length ss}\<close> that by blast
    then show ?thesis using assms(1) by (simp add: slots_ok_def)
  qed
  ultimately show ?thesis
    using assms(1,2) ts by (auto simp: slices_ok_def slots_ok_def)
qed

lemma fill_blocks_establishes:
  assumes "\<forall>xs. mset (shuffle xs) = mset (xs :: 'a slice list)" and "dw_slices d = []"
    and Ok: "index_blocks (ix_block_size ix) hardlinks (ix_entries ix) = Ok blocks"
  shows "\<exists>d'. fill_blocks shuffle ix hardlinks d = Ok d' \<and>
    slice_mset (dw_slices d') = mset blocks \<and> length (dw_slices d') \<le> MAX_SLICES \<and>
    slices_ok (dw_slices d') (atomic_get (dw_mask d')) \<and>
    list_all (\<lambda>s. sl_in_progress s = 0) (dw_slices d')"
proof -
  have start: "slots_ok ([] :: 'a slice list)" "length ([] :: 'a slice list) = min 0 MAX_SLICES"
    "mask_set mask_full = {..<16} - {..<length ([] :: 'a slice list)}"
    by (simp_all add: slots_ok_def)
  obtain ss :: "'a slice list" and m where add: "add_chunks 0 (chunks 100 blocks) ([], mask_full) = Ok (ss, m)"
    and ss: "slots_ok ss" "mask_set m = {..<16} - {..<length ss}"
      "slice_mset ss = slice_mset ([] :: 'a slice list) + mset (concat (chunks 100 blocks))"
    using add_chunks_ok [OF start, of "chunks 100 blocks"] by blast
  have "slice_mset ss = mset blocks" using ss(3) by (simp add: concat_chunks)
  moreover have "slice_mset (shuffle ss) = slice_mset ss" using assms(1) by (simp add: slice_mset_def)
  ultimately show ?thesis
    using slots_ok_slices_ok [OF ss(1,2), of "shuffle ss"] assms Ok add
    by (auto simp: fill_blocks_def list_all_iff)
qed

text \<open>
  Cutting an index into slices loses no block. If the index has blocks with valid hashes, filling
  succeeds: the slices hold exactly the blocks of the files that are not hard-linked (as a multiset),
  there are at most fifteen of them with distinct numbers below fifteen, nothing is in progress, and
  the mask shows exactly the other slices (and the index) as fetched; it fails exactly when the blocks
  of the index cannot be computed.
\<close>

theorem fill_blocks_partition:
  assumes "\<forall>xs. mset (shuffle xs) = mset xs" and "dw_slices d = []"
  shows "case index_blocks (ix_block_size ix) hardlinks (ix_entries ix) of
      Ok blocks \<Rightarrow> (\<exists>d'. fill_blocks shuffle ix hardlinks d = Ok d' \<and>
        slice_mset (dw_slices d') = mset blocks \<and> length (dw_slices d') \<le> MAX_SLICES \<and>
        slices_ok (dw_slices d') (atomic_get (dw_mask d')) \<and>
        list_all (\<lambda>s. sl_in_progress s = 0) (dw_slices d'))
    | Err e \<Rightarrow> fill_blocks shuffle ix hardlinks d = Err e
    | Panic \<Rightarrow> fill_blocks shuffle ix hardlinks d = Panic"
  by (cases "index_blocks (ix_block_size ix) hardlinks (ix_entries ix)")
    (simp_all add: fill_blocks_establishes [OF assms], simp_all add: fill_blocks_def)

definition demo_download :: "nat downloading" where
  "demo_download = \<lparr>dw_virtual_path = VPath ''k'' [''a''], dw_replacing = False, dw_image_id = Other [1],
     dw_config = \<lparr>directory_path = ''/d'', append_only = True, num_levels = 1, upload_keys = [],
       download_keys = [], auto_clean = False, keep_list_file = None, keep_min_directories = 1,
       keep_max_directories = 2, keep_recent = 5\<rparr>,
     dw_slices = [], dw_mask = 0, dw_index_fetched = False, dw_bytes_total = 0, dw_bytes_fetched = 0,
     dw_blocks_total = 0, dw_blocks_fetched = 0, dw_stalled = False\<rparr>"

definition demo_index :: index where
  "demo_index = \<lparr>ix_id = Other [1], ix_entries = [EntryDir ''/'', EntryFile ''/f'' False 3 [replicate 32 9]],
     ix_bytes_total = 3, ix_blocks_total = 1, ix_block_size = 32768\<rparr>"

theorem fill_blocks_partition_witness:
  "\<exists>d'. fill_blocks rev demo_index {} demo_download = Ok d' \<and>
     slice_mset (dw_slices d') = {#Block (BlockHash (replicate 32 9)) ''/f'' 0#} \<and>
     slices_ok (dw_slices d') (atomic_get (dw_mask d'))"
proof -
  have "index_blocks (ix_block_size demo_index) {} (ix_entries demo_index) =
      Ok [Block (BlockHash (replicate 32 9)) ''/f'' 0]"
    by (simp add: demo_index_def block_from_bytes_def)
  with fill_blocks_partition [of rev demo_download demo_index "{}"] show ?thesis
    by (force simp: demo_download_def)
qed

end
