(* ===== verification/Fetch_Blocks.thy ===== *)
theory Fetch_Blocks
  imports Progress
begin

text \<open>
  Fetching the blocks of a download (\<^verbatim>\<open>src/daemon/tracking/fetch_blocks.rs\<close>): up to eleven requests
  and writes run at once; a request that fails or returns the wrong data puts its block back. The
  outside world is a parameter with a state of its own: what a request or a write in flight answers,
  which peer is available for a slice, the timers and the clock.
\<close>

definition CONCURRENCY :: nat where
  "CONCURRENCY = 10"

definition RETRY_CLUSTER_FAILURE :: nat where
  "RETRY_CLUSTER_FAILURE = 120000 * 1000000"

datatype fetch_reply = FetchPending | FetchData bytes | FetchFailed
datatype write_reply = WritePending | Written | WriteFailed

record ('e, 'a) fetch_env =
  fe_hash :: "bytes \<Rightarrow> bytes"
  fe_fetch :: "'e \<Rightarrow> block \<Rightarrow> 'a \<Rightarrow> fetch_reply \<times> 'e"
  fe_write :: "'e \<Rightarrow> block \<Rightarrow> bytes \<Rightarrow> write_reply \<times> 'e"
  fe_conn :: "'e \<Rightarrow> mask \<Rightarrow> 'a failures \<Rightarrow> 'a option \<times> 'e"
  fe_deadline :: "'e \<Rightarrow> bool \<times> 'e"
  fe_cstalled :: "'e \<Rightarrow> bool \<times> 'e"
  fe_timer :: "'e \<Rightarrow> bool \<times> 'e"
  fe_now :: "'e \<Rightarrow> instant"

datatype 'a fetch_block = Fetching block nat 'a | WritingBlock block bytes

text \<open>
  \<^verbatim>\<open>fb_writes\<close> is the sequence of calls to \<^verbatim>\<open>disk.write_block\<close>, and \<^verbatim>\<open>fb_announced\<close> the masks that
  \<^verbatim>\<open>peers.notify_progress\<close> was given.
\<close>

record 'a fetch_blocks =
  fb_downloading :: "'a downloading"
  fb_futures :: "'a fetch_block list"
  fb_retry_timeout :: bool
  fb_last_okay :: instant
  fb_writes :: "(block \<times> bytes) list"
  fb_announced :: "mask list"

definition fetch_blocks_new :: "instant \<Rightarrow> 'a downloading \<Rightarrow> 'a fetch_blocks" where
  "fetch_blocks_new now d = \<lparr>fb_downloading = d, fb_futures = [], fb_retry_timeout = False,
     fb_last_okay = now, fb_writes = [], fb_announced = []\<rparr>"

section \<open>One future\<close>

text \<open>\<^verbatim>\<open>in_progress -= 1\<close> panics when the counter is zero.\<close>

definition finish_block :: "nat \<Rightarrow> 'a slice list \<Rightarrow> ('a slice list, unit) result" where
  "finish_block i slices =
     (if list_ex (\<lambda>s. sl_index s = i \<and> sl_in_progress s = 0) slices then Panic
      else Ok (map (\<lambda>s. if sl_index s = i then s\<lparr>sl_in_progress := sl_in_progress s - 1\<rparr> else s) slices))"

fun return_block ::
  "instant \<Rightarrow> nat \<Rightarrow> block \<Rightarrow> 'a \<Rightarrow> 'a slice list \<Rightarrow> ('a slice list, unit) result" where
  "return_block now i blk addr [] = Ok []"
| "return_block now i blk addr (s # ss) =
     (if sl_index s = i
      then (if sl_in_progress s = 0 then Panic
            else Ok (s\<lparr>sl_in_progress := sl_in_progress s - 1, sl_blocks := sl_blocks s @ [blk],
                       sl_failures := add_failure now addr (sl_failures s)\<rparr> # ss))
      else bind_result (return_block now i blk addr ss) (\<lambda>r. Ok (s # r)))"

definition with_slices :: "'a fetch_blocks \<Rightarrow> 'a slice list \<Rightarrow> 'a fetch_blocks" where
  "with_slices st ss = st\<lparr>fb_downloading := (fb_downloading st)\<lparr>dw_slices := ss\<rparr>\<rparr>"

abbreviation fb_slices :: "'a fetch_blocks \<Rightarrow> 'a slice list" where
  "fb_slices st \<equiv> dw_slices (fb_downloading st)"

text \<open>A failed write ends the process with code 102, which is the \<^const>\<open>Err\<close> of these functions.\<close>

datatype 'a block_poll = BlockReady | BlockFailed | BlockPending "'a fetch_block"

definition poll_write ::
  "('e, 'a) fetch_env \<Rightarrow> block \<Rightarrow> bytes \<Rightarrow> 'a fetch_blocks \<Rightarrow> 'e \<Rightarrow>
     ('a block_poll \<times> 'a fetch_blocks \<times> 'e, unit) result" where
  "poll_write env blk data st e =
     (case fe_write env e blk data of
        (Written, e') \<Rightarrow> Ok (BlockReady, st, e')
      | (WritePending, e') \<Rightarrow> Ok (BlockPending (WritingBlock blk data), st, e')
      | (WriteFailed, e') \<Rightarrow> Err ())"

fun poll_block ::
  "('e, 'a) fetch_env \<Rightarrow> 'a fetch_block \<Rightarrow> 'a fetch_blocks \<Rightarrow> 'e \<Rightarrow>
     ('a block_poll \<times> 'a fetch_blocks \<times> 'e, unit) result" where
  "poll_block env (WritingBlock blk data) st e = poll_write env blk data st e"
| "poll_block env (Fetching blk i addr) st e =
     (case fe_fetch env e blk addr of
        (FetchPending, e') \<Rightarrow> Ok (BlockPending (Fetching blk i addr), st, e')
      | (FetchData data, e') \<Rightarrow>
          if block_hash_bytes (fe_hash env) data = blk_hash blk
          then
            bind_result (finish_block i (fb_slices st)) (\<lambda>ss.
              let st1 = with_slices st ss;
                  st2 = st1\<lparr>fb_last_okay := fe_now env e', fb_downloading := report_block data (fb_downloading st1),
                            fb_writes := fb_writes st1 @ [(blk, data)]\<rparr>
              in poll_write env blk data st2 e')
          else
            bind_result (return_block (fe_now env e') i blk addr (fb_slices st)) (\<lambda>ss.
              Ok (BlockFailed, with_slices st ss, e'))
      | (FetchFailed, e') \<Rightarrow>
          bind_result (return_block (fe_now env e') i blk addr (fb_slices st)) (\<lambda>ss.
            Ok (BlockFailed, with_slices st ss, e')))"

fun poll_futures ::
  "('e, 'a) fetch_env \<Rightarrow> nat \<Rightarrow> 'a fetch_blocks \<Rightarrow> 'e \<Rightarrow> ('a fetch_blocks \<times> 'e, unit) result" where
  "poll_futures env 0 st e = Ok (st, e)"
| "poll_futures env (Suc n) st e =
     (case fb_futures st of
        [] \<Rightarrow> Panic
      | f # fs \<Rightarrow>
          bind_result (poll_block env f (st\<lparr>fb_futures := fs\<rparr>) e) (\<lambda>(r, st', e').
            poll_futures env n
              (case r of BlockPending x \<Rightarrow> st'\<lparr>fb_futures := fb_futures st' @ [x]\<rparr> | _ \<Rightarrow> st') e'))"

section \<open>Dropping finished slices\<close>

fun retain_slices ::
  "'a slice list \<Rightarrow> 'a downloading \<Rightarrow> mask list \<Rightarrow> ('a slice list \<times> 'a downloading \<times> mask list, unit) result" where
  "retain_slices [] d ann = Ok ([], d, ann)"
| "retain_slices (s # ss) d ann =
     (if sl_in_progress s > 0 \<or> sl_blocks s \<noteq> []
      then bind_result (retain_slices ss d ann) (\<lambda>(r, d', ann'). Ok (s # r, d', ann'))
      else bind_result (report_slice (sl_index s) d) (\<lambda>d'.
             retain_slices ss d' (ann @ [atomic_get (dw_mask d')])))"

definition retain_finished :: "'a fetch_blocks \<Rightarrow> ('a fetch_blocks, unit) result" where
  "retain_finished st =
     bind_result (retain_slices (fb_slices st) (fb_downloading st) (fb_announced st)) (\<lambda>(ss, d, ann).
       Ok (st\<lparr>fb_downloading := d\<lparr>dw_slices := ss\<rparr>, fb_announced := ann\<rparr>))"

section \<open>Starting requests\<close>

text \<open>
  The inner loop over the blocks of a slice: the slice afterwards, the futures, the number of new
  ones, and whether the limit was passed (\<^verbatim>\<open>continue 'outer\<close>).
\<close>

fun start_blocks ::
  "('e, 'a) fetch_env \<Rightarrow> mask \<Rightarrow> 'a slice \<Rightarrow> block list \<Rightarrow> 'a fetch_block list \<Rightarrow> nat \<Rightarrow> 'e \<Rightarrow>
     'a slice \<times> 'a fetch_block list \<times> nat \<times> bool \<times> 'e" where
  "start_blocks env m s [] futures new e = (s\<lparr>sl_blocks := []\<rparr>, futures, new, False, e)"
| "start_blocks env m s (blk # bs) futures new e =
     (case fe_conn env e m (sl_failures s) of
        (Some addr, e') \<Rightarrow>
          let futures' = futures @ [Fetching blk (sl_index s) addr];
              s' = s\<lparr>sl_in_progress := Suc (sl_in_progress s)\<rparr>
          in if length futures' > CONCURRENCY
             then (s'\<lparr>sl_blocks := bs\<rparr>, futures', Suc new, True, e')
             else start_blocks env m s' bs futures' (Suc new) e'
      | (None, e') \<Rightarrow> (s\<lparr>sl_blocks := bs @ [blk]\<rparr>, futures, new, False, e'))"

fun start_slices ::
  "('e, 'a) fetch_env \<Rightarrow> 'a slice list \<Rightarrow> 'a fetch_block list \<Rightarrow> nat \<Rightarrow> 'e \<Rightarrow>
     ('a slice list \<times> 'a fetch_block list \<times> nat \<times> bool \<times> 'e, unit) result" where
  "start_slices env [] futures new e = Ok ([], futures, new, False, e)"
| "start_slices env (s # ss) futures new e =
     bind_result (if sl_blocks s = [] then Ok (Mask 0) else slice_bit (sl_index s)) (\<lambda>m.
     case start_blocks env m s (sl_blocks s) futures new e of
       (s', futures', new', full, e') \<Rightarrow>
         if full then Ok (s' # ss, futures', new', True, e')
         else bind_result (start_slices env ss futures' new' e') (\<lambda>(r, x). Ok (s' # r, x)))"

section \<open>One round of the outer loop\<close>

datatype round = RoundReady | RoundFailed | RoundPending | RoundContinue

definition wait_round ::
  "('e, 'a) fetch_env \<Rightarrow> 'a fetch_blocks \<Rightarrow> 'e \<Rightarrow> round \<times> 'a fetch_blocks \<times> 'e" where
  "wait_round env st e =
     (let st1 = st\<lparr>fb_downloading := notify_stalled (fb_downloading st)\<rparr>;
          (failed, e1) = (if fb_last_okay st + RETRY_CLUSTER_FAILURE < fe_now env e
                          then fe_cstalled env e else (False, e))
      in if failed then (RoundFailed, st1, e1)
         else (case fe_timer env e1 of
                 (True, e2) \<Rightarrow> (RoundContinue, st1, e2)
               | (False, e2) \<Rightarrow> (RoundPending, st1\<lparr>fb_retry_timeout := True\<rparr>, e2)))"

definition fetch_round ::
  "('e, 'a) fetch_env \<Rightarrow> 'a fetch_blocks \<Rightarrow> 'e \<Rightarrow> (round \<times> 'a fetch_blocks \<times> 'e, unit) result" where
  "fetch_round env st0 e0 =
     bind_result (poll_futures env (length (fb_futures st0)) st0 e0) (\<lambda>(st1, e1).
     bind_result (retain_finished st1) (\<lambda>st2.
     if fb_futures st2 = [] \<and> fb_slices st2 = [] then Ok (RoundReady, st2, e1)
     else (case fe_deadline env e1 of
        (True, e2) \<Rightarrow> Ok (RoundFailed, st2, e2)
      | (False, e2) \<Rightarrow>
          if length (fb_futures st2) \<ge> CONCURRENCY then Ok (RoundPending, st2, e2)
          else
            bind_result (start_slices env (fb_slices st2) (fb_futures st2) 0 e2)
              (\<lambda>(ss, futures, new, full, e3).
                let st3 = (with_slices st2 ss)\<lparr>fb_futures := futures\<rparr> in
                if full \<or> new > 0 then Ok (RoundContinue, st3, e3)
                else if futures = [] then Ok (wait_round env st3 e3)
                else Ok (RoundPending, st3, e3)))))"

text \<open>
  A poll: nothing while the retry timer runs (\<^verbatim>\<open>due\<close> says whether it fired), else rounds until one
  does not continue. The fuel bounds the rounds of one poll; \<^const>\<open>None\<close> is running out of it.
\<close>

fun fetch_loop ::
  "('e, 'a) fetch_env \<Rightarrow> nat \<Rightarrow> 'a fetch_blocks \<Rightarrow> 'e \<Rightarrow> (round \<times> 'a fetch_blocks \<times> 'e, unit) result option" where
  "fetch_loop env 0 st e = None"
| "fetch_loop env (Suc n) st e =
     (case fetch_round env st e of
        Ok (RoundContinue, st', e') \<Rightarrow> fetch_loop env n st' e'
      | r \<Rightarrow> Some r)"

definition fetch_poll ::
  "('e, 'a) fetch_env \<Rightarrow> nat \<Rightarrow> bool \<Rightarrow> 'a fetch_blocks \<Rightarrow> 'e \<Rightarrow>
     (round \<times> 'a fetch_blocks \<times> 'e, unit) result option" where
  "fetch_poll env fuel due st e =
     (if fb_retry_timeout st \<and> \<not> due then Some (Ok (RoundPending, st, e))
      else fetch_loop env fuel (st\<lparr>fb_retry_timeout := False\<rparr>) e)"

section \<open>The invariant\<close>

fun fetches :: "nat \<Rightarrow> 'a fetch_block \<Rightarrow> bool" where
  "fetches i (Fetching b j a) \<longleftrightarrow> j = i"
| "fetches i (WritingBlock b d) \<longleftrightarrow> False"

fun fetched_block :: "'a fetch_block \<Rightarrow> block multiset" where
  "fetched_block (Fetching b j a) = {#b#}"
| "fetched_block (WritingBlock b d) = {#}"

definition fetching :: "nat \<Rightarrow> 'a fetch_block list \<Rightarrow> nat" where
  "fetching i fs = length (filter (fetches i) fs)"

definition fetching_mset :: "'a fetch_block list \<Rightarrow> block multiset" where
  "fetching_mset fs = (\<Sum>f\<in>#mset fs. fetched_block f)"

lemma fetching_simps [simp]:
  "fetching i [] = 0" "fetching i (f # fs) = (if fetches i f then Suc (fetching i fs) else fetching i fs)"
  "fetching i (fs @ gs) = fetching i fs + fetching i gs"
  by (simp_all add: fetching_def)

lemma fetching_mset_simps [simp]:
  "fetching_mset [] = {#}" "fetching_mset (f # fs) = fetched_block f + fetching_mset fs"
  "fetching_mset (fs @ gs) = fetching_mset fs + fetching_mset gs"
  by (simp_all add: fetching_mset_def)

text \<open>
  With \<open>fs\<close> the futures in flight: slices and mask agree, the counters count the requests, every
  request belongs to a slice, no block is lost or doubled between slices, requests and writes, and
  every write carries the data its hash promises.
\<close>

definition blocks_inv ::
  "('e, 'a) fetch_env \<Rightarrow> block multiset \<Rightarrow> 'a fetch_block list \<Rightarrow> 'a fetch_blocks \<Rightarrow> bool" where
  "blocks_inv env all_blks fs st \<longleftrightarrow>
     slices_ok (fb_slices st) (atomic_get (dw_mask (fb_downloading st))) \<and>
     (\<forall>s \<in> set (fb_slices st). sl_in_progress s = fetching (sl_index s) fs) \<and>
     (\<forall>i. fetching i fs > 0 \<longrightarrow> i \<in> sl_index ` set (fb_slices st)) \<and>
     slice_mset (fb_slices st) + fetching_mset fs + mset (map fst (fb_writes st)) = all_blks \<and>
     (\<forall>(b, d) \<in> set (fb_writes st). block_hash_bytes (fe_hash env) d = blk_hash b)"

definition fetch_inv :: "('e, 'a) fetch_env \<Rightarrow> block multiset \<Rightarrow> 'a fetch_blocks \<Rightarrow> bool" where
  "fetch_inv env all_blks st \<longleftrightarrow> blocks_inv env all_blks (fb_futures st) st \<and> length (fb_futures st) \<le> Suc CONCURRENCY"

lemma finish_block_ok:
  assumes "\<forall>s \<in> set ss. sl_index s = i \<longrightarrow> sl_in_progress s > 0"
  shows "\<exists>ss'. finish_block i ss = Ok ss' \<and> map sl_index ss' = map sl_index ss \<and>
    slice_mset ss' = slice_mset ss \<and>
    (\<forall>s' \<in> set ss'. \<exists>s \<in> set ss. sl_index s' = sl_index s \<and>
       sl_in_progress s' = sl_in_progress s - (if sl_index s = i then 1 else 0))"
proof -
  let ?f = "\<lambda>s :: 'a slice. if sl_index s = i then s\<lparr>sl_in_progress := sl_in_progress s - 1\<rparr> else s"
  have "\<not> list_ex (\<lambda>s. sl_index s = i \<and> sl_in_progress s = 0) ss"
    using assms by (auto simp: list_ex_iff)
  moreover have "slice_mset (map ?f ss) = slice_mset ss" by (induction ss) auto
  ultimately show ?thesis by (auto simp: finish_block_def)
qed

lemma return_block_ok:
  "i \<in> sl_index ` set ss \<Longrightarrow> distinct (map sl_index ss) \<Longrightarrow>
    \<forall>s \<in> set ss. sl_index s = i \<longrightarrow> sl_in_progress s > 0 \<Longrightarrow>
    \<exists>ss'. return_block now i blk addr ss = Ok ss' \<and> map sl_index ss' = map sl_index ss \<and>
      slice_mset ss' = add_mset blk (slice_mset ss) \<and>
      (\<forall>s' \<in> set ss'. \<exists>s \<in> set ss. sl_index s' = sl_index s \<and>
         sl_in_progress s' = sl_in_progress s - (if sl_index s = i then 1 else 0))"
proof (induction ss)
  case (Cons s ss)
  show ?case
  proof (cases "sl_index s = i")
    case True
    let ?s = "s\<lparr>sl_in_progress := sl_in_progress s - 1, sl_blocks := sl_blocks s @ [blk],
      sl_failures := add_failure now addr (sl_failures s)\<rparr>"
    have "\<forall>x \<in> set ss. sl_index x \<noteq> i" using Cons.prems(2) True by (metis distinct.simps(2) image_eqI list.set_map list.simps(9))
    then show ?thesis using Cons.prems(3) True by (intro exI [of _ "?s # ss"]) auto
  next
    case False
    then obtain ss' where "return_block now i blk addr ss = Ok ss'" "map sl_index ss' = map sl_index ss"
      "slice_mset ss' = add_mset blk (slice_mset ss)"
      "\<forall>s' \<in> set ss'. \<exists>s \<in> set ss. sl_index s' = sl_index s \<and>
         sl_in_progress s' = sl_in_progress s - (if sl_index s = i then 1 else 0)"
      using Cons by auto
    then show ?thesis using False by (intro exI [of _ "s # ss'"]) auto
  qed
qed simp

lemma slices_ok_cong:
  assumes "slices_ok ss m" "map sl_index ss' = map sl_index ss"
  shows "slices_ok ss' m"
proof -
  have "sl_index ` set ss' = sl_index ` set ss" using assms(2) by (metis list.set_map)
  then show ?thesis using assms unfolding slices_ok_def by (metis (mono_tags, lifting) image_eqI image_iff)
qed

text \<open>What a request of slice \<open>i\<close> does to the invariant when it leaves the futures.\<close>

lemma blocks_inv_fetching:
  assumes inv: "blocks_inv env all_blks (Fetching blk i addr # fs) st"
    and idx: "map sl_index ss' = map sl_index (fb_slices st)"
    and prog: "\<forall>s' \<in> set ss'. \<exists>s \<in> set (fb_slices st). sl_index s' = sl_index s \<and>
       sl_in_progress s' = sl_in_progress s - (if sl_index s = i then 1 else 0)"
    and ms: "slice_mset ss' + mset (map fst w) = add_mset blk (slice_mset (fb_slices st)) + mset (map fst (fb_writes st))"
    and hash: "\<forall>(b, d) \<in> set w. block_hash_bytes (fe_hash env) d = blk_hash b"
    and st': "fb_slices st' = ss'" "dw_mask (fb_downloading st') = dw_mask (fb_downloading st)" "fb_writes st' = w"
  shows "blocks_inv env all_blks fs st'"
proof -
  have "sl_index ` set ss' = sl_index ` set (fb_slices st)" using idx by (metis list.set_map)
  moreover have "sl_in_progress s' = fetching (sl_index s') fs" if s': "s' \<in> set ss'" for s'
  proof -
    obtain s where "s \<in> set (fb_slices st)" "sl_index s' = sl_index s"
      "sl_in_progress s' = sl_in_progress s - (if sl_index s = i then 1 else 0)" using prog s' by blast
    then show ?thesis using inv by (auto simp: blocks_inv_def)
  qed
  moreover have "slice_mset ss' + fetching_mset fs + mset (map fst w) = all_blks"
    using inv ms by (simp add: blocks_inv_def add.commute add.left_commute)
  moreover have "\<forall>j. fetching j fs > 0 \<longrightarrow> j \<in> sl_index ` set (fb_slices st)"
    using inv by (auto simp: blocks_inv_def split: if_splits)
  ultimately show ?thesis
    using inv hash st' slices_ok_cong [OF _ idx] by (simp add: blocks_inv_def)
qed

lemma blocks_inv_mset:
  assumes "mset fs = mset gs"
  shows "blocks_inv env all_blks fs st = blocks_inv env all_blks gs st"
proof -
  have "fetching i fs = fetching i gs" for i
    unfolding fetching_def using assms by (metis mset_filter size_mset)
  then show ?thesis using assms by (simp add: blocks_inv_def fetching_mset_def)
qed

lemma blocks_inv_writing [simp]:
  "blocks_inv env all_blks (WritingBlock b d # fs) st = blocks_inv env all_blks fs st"
  by (simp add: blocks_inv_def)

lemma blocks_inv_update:
  assumes "fb_slices st' = fb_slices st" "dw_mask (fb_downloading st') = dw_mask (fb_downloading st)"
    "fb_writes st' = fb_writes st"
  shows "blocks_inv env all_blks fs st' = blocks_inv env all_blks fs st"
  using assms by (simp add: blocks_inv_def)

fun still_running :: "'a block_poll \<Rightarrow> 'a fetch_block list" where
  "still_running (BlockPending x) = [x]"
| "still_running BlockReady = []"
| "still_running BlockFailed = []"

definition poll_ok ::
  "('e, 'a) fetch_env \<Rightarrow> block multiset \<Rightarrow> 'a fetch_block list \<Rightarrow> 'a fetch_blocks \<Rightarrow>
     ('a block_poll \<times> 'a fetch_blocks \<times> 'e, unit) result \<Rightarrow> bool" where
  "poll_ok env all_blks fs st r \<longleftrightarrow> (case r of
      Ok (p, st', e') \<Rightarrow> fb_futures st' = fb_futures st \<and> blocks_inv env all_blks (still_running p @ fs) st'
    | Err _ \<Rightarrow> True | Panic \<Rightarrow> False)"

lemma poll_write_ok:
  assumes "blocks_inv env all_blks fs st"
  shows "poll_ok env all_blks fs st (poll_write env blk data st e)"
  using assms by (auto simp: poll_ok_def poll_write_def split: prod.splits write_reply.splits)

lemma blocks_inv_running:
  assumes "blocks_inv env all_blks (Fetching blk i addr # fs) st"
  shows "i \<in> sl_index ` set (fb_slices st)" "distinct (map sl_index (fb_slices st))"
    "\<forall>s \<in> set (fb_slices st). sl_index s = i \<longrightarrow> sl_in_progress s > 0"
proof -
  have "fetching i (Fetching blk i addr # fs) > 0" by simp
  then show "i \<in> sl_index ` set (fb_slices st)" using assms unfolding blocks_inv_def by blast
  show "distinct (map sl_index (fb_slices st))"
    using assms by (simp add: blocks_inv_def slices_ok_def)
  show "\<forall>s \<in> set (fb_slices st). sl_index s = i \<longrightarrow> sl_in_progress s > 0"
    using assms by (simp add: blocks_inv_def)
qed

lemma poll_returned:
  assumes inv: "blocks_inv env all_blks (Fetching blk i addr # fs) st"
  shows "poll_ok env all_blks fs st (bind_result (return_block now i blk addr (fb_slices st))
    (\<lambda>ss. Ok (BlockFailed, with_slices st ss, e)))"
proof -
  obtain ss where ss: "return_block now i blk addr (fb_slices st) = Ok ss"
    "map sl_index ss = map sl_index (fb_slices st)"
    "slice_mset ss = add_mset blk (slice_mset (fb_slices st))"
    "\<forall>s' \<in> set ss. \<exists>s \<in> set (fb_slices st). sl_index s' = sl_index s \<and>
       sl_in_progress s' = sl_in_progress s - (if sl_index s = i then 1 else 0)"
    using return_block_ok [OF blocks_inv_running [OF inv]] by blast
  have "\<forall>(b, d) \<in> set (fb_writes st). block_hash_bytes (fe_hash env) d = blk_hash b"
    using inv by (simp add: blocks_inv_def)
  then have "blocks_inv env all_blks fs (with_slices st ss)"
    using ss by (intro blocks_inv_fetching [OF inv ss(2) ss(4), of "fb_writes st"]) (simp_all add: with_slices_def)
  then show ?thesis using ss(1) by (simp add: poll_ok_def with_slices_def)
qed

lemma poll_received:
  assumes inv: "blocks_inv env all_blks (Fetching blk i addr # fs) st"
    and hash: "block_hash_bytes (fe_hash env) data = blk_hash blk"
  shows "poll_ok env all_blks fs st (bind_result (finish_block i (fb_slices st)) (\<lambda>ss.
    let st1 = with_slices st ss;
        st2 = st1\<lparr>fb_last_okay := now, fb_downloading := report_block data (fb_downloading st1),
                  fb_writes := fb_writes st1 @ [(blk, data)]\<rparr>
    in poll_write env blk data st2 e))"
proof -
  obtain ss where ss: "finish_block i (fb_slices st) = Ok ss"
    "map sl_index ss = map sl_index (fb_slices st)" "slice_mset ss = slice_mset (fb_slices st)"
    "\<forall>s' \<in> set ss. \<exists>s \<in> set (fb_slices st). sl_index s' = sl_index s \<and>
       sl_in_progress s' = sl_in_progress s - (if sl_index s = i then 1 else 0)"
    using finish_block_ok [OF blocks_inv_running(3) [OF inv]] by blast
  let ?st1 = "with_slices st ss"
  let ?st2 = "?st1\<lparr>fb_last_okay := now, fb_downloading := report_block data (fb_downloading ?st1),
    fb_writes := fb_writes ?st1 @ [(blk, data)]\<rparr>"
  have "\<forall>(b, d) \<in> set (fb_writes st @ [(blk, data)]). block_hash_bytes (fe_hash env) d = blk_hash b"
    using inv hash by (auto simp: blocks_inv_def)
  then have "blocks_inv env all_blks fs ?st2"
    using ss by (intro blocks_inv_fetching [OF inv ss(2) ss(4), of "fb_writes st @ [(blk, data)]"])
      (simp_all add: with_slices_def report_block_def notify_unstalled_def)
  from poll_write_ok [OF this, of blk data e] show ?thesis
    using ss(1) by (auto simp: Let_def poll_ok_def with_slices_def split: result.splits)
qed

lemma poll_block_ok:
  assumes "blocks_inv env all_blks (f # fs) st"
  shows "poll_ok env all_blks fs st (poll_block env f st e)"
proof (cases f)
  case (WritingBlock b d)
  then show ?thesis using assms by (simp add: poll_write_ok)
next
  case (Fetching b i a)
  note inv = assms [unfolded Fetching]
  obtain r e' where r: "fe_fetch env e b a = (r, e')" by fastforce
  show ?thesis
  proof (cases r)
    case FetchPending
    then show ?thesis using inv r Fetching by (simp add: poll_ok_def)
  next
    case (FetchData data)
    then show ?thesis using r Fetching poll_received [OF inv] poll_returned [OF inv] by simp
  next
    case FetchFailed
    then show ?thesis using r Fetching poll_returned [OF inv] by simp
  qed
qed

lemma poll_futures_ok:
  assumes "blocks_inv env all_blks (fb_futures st) st" "n \<le> length (fb_futures st)"
  shows "case poll_futures env n st e of
      Ok (st', e') \<Rightarrow> blocks_inv env all_blks (fb_futures st') st' \<and> length (fb_futures st') \<le> length (fb_futures st)
    | Err _ \<Rightarrow> True | Panic \<Rightarrow> False"
  using assms
proof (induction n arbitrary: st e)
  case (Suc n)
  obtain f fs where fs: "fb_futures st = f # fs" using Suc.prems(2) by (cases "fb_futures st") auto
  have inv: "blocks_inv env all_blks (f # fs) (st\<lparr>fb_futures := fs\<rparr>)"
    using Suc.prems(1) fs by (simp add: blocks_inv_update [of "st\<lparr>fb_futures := fs\<rparr>" st])
  have ok: "poll_ok env all_blks fs (st\<lparr>fb_futures := fs\<rparr>) (poll_block env f (st\<lparr>fb_futures := fs\<rparr>) e)"
    by (rule poll_block_ok [OF inv])
  show ?case
  proof (cases "poll_block env f (st\<lparr>fb_futures := fs\<rparr>) e")
    case (Ok x)
    obtain p st1 e1 where x: "x = (p, st1, e1)" by (metis prod_cases3)
    then have st1: "fb_futures st1 = fs" "blocks_inv env all_blks (still_running p @ fs) st1"
      using ok Ok by (simp_all add: poll_ok_def)
    define st2 where "st2 = st1\<lparr>fb_futures := fb_futures st1 @ still_running p\<rparr>"
    have "blocks_inv env all_blks (fb_futures st2) st2"
      using st1 by (simp add: st2_def blocks_inv_update [of "st1\<lparr>fb_futures := _\<rparr>" st1]
          blocks_inv_mset [of "fs @ still_running p" "still_running p @ fs"] union_commute)
    moreover have "n \<le> length (fb_futures st2)" "length (fb_futures st2) \<le> length (fb_futures st)"
      using Suc.prems(2) fs st1(1) by (cases p; simp add: st2_def)+
    moreover have "(case p of BlockPending x \<Rightarrow> st1\<lparr>fb_futures := fb_futures st1 @ [x]\<rparr> | _ \<Rightarrow> st1) = st2"
      by (cases p) (simp_all add: st2_def)
    ultimately show ?thesis
      using Suc.IH [of st2 e1] fs Ok x by (auto split: result.splits)
  qed (use ok fs in \<open>auto simp: poll_ok_def\<close>)
qed simp

subsection \<open>Dropping and starting\<close>

definition busy :: "'a slice \<Rightarrow> bool" where
  "busy s \<longleftrightarrow> sl_in_progress s > 0 \<or> sl_blocks s \<noteq> []"

lemma retain_slices_ok:
  assumes "\<forall>s \<in> set ss. sl_index s < MAX_SLICES"
  shows "\<exists>mm ann'. retain_slices ss d ann = Ok (filter busy ss, d\<lparr>dw_mask := mm\<rparr>, ann') \<and>
    mask_set (atomic_get mm) = mask_set (atomic_get (dw_mask d)) \<union> sl_index ` {s \<in> set ss. \<not> busy s}"
  using assms
proof (induction ss arbitrary: d ann)
  case Nil
  show ?case by (intro exI [of _ "dw_mask d"]) simp
next
  case (Cons s ss)
  show ?case
  proof (cases "busy s")
    case True
    have "{x \<in> set (s # ss). \<not> busy x} = {x \<in> set ss. \<not> busy x}" using True by auto
    then show ?thesis using Cons.IH [of d ann] Cons.prems True by (auto simp: busy_def)
  next
    case False
    have idle: "sl_in_progress s = 0" "sl_blocks s = []" using False by (simp_all add: busy_def)
    have "sl_index s < 16" using Cons.prems by (simp add: MAX_SLICES_def)
    then obtain c where c: "atomic_set_fetched (dw_mask d) (sl_index s) = (Ok c :: (u16, unit) result)"
      by (simp add: atomic_set_fetched_def shl_one_def)
    have "{x \<in> set (s # ss). \<not> busy x} = insert s {x \<in> set ss. \<not> busy x}" using False by auto
    moreover obtain mm ann' where
      "retain_slices ss (d\<lparr>dw_mask := c\<rparr>) (ann @ [atomic_get c]) =
         Ok (filter busy ss, d\<lparr>dw_mask := c\<rparr>\<lparr>dw_mask := mm\<rparr>, ann')"
      "mask_set (atomic_get mm) = mask_set (atomic_get (dw_mask (d\<lparr>dw_mask := c\<rparr>))) \<union>
         sl_index ` {x \<in> set ss. \<not> busy x}"
      using Cons.IH [of "d\<lparr>dw_mask := c\<rparr>" "ann @ [atomic_get c]"] Cons.prems by auto
    ultimately show ?thesis
      using False idle c mask_set_fetched [OF c] by (auto simp: report_slice_def)
  qed
qed

lemma filter_idem_busy: "filter busy (filter busy ss) = filter busy ss"
  by (induction ss) auto

lemma slice_mset_busy: "slice_mset (filter busy ss) = slice_mset ss"
  by (induction ss) (auto simp: busy_def)

lemma slices_ok_retain:
  assumes ok: "slices_ok ss m" and mm: "mask_set mm = mask_set m \<union> sl_index ` {s \<in> set ss. \<not> P s}"
  shows "slices_ok (filter P ss) mm"
proof -
  have inj: "inj_on sl_index (set ss)" using ok by (simp add: slices_ok_def distinct_map)
  then have "sl_index ` {s \<in> set ss. \<not> P s} = sl_index ` set ss - sl_index ` {s \<in> set ss. P s}"
    by (auto simp: inj_on_def)
  moreover have "sl_index ` set ss \<subseteq> {..<16}" using ok by (auto simp: slices_ok_def MAX_SLICES_def)
  ultimately have "mask_set mm = {..<16} - sl_index ` {s \<in> set ss. P s}"
    using mm ok by (auto simp: slices_ok_def)
  then show ?thesis using ok by (auto simp: slices_ok_def distinct_map_filter)
qed

lemma retain_finished_ok:
  assumes inv: "blocks_inv env all_blks (fb_futures st) st"
  shows "\<exists>st'. retain_finished st = Ok st' \<and> fb_futures st' = fb_futures st \<and>
    blocks_inv env all_blks (fb_futures st) st'"
proof -
  have ok: "slices_ok (fb_slices st) (atomic_get (dw_mask (fb_downloading st)))"
    using inv by (simp add: blocks_inv_def)
  then have "\<forall>s \<in> set (fb_slices st). sl_index s < MAX_SLICES" by (simp add: slices_ok_def)
  from retain_slices_ok [OF this, of "fb_downloading st" "fb_announced st"] obtain mm ann' where
    r: "retain_slices (fb_slices st) (fb_downloading st) (fb_announced st) =
      Ok (filter busy (fb_slices st), (fb_downloading st)\<lparr>dw_mask := mm\<rparr>, ann')" and
    mm: "mask_set (atomic_get mm) = mask_set (atomic_get (dw_mask (fb_downloading st))) \<union>
      sl_index ` {s \<in> set (fb_slices st). \<not> busy s}"
    by blast
  have kept: "i \<in> sl_index ` {s \<in> set (fb_slices st). busy s}" if run: "fetching i (fb_futures st) > 0" for i
  proof -
    obtain s where "s \<in> set (fb_slices st)" "i = sl_index s" using inv run by (auto simp: blocks_inv_def)
    then show ?thesis using inv run by (auto simp: blocks_inv_def busy_def)
  qed
  define st' where "st' = st\<lparr>fb_downloading := (fb_downloading st)\<lparr>dw_mask := mm, dw_slices := filter busy (fb_slices st)\<rparr>,
    fb_announced := ann'\<rparr>"
  have slices': "fb_slices st' = filter busy (fb_slices st)" and mask': "dw_mask (fb_downloading st') = mm"
    by (simp_all add: st'_def)
  have "retain_finished st = Ok st'" using r by (simp add: retain_finished_def st'_def)
  moreover have "fb_futures st' = fb_futures st" "fb_writes st' = fb_writes st" by (simp_all add: st'_def)
  moreover have "blocks_inv env all_blks (fb_futures st) st'"
    using inv kept slices_ok_retain [OF ok mm] \<open>fb_writes st' = fb_writes st\<close>
    unfolding blocks_inv_def slices' mask' slice_mset_busy by simp
  ultimately show ?thesis by blast
qed

lemma start_blocks_ok:
  assumes "start_blocks env m s bs fs new e = (s', fs', new', stop, e')" "length fs \<le> CONCURRENCY"
  shows "\<exists>gs. fs' = fs @ gs \<and> sl_index s' = sl_index s \<and>
    sl_in_progress s' = sl_in_progress s + length gs \<and> mset (sl_blocks s') + fetching_mset gs = mset bs \<and>
    (\<forall>i. fetching i gs = (if i = sl_index s then length gs else 0)) \<and> new' = new + length gs \<and>
    size (fetching_mset gs) = length gs \<and>
    length fs' \<le> Suc CONCURRENCY \<and> (\<not> stop \<longrightarrow> length fs' \<le> CONCURRENCY)"
  using assms
proof (induction bs arbitrary: s fs new e)
  case (Cons b bs)
  obtain c e1 where c: "fe_conn env e m (sl_failures s) = (c, e1)" by fastforce
  show ?case
  proof (cases c)
    case None
    then show ?thesis using Cons.prems c by (intro exI [of _ "[]"]) auto
  next
    case (Some a)
    let ?fs = "fs @ [Fetching b (sl_index s) a]"
    let ?s = "s\<lparr>sl_in_progress := Suc (sl_in_progress s)\<rparr>"
    show ?thesis
    proof (cases "length ?fs > CONCURRENCY")
      case True
      then show ?thesis using Cons.prems c Some
        by (intro exI [of _ "[Fetching b (sl_index s) a]"]) (auto simp: Let_def)
    next
      case False
      then have "start_blocks env m ?s bs ?fs (Suc new) e1 = (s', fs', new', stop, e')"
        using Cons.prems c Some by (simp add: Let_def)
      from Cons.IH [OF this] False obtain gs where "fs' = ?fs @ gs" "sl_index s' = sl_index ?s"
        "sl_in_progress s' = sl_in_progress ?s + length gs" "mset (sl_blocks s') + fetching_mset gs = mset bs"
        "\<forall>i. fetching i gs = (if i = sl_index ?s then length gs else 0)" "new' = Suc new + length gs"
        "length fs' \<le> Suc CONCURRENCY" "\<not> stop \<longrightarrow> length fs' \<le> CONCURRENCY"
        "size (fetching_mset gs) = length gs"
        by auto
      then show ?thesis by (intro exI [of _ "Fetching b (sl_index s) a # gs"]) auto
    qed
  qed
qed (auto intro: exI [of _ "[]"])

lemma start_slices_ok:
  assumes "length fs \<le> CONCURRENCY" "distinct (map sl_index ss)" "\<forall>s \<in> set ss. sl_index s < MAX_SLICES"
  shows "\<exists>ss' gs new' stop e'. start_slices env ss fs new e = Ok (ss', fs @ gs, new', stop, e') \<and>
    map sl_index ss' = map sl_index ss \<and>
    (\<forall>s' \<in> set ss'. \<exists>s \<in> set ss. sl_index s' = sl_index s \<and>
       sl_in_progress s' = sl_in_progress s + fetching (sl_index s) gs) \<and>
    slice_mset ss' + fetching_mset gs = slice_mset ss \<and>
    (\<forall>i. fetching i gs > 0 \<longrightarrow> i \<in> sl_index ` set ss) \<and> new' = new + length gs \<and>
    size (fetching_mset gs) = length gs \<and>
    length (fs @ gs) \<le> Suc CONCURRENCY \<and> (\<not> stop \<longrightarrow> length (fs @ gs) \<le> CONCURRENCY)"
  using assms
proof (induction ss arbitrary: fs new e)
  case Nil
  then show ?case by auto
next
  case (Cons s ss)
  obtain m where m: "(if sl_blocks s = [] then Ok (Mask 0) else slice_bit (sl_index s)) = (Ok m :: (mask, unit) result)"
    using Cons.prems(3) by (cases "sl_blocks s = []") (auto simp: slice_bit_def shl_one_def MAX_SLICES_def)
  obtain s1 fs1 new1 stop1 e1 where sb: "start_blocks env m s (sl_blocks s) fs new e = (s1, fs1, new1, stop1, e1)"
    by (metis prod_cases5)
  obtain gs where gs: "fs1 = fs @ gs" "sl_index s1 = sl_index s"
    "sl_in_progress s1 = sl_in_progress s + length gs" "mset (sl_blocks s1) + fetching_mset gs = mset (sl_blocks s)"
    "\<And>i. fetching i gs = (if i = sl_index s then length gs else 0)" "new1 = new + length gs"
    "length fs1 \<le> Suc CONCURRENCY" "\<not> stop1 \<longrightarrow> length fs1 \<le> CONCURRENCY"
    "size (fetching_mset gs) = length gs"
    using start_blocks_ok [OF sb Cons.prems(1)] by blast
  have other: "sl_index x \<noteq> sl_index s" if "x \<in> set ss" for x using Cons.prems(2) that by (auto simp: image_iff)
  show ?case
  proof (cases stop1)
    case True
    then have "start_slices env (s # ss) fs new e = Ok (s1 # ss, fs @ gs, new1, True, e1)"
      using m sb gs(1) by simp
    moreover have "slice_mset (s1 # ss) + fetching_mset gs = slice_mset (s # ss)"
      using gs(4) by (simp add: add.commute add.left_commute flip: gs(4))
    ultimately show ?thesis using gs other by (fastforce split: if_splits)
  next
    case False
    then have pre: "length fs1 \<le> CONCURRENCY" "distinct (map sl_index ss)" "\<forall>s \<in> set ss. sl_index s < MAX_SLICES"
      using Cons.prems gs(8) by auto
    from Cons.IH [OF this, of new1 e1] obtain ss' hs new' stop e' where IH: "start_slices env ss fs1 new1 e1 = Ok (ss', fs1 @ hs, new', stop, e')"
      "map sl_index ss' = map sl_index ss"
      "\<forall>s' \<in> set ss'. \<exists>s \<in> set ss. sl_index s' = sl_index s \<and>
         sl_in_progress s' = sl_in_progress s + fetching (sl_index s) hs"
      "slice_mset ss' + fetching_mset hs = slice_mset ss" "\<forall>i. fetching i hs > 0 \<longrightarrow> i \<in> sl_index ` set ss"
      "new' = new1 + length hs" "length (fs1 @ hs) \<le> Suc CONCURRENCY"
      "\<not> stop \<longrightarrow> length (fs1 @ hs) \<le> CONCURRENCY" "size (fetching_mset hs) = length hs"
      by blast
    have "fetching (sl_index s) hs = 0" using IH(5) other by (metis bot_nat_0.not_eq_extremum image_iff)
    moreover have "start_slices env (s # ss) fs new e = Ok (s1 # ss', fs @ (gs @ hs), new', stop, e')"
      using m sb gs(1) False IH(1) by simp
    moreover have "slice_mset (s1 # ss') + fetching_mset (gs @ hs) = slice_mset (s # ss)"
      by (simp add: add.commute add.left_commute flip: gs(4) IH(4))
    ultimately show ?thesis
      using gs IH other by (intro exI [of _ "s1 # ss'"] exI [of _ "gs @ hs"]) (fastforce split: if_splits)
  qed
qed

subsection \<open>Rounds and polls\<close>

definition round_ok ::
  "('e, 'a) fetch_env \<Rightarrow> block multiset \<Rightarrow> (round \<times> 'a fetch_blocks \<times> 'e, unit) result \<Rightarrow> bool" where
  "round_ok env all_blks r \<longleftrightarrow> (case r of
      Ok (x, st', e') \<Rightarrow> fetch_inv env all_blks st' \<and>
        (x = RoundReady \<longrightarrow> fb_futures st' = [] \<and> fb_slices st' = [])
    | Err _ \<Rightarrow> True | Panic \<Rightarrow> False)"

lemma wait_round_ok:
  assumes "fetch_inv env all_blks st"
  shows "round_ok env all_blks (Ok (wait_round env st e))"
  using assms by (auto simp: round_ok_def wait_round_def fetch_inv_def blocks_inv_def notify_stalled_def Let_def
      split: prod.splits bool.splits)

lemma start_round_ok:
  assumes inv: "blocks_inv env all_blks fs st" and len: "length fs \<le> CONCURRENCY"
  shows "\<exists>ss' gs new' stop e'. start_slices env (fb_slices st) fs 0 e = Ok (ss', fs @ gs, new', stop, e') \<and>
    new' = length gs \<and> size (fetching_mset gs) = length gs \<and> fetch_inv env all_blks ((with_slices st ss')\<lparr>fb_futures := fs @ gs\<rparr>) \<and>
    slice_mset ss' + fetching_mset gs = slice_mset (fb_slices st)"
proof -
  have ok: "slices_ok (fb_slices st) (atomic_get (dw_mask (fb_downloading st)))"
    using inv by (simp add: blocks_inv_def)
  then have pre: "distinct (map sl_index (fb_slices st))" "\<forall>s \<in> set (fb_slices st). sl_index s < MAX_SLICES"
    by (simp_all add: slices_ok_def)
  from start_slices_ok [OF len this, of env 0 e] obtain ss' gs new' stop e' where
    r: "start_slices env (fb_slices st) fs 0 e = Ok (ss', fs @ gs, new', stop, e')" "new' = length gs"
      "map sl_index ss' = map sl_index (fb_slices st)"
      "\<forall>s' \<in> set ss'. \<exists>s \<in> set (fb_slices st). sl_index s' = sl_index s \<and>
         sl_in_progress s' = sl_in_progress s + fetching (sl_index s) gs"
      "slice_mset ss' + fetching_mset gs = slice_mset (fb_slices st)"
      "\<forall>i. fetching i gs > 0 \<longrightarrow> i \<in> sl_index ` set (fb_slices st)" "length (fs @ gs) \<le> Suc CONCURRENCY" "size (fetching_mset gs) = length gs"
    by force
  let ?st = "(with_slices st ss')\<lparr>fb_futures := fs @ gs\<rparr>"
  have idx: "sl_index ` set ss' = sl_index ` set (fb_slices st)" using r(3) by (metis list.set_map)
  have prog: "\<forall>s \<in> set ss'. sl_in_progress s = fetching (sl_index s) (fs @ gs)"
    using r(4) inv by (force simp: blocks_inv_def)
  have mem: "\<forall>i. fetching i (fs @ gs) > 0 \<longrightarrow> i \<in> sl_index ` set ss'"
    using r(6) inv unfolding idx by (auto simp: blocks_inv_def)
  have ms: "slice_mset ss' + fetching_mset (fs @ gs) + mset (map fst (fb_writes st)) = all_blks"
    using inv by (simp add: blocks_inv_def add.commute add.left_commute flip: r(5))
  have "blocks_inv env all_blks (fs @ gs) ?st"
    using prog mem ms slices_ok_cong [OF ok r(3)] inv
    unfolding blocks_inv_def by (simp add: with_slices_def)
  then show ?thesis using r by (auto simp: fetch_inv_def)
qed

lemma fetch_round_ok:
  assumes inv: "fetch_inv env all_blks st"
  shows "round_ok env all_blks (fetch_round env st e)"
proof (cases "poll_futures env (length (fb_futures st)) st e")
  case (Ok x)
  obtain st1 e1 where x: "x = (st1, e1)" by fastforce
  have st1: "blocks_inv env all_blks (fb_futures st1) st1" "length (fb_futures st1) \<le> Suc CONCURRENCY"
    using poll_futures_ok [of env all_blks st "length (fb_futures st)" e] inv Ok x by (auto simp: fetch_inv_def)
  obtain st2 where st2: "retain_finished st1 = Ok st2" "fb_futures st2 = fb_futures st1"
    "blocks_inv env all_blks (fb_futures st1) st2"
    using retain_finished_ok [OF st1(1)] by blast
  then have inv2: "fetch_inv env all_blks st2" using st1(2) by (simp add: fetch_inv_def)
  obtain late e2 where late: "fe_deadline env e1 = (late, e2)" by fastforce
  show ?thesis
  proof (cases "fb_futures st2 = [] \<and> fb_slices st2 = [] \<or> late \<or> length (fb_futures st2) \<ge> CONCURRENCY")
    case True
    then show ?thesis using Ok x st2 inv2 late
      by (auto simp: fetch_round_def round_ok_def split: bool.splits)
  next
    case False
    then have "length (fb_futures st2) \<le> CONCURRENCY" by simp
    from start_round_ok [OF _ this, of env all_blks st2 e2] st2 obtain ss' gs new' stop e3 where
      r: "start_slices env (fb_slices st2) (fb_futures st2) 0 e2 = Ok (ss', fb_futures st2 @ gs, new', stop, e3)"
      and inv3: "fetch_inv env all_blks ((with_slices st2 ss')\<lparr>fb_futures := fb_futures st2 @ gs\<rparr>)"
      by auto
    show ?thesis using Ok x st2 False late r inv3 wait_round_ok [OF inv3, of e3]
      by (auto simp: fetch_round_def round_ok_def Let_def)
  qed
next
  case (Err u)
  then show ?thesis by (simp add: fetch_round_def round_ok_def)
next
  case Panic
  then show ?thesis
    using poll_futures_ok [of env all_blks st "length (fb_futures st)" e] inv by (simp add: fetch_inv_def)
qed

lemma fetch_loop_ok:
  assumes "fetch_inv env all_blks st" "fetch_loop env n st e = Some r"
  shows "round_ok env all_blks r"
  using assms
proof (induction n arbitrary: st e)
  case (Suc n)
  have ok: "round_ok env all_blks (fetch_round env st e)" by (rule fetch_round_ok [OF Suc.prems(1)])
  show ?case
  proof (cases "\<exists>st' e'. fetch_round env st e = Ok (RoundContinue, st', e')")
    case True
    then obtain st' e' where st': "fetch_round env st e = Ok (RoundContinue, st', e')" by blast
    then have "fetch_inv env all_blks st'" using ok by (simp add: round_ok_def)
    then show ?thesis using Suc.IH [of st' e'] Suc.prems(2) st' by simp
  next
    case False
    then have "r = fetch_round env st e"
      using Suc.prems(2) by (auto split: result.splits prod.splits round.splits)
    then show ?thesis using ok by simp
  qed
qed simp

lemma fetch_inv_timeout [simp]: "fetch_inv env all_blks (st\<lparr>fb_retry_timeout := b\<rparr>) = fetch_inv env all_blks st"
  by (simp add: fetch_inv_def blocks_inv_def)

lemma fetch_poll_ok:
  assumes "fetch_inv env all_blks st" "fetch_poll env n due st e = Some r"
  shows "round_ok env all_blks r"
  using assms fetch_loop_ok [of env all_blks "st\<lparr>fb_retry_timeout := False\<rparr>" n e r]
  by (auto simp: fetch_poll_def round_ok_def split: if_splits)

text \<open>
  The machine: it starts with a freshly filled download, and a step is a poll with any answers of
  the outside world.
\<close>

definition fetch_init ::
  "('a slice list \<Rightarrow> 'a slice list) \<Rightarrow> index \<Rightarrow> string set \<Rightarrow> 'a fetch_blocks \<Rightarrow> bool" where
  "fetch_init shuffle ix hardlinks st \<longleftrightarrow> (\<exists>now d0 d. dw_slices d0 = [] \<and>
     fill_blocks shuffle ix hardlinks d0 = Ok d \<and> st = fetch_blocks_new now d)"

inductive fetch_step :: "('e, 'a) fetch_env \<Rightarrow> 'a fetch_blocks \<Rightarrow> 'a fetch_blocks \<Rightarrow> bool"
  for env :: "('e, 'a) fetch_env" where
  poll: "fetch_poll env fuel due st e = Some (Ok (r, st', e')) \<Longrightarrow> fetch_step env st st'"

lemma fetch_init_inv:
  assumes perm: "\<forall>xs. mset (shuffle xs) = mset (xs :: 'a slice list)"
    and blocks: "index_blocks (ix_block_size ix) hardlinks (ix_entries ix) = Ok blocks"
    and init: "fetch_init shuffle ix hardlinks st"
  shows "fetch_inv env (mset blocks) st"
proof -
  obtain now d0 d where d: "dw_slices d0 = []" "fill_blocks shuffle ix hardlinks d0 = Ok d"
    "st = fetch_blocks_new now d" using init by (auto simp: fetch_init_def)
  then show ?thesis using fill_blocks_establishes [OF perm d(1) blocks]
    by (auto simp: fetch_inv_def blocks_inv_def fetch_blocks_new_def list_all_iff)
qed

text \<open>
  The invariant as an instance of the general scheme: in the initial states the shuffle permutes and
  the blocks of the index are the given ones.
\<close>

definition fetch_start ::
  "('a slice list \<Rightarrow> 'a slice list) \<Rightarrow> index \<Rightarrow> string set \<Rightarrow> block multiset \<Rightarrow> 'a fetch_blocks \<Rightarrow> bool" where
  "fetch_start shuffle ix hardlinks all_blks st \<longleftrightarrow> fetch_init shuffle ix hardlinks st \<and>
     (\<forall>xs. mset (shuffle xs) = mset xs) \<and>
     (\<exists>blocks. index_blocks (ix_block_size ix) hardlinks (ix_entries ix) = Ok blocks \<and> mset blocks = all_blks)"

interpretation fetching: invariant_system
  "fetch_start shuffle ix hardlinks all_blks" "fetch_step env" "fetch_inv env all_blks"
proof
  show "fetch_inv env all_blks st" if "fetch_start shuffle ix hardlinks all_blks st" for st
    using that fetch_init_inv unfolding fetch_start_def by blast
  show "fetch_inv env all_blks t" if inv: "fetch_inv env all_blks s" and step: "fetch_step env s t" for s t
    using step
  proof cases
    case (poll fuel due e r e')
    then show ?thesis using fetch_poll_ok [OF inv] by (fastforce simp: round_ok_def)
  qed
qed

lemma reachable_start:
  assumes "reachable (fetch_init shuffle ix hardlinks) (fetch_step env) st"
    "\<forall>xs. mset (shuffle xs) = mset (xs :: 'a slice list)"
    "index_blocks (ix_block_size ix) hardlinks (ix_entries ix) = Ok blocks"
  shows "reachable (fetch_start shuffle ix hardlinks (mset blocks)) (fetch_step env) st"
  using assms by (induction rule: reachable.induct) (auto intro: reachable.intros simp: fetch_start_def)

lemmas fetch_reachable_inv = fetching.reachable_inv [OF reachable_start]

section \<open>Properties of a download\<close>

text \<open>
  C25. A download that reports success is complete and correct. Whatever the network, the disk and the
  timers answer, when polling a download ends with \<^verbatim>\<open>Ready\<close>, the blocks handed to the disk are exactly
  the blocks of the files of the index that were not hard-linked, each one once; every block carries data with
  the hash the index promises; no request is in flight, and the mask shows every slice as fetched.
\<close>

theorem fetch_ready_complete:
  assumes "\<forall>xs. mset (shuffle xs) = mset (xs :: 'a slice list)"
    and "index_blocks (ix_block_size ix) hardlinks (ix_entries ix) = Ok blocks"
    and "reachable (fetch_init shuffle ix hardlinks) (fetch_step env) st"
    and "fetch_poll env fuel due st e = Some (Ok (RoundReady, st', e'))"
  shows "mset (map fst (fb_writes st')) = mset blocks \<and>
    list_all (\<lambda>(b, d). block_hash_bytes (fe_hash env) d = blk_hash b) (fb_writes st') \<and>
    fb_futures st' = [] \<and> atomic_get (dw_mask (fb_downloading st')) = mask_full"
proof -
  have "round_ok env (mset blocks) (Ok (RoundReady, st', e'))"
    using fetch_poll_ok [OF fetch_reachable_inv [OF assms(3,1,2)] assms(4)] .
  then have inv: "fetch_inv env (mset blocks) st'" and fin: "fb_futures st' = []" "fb_slices st' = []"
    by (simp_all add: round_ok_def)
  then have "mask_set (atomic_get (dw_mask (fb_downloading st'))) = mask_set mask_full"
    by (simp add: fetch_inv_def blocks_inv_def slices_ok_def)
  then show ?thesis
    using inv fin by (simp add: fetch_inv_def blocks_inv_def list_all_iff mask_eq_iff)
qed

text \<open>
  C26. Safety while a download runs: no poll panics (the progress counter of a slice never goes below
  zero, shifts stay in the mask), at most eleven requests and writes are in flight, the counter of
  each slice is the number of its requests in flight, and a slice is shown as fetched only when none of its
  blocks is queued or requested.
\<close>

theorem fetch_safe:
  assumes "\<forall>xs. mset (shuffle xs) = mset (xs :: 'a slice list)"
    and "index_blocks (ix_block_size ix) hardlinks (ix_entries ix) = Ok blocks"
    and "reachable (fetch_init shuffle ix hardlinks) (fetch_step env) st"
  shows "fetch_poll env fuel due st e \<noteq> Some Panic \<and> length (fb_futures st) \<le> 11 \<and>
    list_all (\<lambda>s. sl_in_progress s = fetching (sl_index s) (fb_futures st)) (fb_slices st) \<and>
    (\<forall>i \<in> mask_set (atomic_get (dw_mask (fb_downloading st))).
       fetching i (fb_futures st) = 0 \<and> i \<notin> sl_index ` set (fb_slices st))"
proof -
  have inv: "fetch_inv env (mset blocks) st" by (rule fetch_reachable_inv [OF assms(3,1,2)])
  then have "fetch_poll env fuel due st e \<noteq> Some Panic"
    using fetch_poll_ok [OF inv, of fuel due e] by (auto simp: round_ok_def)
  then show ?thesis
    using inv by (auto simp: fetch_inv_def blocks_inv_def slices_ok_def list_all_iff CONCURRENCY_def)
qed

section \<open>Peers that answer\<close>

text \<open>An outside world in which every request is answered at once with the right data.\<close>

definition answering :: "('e, 'a) fetch_env \<Rightarrow> block multiset \<Rightarrow> (block \<Rightarrow> bytes) \<Rightarrow> bool" where
  "answering env all_blks content \<longleftrightarrow>
     (\<forall>e b a. fst (fe_fetch env e b a) = FetchData (content b)) \<and>
     (\<forall>b \<in> set_mset all_blks. block_hash_bytes (fe_hash env) (content b) = blk_hash b) \<and>
     (\<forall>e b d. fst (fe_write env e b d) = Written) \<and>
     (\<forall>e m f. fst (fe_conn env e m f) \<noteq> None) \<and> (\<forall>e. fst (fe_deadline env e) = False)"

lemma poll_block_answer:
  assumes "answering env all_blks content" "blocks_inv env all_blks (f # fs) st"
  shows "\<exists>st' e'. poll_block env f st e = Ok (BlockReady, st', e') \<and> fb_futures st' = fb_futures st \<and>
    blocks_inv env all_blks fs st' \<and> slice_mset (fb_slices st') = slice_mset (fb_slices st)"
proof (cases f)
  case (WritingBlock b d)
  obtain e2 where "fe_write env e b d = (Written, e2)"
    using assms(1) unfolding answering_def by (metis prod.collapse)
  then show ?thesis using assms WritingBlock by (simp add: poll_write_def)
next
  case (Fetching b i a)
  obtain e1 where e1: "fe_fetch env e b a = (FetchData (content b), e1)"
    using assms(1) unfolding answering_def by (metis prod.collapse)
  obtain e2 where e2: "fe_write env e1 b (content b) = (Written, e2)"
    using assms(1) unfolding answering_def by (metis prod.collapse)
  have "b \<in># all_blks" using assms(2) Fetching by (auto simp: blocks_inv_def)
  then have hash: "block_hash_bytes (fe_hash env) (content b) = blk_hash b" using assms(1) by (simp add: answering_def)
  obtain ss where ss: "finish_block i (fb_slices st) = Ok ss" "slice_mset ss = slice_mset (fb_slices st)"
    using finish_block_ok [OF blocks_inv_running(3) [OF assms(2) [unfolded Fetching]]] by blast
  show ?thesis using poll_block_ok [OF assms(2), of e] e1 e2 hash ss Fetching
    by (auto simp: poll_ok_def Let_def poll_write_def with_slices_def report_block_def notify_unstalled_def)
qed

lemma poll_futures_answer:
  assumes "answering env all_blks content" "blocks_inv env all_blks (fb_futures st) st"
  shows "\<exists>st' e'. poll_futures env (length (fb_futures st)) st e = Ok (st', e') \<and> fb_futures st' = [] \<and>
    blocks_inv env all_blks [] st' \<and> slice_mset (fb_slices st') = slice_mset (fb_slices st)"
  using assms(2)
proof (induction "fb_futures st" arbitrary: st e)
  case (Cons f fs)
  have "blocks_inv env all_blks (f # fs) (st\<lparr>fb_futures := fs\<rparr>)"
    by (subst blocks_inv_update [of _ st]) (use Cons.prems Cons.hyps(2) in simp_all)
  from poll_block_answer [OF assms(1) this, of e] obtain st1 e1 where
    st1: "poll_block env f (st\<lparr>fb_futures := fs\<rparr>) e = Ok (BlockReady, st1, e1)" "fb_futures st1 = fs"
      "blocks_inv env all_blks fs st1" "slice_mset (fb_slices st1) = slice_mset (fb_slices st)"
    by auto
  show ?case using Cons.hyps(1) [of st1 e1] st1 Cons.hyps(2) [symmetric] by auto
qed simp

lemma start_blocks_answer:
  assumes "\<forall>e m f. fst (fe_conn env e m f) \<noteq> None"
  shows "start_blocks env m s bs fs new e = (s', fs', new', stop, e') \<Longrightarrow>
    (if stop then length fs' > CONCURRENCY else sl_blocks s' = [])"
proof (induction bs arbitrary: s fs new e)
  case (Cons b bs)
  obtain a e1 where c: "fe_conn env e m (sl_failures s) = (Some a, e1)"
    using assms by (metis option.exhaust prod.collapse)
  show ?case
  proof (cases "length (fs @ [Fetching b (sl_index s) a]) > CONCURRENCY")
    case True
    then show ?thesis using Cons.prems c by (auto simp: Let_def)
  next
    case False
    then have "start_blocks env m (s\<lparr>sl_in_progress := Suc (sl_in_progress s)\<rparr>) bs
      (fs @ [Fetching b (sl_index s) a]) (Suc new) e1 = (s', fs', new', stop, e')"
      using Cons.prems c by (simp add: Let_def)
    then show ?thesis by (rule Cons.IH)
  qed
qed auto

lemma start_slices_answer:
  assumes "\<forall>e m f. fst (fe_conn env e m f) \<noteq> None"
  shows "start_slices env ss fs new e = Ok (ss', fs', new', stop, e') \<Longrightarrow>
    (if stop then length fs' > CONCURRENCY else slice_mset ss' = {#})"
proof (induction ss arbitrary: fs new e ss')
  case (Cons s ss)
  obtain m where m: "(if sl_blocks s = [] then Ok (Mask 0) else slice_bit (sl_index s)) = (Ok m :: (mask, unit) result)"
    using Cons.prems by auto
  obtain s1 fs1 new1 stop1 e1 where sb: "start_blocks env m s (sl_blocks s) fs new e = (s1, fs1, new1, stop1, e1)"
    by (metis prod_cases5)
  note one = start_blocks_answer [OF assms sb]
  show ?case
  proof (cases stop1)
    case True
    then show ?thesis using Cons.prems m sb one by auto
  next
    case False
    then obtain ss1 where "start_slices env ss fs1 new1 e1 = Ok (ss1, fs', new', stop, e')" "ss' = s1 # ss1"
      using Cons.prems m sb by auto
    then show ?thesis using Cons.IH False one by auto
  qed
qed simp

lemma blocks_inv_idle:
  assumes "blocks_inv env all_blks [] st" "slice_mset (fb_slices st) = {#}" "s \<in> set (fb_slices st)"
  shows "\<not> busy s"
  using assms by (auto simp: blocks_inv_def busy_def slice_mset_def)

text \<open>In such a world a round either ends the download or makes it shorter.\<close>

lemma fetch_round_answer:
  assumes ans: "answering env all_blks content" and inv: "fetch_inv env all_blks st"
  shows "\<exists>x st' e'. fetch_round env st e = Ok (x, st', e') \<and> fetch_inv env all_blks st' \<and>
    (x = RoundReady \<or> x = RoundContinue \<and>
       size (slice_mset (fb_slices st')) < size (slice_mset (fb_slices st)))"
proof -
  obtain st1 e1 where st1: "poll_futures env (length (fb_futures st)) st e = Ok (st1, e1)" "fb_futures st1 = []"
    "blocks_inv env all_blks [] st1" "slice_mset (fb_slices st1) = slice_mset (fb_slices st)"
    using poll_futures_answer [OF ans] inv unfolding fetch_inv_def by blast
  obtain st2 where st2: "retain_finished st1 = Ok st2" "fb_futures st2 = []" "blocks_inv env all_blks [] st2"
    using retain_finished_ok [of env all_blks st1] st1 by auto
  have slices2: "fb_slices st2 = filter busy (fb_slices st1)"
    using retain_slices_ok [of "fb_slices st1" "fb_downloading st1" "fb_announced st1"] st1(3) st2(1)
    by (auto simp: retain_finished_def blocks_inv_def slices_ok_def)
  have inv2: "fetch_inv env all_blks st2" using st2 by (simp add: fetch_inv_def)
  show ?thesis
  proof (cases "fb_slices st2 = []")
    case True
    then show ?thesis using st1 st2 inv2 by (simp add: fetch_round_def)
  next
    case False
    obtain e2 where e2: "fe_deadline env e1 = (False, e2)" using ans unfolding answering_def by (metis prod.collapse)
    obtain ss' gs stop e3 where
      r: "start_slices env (fb_slices st2) [] 0 e2 = Ok (ss', gs, length gs, stop, e3)"
        "fetch_inv env all_blks ((with_slices st2 ss')\<lparr>fb_futures := gs\<rparr>)"
        "slice_mset ss' + fetching_mset gs = slice_mset (fb_slices st2)" "size (fetching_mset gs) = length gs"
      using start_round_ok [OF st2(3), of e2] by auto
    have conn: "\<forall>e m f. fst (fe_conn env e m f) \<noteq> None" using ans by (simp add: answering_def)
    have "slice_mset (fb_slices st2) \<noteq> {#}"
    proof
      assume "slice_mset (fb_slices st2) = {#}"
      then have "\<not> busy s" if "s \<in> set (fb_slices st2)" for s using blocks_inv_idle [OF st2(3)] that by blast
      then show False using False slices2 by (metis filter_False filter_idem_busy slices2)
    qed
    then have "gs \<noteq> []" using start_slices_answer [OF conn r(1)] r(3) by (auto split: if_splits)
    then have "size (slice_mset ss') < size (slice_mset (fb_slices st2))"
      using r(4) by (simp flip: r(3))
    moreover have "slice_mset (fb_slices st2) = slice_mset (fb_slices st)"
      using slices2 slice_mset_busy st1(4) by metis
    ultimately show ?thesis
      using st1 st2 False e2 r \<open>gs \<noteq> []\<close>
      by (simp add: fetch_round_def Let_def CONCURRENCY_def with_slices_def)
  qed
qed

lemma fetch_loop_answer:
  assumes ans: "answering env all_blks content"
  shows "fetch_inv env all_blks st \<Longrightarrow> n > size (slice_mset (fb_slices st)) \<Longrightarrow>
    \<exists>st' e'. fetch_loop env n st e = Some (Ok (RoundReady, st', e'))"
proof (induction n arbitrary: st e)
  case (Suc n)
  obtain x st' e' where r: "fetch_round env st e = Ok (x, st', e')" "fetch_inv env all_blks st'"
    "x = RoundReady \<or> x = RoundContinue \<and>
       size (slice_mset (fb_slices st')) < size (slice_mset (fb_slices st))"
    using fetch_round_answer [OF ans Suc.prems(1)] by blast
  from r(3) show ?case
  proof
    assume "x = RoundReady"
    then show ?thesis using r(1) by simp
  next
    assume "x = RoundContinue \<and> size (slice_mset (fb_slices st')) < size (slice_mset (fb_slices st))"
    then show ?thesis using r Suc.IH [of st' e'] Suc.prems(2) by simp
  qed
qed simp

lemma fetch_poll_answer:
  assumes "answering env all_blks content" "fetch_inv env all_blks st" "fuel > size all_blks"
    "due \<or> \<not> fb_retry_timeout st"
  shows "\<exists>st' e'. fetch_poll env fuel due st e = Some (Ok (RoundReady, st', e'))"
proof -
  have "size (slice_mset (fb_slices st)) \<le> size all_blks" using assms(2) by (auto simp: fetch_inv_def blocks_inv_def)
  then show ?thesis
    using fetch_loop_answer [OF assms(1), of "st\<lparr>fb_retry_timeout := False\<rparr>" fuel e] assms
    by (auto simp: fetch_poll_def)
qed


subsection \<open>A concrete download\<close>

definition demo_peer :: "(unit, nat) fetch_env" where
  "demo_peer = \<lparr>fe_hash = (\<lambda>d. replicate 32 9), fe_fetch = (\<lambda>e b a. (FetchData [1, 2, 3], ())),
     fe_write = (\<lambda>e b d. (Written, ())), fe_conn = (\<lambda>e m f. (Some 7, ())), fe_deadline = (\<lambda>e. (False, ())),
     fe_cstalled = (\<lambda>e. (False, ())), fe_timer = (\<lambda>e. (False, ())), fe_now = (\<lambda>e. 0)\<rparr>"

definition demo_block :: block where
  "demo_block = Block (BlockHash (replicate 32 9)) ''/f'' 0"

lemma demo_blocks: "index_blocks (ix_block_size demo_index) {} (ix_entries demo_index) = Ok [demo_block]"
  by (simp add: demo_index_def block_from_bytes_def demo_block_def)

lemma demo_answers: "answering demo_peer (mset [demo_block]) (\<lambda>b. [1, 2, 3])"
  by (simp add: answering_def demo_peer_def demo_block_def block_hash_bytes_def)

lemma demo_start:
  obtains st :: "nat fetch_blocks" where "fetch_init rev demo_index {} st" "\<not> fb_retry_timeout st"
    "reachable (fetch_init rev demo_index {}) (fetch_step demo_peer) st"
proof -
  obtain d where "fill_blocks rev demo_index {} demo_download = Ok d"
    using fill_blocks_establishes [OF _ _ demo_blocks, of rev demo_download] by (auto simp: demo_download_def)
  then have "fetch_init rev demo_index {} (fetch_blocks_new 0 d)"
    unfolding fetch_init_def by (intro exI [of _ 0] exI [of _ demo_download] exI [of _ d]) (simp add: demo_download_def)
  then show ?thesis
    by (intro that [of "fetch_blocks_new 0 d"] reach_init) (simp_all add: fetch_blocks_new_def)
qed

theorem fetch_ready_complete_witness:
  "\<exists>st st' e'. fetch_init rev demo_index {} st \<and>
     fetch_poll demo_peer 5 False st () = Some (Ok (RoundReady, st', e')) \<and>
     mset (map fst (fb_writes st')) = {#demo_block#} \<and> atomic_get (dw_mask (fb_downloading st')) = mask_full"
proof -
  obtain st :: "nat fetch_blocks" where st: "fetch_init rev demo_index {} st" "\<not> fb_retry_timeout st"
    "reachable (fetch_init rev demo_index {}) (fetch_step demo_peer) st" by (rule demo_start)
  have inv: "fetch_inv demo_peer (mset [demo_block]) st"
    by (rule fetch_init_inv [OF _ demo_blocks st(1)]) simp
  from fetch_poll_answer [OF demo_answers inv, of 5 False "()"] st(2) obtain st' e' where
    r: "fetch_poll demo_peer 5 False st () = Some (Ok (RoundReady, st', e'))" by auto
  show ?thesis
    using fetch_ready_complete [OF _ demo_blocks st(3) r] st(1) r by auto
qed

theorem fetch_safe_witness:
  "\<exists>st. fetch_init rev demo_index {} st \<and> fetch_poll demo_peer 5 True st () \<noteq> Some Panic \<and>
     length (fb_futures st) \<le> 11"
proof -
  obtain st :: "nat fetch_blocks" where st: "fetch_init rev demo_index {} st" "\<not> fb_retry_timeout st"
    "reachable (fetch_init rev demo_index {}) (fetch_step demo_peer) st" by (rule demo_start)
  show ?thesis
    using fetch_safe [OF _ demo_blocks st(3), of 5 True "()"] st(1)
    by auto
qed


end
