(* ===== verification/Config_Map.thy ===== *)
theory Config_Map
  imports Virtual_Path Identifiers
begin

text \<open>
  Which machine serves which directories (\<^verbatim>\<open>src/daemon/peers/two_way_map.rs\<close>): a map from
  machines to their directories and its inverse, kept together. A \<^verbatim>\<open>BTreeSet\<close> of paths is the
  list of its elements in order; the hash of a serialised set is a parameter.
\<close>

record host_info =
  hi_hash :: hash
  hi_configs :: "vpath list"

record config_map =
  cm_forward :: "machine_id \<rightharpoonup> host_info"
  cm_backward :: "vpath \<rightharpoonup> machine_id set"

definition config_map_new :: config_map where
  "config_map_new = \<lparr>cm_forward = Map.empty, cm_backward = Map.empty\<rparr>"

text \<open>The loop that adds a machine under each of its directories.\<close>

fun add_machine ::
  "machine_id \<Rightarrow> vpath list \<Rightarrow> (vpath \<rightharpoonup> machine_id set) \<Rightarrow> (vpath \<rightharpoonup> machine_id set)" where
  "add_machine machine [] backward = backward"
| "add_machine machine (item # rest) backward =
     add_machine machine rest (map_entry_update item {} (insert machine) backward)"

text \<open>The loop that drops it under directories it had before; a missing entry is \<^verbatim>\<open>unreachable!()\<close>.\<close>

fun drop_machine ::
  "machine_id \<Rightarrow> vpath list \<Rightarrow> vpath list \<Rightarrow> (vpath \<rightharpoonup> machine_id set) \<Rightarrow>
     (vpath \<rightharpoonup> machine_id set, unit) result" where
  "drop_machine machine configs [] backward = Ok backward"
| "drop_machine machine configs (v # rest) backward =
     (if v \<in> set configs then drop_machine machine configs rest backward
      else (case backward v of
              None \<Rightarrow> Panic
            | Some ids \<Rightarrow>
                (let left = ids - {machine} in
                 drop_machine machine configs rest
                   (if left = {} then backward(v := None) else backward(v \<mapsto> left)))))"

definition config_map_set ::
  "(vpath list \<Rightarrow> hash) \<Rightarrow> machine_id \<Rightarrow> vpath list \<Rightarrow> config_map \<Rightarrow> (config_map, unit) result" where
  "config_map_set for_object machine configs cm =
     (let hsh = for_object configs in
      case cm_forward cm machine of
        None \<Rightarrow>
          Ok (cm\<lparr>cm_backward := add_machine machine configs (cm_backward cm),
                 cm_forward := (cm_forward cm)(machine \<mapsto> \<lparr>hi_hash = hsh, hi_configs = configs\<rparr>)\<rparr>)
      | Some info \<Rightarrow>
          if hi_hash info = hsh then Ok cm
          else bind_result (drop_machine machine configs (hi_configs info) (cm_backward cm)) (\<lambda>backward.
            Ok (cm\<lparr>cm_backward := add_machine machine configs backward,
                   cm_forward := (cm_forward cm)(machine \<mapsto> \<lparr>hi_hash = hsh, hi_configs = configs\<rparr>)\<rparr>)))"

definition config_map_get :: "machine_id \<Rightarrow> config_map \<Rightarrow> host_info option" where
  "config_map_get host cm = cm_forward cm host"

definition by_dir :: "vpath \<Rightarrow> config_map \<Rightarrow> machine_id set option" where
  "by_dir dir cm = cm_backward cm dir"

fun config_map_sets ::
  "(vpath list \<Rightarrow> hash) \<Rightarrow> (machine_id \<times> vpath list) list \<Rightarrow> config_map \<Rightarrow> (config_map, unit) result" where
  "config_map_sets for_object [] cm = Ok cm"
| "config_map_sets for_object ((machine, configs) # rest) cm =
     bind_result (config_map_set for_object machine configs cm) (config_map_sets for_object rest)"

section \<open>The two maps agree\<close>

definition serves :: "config_map \<Rightarrow> machine_id \<Rightarrow> vpath \<Rightarrow> bool" where
  "serves cm m p \<longleftrightarrow> (\<exists>info. cm_forward cm m = Some info \<and> p \<in> set (hi_configs info))"

definition backward_set :: "(vpath \<rightharpoonup> machine_id set) \<Rightarrow> vpath \<Rightarrow> machine_id set" where
  "backward_set b p = (case b p of None \<Rightarrow> {} | Some ids \<Rightarrow> ids)"

definition no_empty :: "(vpath \<rightharpoonup> machine_id set) \<Rightarrow> bool" where
  "no_empty b \<longleftrightarrow> (\<forall>p. b p \<noteq> Some {})"

definition config_map_inv :: "(vpath list \<Rightarrow> hash) \<Rightarrow> vpath list set \<Rightarrow> config_map \<Rightarrow> bool" where
  "config_map_inv for_object A cm \<longleftrightarrow>
     (\<forall>p. backward_set (cm_backward cm) p = {m. serves cm m p}) \<and> no_empty (cm_backward cm) \<and>
     (\<forall>m info. cm_forward cm m = Some info \<longrightarrow>
        hi_configs info \<in> A \<and> distinct (hi_configs info) \<and> hi_hash info = for_object (hi_configs info))"

lemma add_machine_set:
  "backward_set (add_machine m ps b) p = (if p \<in> set ps then insert m (backward_set b p) else backward_set b p)"
proof (induction ps arbitrary: b)
  case (Cons q ps)
  have "backward_set (map_entry_update q {} (insert m) b) p =
      (if p = q then insert m (backward_set b p) else backward_set b p)"
    by (auto simp: backward_set_def)
  then show ?case using Cons by auto
qed simp

lemma add_machine_no_empty: "no_empty b \<Longrightarrow> no_empty (add_machine m ps b)"
proof (induction ps arbitrary: b)
  case (Cons q ps)
  have "no_empty (map_entry_update q {} (insert m) b)"
    using Cons.prems by (auto simp: no_empty_def map_entry_update_def)
  then show ?case using Cons.IH by simp
qed simp

lemma drop_machine_ok:
  assumes "distinct ps" "\<forall>p \<in> set ps - set configs. m \<in> backward_set b p" "no_empty b"
  shows "\<exists>b'. drop_machine m configs ps b = Ok b' \<and> no_empty b' \<and>
    (\<forall>p. backward_set b' p = (if p \<in> set ps - set configs then backward_set b p - {m} else backward_set b p))"
  using assms
proof (induction ps arbitrary: b)
  case (Cons q ps)
  show ?case
  proof (cases "q \<in> set configs")
    case True
    then show ?thesis using Cons by auto
  next
    case False
    then obtain ids where ids: "b q = Some ids" "m \<in> ids"
      using Cons.prems(2) by (auto simp: backward_set_def split: option.splits)
    define bb where "bb = (if ids - {m} = {} then b(q := None) else b(q \<mapsto> ids - {m}))"
    have set: "backward_set bb p = (if p = q then backward_set b p - {m} else backward_set b p)" for p
      using ids by (auto simp: backward_set_def bb_def)
    have "no_empty bb" using Cons.prems(3) by (auto simp: no_empty_def bb_def)
    moreover have "\<forall>p \<in> set ps - set configs. m \<in> backward_set bb p"
      using Cons.prems(1,2) set by auto
    ultimately obtain b' where "drop_machine m configs ps bb = Ok b'" "no_empty b'"
      "\<forall>p. backward_set b' p = (if p \<in> set ps - set configs then backward_set bb p - {m} else backward_set bb p)"
      using Cons.IH [of bb] Cons.prems(1) by auto
    moreover have "drop_machine m configs (q # ps) b = drop_machine m configs ps bb"
      using False ids(1) by (simp add: Let_def bb_def)
    ultimately show ?thesis using False set Cons.prems(1) by auto
  qed
qed simp

lemma config_map_set_inv:
  assumes inv: "config_map_inv for_object A cm" and ps: "distinct ps" "ps \<in> A"
  shows "\<exists>cm'. config_map_set for_object m ps cm = Ok cm' \<and> config_map_inv for_object A cm' \<and>
    (\<forall>m'. m' \<noteq> m \<longrightarrow> cm_forward cm' m' = cm_forward cm m') \<and>
    (\<exists>info. cm_forward cm' m = Some info \<and> hi_hash info = for_object ps)"
proof (cases "cm_forward cm m")
  case None
  have "m \<notin> backward_set (cm_backward cm) p" for p
    using inv None by (auto simp: config_map_inv_def serves_def)
  then show ?thesis
    using None inv ps add_machine_no_empty
    by (auto simp: config_map_set_def config_map_inv_def add_machine_set serves_def)
next
  case (Some info)
  show ?thesis
  proof (cases "hi_hash info = for_object ps")
    case True
    then show ?thesis using Some inv by (simp add: config_map_set_def)
  next
    case False
    have old: "m \<in> backward_set (cm_backward cm) p \<longleftrightarrow> p \<in> set (hi_configs info)" for p
      using inv Some by (auto simp: config_map_inv_def serves_def)
    obtain b where b: "drop_machine m ps (hi_configs info) (cm_backward cm) = Ok b" "no_empty b"
      "\<And>p. backward_set b p = (if p \<in> set (hi_configs info) - set ps
         then backward_set (cm_backward cm) p - {m} else backward_set (cm_backward cm) p)"
      using drop_machine_ok [of "hi_configs info" ps m "cm_backward cm"] inv Some old
      by (auto simp: config_map_inv_def)
    let ?cm = "cm\<lparr>cm_backward := add_machine m ps b,
      cm_forward := (cm_forward cm)(m \<mapsto> \<lparr>hi_hash = for_object ps, hi_configs = ps\<rparr>)\<rparr>"
    have "backward_set (add_machine m ps b) p = {x. serves ?cm x p}" for p
    proof -
      have "backward_set (cm_backward cm) p = {x. serves cm x p}" using inv by (simp add: config_map_inv_def)
      then show ?thesis using old [of p] by (auto simp: add_machine_set b(3) serves_def)
    qed
    then have "config_map_inv for_object A ?cm"
      using inv ps add_machine_no_empty [OF b(2)] by (auto simp: config_map_inv_def)
    then show ?thesis using Some False b(1) by (auto simp: config_map_set_def)
  qed
qed

lemma config_map_sets_inv:
  assumes "config_map_inv for_object A cm" "\<forall>(m, ps) \<in> set us. distinct ps \<and> ps \<in> A"
  shows "\<exists>cm'. config_map_sets for_object us cm = Ok cm' \<and> config_map_inv for_object A cm' \<and>
    (\<forall>m. map_option hi_hash (cm_forward cm' m) =
      (case map_of (rev us) m of None \<Rightarrow> map_option hi_hash (cm_forward cm m) | Some ps \<Rightarrow> Some (for_object ps)))"
  using assms
proof (induction us arbitrary: cm)
  case (Cons u us)
  obtain m ps where u: "u = (m, ps)" by fastforce
  obtain cm1 where cm1: "config_map_set for_object m ps cm = Ok cm1" "config_map_inv for_object A cm1"
    "\<And>m'. m' \<noteq> m \<Longrightarrow> cm_forward cm1 m' = cm_forward cm m'"
    "map_option hi_hash (cm_forward cm1 m) = Some (for_object ps)"
    using config_map_set_inv [OF Cons.prems(1), of ps m] Cons.prems(2) u by auto
  obtain cm2 where cm2: "config_map_sets for_object us cm1 = Ok cm2" "config_map_inv for_object A cm2"
    "\<And>m. map_option hi_hash (cm_forward cm2 m) =
      (case map_of (rev us) m of None \<Rightarrow> map_option hi_hash (cm_forward cm1 m) | Some ps \<Rightarrow> Some (for_object ps))"
    using Cons.IH [OF cm1(2)] Cons.prems(2) by auto
  have "map_option hi_hash (cm_forward cm2 x) =
      (case map_of (rev (u # us)) x of None \<Rightarrow> map_option hi_hash (cm_forward cm x) | Some ps \<Rightarrow> Some (for_object ps))" for x
    using cm1(3) [of x] cm1(4) by (cases "x = m") (auto simp: u cm2(3) map_add_def split: option.splits)
  then show ?case using cm1(1) cm2(1,2) u by auto
qed simp

lemma config_map_inv_new: "config_map_inv for_object A config_map_new"
  by (simp add: config_map_inv_def config_map_new_def backward_set_def serves_def no_empty_def)

text \<open>
  C36. The two-way map of directories agrees with what machines announced. After any sequence of announcements
  (each a set of directories, with a hash that tells the announced sets apart) the code never reaches its \<^verbatim>\<open>unreachable!()\<close>,
  a machine has exactly the directories of its last announcement, and looking up a directory gives
  exactly the machines whose last announcement has it, or nothing when there is none.
\<close>

theorem config_map_agrees:
  assumes "inj_on for_object (snd ` set us)" and "\<forall>(m, ps) \<in> set us. distinct ps"
  shows "\<exists>cm. config_map_sets for_object us config_map_new = Ok cm \<and>
    (\<forall>m. map_option hi_configs (config_map_get m cm) = map_of (rev us) m) \<and>
    (\<forall>p. by_dir p cm = (let ids = {m. \<exists>ps. map_of (rev us) m = Some ps \<and> p \<in> set ps}
                        in if ids = {} then None else Some ids))"
proof -
  obtain cm where cm: "config_map_sets for_object us config_map_new = Ok cm" "config_map_inv for_object (snd ` set us) cm"
    "\<And>m. map_option hi_hash (cm_forward cm m) = map_option for_object (map_of (rev us) m)"
  proof -
    have "\<forall>(m, ps) \<in> set us. distinct ps \<and> ps \<in> snd ` set us" using assms(2) by force
    from config_map_sets_inv [OF config_map_inv_new this] obtain c where
      "config_map_sets for_object us config_map_new = Ok c" "config_map_inv for_object (snd ` set us) c"
      "\<And>m. map_option hi_hash (cm_forward c m) = (case map_of (rev us) m of
         None \<Rightarrow> map_option hi_hash (cm_forward config_map_new m) | Some ps \<Rightarrow> Some (for_object ps))" by blast
    then show ?thesis
      by (intro that [of c]) (auto simp: config_map_new_def split: option.splits)
  qed
  have conf: "map_option hi_configs (cm_forward cm m) = map_of (rev us) m" for m
  proof (cases "cm_forward cm m")
    case None
    then show ?thesis using cm(3) [of m] by simp
  next
    case (Some info)
    then obtain ps where ps: "map_of (rev us) m = Some ps" "hi_hash info = for_object ps" using cm(3) [of m]
      by (cases "map_of (rev us) m") auto
    then have "ps \<in> snd ` set us" by (metis image_eqI map_of_SomeD set_rev snd_conv)
    moreover have "hi_configs info \<in> snd ` set us" "for_object (hi_configs info) = for_object ps"
      using cm(2) Some ps(2) by (auto simp: config_map_inv_def)
    ultimately show ?thesis using Some ps(1) inj_onD [OF assms(1)] by simp
  qed
  have ids: "{m. serves cm m p} = {m. \<exists>ps. map_of (rev us) m = Some ps \<and> p \<in> set ps}" for p
    unfolding serves_def conf [symmetric] by (auto simp: map_option_eq_Some)
  have bwd: "backward_set (cm_backward cm) p = {m. serves cm m p}" "cm_backward cm p \<noteq> Some {}" for p
    using cm(2) by (auto simp: config_map_inv_def no_empty_def)
  have "by_dir p cm = (let ids = {m. \<exists>ps. map_of (rev us) m = Some ps \<and> p \<in> set ps}
      in if ids = {} then None else Some ids)" for p
    unfolding ids [symmetric] bwd(1) [symmetric] using bwd(2) [of p]
    by (auto simp: by_dir_def Let_def backward_set_def split: option.splits)
  then show ?thesis using cm(1) conf by (auto simp: config_map_get_def)
qed


theorem config_map_agrees_witness:
  "\<exists>cm. config_map_sets (\<lambda>ps. Hash [word_of_nat (length ps)])
      [(MachineId [1], [VPath ''a'' []]), (MachineId [2], [VPath ''a'' [], VPath ''b'' []]), (MachineId [1], [])]
      config_map_new = Ok cm \<and>
    config_map_get (MachineId [1]) cm \<noteq> None \<and> by_dir (VPath ''a'' []) cm = Some {MachineId [2]}"
proof -
  let ?us = "[(MachineId [1], [VPath ''a'' []]), (MachineId [2], [VPath ''a'' [], VPath ''b'' []]), (MachineId [1], [])]"
  let ?h = "\<lambda>ps :: vpath list. Hash [word_of_nat (length ps)]"
  have "inj_on ?h (snd ` set ?us)" "\<forall>(m, ps) \<in> set ?us. distinct ps" by auto
  from config_map_agrees [OF this] obtain cm where cm: "config_map_sets ?h ?us config_map_new = Ok cm"
    "map_option hi_configs (config_map_get (MachineId [1]) cm) = map_of (rev ?us) (MachineId [1])"
    "by_dir (VPath ''a'' []) cm = (let ids = {m. \<exists>ps. map_of (rev ?us) m = Some ps \<and> VPath ''a'' [] \<in> set ps}
        in if ids = {} then None else Some ids)" by blast
  have "{m. \<exists>ps. map_of (rev ?us) m = Some ps \<and> VPath ''a'' [] \<in> set ps} = {MachineId [2]}"
    by (auto split: if_splits)
  then show ?thesis using cm by (auto simp: Let_def)
qed

end
