(* ===== verification/Proto.thy ===== *)
theory Proto
  imports Signatures
begin

text \<open>
  The messages that a client, the daemon and its peers exchange and their framing
  (\<^verbatim>\<open>src/proto/message.rs\<close>, \<^verbatim>\<open>request.rs\<close>, \<^verbatim>\<open>server.rs\<close> and the command files), and the
  registry that matches replies to requests. A frame is a CBOR sequence; the derived codecs of the structs inside it are
  a parameter with the laws \<open>payload_codec\<close>.
\<close>

section \<open>Commands\<close>

record dir_ack =
  ack_accepted :: bool
  ack_reject_reason :: "string option"
  ack_hosts :: "machine_id \<rightharpoonup> string"

record publish_image =
  pi_id :: image_id

record received_image =
  ri_id :: image_id
  ri_path :: vpath
  ri_machine_id :: machine_id
  ri_hostname :: string
  ri_forwarded :: bool

record aborted_image =
  ai_id :: image_id
  ai_path :: vpath
  ai_machine_id :: machine_id
  ai_hostname :: string
  ai_forwarded :: bool
  ai_reason :: string

record get_index =
  gi_id :: image_id
  gi_hint :: "vpath option"

record get_index_at =
  gia_path :: vpath

record get_index_at_response =
  gir_data :: "bytes option"
  gir_hosts :: "machine_id \<rightharpoonup> string"

record get_block =
  gb_hash :: block_hash
  gb_hint :: "(vpath \<times> string \<times> u64) option"

record get_base_dir =
  gbd_path :: vpath

record base_dir_response =
  bdr_config_hash :: hash
  bdr_keep_list_hash :: hash
  bdr_dirs :: "(string \<times> state) list"

datatype request =
    AppendDir append_dir | ReplaceDir replace_dir | GetIndex get_index | GetIndexAt get_index_at
  | GetBlock get_block | GetBaseDir get_base_dir

datatype response =
    AppendDirAck dir_ack | ReplaceDirAck dir_ack | GetIndexResponse bytes
  | GetIndexAtResponse get_index_at_response | GetBlockResponse bytes
  | GetBaseDirResponse base_dir_response | ErrorResponse string

datatype notification =
    PublishImage publish_image | ReceivedImage received_image | AbortedImage aborted_image

datatype proto_message = MRequest u64 request | MResponse u64 response | MNotification notification

datatype request_type = TAppendDir | TReplaceDir | TGetIndex | TGetIndexAt | TGetBlock | TGetBaseDir
datatype response_type = RequestType request_type | RequestError
datatype notification_type = TPublishImage | TReceivedImage | TAbortedImage

fun request_kind :: "request \<Rightarrow> request_type" where
  "request_kind (AppendDir a) = TAppendDir"
| "request_kind (ReplaceDir r) = TReplaceDir"
| "request_kind (GetIndex g) = TGetIndex"
| "request_kind (GetIndexAt g) = TGetIndexAt"
| "request_kind (GetBlock g) = TGetBlock"
| "request_kind (GetBaseDir g) = TGetBaseDir"

fun response_kind :: "response \<Rightarrow> response_type" where
  "response_kind (AppendDirAck a) = RequestType TAppendDir"
| "response_kind (ReplaceDirAck a) = RequestType TReplaceDir"
| "response_kind (GetIndexResponse d) = RequestType TGetIndex"
| "response_kind (GetIndexAtResponse g) = RequestType TGetIndexAt"
| "response_kind (GetBlockResponse d) = RequestType TGetBlock"
| "response_kind (GetBaseDirResponse g) = RequestType TGetBaseDir"
| "response_kind (ErrorResponse e) = RequestError"

fun notification_kind :: "notification \<Rightarrow> notification_type" where
  "notification_kind (PublishImage n) = TPublishImage"
| "notification_kind (ReceivedImage n) = TReceivedImage"
| "notification_kind (AbortedImage n) = TAbortedImage"

section \<open>The names on the wire\<close>

text \<open>What \<^verbatim>\<open>type_name\<close> gives for a request, a response and a notification.\<close>

fun request_type_name :: "request_type \<Rightarrow> string" where
  "request_type_name TAppendDir = ''AppendDir''"
| "request_type_name TReplaceDir = ''ReplaceDir''"
| "request_type_name TGetIndex = ''GetIndex''"
| "request_type_name TGetIndexAt = ''GetIndexAt''"
| "request_type_name TGetBlock = ''GetBlock''"
| "request_type_name TGetBaseDir = ''GetBaseDir''"

fun response_type_name :: "response_type \<Rightarrow> string" where
  "response_type_name (RequestType t) = request_type_name t"
| "response_type_name RequestError = ''Error''"

fun notification_type_name :: "notification_type \<Rightarrow> string" where
  "notification_type_name TPublishImage = ''PublishImage''"
| "notification_type_name TReceivedImage = ''ReceivedImage''"
| "notification_type_name TAbortedImage = ''AbortedImage''"

text \<open>Elements of a CBOR sequence: an integer, a text, or a struct in its serialised form.\<close>

datatype 'v elem = EInt nat | EText string | EVal 'v

datatype msg_error = UnknownVariant | WrongType | MsgLength nat | InvalidKind

fun visit_request_type :: "'v elem \<Rightarrow> (request_type, msg_error) result" where
  "visit_request_type (EText value) =
     (if value = ''AppendDir'' then Ok TAppendDir
      else if value = ''ReplaceDir'' then Ok TReplaceDir
      else if value = ''GetIndex'' then Ok TGetIndex
      else if value = ''GetIndexAt'' then Ok TGetIndexAt
      else if value = ''GetBlock'' then Ok TGetBlock
      else if value = ''GetBaseDir'' then Ok TGetBaseDir
      else Err UnknownVariant)"
| "visit_request_type _ = Err WrongType"

fun visit_response_type :: "'v elem \<Rightarrow> (response_type, msg_error) result" where
  "visit_response_type (EText value) =
     (if value = ''AppendDir'' then Ok (RequestType TAppendDir)
      else if value = ''ReplaceDir'' then Ok (RequestType TReplaceDir)
      else if value = ''GetIndex'' then Ok (RequestType TGetIndex)
      else if value = ''GetIndexAt'' then Ok (RequestType TGetIndexAt)
      else if value = ''GetBlock'' then Ok (RequestType TGetBlock)
      else if value = ''GetBaseDir'' then Ok (RequestType TGetBaseDir)
      else if value = ''Error'' then Ok RequestError
      else Err UnknownVariant)"
| "visit_response_type _ = Err WrongType"

fun visit_notification_type :: "'v elem \<Rightarrow> (notification_type, msg_error) result" where
  "visit_notification_type (EText value) =
     (if value = ''PublishImage'' then Ok TPublishImage
      else if value = ''ReceivedImage'' then Ok TReceivedImage
      else if value = ''AbortedImage'' then Ok TAbortedImage
      else Err UnknownVariant)"
| "visit_notification_type _ = Err WrongType"

definition NOTIFICATION :: nat where "NOTIFICATION = 0"
definition REQUEST :: nat where "REQUEST = 1"
definition RESPONSE :: nat where "RESPONSE = 2"

fun visit_u8 :: "'v elem \<Rightarrow> (nat, msg_error) result" where
  "visit_u8 (EInt n) = (if n < 2 ^ 8 then Ok n else Err WrongType)"
| "visit_u8 _ = Err WrongType"

fun visit_u64 :: "'v elem \<Rightarrow> (u64, msg_error) result" where
  "visit_u64 (EInt n) = (if n < 2 ^ 64 then Ok (word_of_nat n) else Err WrongType)"
| "visit_u64 _ = Err WrongType"

section \<open>Encoding and decoding\<close>

record 'v codec =
  enc_req :: "request \<Rightarrow> 'v elem"
  dec_req :: "request_type \<Rightarrow> 'v elem \<Rightarrow> request option"
  enc_resp :: "response \<Rightarrow> 'v elem"
  dec_resp :: "response_type \<Rightarrow> 'v elem \<Rightarrow> response option"
  enc_notif :: "notification \<Rightarrow> 'v elem"
  dec_notif :: "notification_type \<Rightarrow> 'v elem \<Rightarrow> notification option"

text \<open>
  What serde promises of the derived codecs: decoding at the right type inverts encoding, and what is decoded
  at a type is of that type.
\<close>

definition payload_codec :: "'v codec \<Rightarrow> bool" where
  "payload_codec c \<longleftrightarrow>
     (\<forall>r. dec_req c (request_kind r) (enc_req c r) = Some r) \<and>
     (\<forall>r. dec_resp c (response_kind r) (enc_resp c r) = Some r) \<and>
     (\<forall>n. dec_notif c (notification_kind n) (enc_notif c n) = Some n) \<and>
     (\<forall>t v r. dec_req c t v = Some r \<longrightarrow> request_kind r = t) \<and>
     (\<forall>t v r. dec_resp c t v = Some r \<longrightarrow> response_kind r = t) \<and>
     (\<forall>t v n. dec_notif c t v = Some n \<longrightarrow> notification_kind n = t)"

text \<open>\<^verbatim>\<open>serialize_req\<close> and the three \<^verbatim>\<open>serialize\<close> functions, and \<^verbatim>\<open>serialize_response\<close>.\<close>

fun serialize_message :: "'v codec \<Rightarrow> proto_message \<Rightarrow> 'v elem list" where
  "serialize_message c (MRequest i r) =
     [EInt REQUEST, EText (request_type_name (request_kind r)), EInt (unat i), enc_req c r]"
| "serialize_message c (MResponse i r) =
     [EInt RESPONSE, EText (response_type_name (response_kind r)), EInt (unat i), enc_resp c r]"
| "serialize_message c (MNotification n) =
     [EInt NOTIFICATION, EText (notification_type_name (notification_kind n)), enc_notif c n]"

text \<open>\<^verbatim>\<open>visitor.next_element()\<close>: the element decoded at the wanted type and the rest, or the length error.\<close>

fun next_element ::
  "('x \<Rightarrow> ('y, msg_error) result) \<Rightarrow> nat \<Rightarrow> 'x list \<Rightarrow> ('y \<times> 'x list, msg_error) result" where
  "next_element visit len [] = Err (MsgLength len)"
| "next_element visit len (x # xs) = bind_result (visit x) (\<lambda>y. Ok (y, xs))"

definition visit_val :: "('v elem \<Rightarrow> 'y option) \<Rightarrow> 'v elem \<Rightarrow> ('y, msg_error) result" where
  "visit_val dec v = ok_or (dec v) WrongType"

definition visit_message :: "'v codec \<Rightarrow> 'v elem list \<Rightarrow> (proto_message, msg_error) result" where
  "visit_message c xs0 =
     bind_result (next_element visit_u8 0 xs0) (\<lambda>(kind, xs1).
     if kind = NOTIFICATION then
       bind_result (next_element visit_notification_type 1 xs1) (\<lambda>(typ, xs2).
       bind_result (next_element (visit_val (dec_notif c typ)) 3 xs2) (\<lambda>(data, xs3).
         Ok (MNotification data)))
     else if kind = REQUEST then
       bind_result (next_element visit_request_type 1 xs1) (\<lambda>(typ, xs2).
       bind_result (next_element visit_u64 2 xs2) (\<lambda>(i, xs3).
       bind_result (next_element (visit_val (dec_req c typ)) (if typ = TGetIndexAt then 2 else 3) xs3) (\<lambda>(data, xs4).
         Ok (MRequest i data))))
     else if kind = RESPONSE then
       bind_result (next_element visit_response_type 1 xs1) (\<lambda>(typ, xs2).
       bind_result (next_element visit_u64 2 xs2) (\<lambda>(i, xs3).
       bind_result (next_element (visit_val (dec_resp c typ)) 3 xs3) (\<lambda>(data, xs4).
         Ok (MResponse i data))))
     else Err InvalidKind)"

lemma visit_request_type_name [simp]: "visit_request_type (EText (request_type_name t)) = Ok t"
  by (cases t) simp_all

lemma visit_response_type_name [simp]: "visit_response_type (EText (response_type_name t)) = Ok t"
proof (cases t)
  case (RequestType u)
  then show ?thesis by (cases u) simp_all
qed simp

lemma visit_notification_type_name [simp]: "visit_notification_type (EText (notification_type_name t)) = Ok t"
  by (cases t) simp_all

lemma visit_u64_unat [simp]: "visit_u64 (EInt (unat i)) = Ok i"
  using unsigned_less [of i] by simp

lemma message_kinds [simp]:
  "visit_u8 (EInt NOTIFICATION) = Ok NOTIFICATION" "visit_u8 (EInt REQUEST) = Ok REQUEST"
  "visit_u8 (EInt RESPONSE) = Ok RESPONSE" "NOTIFICATION \<noteq> REQUEST" "REQUEST \<noteq> NOTIFICATION"
  "NOTIFICATION \<noteq> RESPONSE" "RESPONSE \<noteq> NOTIFICATION" "REQUEST \<noteq> RESPONSE" "RESPONSE \<noteq> REQUEST"
  by (simp_all add: NOTIFICATION_def REQUEST_def RESPONSE_def)

declare visit_request_type.simps [simp del] visit_response_type.simps [simp del]
  visit_notification_type.simps [simp del] visit_u64.simps [simp del] visit_u8.simps [simp del]

lemma next_element_Cons [simp]:
  "visit x = Ok y \<Longrightarrow> next_element visit n (x # xs) = Ok (y, xs)"
  by simp


text \<open>A codec that keeps the struct as it is.\<close>

datatype payload = PReq request | PResp response | PNotif notification

fun plain_req :: "request_type \<Rightarrow> payload elem \<Rightarrow> request option" where
  "plain_req t (EVal (PReq r)) = (if request_kind r = t then Some r else None)"
| "plain_req t _ = None"

fun plain_resp :: "response_type \<Rightarrow> payload elem \<Rightarrow> response option" where
  "plain_resp t (EVal (PResp r)) = (if response_kind r = t then Some r else None)"
| "plain_resp t _ = None"

fun plain_notif :: "notification_type \<Rightarrow> payload elem \<Rightarrow> notification option" where
  "plain_notif t (EVal (PNotif r)) = (if notification_kind r = t then Some r else None)"
| "plain_notif t _ = None"

definition plain_codec :: "payload codec" where
  "plain_codec = \<lparr>enc_req = (\<lambda>r. EVal (PReq r)), dec_req = plain_req, enc_resp = (\<lambda>r. EVal (PResp r)),
     dec_resp = plain_resp, enc_notif = (\<lambda>n. EVal (PNotif n)), dec_notif = plain_notif\<rparr>"

lemma plain_codec_laws: "payload_codec plain_codec"
proof -
  have "request_kind r = t" if "plain_req t v = Some r" for t v r
    using that by (cases "(t, v)" rule: plain_req.cases) (auto split: if_splits)
  moreover have "response_kind r = t" if "plain_resp t v = Some r" for t v r
    using that by (cases "(t, v)" rule: plain_resp.cases) (auto split: if_splits)
  moreover have "notification_kind r = t" if "plain_notif t v = Some r" for t v r
    using that by (cases "(t, v)" rule: plain_notif.cases) (auto split: if_splits)
  ultimately show ?thesis unfolding payload_codec_def plain_codec_def by simp
qed


end
