(* ===== verification/Request_Registry.thy ===== *)
theory Request_Registry
  imports Proto
begin

text \<open>
  Matching replies to requests (\<^verbatim>\<open>src/proto/request.rs\<close>): outgoing requests get a number when
  they are framed, and the reply with that number completes the channel of the request. A
  one-shot channel is a number; dropping its sender cancels it.
\<close>

type_synonym chan = nat

datatype wrap =
    RequestWrap request chan
  | NotificationWrap notification
  | ResponseWrap u64 response
  | ErrorWrap u64 string

record registry =
  rg_requests :: "u64 \<rightharpoonup> request \<times> chan"
  rg_last :: u64

definition registry_new :: registry where
  "registry_new = \<lparr>rg_requests = Map.empty, rg_last = 0\<rparr>"

definition registry_remove :: "u64 \<Rightarrow> registry \<Rightarrow> (request \<times> chan) option \<times> registry" where
  "registry_remove i reg = (rg_requests reg i, reg\<lparr>rg_requests := (rg_requests reg)(i := None)\<rparr>)"

section \<open>Framing\<close>

text \<open>\<^verbatim>\<open>last_request_id += 1\<close>, which panics at the end of the range, and the loop that skips numbers in use.\<close>

definition bump :: "u64 \<Rightarrow> (u64, unit) result" where
  "bump i = (if i = - 1 then Panic else Ok (i + 1))"

function skip_used :: "(u64 \<rightharpoonup> 'x) \<Rightarrow> u64 \<Rightarrow> (u64, unit) result" where
  "skip_used reqs i =
     (if reqs i = None then Ok i else if i = - 1 then Panic else skip_used reqs (i + 1))"
  by pat_completeness auto
termination
proof (relation "measure (\<lambda>(reqs, i). 2 ^ 64 - unat i)")
  fix reqs :: "u64 \<rightharpoonup> 'x" and i :: u64
  assume "i \<noteq> - 1"
  then have "i + 1 \<noteq> 0" by (metis add_eq_0_iff add.commute)
  then have "unat (i + 1) = Suc (unat i)" by (simp add: unatSuc add.commute)
  moreover have "unat i < 2 ^ 64" using unsigned_less [of i] by simp
  ultimately show "((reqs, i + 1), reqs, i) \<in> measure (\<lambda>(reqs, i). 2 ^ 64 - unat i)" by simp
qed simp

declare skip_used.simps [simp del]

fun packet_poll :: "wrap \<Rightarrow> registry \<Rightarrow> (proto_message \<times> registry, unit) result" where
  "packet_poll (RequestWrap r ch) reg =
     bind_result (bump (rg_last reg)) (\<lambda>i0.
     bind_result (skip_used (rg_requests reg) i0) (\<lambda>i.
       Ok (MRequest i r, reg\<lparr>rg_last := i, rg_requests := (rg_requests reg)(i \<mapsto> (r, ch))\<rparr>)))"
| "packet_poll (NotificationWrap n) reg = Ok (MNotification n, reg)"
| "packet_poll (ResponseWrap i r) reg = Ok (MResponse i r, reg)"
| "packet_poll (ErrorWrap i e) reg = Ok (MResponse i (ErrorResponse e), reg)"

section \<open>Replies\<close>

datatype outcome = Replied u64 response | Cancelled

text \<open>
  \<^verbatim>\<open>respond::<T>\<close> for each type of reply: the request is taken out of the registry; a reply of the
  wrong type is logged and the request dropped, which cancels its channel, as an error reply does.
\<close>

definition respond_typed ::
  "request_type \<Rightarrow> u64 \<Rightarrow> response \<Rightarrow> registry \<Rightarrow> registry \<times> (chan \<times> outcome) list" where
  "respond_typed t i value reg =
     (case registry_remove i reg of
        (Some (r, ch), reg') \<Rightarrow> (reg', [(ch, if request_kind r = t then Replied i value else Cancelled)])
      | (None, reg') \<Rightarrow> (reg', []))"

definition respond_error :: "u64 \<Rightarrow> registry \<Rightarrow> registry \<times> (chan \<times> outcome) list" where
  "respond_error i reg =
     (case registry_remove i reg of
        (Some (r, ch), reg') \<Rightarrow> (reg', [(ch, Cancelled)])
      | (None, reg') \<Rightarrow> (reg', []))"

fun respond :: "u64 \<Rightarrow> response \<Rightarrow> registry \<Rightarrow> registry \<times> (chan \<times> outcome) list" where
  "respond i (AppendDirAck x) reg = respond_typed TAppendDir i (AppendDirAck x) reg"
| "respond i (ReplaceDirAck x) reg = respond_typed TReplaceDir i (ReplaceDirAck x) reg"
| "respond i (GetIndexResponse x) reg = respond_typed TGetIndex i (GetIndexResponse x) reg"
| "respond i (GetIndexAtResponse x) reg = respond_typed TGetIndexAt i (GetIndexAtResponse x) reg"
| "respond i (GetBlockResponse x) reg = respond_typed TGetBlock i (GetBlockResponse x) reg"
| "respond i (GetBaseDirResponse x) reg = respond_typed TGetBaseDir i (GetBaseDirResponse x) reg"
| "respond i (ErrorResponse e) reg = respond_error i reg"

lemma respond_cases:
  "respond i resp reg =
     (case rg_requests reg i of
        None \<Rightarrow> (reg, [])
      | Some (r, ch) \<Rightarrow> (reg\<lparr>rg_requests := (rg_requests reg)(i := None)\<rparr>,
          [(ch, if response_kind resp = RequestType (request_kind r) then Replied i resp else Cancelled)]))"
  by (cases resp) (auto simp: respond_typed_def respond_error_def registry_remove_def fun_upd_idem
      split: option.splits)

lemma skip_used_free: "skip_used reqs i = Ok j \<Longrightarrow> reqs j = None"
  by (induction reqs i rule: skip_used.induct) (subst (asm) (2) skip_used.simps, simp split: if_splits)

section \<open>A connection's requests\<close>

text \<open>
  One side of a connection: its registry, the next channel, what was framed (number, request,
  channel) and what became of the channels.
\<close>

record exchange =
  ex_registry :: registry
  ex_next :: chan
  ex_framed :: "(u64 \<times> request \<times> chan) list"
  ex_outcomes :: "(chan \<times> outcome) list"

definition exchange_init :: "exchange \<Rightarrow> bool" where
  "exchange_init ex \<longleftrightarrow> ex = \<lparr>ex_registry = registry_new, ex_next = 0, ex_framed = [], ex_outcomes = []\<rparr>"

inductive exchange_step :: "exchange \<Rightarrow> exchange \<Rightarrow> bool" where
  send: "packet_poll (RequestWrap r (ex_next ex)) (ex_registry ex) = Ok (MRequest i r, reg) \<Longrightarrow>
    exchange_step ex (ex\<lparr>ex_registry := reg, ex_next := Suc (ex_next ex),
      ex_framed := ex_framed ex @ [(i, r, ex_next ex)]\<rparr>)"
| receive: "respond i resp (ex_registry ex) = (reg, outs) \<Longrightarrow>
    exchange_step ex (ex\<lparr>ex_registry := reg, ex_outcomes := ex_outcomes ex @ outs\<rparr>)"

definition waiting :: "registry \<Rightarrow> chan set" where
  "waiting reg = {ch. \<exists>i r. rg_requests reg i = Some (r, ch)}"

definition exchange_inv :: "exchange \<Rightarrow> bool" where
  "exchange_inv ex \<longleftrightarrow>
     (\<forall>i r ch. rg_requests (ex_registry ex) i = Some (r, ch) \<longrightarrow> (i, r, ch) \<in> set (ex_framed ex)) \<and>
     (\<forall>i j r q ch. rg_requests (ex_registry ex) i = Some (r, ch) \<and> rg_requests (ex_registry ex) j = Some (q, ch) \<longrightarrow> i = j) \<and>
     distinct (map fst (ex_outcomes ex)) \<and>
     waiting (ex_registry ex) \<inter> fst ` set (ex_outcomes ex) = {} \<and>
     waiting (ex_registry ex) \<union> fst ` set (ex_outcomes ex) = {..<ex_next ex} \<and>
     (\<forall>ch i resp. (ch, Replied i resp) \<in> set (ex_outcomes ex) \<longrightarrow>
        (\<exists>r. (i, r, ch) \<in> set (ex_framed ex) \<and> response_kind resp = RequestType (request_kind r)))"

lemma exchange_invD:
  assumes "exchange_inv ex"
  shows "rg_requests (ex_registry ex) i = Some (r, ch) \<Longrightarrow> (i, r, ch) \<in> set (ex_framed ex)"
    and "rg_requests (ex_registry ex) i = Some (r, ch) \<Longrightarrow> rg_requests (ex_registry ex) j = Some (q, ch) \<Longrightarrow> i = j"
    and "distinct (map fst (ex_outcomes ex))"
    and "waiting (ex_registry ex) \<inter> fst ` set (ex_outcomes ex) = {}"
    and "waiting (ex_registry ex) \<union> fst ` set (ex_outcomes ex) = {..<ex_next ex}"
    and "(ch, Replied i resp) \<in> set (ex_outcomes ex) \<Longrightarrow>
      \<exists>r. (i, r, ch) \<in> set (ex_framed ex) \<and> response_kind resp = RequestType (request_kind r)"
proof -
  note inv = assms [unfolded exchange_inv_def]
  show "(i, r, ch) \<in> set (ex_framed ex)" if "rg_requests (ex_registry ex) i = Some (r, ch)" using inv that by simp
  show "i = j" if "rg_requests (ex_registry ex) i = Some (r, ch)" "rg_requests (ex_registry ex) j = Some (q, ch)"
    using inv that by meson
  show "\<exists>r. (i, r, ch) \<in> set (ex_framed ex) \<and> response_kind resp = RequestType (request_kind r)"
    if "(ch, Replied i resp) \<in> set (ex_outcomes ex)" using inv that by meson
qed (use assms in \<open>simp_all add: exchange_inv_def\<close>)

lemma exchange_inv_send:
  assumes inv: "exchange_inv ex"
    and poll: "packet_poll (RequestWrap r (ex_next ex)) (ex_registry ex) = Ok (MRequest i r, reg)"
  shows "exchange_inv (ex\<lparr>ex_registry := reg, ex_next := Suc (ex_next ex),
    ex_framed := ex_framed ex @ [(i, r, ex_next ex)]\<rparr>)" (is "exchange_inv ?ex")
proof -
  note D = exchange_invD [OF inv]
  have free: "rg_requests (ex_registry ex) i = None"
    and reg: "rg_requests reg = (rg_requests (ex_registry ex))(i \<mapsto> (r, ex_next ex))"
    using poll by (auto dest: skip_used_free)
  have fresh: "ex_next ex \<notin> waiting (ex_registry ex)" "ex_next ex \<notin> fst ` set (ex_outcomes ex)"
    using D(5) by auto
  then have new: "rg_requests (ex_registry ex) j \<noteq> Some (q, ex_next ex)" for j q
    by (auto simp: waiting_def)
  have wait: "waiting reg = insert (ex_next ex) (waiting (ex_registry ex))"
    unfolding waiting_def reg using free by (auto split: if_splits) (metis option.distinct(1))
  have "waiting reg \<inter> fst ` set (ex_outcomes ex) = {}" 
    unfolding wait Int_insert_left using D(4) fresh(2) by simp
  moreover have "waiting reg \<union> fst ` set (ex_outcomes ex) = {..<Suc (ex_next ex)}"
    using D(5) wait by (simp add: lessThan_Suc)
  ultimately show ?thesis
    using D(1,2,3,6) new unfolding exchange_inv_def by (auto simp: reg split: if_splits) blast+
qed

lemma exchange_inv_receive:
  assumes inv: "exchange_inv ex" and resp: "respond i resp (ex_registry ex) = (reg, outs)"
  shows "exchange_inv (ex\<lparr>ex_registry := reg, ex_outcomes := ex_outcomes ex @ outs\<rparr>)"
proof (cases "rg_requests (ex_registry ex) i")
  case None
  then have "reg = ex_registry ex" "outs = []" using resp by (simp_all add: respond_cases)
  then show ?thesis using inv by simp
next
  case (Some rc)
  obtain r ch where rc: "rc = (r, ch)" by fastforce
  note D = exchange_invD [OF inv]
  have reg: "rg_requests reg = (rg_requests (ex_registry ex))(i := None)"
    and outs: "outs = [(ch, if response_kind resp = RequestType (request_kind r) then Replied i resp else Cancelled)]"
    using resp Some rc by (auto simp: respond_cases)
  have mem: "ch \<in> waiting (ex_registry ex)" using Some rc by (auto simp: waiting_def)
  have wait: "waiting reg = waiting (ex_registry ex) - {ch}"
    unfolding waiting_def reg using Some rc D(2) by (auto split: if_splits) (metis Pair_inject option.inject)
  have "ch \<notin> fst ` set (ex_outcomes ex)" using mem D(4) by blast
  moreover have "waiting reg \<inter> fst ` set (ex_outcomes ex @ outs) = {}"
    using D(4) wait outs by auto
  moreover have "waiting reg \<union> fst ` set (ex_outcomes ex @ outs) = {..<ex_next ex}"
    unfolding D(5) [symmetric] using wait mem outs by auto
  ultimately show ?thesis
    using D(1,2,3,6) Some rc unfolding exchange_inv_def
    by (auto simp: reg outs split: if_splits) blast+
qed

interpretation exchange: invariant_system exchange_init exchange_step exchange_inv
proof
  show "exchange_inv ex" if "exchange_init ex" for ex
    using that by (simp add: exchange_init_def exchange_inv_def registry_new_def waiting_def)
  show "exchange_inv ex'" if "exchange_inv ex" "exchange_step ex ex'" for ex ex'
    using that(2,1) by cases (auto intro: exchange_inv_send exchange_inv_receive)
qed

text \<open>
  C28. Every request is answered at most once, with its own reply. Whatever replies arrive, of any
  number and type and in any order: each request ever framed is either still waiting or has exactly one
  outcome, never both; a channel that got a reply belongs to the request that was framed with the
  number of that reply, and the reply has the type of that request; and two waiting requests never share a number
  or a channel.
\<close>

theorem requests_matched:
  assumes "reachable exchange_init exchange_step ex"
  shows "waiting (ex_registry ex) \<inter> fst ` set (ex_outcomes ex) = {} \<and>
    waiting (ex_registry ex) \<union> fst ` set (ex_outcomes ex) = {..<ex_next ex} \<and>
    distinct (map fst (ex_outcomes ex)) \<and>
    list_all (\<lambda>(ch, out). case out of Cancelled \<Rightarrow> True | Replied i resp \<Rightarrow>
      list_ex (\<lambda>(j, r, c). j = i \<and> c = ch \<and> response_kind resp = RequestType (request_kind r)) (ex_framed ex))
      (ex_outcomes ex) \<and>
    inj_on (\<lambda>i. map_option snd (rg_requests (ex_registry ex) i)) (dom (rg_requests (ex_registry ex)))"
proof -
  note D = exchange_invD [OF exchange.reachable_inv [OF assms]]
  have "list_ex (\<lambda>(j, r, c). j = i \<and> c = ch \<and> response_kind resp = RequestType (request_kind r)) (ex_framed ex)"
    if "(ch, Replied i resp) \<in> set (ex_outcomes ex)" for ch i resp
    using D(6) [OF that] by (auto simp: list_ex_iff)
  moreover have "inj_on (\<lambda>i. map_option snd (rg_requests (ex_registry ex) i)) (dom (rg_requests (ex_registry ex)))"
    using D(2) by (fastforce simp: inj_on_def)
  ultimately show ?thesis using D(3,4,5) by (auto simp: list_all_iff split: outcome.splits)
qed

definition demo_request :: request where
  "demo_request = GetIndex \<lparr>gi_id = Other [1], gi_hint = None\<rparr>"

theorem requests_matched_witness:
  "\<exists>ex. reachable exchange_init exchange_step ex \<and> ex_outcomes ex = [(0, Replied 1 (GetIndexResponse [5]))] \<and>
     waiting (ex_registry ex) \<inter> fst ` set (ex_outcomes ex) = {} \<and>
     waiting (ex_registry ex) \<union> fst ` set (ex_outcomes ex) = {..<ex_next ex}"
proof -
  define e0 where "e0 = \<lparr>ex_registry = registry_new, ex_next = 0, ex_framed = [], ex_outcomes = []\<rparr>"
  define r1 where "r1 = \<lparr>rg_requests = [1 \<mapsto> (demo_request, 0)], rg_last = 1\<rparr>"
  define e1 where "e1 = e0\<lparr>ex_registry := r1, ex_next := Suc (ex_next e0),
    ex_framed := ex_framed e0 @ [(1, demo_request, ex_next e0)]\<rparr>"
  define e2 where "e2 = e1\<lparr>ex_registry := r1\<lparr>rg_requests := Map.empty\<rparr>,
    ex_outcomes := ex_outcomes e1 @ [(0, Replied 1 (GetIndexResponse [5]))]\<rparr>"
  have "exchange_init e0" by (simp add: exchange_init_def e0_def)
  moreover have "exchange_step e0 e1"
    unfolding e1_def by (rule exchange_step.send)
      (simp add: e0_def r1_def registry_new_def bump_def skip_used.simps)
  moreover have "exchange_step e1 e2"
    unfolding e2_def by (rule exchange_step.receive [where i = 1 and resp = "GetIndexResponse [5]"])
      (simp add: e1_def r1_def respond_cases demo_request_def)
  ultimately have r: "reachable exchange_init exchange_step e2" by (meson reachable.intros)
  moreover have "ex_outcomes e2 = [(0, Replied 1 (GetIndexResponse [5]))]" by (simp add: e2_def e1_def e0_def)
  ultimately show ?thesis using requests_matched [OF r] by blast
qed

end
