(* ===== verification/Remote.thy ===== *)
theory Remote
  imports Request_Registry Failure_Tracker
begin

text \<open>
  The connections of a daemon (\<^verbatim>\<open>src/daemon/remote/mod.rs\<close>, the connection state of
  \<^verbatim>\<open>remote/websocket.rs\<close> and the two ends of \<^verbatim>\<open>remote/outgoing.rs\<close>). A connection is shared by
  reference, so connections live in a store and are named by their number. A hash set is the list of
  its elements in the order of iteration.
\<close>

section \<open>Connections\<close>

record 'a peer =
  peer_id :: machine_id
  peer_addr :: 'a
  peer_hostname :: string
  peer_name :: string

type_synonym conn_id = nat

record 'a connection =
  cn_addr :: 'a
  cn_connected :: bool
  cn_registry :: registry
  cn_images :: "image_id list"
  cn_watches :: "vpath list"
  cn_sent :: "wrap list"

record 'a remote =
  rm_hostname :: string
  rm_machine_id :: machine_id
  rm_conns :: "conn_id \<rightharpoonup> 'a connection"
  rm_next_id :: conn_id
  rm_incoming :: "conn_id list"
  rm_outgoing :: "'a \<rightharpoonup> conn_id"
  rm_failures :: "'a failures"
  rm_declared :: "image_id \<rightharpoonup> conn_id list"

definition remote_new :: "string \<Rightarrow> machine_id \<Rightarrow> 'a remote" where
  "remote_new my_hostname my_id = \<lparr>rm_hostname = my_hostname, rm_machine_id = my_id, rm_conns = Map.empty,
     rm_next_id = 0, rm_incoming = [], rm_outgoing = Map.empty, rm_failures = failures_new_default,
     rm_declared = Map.empty\<rparr>"

definition connection_new :: "'a \<Rightarrow> bool \<Rightarrow> 'a connection" where
  "connection_new addr connected = \<lparr>cn_addr = addr, cn_connected = connected, cn_registry = registry_new,
     cn_images = [], cn_watches = [], cn_sent = []\<rparr>"

text \<open>\<^verbatim>\<open>Connection::incoming\<close> and \<^verbatim>\<open>Connection::outgoing\<close>: a new connection with the next number.\<close>

definition new_connection :: "'a \<Rightarrow> bool \<Rightarrow> 'a remote \<Rightarrow> conn_id \<times> 'a remote" where
  "new_connection addr connected rm =
     (rm_next_id rm, rm\<lparr>rm_conns := (rm_conns rm)(rm_next_id rm \<mapsto> connection_new addr connected),
                        rm_next_id := Suc (rm_next_id rm)\<rparr>)"

definition update_conn :: "('a connection \<Rightarrow> 'a connection) \<Rightarrow> conn_id \<Rightarrow> 'a remote \<Rightarrow> 'a remote" where
  "update_conn f c rm = rm\<lparr>rm_conns := (rm_conns rm)(c := map_option f (rm_conns rm c))\<rparr>"

definition hanging_requests :: "'a connection \<Rightarrow> nat" where
  "hanging_requests cn = card (dom (rg_requests (cn_registry cn)))"

definition add_watch :: "vpath \<Rightarrow> conn_id \<Rightarrow> 'a remote \<Rightarrow> 'a remote" where
  "add_watch p = update_conn (\<lambda>cn. cn\<lparr>cn_watches := List.insert p (cn_watches cn)\<rparr>)"

definition has_image :: "'a connection \<Rightarrow> image_id \<Rightarrow> bool" where
  "has_image cn img \<longleftrightarrow> img \<in> set (cn_images cn)"

definition has_watch :: "'a connection \<Rightarrow> vpath \<Rightarrow> bool" where
  "has_watch cn p \<longleftrightarrow> p \<in> set (cn_watches cn)"

definition send_wrap :: "wrap \<Rightarrow> 'a connection \<Rightarrow> 'a connection" where
  "send_wrap w cn = cn\<lparr>cn_sent := cn_sent cn @ [w]\<rparr>"

text \<open>\<^verbatim>\<open>Dispatcher::new\<close> marks the connection as connected.\<close>

definition dispatcher_new :: "conn_id \<Rightarrow> 'a remote \<Rightarrow> 'a remote" where
  "dispatcher_new = update_conn (\<lambda>cn. cn\<lparr>cn_connected := True\<rparr>)"

text \<open>What a connection does with a \<^verbatim>\<open>PublishImage\<close> notification.\<close>

definition publish_image_received :: "conn_id \<Rightarrow> image_id \<Rightarrow> 'a remote \<Rightarrow> 'a remote" where
  "publish_image_received c img rm =
     (let rm1 = update_conn (\<lambda>cn. cn\<lparr>cn_images := List.insert img (cn_images cn)\<rparr>) c rm
      in rm1\<lparr>rm_declared := map_entry_update img [] (List.insert c) (rm_declared rm1)\<rparr>)"

section \<open>The set of connections\<close>

definition register_connection :: "conn_id \<Rightarrow> 'a remote \<Rightarrow> 'a remote" where
  "register_connection c rm = rm\<lparr>rm_incoming := List.insert c (rm_incoming rm)\<rparr>"

text \<open>Accepting a connection, as the HTTP server does when a request upgrades to a websocket.\<close>

definition hijack :: "'a \<Rightarrow> 'a remote \<Rightarrow> conn_id \<times> 'a remote" where
  "hijack addr rm = (case new_connection addr True rm of (c, rm1) \<Rightarrow> (c, register_connection c (dispatcher_new c rm1)))"

definition get_incoming_connection_for_image :: "image_id \<Rightarrow> 'a remote \<Rightarrow> conn_id option" where
  "get_incoming_connection_for_image img rm =
     (case rm_declared rm img of Some (c # cs) \<Rightarrow> Some c | _ \<Rightarrow> None)"

fun split_connected ::
  "instant \<Rightarrow> 'a remote \<Rightarrow> 'a list \<Rightarrow> conn_id list \<times> 'a list" where
  "split_connected now rm [] = ([], [])"
| "split_connected now rm (sa # rest) =
     (case split_connected now rm rest of (conn, not_conn) \<Rightarrow>
        case rm_outgoing rm sa of
          Some c \<Rightarrow> (c # conn, not_conn)
        | None \<Rightarrow> if can_try now (rm_failures rm) sa then (conn, sa # not_conn) else (conn, not_conn))"

definition ensure_connected :: "'a \<Rightarrow> 'a remote \<Rightarrow> conn_id \<times> 'a remote" where
  "ensure_connected addr rm =
     (case rm_outgoing rm addr of
        Some c \<Rightarrow> (c, rm)
      | None \<Rightarrow> (case new_connection addr False rm of (c, rm1) \<Rightarrow>
          (c, rm1\<lparr>rm_outgoing := (rm_outgoing rm1)(addr \<mapsto> c)\<rparr>)))"

text \<open>\<^verbatim>\<open>connect\<close>, once the handshake is done.\<close>

definition handshake_done :: "'a \<Rightarrow> conn_id \<Rightarrow> 'a remote \<Rightarrow> 'a remote" where
  "handshake_done addr c rm = dispatcher_new c (rm\<lparr>rm_failures := failures_reset addr (rm_failures rm)\<rparr>)"

definition notify_where :: "('a connection \<Rightarrow> bool) \<Rightarrow> notification \<Rightarrow> 'a remote \<Rightarrow> 'a remote" where
  "notify_where P n rm =
     fold (\<lambda>c. update_conn (\<lambda>cn. if P cn then send_wrap (NotificationWrap n) cn else cn) c) (rm_incoming rm) rm"

definition received_image_sent :: "image_id \<Rightarrow> vpath \<Rightarrow> 'a peer option \<Rightarrow> 'a remote \<Rightarrow> 'a remote" where
  "received_image_sent img p source rm =
     notify_where (\<lambda>cn. has_image cn img \<or> has_watch cn p)
       (ReceivedImage \<lparr>ri_id = img, ri_path = p,
          ri_machine_id = (case source of Some x \<Rightarrow> peer_id x | None \<Rightarrow> rm_machine_id rm),
          ri_hostname = (case source of Some x \<Rightarrow> peer_hostname x | None \<Rightarrow> rm_hostname rm),
          ri_forwarded = (source \<noteq> None)\<rparr>) rm"

definition notify_received_image :: "image_id \<Rightarrow> vpath \<Rightarrow> 'a remote \<Rightarrow> 'a remote" where
  "notify_received_image img p = received_image_sent img p None"

definition forward_notify_received_image :: "image_id \<Rightarrow> vpath \<Rightarrow> 'a peer \<Rightarrow> 'a remote \<Rightarrow> 'a remote" where
  "forward_notify_received_image img p source = received_image_sent img p (Some source)"

definition notify_aborted_image :: "image_id \<Rightarrow> vpath \<Rightarrow> string \<Rightarrow> 'a remote \<Rightarrow> 'a remote" where
  "notify_aborted_image img p reason rm =
     notify_where (\<lambda>cn. has_image cn img)
       (AbortedImage \<lparr>ai_id = img, ai_path = p, ai_machine_id = rm_machine_id rm, ai_hostname = rm_hostname rm,
          ai_forwarded = False, ai_reason = reason\<rparr>) rm"

fun conn_watches :: "'a remote \<Rightarrow> conn_id list \<Rightarrow> vpath list" where
  "conn_watches rm [] = []"
| "conn_watches rm (c # cs) =
     (case rm_conns rm c of None \<Rightarrow> conn_watches rm cs | Some cn \<Rightarrow> cn_watches cn @ conn_watches rm cs)"

definition remote_get_watching :: "'a remote \<Rightarrow> vpath list" where
  "remote_get_watching rm = remdups (conn_watches rm (rm_incoming rm))"

definition has_image_source :: "image_id \<Rightarrow> 'a remote \<Rightarrow> bool" where
  "has_image_source img rm \<longleftrightarrow> rm_declared rm img \<noteq> None"

text \<open>Dropping the token of a connection, when it closes or was never established.\<close>

definition undeclare :: "conn_id \<Rightarrow> image_id \<Rightarrow> (image_id \<rightharpoonup> conn_id list) \<Rightarrow> (image_id \<rightharpoonup> conn_id list)" where
  "undeclare c img declared =
     (case declared img of
        None \<Rightarrow> declared
      | Some xs \<Rightarrow> (let left = removeAll c xs in
                    if left = [] then declared(img := None) else declared(img \<mapsto> left)))"

definition token_drop :: "instant \<Rightarrow> conn_id \<Rightarrow> 'a remote \<Rightarrow> 'a remote" where
  "token_drop now c rm =
     (case rm_conns rm c of
        None \<Rightarrow> rm
      | Some cn \<Rightarrow>
          (let rm1 = (if hanging_requests cn > 0 \<or> \<not> cn_connected cn
                      then rm\<lparr>rm_failures := add_failure now (cn_addr cn) (rm_failures rm)\<rparr> else rm);
               rm2 = (if c \<in> set (rm_incoming rm1)
                      then rm1\<lparr>rm_incoming := removeAll c (rm_incoming rm1),
                               rm_declared := fold (undeclare c) (cn_images cn) (rm_declared rm1)\<rparr>
                      else rm1)
           in if rm_outgoing rm2 (cn_addr cn) = Some c
              then rm2\<lparr>rm_outgoing := (rm_outgoing rm2)(cn_addr cn := None)\<rparr> else rm2))"

section \<open>The invariant\<close>

definition entry_list :: "('k \<rightharpoonup> 'v list) \<Rightarrow> 'k \<Rightarrow> 'v list" where
  "entry_list d k = (case d k of None \<Rightarrow> [] | Some xs \<Rightarrow> xs)"

definition declared_list :: "'a remote \<Rightarrow> image_id \<Rightarrow> conn_id list" where
  "declared_list rm img = entry_list (rm_declared rm) img"

definition published :: "'a remote \<Rightarrow> conn_id \<Rightarrow> image_id \<Rightarrow> bool" where
  "published rm c img \<longleftrightarrow> (\<exists>cn. rm_conns rm c = Some cn \<and> img \<in> set (cn_images cn))"

definition remote_inv :: "'a remote \<Rightarrow> bool" where
  "remote_inv rm \<longleftrightarrow> distinct (rm_incoming rm) \<and>
     (\<forall>img. rm_declared rm img \<noteq> Some []) \<and>
     (\<forall>img c. c \<in> set (declared_list rm img) \<longleftrightarrow> c \<in> set (rm_incoming rm) \<and> published rm c img) \<and>
     (\<forall>c. rm_conns rm c \<noteq> None \<longrightarrow> c < rm_next_id rm) \<and>
     (\<forall>c \<in> set (rm_incoming rm). rm_conns rm c \<noteq> None) \<and>
     (\<forall>addr c. rm_outgoing rm addr = Some c \<longrightarrow>
        c \<notin> set (rm_incoming rm) \<and> (\<exists>cn. rm_conns rm c = Some cn \<and> cn_addr cn = addr))"

text \<open>Updates of a connection that leave its address and its images alone.\<close>

definition same_shape :: "('a connection \<Rightarrow> 'a connection) \<Rightarrow> bool" where
  "same_shape f \<longleftrightarrow> (\<forall>cn. cn_addr (f cn) = cn_addr cn \<and> cn_images (f cn) = cn_images cn)"

lemma update_conn_fields [simp]:
  "rm_declared (update_conn f c rm) = rm_declared rm" "rm_incoming (update_conn f c rm) = rm_incoming rm"
  "rm_outgoing (update_conn f c rm) = rm_outgoing rm" "rm_next_id (update_conn f c rm) = rm_next_id rm"
  "rm_failures (update_conn f c rm) = rm_failures rm"
  "rm_conns (update_conn f c rm) = (rm_conns rm)(c := map_option f (rm_conns rm c))"
  by (simp_all add: update_conn_def)

lemma published_update [simp]: "same_shape f \<Longrightarrow> published (update_conn f c rm) x img = published rm x img"
  by (auto simp: published_def same_shape_def)

lemma remote_inv_update:
  assumes inv: "remote_inv rm" and f: "same_shape f"
  shows "remote_inv (update_conn f c rm)"
proof -
  have "\<exists>cn. rm_conns (update_conn f c rm) x = Some cn \<and> cn_addr cn = addr"
    if "\<exists>cn. rm_conns rm x = Some cn \<and> cn_addr cn = addr" for x addr
    using that f by (auto simp: same_shape_def)
  then show ?thesis
    using inv f by (auto simp: remote_inv_def declared_list_def)
qed

lemma same_shapes [simp]:
  "same_shape (\<lambda>cn. cn\<lparr>cn_watches := w cn\<rparr>)" "same_shape (\<lambda>cn. cn\<lparr>cn_connected := b\<rparr>)"
  "same_shape (\<lambda>cn. cn\<lparr>cn_registry := r cn\<rparr>)" "same_shape (\<lambda>cn. if P cn then send_wrap msg cn else cn)"
  by (simp_all add: same_shape_def send_wrap_def)

lemma remote_inv_notify:
  assumes "remote_inv rm"
  shows "remote_inv (notify_where P n rm)"
proof -
  have "remote_inv (fold (\<lambda>c. update_conn (\<lambda>cn. if P cn then send_wrap (NotificationWrap n) cn else cn) c) cs r)"
    if "remote_inv r" for cs and r :: "'a remote"
    using that by (induction cs arbitrary: r) (simp_all add: remote_inv_update)
  then show ?thesis using assms by (simp add: notify_where_def)
qed

lemma remote_inv_failures [simp]: "remote_inv (rm\<lparr>rm_failures := f\<rparr>) = remote_inv rm"
  by (simp add: remote_inv_def declared_list_def published_def)

lemma remote_inv_fresh:
  assumes "remote_inv rm"
  shows "rm_conns rm (rm_next_id rm) = None" "rm_next_id rm \<notin> set (rm_incoming rm)"
    "rm_outgoing rm a \<noteq> Some (rm_next_id rm)"
proof -
  show "rm_conns rm (rm_next_id rm) = None" using assms unfolding remote_inv_def by (metis less_irrefl)
  then show "rm_next_id rm \<notin> set (rm_incoming rm)" using assms unfolding remote_inv_def by metis
  then show "rm_outgoing rm a \<noteq> Some (rm_next_id rm)"
    using assms \<open>rm_conns rm (rm_next_id rm) = None\<close> unfolding remote_inv_def by (metis option.distinct(1))
qed

lemma remote_inv_hijack:
  assumes "remote_inv rm"
  shows "remote_inv (snd (hijack addr rm))"
proof -
  let ?c = "rm_next_id rm"
  have new: "rm_conns rm ?c = None" "?c \<notin> set (rm_incoming rm)" "\<And>a. rm_outgoing rm a \<noteq> Some ?c"
    using remote_inv_fresh [OF assms] by simp_all
  then have pub: "published (snd (hijack addr rm)) x img \<longleftrightarrow> published rm x img" for x img
    by (auto simp: hijack_def new_connection_def connection_new_def register_connection_def dispatcher_new_def
        published_def)
  have "rm_declared (snd (hijack addr rm)) = rm_declared rm"
    "set (rm_incoming (snd (hijack addr rm))) = insert ?c (set (rm_incoming rm))"
    "rm_incoming (snd (hijack addr rm)) = List.insert ?c (rm_incoming rm)"
    "rm_outgoing (snd (hijack addr rm)) = rm_outgoing rm" "rm_next_id (snd (hijack addr rm)) = Suc ?c"
    "rm_conns (snd (hijack addr rm)) = (rm_conns rm)(?c \<mapsto> connection_new addr True)"
    by (simp_all add: hijack_def new_connection_def register_connection_def dispatcher_new_def connection_new_def)
  moreover have "\<not> published rm ?c img" for img using new by (simp add: published_def)
  ultimately show ?thesis
    using assms new unfolding remote_inv_def declared_list_def pub by (auto simp: less_Suc_eq)
qed

lemma remote_inv_connect:
  assumes "remote_inv rm"
  shows "remote_inv (snd (ensure_connected addr rm))"
proof (cases "rm_outgoing rm addr")
  case (Some c)
  then show ?thesis using assms by (simp add: ensure_connected_def)
next
  case None
  let ?c = "rm_next_id rm"
  let ?rm = "snd (ensure_connected addr rm)"
  have new: "rm_conns rm ?c = None" "?c \<notin> set (rm_incoming rm)" "\<And>a. rm_outgoing rm a \<noteq> Some ?c"
    using remote_inv_fresh [OF assms] by simp_all
  have eqs: "rm_declared ?rm = rm_declared rm" "rm_incoming ?rm = rm_incoming rm"
    "rm_outgoing ?rm = (rm_outgoing rm)(addr \<mapsto> ?c)" "rm_next_id ?rm = Suc ?c"
    "rm_conns ?rm = (rm_conns rm)(?c \<mapsto> connection_new addr False)"
    using None by (simp_all add: ensure_connected_def new_connection_def)
  have "published ?rm x img \<longleftrightarrow> published rm x img" for x img
    using new by (auto simp: published_def eqs connection_new_def)
  then show ?thesis
    using assms new unfolding remote_inv_def declared_list_def eqs
    by (auto simp: connection_new_def less_Suc_eq)
qed

lemma remote_inv_publish:
  assumes inv: "remote_inv rm" and c: "c \<in> set (rm_incoming rm)"
  shows "remote_inv (publish_image_received c img rm)"
proof -
  let ?rm = "publish_image_received c img rm"
  have eqs: "rm_incoming ?rm = rm_incoming rm" "rm_outgoing ?rm = rm_outgoing rm" "rm_next_id ?rm = rm_next_id rm"
    "rm_declared ?rm = map_entry_update img [] (List.insert c) (rm_declared rm)"
    "rm_conns ?rm = (rm_conns rm)(c := map_option (\<lambda>cn. cn\<lparr>cn_images := List.insert img (cn_images cn)\<rparr>) (rm_conns rm c))"
    by (simp_all add: publish_image_received_def Let_def)
  have list: "set (declared_list ?rm i) = (if i = img then insert c (set (declared_list rm i)) else set (declared_list rm i))" for i
    by (auto simp: declared_list_def entry_list_def eqs map_entry_update_def split: option.splits)
  have pub: "published ?rm x i \<longleftrightarrow> published rm x i \<or> x = c \<and> i = img" for x i
    using inv c by (auto simp: published_def eqs remote_inv_def)
  have out: "\<exists>cn. rm_conns ?rm x = Some cn \<and> cn_addr cn = addr" if "\<exists>cn. rm_conns rm x = Some cn \<and> cn_addr cn = addr" for x addr
    using that by (auto simp: eqs)
  have "rm_declared ?rm i \<noteq> Some []" for i
    using inv by (auto simp: eqs remote_inv_def map_entry_update_def List.insert_def split: option.splits if_splits)
  then show ?thesis
    using inv c out unfolding remote_inv_def list pub eqs(1-3) by (auto simp: eqs(5) split: if_splits)
qed

lemma undeclare_set:
  "set (entry_list (undeclare c img d) i) = set (entry_list d i) - (if i = img then {c} else {})"
proof (cases "d img")
  case (Some xs)
  have "removeAll c xs = [] \<longleftrightarrow> set xs - {c} = {}" by (metis set_empty set_removeAll)
  then show ?thesis using Some by (auto simp: undeclare_def entry_list_def Let_def)
qed (simp add: undeclare_def entry_list_def)

lemma undeclare_no_empty: "\<forall>i. d i \<noteq> Some [] \<Longrightarrow> undeclare c img d i \<noteq> Some []"
  by (auto simp: undeclare_def Let_def split: option.splits if_splits)

lemma fold_undeclare:
  "set (entry_list (fold (undeclare c) imgs d) i) = set (entry_list d i) - (if i \<in> set imgs then {c} else {})"
  by (induction imgs arbitrary: d) (auto simp: undeclare_set split: if_splits)

lemma fold_undeclare_no_empty: "\<forall>i. d i \<noteq> Some [] \<Longrightarrow> fold (undeclare c) imgs d i \<noteq> Some []"
  by (induction imgs arbitrary: d) (simp_all add: undeclare_no_empty)

lemma remote_inv_drop:
  assumes inv: "remote_inv rm"
  shows "remote_inv (token_drop now c rm)"
proof (cases "rm_conns rm c")
  case None
  then show ?thesis using inv by (simp add: token_drop_def)
next
  case (Some cn)
  define rm1 where "rm1 = (if hanging_requests cn > 0 \<or> \<not> cn_connected cn
    then rm\<lparr>rm_failures := add_failure now (cn_addr cn) (rm_failures rm)\<rparr> else rm)"
  define rm2 where "rm2 = (if c \<in> set (rm_incoming rm1)
    then rm1\<lparr>rm_incoming := removeAll c (rm_incoming rm1),
             rm_declared := fold (undeclare c) (cn_images cn) (rm_declared rm1)\<rparr> else rm1)"
  have inv1: "remote_inv rm1" and c1: "rm_conns rm1 c = Some cn" using inv Some by (simp_all add: rm1_def)
  have inv2: "remote_inv rm2"
  proof (cases "c \<in> set (rm_incoming rm1)")
    case True
    have list: "set (declared_list rm2 i) = set (declared_list rm1 i) - (if i \<in> set (cn_images cn) then {c} else {})" for i
      using fold_undeclare [of c "cn_images cn" "rm_declared rm1" i] True by (simp add: declared_list_def rm2_def)
    have pub: "published rm2 x i = published rm1 x i" "published rm1 c i \<longleftrightarrow> i \<in> set (cn_images cn)" for x i
      using c1 True by (simp_all add: published_def rm2_def)
    have "distinct (rm_incoming rm2)" using inv1 by (auto simp: rm2_def remote_inv_def distinct_removeAll)
    moreover have inc: "set (rm_incoming rm2) = set (rm_incoming rm1) - {c}" "rm_outgoing rm2 = rm_outgoing rm1"
      "rm_conns rm2 = rm_conns rm1" "rm_next_id rm2 = rm_next_id rm1" using True by (simp_all add: rm2_def)
    moreover have "rm_declared rm2 i \<noteq> Some []" for i
      using fold_undeclare_no_empty inv1 True by (simp add: rm2_def remote_inv_def)
    ultimately show ?thesis
      using inv1 pub(2) unfolding remote_inv_def list pub(1) inc by (auto split: if_splits)
  qed (simp add: inv1 rm2_def)
  have "remote_inv (rm2\<lparr>rm_outgoing := (rm_outgoing rm2)(cn_addr cn := None)\<rparr>)"
    using inv2 by (auto simp: remote_inv_def declared_list_def published_def)
  moreover have "token_drop now c rm = (if rm_outgoing rm2 (cn_addr cn) = Some c
      then rm2\<lparr>rm_outgoing := (rm_outgoing rm2)(cn_addr cn := None)\<rparr> else rm2)"
    using Some by (simp only: token_drop_def option.case Let_def rm1_def rm2_def)
  ultimately show ?thesis using inv2 by simp
qed

inductive remote_step :: "'a remote \<Rightarrow> 'a remote \<Rightarrow> bool" where
  accept: "remote_step rm (snd (hijack addr rm))"
| connect: "remote_step rm (snd (ensure_connected addr rm))"
| connected: "remote_step rm (handshake_done addr c rm)"
| publish: "c \<in> set (rm_incoming rm) \<Longrightarrow> remote_step rm (publish_image_received c img rm)"
| watch: "remote_step rm (add_watch p c rm)"
| requests: "remote_step rm (update_conn (\<lambda>cn. cn\<lparr>cn_registry := r cn\<rparr>) c rm)"
| received: "remote_step rm (received_image_sent img p source rm)"
| aborted: "remote_step rm (notify_aborted_image img p reason rm)"
| dropped: "remote_step rm (token_drop now c rm)"

definition remote_init :: "'a remote \<Rightarrow> bool" where
  "remote_init rm \<longleftrightarrow> (\<exists>host mid. rm = remote_new host mid)"

interpretation connections: invariant_system remote_init remote_step remote_inv
proof
  show "remote_inv rm" if "remote_init rm" for rm :: "'a remote"
    using that by (auto simp: remote_init_def remote_new_def remote_inv_def declared_list_def entry_list_def)
  show "remote_inv rm'" if inv: "remote_inv rm" and step: "remote_step rm rm'" for rm rm' :: "'a remote"
    using step inv
    by cases (auto simp: handshake_done_def dispatcher_new_def add_watch_def received_image_sent_def
        notify_aborted_image_def remote_inv_update remote_inv_notify remote_inv_hijack remote_inv_connect
        remote_inv_publish remote_inv_drop)
qed

section \<open>Properties\<close>


lemma notify_where_conns:
  assumes "distinct (rm_incoming rm)"
  shows "rm_conns (notify_where P n rm) c =
    map_option (\<lambda>cn. if c \<in> set (rm_incoming rm) \<and> P cn then send_wrap (NotificationWrap n) cn else cn) (rm_conns rm c)"
proof -
  have "rm_conns (fold (\<lambda>c. update_conn (\<lambda>cn. if P cn then send_wrap (NotificationWrap n) cn else cn) c) cs r) c =
      map_option (\<lambda>cn. if c \<in> set cs \<and> P cn then send_wrap (NotificationWrap n) cn else cn) (rm_conns r c)"
    if "distinct cs" for cs and r :: "'a remote"
    using that
    by (induction cs arbitrary: r) (auto simp: option.map_comp option.map_ident comp_def intro!: map_option_cong)
  then show ?thesis using assms by (simp add: notify_where_def)
qed

text \<open>
  Who is told about a received image. In every reachable state, the notification goes exactly once
  to each open connection that announced the image or watches the path, to nobody else, and nothing
  else about any connection changes; it names the peer that has the image, or this machine.
\<close>

theorem received_image_delivery:
  assumes "reachable remote_init remote_step rm"
  shows "rm_conns (received_image_sent img p source rm) c =
    map_option (\<lambda>cn. if c \<in> set (rm_incoming rm) \<and> (has_image cn img \<or> has_watch cn p)
      then cn\<lparr>cn_sent := cn_sent cn @ [NotificationWrap (ReceivedImage
        \<lparr>ri_id = img, ri_path = p,
         ri_machine_id = (case source of Some x \<Rightarrow> peer_id x | None \<Rightarrow> rm_machine_id rm),
         ri_hostname = (case source of Some x \<Rightarrow> peer_hostname x | None \<Rightarrow> rm_hostname rm),
         ri_forwarded = (source \<noteq> None)\<rparr>)]\<rparr> else cn) (rm_conns rm c)"
proof -
  have d: "distinct (rm_incoming rm)" using connections.reachable_inv [OF assms] by (simp add: remote_inv_def)
  show ?thesis unfolding received_image_sent_def notify_where_conns [OF d] send_wrap_def ..
qed

text \<open>A client that connected, watches a path and announced an image.\<close>

definition demo_remote :: "nat remote" where
  "demo_remote = publish_image_received 0 (Other [1]) (add_watch (VPath ''k'' [''a'']) 0
     (snd (hijack 7 (remote_new ''h'' (MachineId [9])))))"

lemma demo_remote_reachable: "reachable remote_init remote_step demo_remote"
proof -
  let ?r0 = "remote_new ''h'' (MachineId [9]) :: nat remote"
  have "reachable remote_init remote_step ?r0" by (rule reach_init) (auto simp: remote_init_def)
  then have "reachable remote_init remote_step (snd (hijack 7 ?r0))" by (rule reach_step) (rule accept)
  then have "reachable remote_init remote_step (add_watch (VPath ''k'' [''a'']) 0 (snd (hijack 7 ?r0)))"
    by (rule reach_step) (rule watch)
  then show ?thesis unfolding demo_remote_def
    by (rule reach_step) (rule publish, simp add: hijack_def new_connection_def register_connection_def
        remote_new_def dispatcher_new_def add_watch_def)
qed

lemma demo_remote_state: "rm_incoming demo_remote = [0]" "published demo_remote 0 (Other [1])"
  "\<exists>cn. rm_conns demo_remote 0 = Some cn \<and> has_image cn (Other [1])"
  by (simp_all add: demo_remote_def publish_image_received_def hijack_def new_connection_def register_connection_def
      remote_new_def dispatcher_new_def add_watch_def published_def connection_new_def has_image_def Let_def)


theorem received_image_delivery_witness:
  "\<exists>cn. rm_conns (received_image_sent (Other [1]) (VPath ''z'' []) None demo_remote) 0 = Some cn \<and> cn_sent cn \<noteq> []"
  using received_image_delivery [OF demo_remote_reachable, of "Other [1]" "VPath ''z'' []" None 0] demo_remote_state
  by auto

text \<open>
  An announcement over an outgoing connection is never taken back. The dispatcher accepts a
  \<^verbatim>\<open>PublishImage\<close> on every connection, but closing a connection only withdraws the images of incoming ones:
  after connecting out, receiving an announcement and closing, the image still has a source, and that source
  is the closed connection.
\<close>

theorem outgoing_announcement_leaks:
  "let rm0 = remote_new host mid;
       (c, rm1) = ensure_connected addr rm0;
       rm2 = token_drop now c (publish_image_received c img (handshake_done addr c rm1))
   in rm_incoming rm2 = [] \<and> rm_outgoing rm2 addr = None \<and>
      has_image_source img rm2 \<and> get_incoming_connection_for_image img rm2 = Some c"
  by (simp add: remote_new_def ensure_connected_def new_connection_def handshake_done_def dispatcher_new_def
      publish_image_received_def token_drop_def connection_new_def hanging_requests_def registry_new_def
      map_entry_update_def has_image_source_def get_incoming_connection_for_image_def update_conn_def
      split: prod.splits)

end
