(* ===== verification/Peers.thy ===== *)
theory Peers
  imports Config_Map Mask Remote "HOL-Library.AList" "HOL-Library.List_Lexorder"
begin

text \<open>
  What a daemon knows of its peers (\<^verbatim>\<open>src/daemon/peers/mod.rs\<close>), with the packets of the gossip
  protocol (\<^verbatim>\<open>peers/packets.rs\<close>) and the data kept per host. Hash maps that are iterated are
  association lists; a set of machines is iterated in the order of machine ids.
\<close>

instantiation machine_id :: linorder
begin

definition less_eq_machine_id :: "machine_id \<Rightarrow> machine_id \<Rightarrow> bool" where
  "x \<le> y \<longleftrightarrow> machine_bytes x \<le> machine_bytes y"

definition less_machine_id :: "machine_id \<Rightarrow> machine_id \<Rightarrow> bool" where
  "x < y \<longleftrightarrow> machine_bytes x < machine_bytes y"

instance
proof
  fix x y :: machine_id
  assume "x \<le> y" "y \<le> x"
  then show "x = y" by (cases x; cases y) (auto simp: less_eq_machine_id_def)
qed (auto simp: less_eq_machine_id_def less_machine_id_def)

end

section \<open>Packets\<close>

datatype gossip_message =
    BaseDirs (bd_in_progress: "(vpath \<times> image_id \<times> mask \<times> bool \<times> bool) list") (bd_watching: "vpath list")
      (bd_complete: "(vpath \<times> image_id) list") (bd_deleted: "(vpath \<times> image_id) list")
      (bd_base_dirs: "(vpath \<times> hash) list")
  | Downloading vpath image_id mask bool "machine_id list"
  | Reconcile vpath hash "(vpath \<times> machine_id list) list"
  | Complete vpath image_id
  | CompleteAck vpath
  | ConfigSync "vpath list"

record packet =
  pk_machine_id :: machine_id
  pk_your_config :: "hash option"
  pk_message :: gossip_message

section \<open>Hosts\<close>

record host_downloading =
  hd_image :: image_id
  hd_mask :: mask
  hd_source :: bool
  hd_stalled :: bool

record host_data =
  ho_downloading :: "(vpath \<times> host_downloading) list"
  ho_complete :: "(vpath \<times> image_id) list"
  ho_watching :: "vpath list"
  ho_deleted :: "(vpath \<times> image_id) list"

definition host_data_new :: host_data where
  "host_data_new = \<lparr>ho_downloading = [], ho_complete = [], ho_watching = [], ho_deleted = []\<rparr>"

record 'a peers =
  pe_by_host :: "(machine_id \<times> host_data) list"
  pe_configs :: config_map
  pe_peers :: "(machine_id \<times> 'a peer) list"
  pe_messages :: "gossip_message list"

definition peers_new :: "'a peers" where
  "peers_new = \<lparr>pe_by_host = [], pe_configs = config_map_new, pe_peers = [], pe_messages = []\<rparr>"

definition send_message :: "gossip_message \<Rightarrow> 'a peers \<Rightarrow> 'a peers" where
  "send_message msg pe = pe\<lparr>pe_messages := pe_messages pe @ [msg]\<rparr>"

definition notify_progress :: "vpath \<Rightarrow> image_id \<Rightarrow> mask \<Rightarrow> bool \<Rightarrow> 'a peers \<Rightarrow> 'a peers" where
  "notify_progress p img m source = send_message (Downloading p img m source [])"

definition notify_basedir :: "vpath \<Rightarrow> hash \<Rightarrow> 'a peers \<Rightarrow> 'a peers" where
  "notify_basedir p h = send_message (Reconcile p h [])"

definition notify_complete :: "vpath \<Rightarrow> image_id \<Rightarrow> 'a peers \<Rightarrow> 'a peers" where
  "notify_complete p img = send_message (Complete p img)"

section \<open>Queries\<close>

definition known_addr :: "'a peers \<Rightarrow> machine_id \<Rightarrow> 'a list" where
  "known_addr pe mid = (case map_of (pe_peers pe) mid of None \<Rightarrow> [] | Some p \<Rightarrow> [peer_addr p])"

definition host_addrs_by_mask ::
  "'a peers \<Rightarrow> vpath \<Rightarrow> image_id \<Rightarrow> mask \<Rightarrow> machine_id \<times> host_data \<Rightarrow> 'a list" where
  "host_addrs_by_mask pe v targ_id targ_mask mh =
     (case mh of (mid, host) \<Rightarrow>
        (if map_of (ho_complete host) v = Some targ_id then known_addr pe mid else []) @
        (case map_of (ho_downloading host) v of
            None \<Rightarrow> []
          | Some dw \<Rightarrow> if hd_image dw = targ_id \<and> is_superset_of (hd_mask dw) targ_mask then known_addr pe mid else []))"

definition addrs_by_mask :: "'a peers \<Rightarrow> vpath \<Rightarrow> image_id \<Rightarrow> mask \<Rightarrow> 'a list" where
  "addrs_by_mask pe v targ_id targ_mask = concat (map (host_addrs_by_mask pe v targ_id targ_mask) (pe_by_host pe))"

definition dir_machines :: "'a peers \<Rightarrow> vpath \<Rightarrow> machine_id list" where
  "dir_machines pe v =
     (case by_dir (vp_key_vpath v) (pe_configs pe) of None \<Rightarrow> [] | Some ids \<Rightarrow> sorted_list_of_set ids)"

definition addrs_by_basedir :: "'a peers \<Rightarrow> vpath \<Rightarrow> 'a list" where
  "addrs_by_basedir pe v =
     List.map_filter (\<lambda>i. map_option peer_addr (map_of (pe_peers pe) i)) (dir_machines pe v)"

definition servers_by_basedir :: "'a peers \<Rightarrow> vpath \<Rightarrow> machine_id \<rightharpoonup> string" where
  "servers_by_basedir pe v =
     map_of (List.map_filter (\<lambda>i. map_option (\<lambda>x. (i, peer_name x)) (map_of (pe_peers pe) i)) (dir_machines pe v))"

definition get_all_watching :: "'a peers \<Rightarrow> vpath list" where
  "get_all_watching pe =
     remdups (concat (map (\<lambda>(mid, host). map fst (ho_downloading host) @ ho_watching host) (pe_by_host pe)))"

text \<open>The five counters of \<^verbatim>\<open>check_stalled\<close>.\<close>

record stall_counts =
  sc_stalled :: nat
  sc_deleted :: nat
  sc_sources :: nat
  sc_possibly_okay :: nat
  sc_wrong_image :: nat

definition count_peer ::
  "'a peers \<Rightarrow> vpath \<Rightarrow> image_id \<Rightarrow> machine_id \<Rightarrow> stall_counts \<Rightarrow> stall_counts" where
  "count_peer pe p img pid n =
     (case map_of (pe_by_host pe) pid of
        None \<Rightarrow> n\<lparr>sc_possibly_okay := Suc (sc_possibly_okay n)\<rparr>
      | Some host \<Rightarrow>
          (case map_of (ho_downloading host) p of
             Some dir \<Rightarrow>
               if hd_image dir = img
               then (let n1 = (if hd_stalled dir then n\<lparr>sc_stalled := Suc (sc_stalled n)\<rparr>
                               else n\<lparr>sc_possibly_okay := Suc (sc_possibly_okay n)\<rparr>)
                     in if hd_source dir then n1\<lparr>sc_sources := Suc (sc_sources n1)\<rparr> else n1)
               else n\<lparr>sc_wrong_image := Suc (sc_wrong_image n)\<rparr>
           | None \<Rightarrow>
               if (p, img) \<in> set (ho_deleted host) then n\<lparr>sc_deleted := Suc (sc_deleted n)\<rparr>
               else n\<lparr>sc_possibly_okay := Suc (sc_possibly_okay n)\<rparr>))"

definition check_stalled :: "'a peers \<Rightarrow> vpath \<Rightarrow> image_id \<Rightarrow> bool" where
  "check_stalled pe p img =
     (let needed = dir_machines pe p;
          n = fold (count_peer pe p img) needed \<lparr>sc_stalled = 0, sc_deleted = 0, sc_sources = 0,
                sc_possibly_okay = 0, sc_wrong_image = 0\<rparr>
      in sc_stalled n + sc_deleted n \<ge> length needed \<and> sc_possibly_okay n = 0 \<and> sc_sources n = 0)"

section \<open>When a download is stalled everywhere\<close>

definition peer_gave_up :: "'a peers \<Rightarrow> vpath \<Rightarrow> image_id \<Rightarrow> machine_id \<Rightarrow> bool" where
  "peer_gave_up pe p img pid \<longleftrightarrow> (\<exists>host. map_of (pe_by_host pe) pid = Some host \<and>
     (case map_of (ho_downloading host) p of
        Some dir \<Rightarrow> hd_image dir = img \<and> hd_stalled dir \<and> \<not> hd_source dir
      | None \<Rightarrow> (p, img) \<in> set (ho_deleted host)))"

lemma fold_count_peer:
  fixes n :: stall_counts
  defines "gone \<equiv> \<lambda>m :: stall_counts. sc_stalled m + sc_deleted m"
  assumes r: "r = fold (count_peer pe p img) ids n"
  shows "gone r \<le> gone n + length ids \<and> sc_possibly_okay n \<le> sc_possibly_okay r \<and> sc_sources n \<le> sc_sources r \<and>
    (gone r = gone n + length ids \<and> sc_possibly_okay r = sc_possibly_okay n \<and> sc_sources r = sc_sources n \<longleftrightarrow>
      (\<forall>i \<in> set ids. peer_gave_up pe p img i))"
  using r
proof (induction ids arbitrary: n)
  case (Cons i ids)
  let ?m = "count_peer pe p img i n"
  have one: "gone ?m \<le> Suc (gone n) \<and> sc_possibly_okay n \<le> sc_possibly_okay ?m \<and> sc_sources n \<le> sc_sources ?m \<and>
    (gone ?m = Suc (gone n) \<and> sc_possibly_okay ?m = sc_possibly_okay n \<and> sc_sources ?m = sc_sources n \<longleftrightarrow>
      peer_gave_up pe p img i)"
    by (auto simp: count_peer_def peer_gave_up_def gone_def Let_def split: option.splits)
  from Cons.IH [of ?m] Cons.prems one show ?case by auto
qed (simp add: gone_def)

text \<open>
  When a download counts as stalled in the whole cluster: exactly when every machine that has the
  directory configured either reports the download of this image as stalled without being a source, or
  does not download the path and reports the image as deleted; a machine we know nothing about, or one that
  downloads another image, keeps the download alive.
\<close>

theorem check_stalled_iff:
  "check_stalled pe p img \<longleftrightarrow> list_all (peer_gave_up pe p img) (dir_machines pe p)"
proof -
  define z where "z = \<lparr>sc_stalled = 0, sc_deleted = 0, sc_sources = 0, sc_possibly_okay = 0, sc_wrong_image = 0\<rparr>"
  define r where "r = fold (count_peer pe p img) (dir_machines pe p) z"
  have zero: "sc_stalled z = 0" "sc_deleted z = 0" "sc_sources z = 0" "sc_possibly_okay z = 0" by (simp_all add: z_def)
  have "check_stalled pe p img \<longleftrightarrow>
      sc_stalled r + sc_deleted r \<ge> length (dir_machines pe p) \<and> sc_possibly_okay r = 0 \<and> sc_sources r = 0"
    by (simp add: check_stalled_def Let_def r_def z_def)
  with fold_count_peer [OF r_def] zero show ?thesis by (auto simp: list_all_iff)
qed

text \<open>
  Which peers are asked for a part of an image: an address is offered exactly when some known peer has it
  and that host reported the image as complete at the path, or reported downloading that image
  there with every slice of the wanted mask fetched.
\<close>

lemma addrs_by_mask_iff:
  "a \<in> set (addrs_by_mask pe v img m) \<longleftrightarrow>
     list_ex (\<lambda>(mid, host). map_option peer_addr (map_of (pe_peers pe) mid) = Some a \<and>
       (map_of (ho_complete host) v = Some img \<or>
        (case map_of (ho_downloading host) v of None \<Rightarrow> False
         | Some dw \<Rightarrow> hd_image dw = img \<and> mask_set m \<subseteq> mask_set (hd_mask dw)))) (pe_by_host pe)"
proof -
  have "a \<in> set (host_addrs_by_mask pe v img m mh) \<longleftrightarrow> (case mh of (mid, host) \<Rightarrow>
      map_option peer_addr (map_of (pe_peers pe) mid) = Some a \<and>
       (map_of (ho_complete host) v = Some img \<or>
        (case map_of (ho_downloading host) v of None \<Rightarrow> False
         | Some dw \<Rightarrow> hd_image dw = img \<and> mask_set m \<subseteq> mask_set (hd_mask dw))))" for mh
    by (cases mh; cases "map_of (pe_peers pe) (fst mh)"; cases "map_of (ho_downloading (snd mh)) v")
      (auto simp: host_addrs_by_mask_def is_superset_of_iff known_addr_def)
  then show ?thesis by (auto simp: addrs_by_mask_def list_ex_iff)
qed

end
