(* ===== verification/Base_Dir.thy ===== *)
theory Base_Dir
  imports Cleanup Failure_Tracker Proto "HOL-Library.Char_ord" "HOL-Library.AList"
begin

text \<open>
  A base directory, the unit of reconciliation (\<^verbatim>\<open>src/daemon/tracking/base_dir.rs\<close>): its hash, the
  hashes of others that it is known to contain, and the scan that computes what it announces.
  Instants may be subtracted from freely, so a cut-off is written with the retention added on the other side.
  A \<^verbatim>\<open>BTreeMap\<close> is the sorted list of its entries.
\<close>

definition RETAIN_TIME :: nat where
  "RETAIN_TIME = 300000 * 1000000"

record base_dir =
  bdir_path :: vpath
  bdir_config :: directory
  bdir_hash :: hash
  bdir_last_scan :: instant
  bdir_num_subdirs :: nat
  bdir_num_downloading :: u64
  bdir_recon_table :: "hash \<rightharpoonup> instant"

text \<open>Atomic counters wrap around.\<close>

definition incr_downloading :: "base_dir \<Rightarrow> base_dir" where
  "incr_downloading b = b\<lparr>bdir_num_downloading := bdir_num_downloading b + 1\<rparr>"

definition decr_downloading :: "base_dir \<Rightarrow> base_dir" where
  "decr_downloading b = b\<lparr>bdir_num_downloading := bdir_num_downloading b - 1\<rparr>"

definition bdir_is_superset_of :: "instant \<Rightarrow> hash \<Rightarrow> base_dir \<Rightarrow> bool" where
  "bdir_is_superset_of now h b \<longleftrightarrow> bdir_hash b = h \<or>
     (case bdir_recon_table b h of Some time \<Rightarrow> time + RETAIN_TIME > now | None \<Rightarrow> False)"

definition add_parent_hash :: "instant \<Rightarrow> hash \<Rightarrow> base_dir \<Rightarrow> base_dir" where
  "add_parent_hash now h b = b\<lparr>bdir_recon_table := (bdir_recon_table b)(h \<mapsto> now)\<rparr>"

definition clean_parent_hashes :: "instant \<Rightarrow> base_dir \<Rightarrow> base_dir" where
  "clean_parent_hashes now b =
     b\<lparr>bdir_recon_table := map_retain (\<lambda>h x. x + RETAIN_TIME \<ge> now) (bdir_recon_table b)\<rparr>"

record base_dir_state =
  bs_path :: vpath
  bs_config_hash :: hash
  bs_keep_list_hash :: hash
  bs_dirs :: "(string \<times> state) list"

section \<open>Scanning\<close>

text \<open>A relative path is the list of its names.\<close>

type_synonym rel_path = "string list"

text \<open>\<^verbatim>\<open>file_name().expect\<close>: an empty path has none.\<close>

fun short_names :: "(rel_path \<times> state) list \<Rightarrow> ((string \<times> state) list, unit) result" where
  "short_names [] = Ok []"
| "short_names ((x, st) # rest) =
     (if x = [] then Panic else bind_result (short_names rest) (\<lambda>r. Ok ((last x, st) # r)))"

definition short_list :: "(rel_path \<times> state) list \<Rightarrow> ((string \<times> state) list, unit) result" where
  "short_list input = bind_result (short_names input) (\<lambda>r. Ok (sort_key fst r))"

fun strip_prefix :: "rel_path \<Rightarrow> rel_path \<Rightarrow> rel_path option" where
  "strip_prefix [] p = Some p"
| "strip_prefix (a # as) [] = None"
| "strip_prefix (a # as) (b # bs) = (if a = b then strip_prefix as bs else None)"

text \<open>The names of the keep list below the directory; a deeper path fails the assertion.\<close>

fun keep_names :: "rel_path \<Rightarrow> rel_path list \<Rightarrow> (string list, unit) result" where
  "keep_names suffix [] = Ok []"
| "keep_names suffix (p # ps) =
     bind_result (keep_names suffix ps) (\<lambda>r.
       case strip_prefix suffix p of
         None \<Rightarrow> Ok r
       | Some [] \<Rightarrow> Ok ('''' # r)
       | Some [name] \<Rightarrow> Ok (name # r)
       | Some _ \<Rightarrow> Panic)"

text \<open>
  \<^verbatim>\<open>scan\<close>, with the directories and the keep list as read from the metadata and the disk. The
  hashes of the configuration, of a keep list and of a list of directories are parameters.
\<close>

record hashes =
  hf_config :: "remote_config \<Rightarrow> hash"
  hf_names :: "string list \<Rightarrow> hash"
  hf_dirs :: "(string \<times> state) list \<Rightarrow> hash"

definition dir_images :: "vpath \<Rightarrow> (string \<times> state) list \<Rightarrow> (rel_path \<times> state) list" where
  "dir_images path dirs = map (\<lambda>(name, st). (vp_suffix path @ [name], st)) dirs"

definition scan_result ::
  "hashes \<Rightarrow> system_time \<Rightarrow> vpath \<Rightarrow> directory \<Rightarrow> (string \<times> state) list \<Rightarrow> rel_path list \<Rightarrow>
     (base_dir_state, unit) result" where
  "scan_result hf now path cfg dirs keep_list =
     bind_result (short_list (if auto_clean cfg then so_used (sort_out cfg now (dir_images path dirs) keep_list)
                              else dir_images path dirs)) (\<lambda>ds.
     bind_result (keep_names (vp_suffix path) keep_list) (\<lambda>kl.
     bind_result (get_hash (hf_config hf) cfg) (\<lambda>ch.
       Ok \<lparr>bs_path = path, bs_config_hash = ch,
           bs_keep_list_hash = hf_names hf (sort (remdups kl)), bs_dirs = ds\<rparr>)))"

section \<open>What a scan announces\<close>

lemma short_names_images:
  "\<forall>(x, st) \<in> set xs. \<exists>n. x = s @ [n] \<Longrightarrow>
     short_names xs = Ok (map (\<lambda>(x, st). (last x, st)) xs)"
  by (induction xs) auto

lemma dir_images_names: "\<forall>(x, st) \<in> set (dir_images path dirs). \<exists>n. x = vp_suffix path @ [n]"
  by (auto simp: dir_images_def)

lemma map_last_dir_images: "map (\<lambda>(x, st). (last x, st)) (dir_images path dirs) = dirs"
  by (induction dirs) (auto simp: dir_images_def)

lemma sort_key_sorted: "sorted (map f xs) \<Longrightarrow> sort_key f xs = xs"
  by (rule sort_key_id_if_sorted)

text \<open>
  What a directory announces to its peers: the scan never fails on the names it read; without automatic
  cleanup it announces exactly the directories that were read; with it, it announces a subset of them that contains
  every directory of the keep list and at least \<^verbatim>\<open>keep_min_directories\<close> of them (or all), and never lists a
  directory twice.
\<close>

theorem scan_announces:
  assumes "sorted (map fst dirs)" "distinct (map fst dirs)"
    and "keep_names (vp_suffix path) keep_list = Ok kl" "get_hash (hf_config hf) cfg = Ok ch"
  shows "\<exists>bs. scan_result hf now path cfg dirs keep_list = Ok bs \<and> sorted (map fst (bs_dirs bs)) \<and>
    mset (bs_dirs bs) \<subseteq># mset dirs \<and> (\<not> auto_clean cfg \<longrightarrow> bs_dirs bs = dirs) \<and>
    length (bs_dirs bs) \<ge> min (keep_min_directories cfg) (length dirs) \<and>
    (\<forall>(n, st) \<in> set dirs. vp_suffix path @ [n] \<in> set keep_list \<longrightarrow> (n, st) \<in> set (bs_dirs bs))"
proof -
  let ?im = "dir_images path dirs"
  define sel where "sel = (if auto_clean cfg then so_used (sort_out cfg now ?im keep_list) else ?im)"
  let ?g = "\<lambda>(x :: rel_path, st :: state). (last x, st)"
  have sub: "mset sel \<subseteq># mset ?im"
    using sort_out_mset [of cfg now ?im keep_list] by (auto simp: sel_def dest: sym intro: mset_subset_eq_add_left)
  then have "set sel \<subseteq> set ?im" by (metis set_mset_mono set_mset_mset)
  then have names: "short_names sel = Ok (map ?g sel)"
    using dir_images_names by (intro short_names_images [where s = "vp_suffix path"]) blast
  have "mset (map ?g sel) \<subseteq># mset (map ?g ?im)" using image_mset_subseteq_mono [OF sub, of ?g] by simp
  then have subset: "mset (map ?g sel) \<subseteq># mset dirs" by (simp only: map_last_dir_images)
  have len: "length sel \<ge> min (keep_min_directories cfg) (length dirs)"
    using sort_out_guarantee [of cfg now ?im keep_list] by (auto simp: sel_def dir_images_def)
  have keep: "(n, st) \<in> set (map ?g sel)" if n: "(n, st) \<in> set dirs" "vp_suffix path @ [n] \<in> set keep_list" for n st
  proof -
    have im: "(vp_suffix path @ [n], st) \<in> set ?im" using n(1) by (force simp: dir_images_def)
    have "(vp_suffix path @ [n], st) \<in> set sel"
    proof (cases "auto_clean cfg")
      case True
      have "(vp_suffix path @ [n], st) \<notin> set (so_unused (sort_out cfg now ?im keep_list))"
        using sort_out_guarantee [of cfg now ?im keep_list] n(2) by force
      moreover have "(vp_suffix path @ [n], st) \<in># mset (so_used (sort_out cfg now ?im keep_list)) +
          mset (so_unused (sort_out cfg now ?im keep_list))"
        using im sort_out_mset [of cfg now ?im keep_list] by simp
      ultimately show ?thesis using True by (simp add: sel_def)
    qed (simp add: sel_def im)
    then show ?thesis by force
  qed
  have "\<not> auto_clean cfg \<longrightarrow> sort_key fst (map ?g sel) = dirs"
    using assms(1) by (simp add: sel_def map_last_dir_images sort_key_sorted)
  then show ?thesis
    using names subset len keep assms(3,4)
    by (auto simp: scan_result_def short_list_def sel_def [symmetric])
qed

definition demo_base :: directory where
  "demo_base = \<lparr>directory_path = ''/d'', append_only = True, num_levels = 1, upload_keys = [],
     download_keys = [], auto_clean = True, keep_list_file = None, keep_min_directories = 1,
     keep_max_directories = 2, keep_recent = 5\<rparr>"

theorem scan_announces_witness:
  "\<exists>bs. scan_result \<lparr>hf_config = (\<lambda>_. Hash [1]), hf_names = (\<lambda>_. Hash [2]), hf_dirs = (\<lambda>_. Hash [3])\<rparr> 100
     (VPath ''k'' []) demo_base [(''a'', \<lparr>st_image = Other [1], st_signatures = []\<rparr>)] [[''a'']] = Ok bs \<and>
     length (bs_dirs bs) \<ge> 1"
  using scan_announces [of "[(''a'', \<lparr>st_image = Other [1], st_signatures = []\<rparr>)]" "VPath ''k'' []" "[[''a'']]" "[''a'']"
      "\<lparr>hf_config = (\<lambda>_. Hash [1]), hf_names = (\<lambda>_. Hash [2]), hf_dirs = (\<lambda>_. Hash [3])\<rparr>" demo_base "Hash [1]" 100]
  by (auto simp: get_hash_def remote_config_of_def duration_serialize_def duration_ms_def as_secs_def subsec_nanos_def Let_def demo_base_def)

end
