(* ===== verification/Reconciliation.thy ===== *)
theory Reconciliation
  imports Base_Dir "HOL-Library.Option_ord"
begin

text \<open>
  Reconciling a base directory with a peer's (\<^verbatim>\<open>src/daemon/tracking/reconciliation.rs\<close>): finding a host that still has the
  announced state, and deciding which images to append or replace. Starting the downloads is
  in \<open>Tracking\<close>. A hash set is the list of its elements in the order of iteration.
\<close>

definition RECONCILE_BASEDIR_THROTTLE :: nat where
  "RECONCILE_BASEDIR_THROTTLE = 3"

section \<open>Finding a host\<close>

lemma removeAll_shrinks:
  assumes "removeAll a hs = x # xs"
  shows "length (removeAll b xs) < length hs"
proof -
  have "length (removeAll b xs) \<le> length xs" by (rule length_removeAll_less_eq)
  moreover have "Suc (length xs) \<le> length hs" using length_removeAll_less_eq [of a hs] assms by simp
  ultimately show ?thesis by linarith
qed

datatype dir_reply = DirReply base_dir_response | Terminated | RequestFailed

text \<open>
  The loop over the hosts that announced the hash. \<open>ask\<close> sends the request and has a state of its
  own; a connection that ends unexpectedly is tried three times. The hosts that are left are
  returned with the reply.
\<close>

function find_dir ::
  "((string \<times> state) list \<Rightarrow> hash) \<Rightarrow> ('e \<Rightarrow> 'a \<Rightarrow> dir_reply \<times> 'e) \<Rightarrow> hash \<Rightarrow> ('a \<times> machine_id) list \<Rightarrow>
     'a \<times> machine_id \<times> nat \<Rightarrow> 'e \<Rightarrow> ('a \<times> base_dir_response) option \<times> ('a \<times> machine_id) list \<times> 'e" where
  "find_dir for_dirs ask hsh hosts (addr, mid, n) e =
     (let (reply, e') = ask e addr;
          left = removeAll (addr, mid) hosts;
          next_host = (case left of
              [] \<Rightarrow> (None, left, e')
            | (addr', mid') # rest \<Rightarrow>
                find_dir for_dirs ask hsh (removeAll (addr', mid') rest) (addr', mid', 0) e')
      in case reply of
           DirReply dir \<Rightarrow> if for_dirs (bdr_dirs dir) = hsh then (Some (addr, dir), hosts, e') else next_host
         | Terminated \<Rightarrow> if n < 2 then find_dir for_dirs ask hsh hosts (addr, mid, Suc n) e' else next_host
         | RequestFailed \<Rightarrow> next_host)"
  by pat_completeness auto
termination
proof (relation "measure (\<lambda>(f, ask, h, hosts, (addr, mid, n), e). 4 * length hosts + (3 - n))", goal_cases)
  case (2 for_dirs ask hsh hosts addr mid n e x reply e' left y ys addr' mid')
  then have "removeAll (addr, mid) hosts = y # ys" by simp
  from removeAll_shrinks [OF this, of "(addr', mid')"] show ?case by simp
qed auto

declare find_dir.simps [simp del]

section \<open>Which images to take\<close>

definition older_signature :: "state \<Rightarrow> signature_entry \<Rightarrow> bool" where
  "older_signature old sig \<longleftrightarrow> \<not> list_ex (\<lambda>s. timestamp s \<ge> timestamp sig) (st_signatures old)"

text \<open>
  The images that would be here after taking what the peer has. \<open>deleted\<close> says which images were
  recently deleted here; joining a name that is not a plain relative path is a panic.
\<close>

fun possible_dirs ::
  "vpath \<Rightarrow> (vpath \<Rightarrow> image_id \<Rightarrow> bool) \<Rightarrow> (string \<times> state) list \<Rightarrow> (string \<times> state) list \<Rightarrow>
     (rel_path \<times> state) list \<Rightarrow> ((rel_path \<times> state) list, unit) result" where
  "possible_dirs path deleted local [] acc = Ok acc"
| "possible_dirs path deleted local ((name, rstate) # rest) acc =
     bind_result (expect (vp_join path name)) (\<lambda>v.
       let take = AList.update (vp_suffix v) rstate acc in
       if deleted v (st_image rstate) then possible_dirs path deleted local rest acc
       else (case st_signatures rstate of
          [] \<Rightarrow> possible_dirs path deleted local rest acc
        | sig # _ \<Rightarrow>
            (case map_of local name of
               Some old \<Rightarrow>
                 if st_image old = st_image rstate \<or> \<not> older_signature old sig
                 then possible_dirs path deleted local rest acc
                 else possible_dirs path deleted local rest take
             | None \<Rightarrow> possible_dirs path deleted local rest take)))"

definition max_timestamp :: "state \<Rightarrow> system_time option" where
  "max_timestamp st =
     (case map timestamp (st_signatures st) of [] \<Rightarrow> None | t # ts \<Rightarrow> Some (fold max ts t))"

datatype recon_action =
    ReconAppend vpath image_id signature_entry
  | ReconReplace vpath image_id image_id signature_entry

text \<open>
  The loop that starts downloads, newest first; \<open>cnt\<close> is the number of downloads in the directory.
  The flag says whether the whole list was gone through.
\<close>

fun plan_actions ::
  "vpath \<Rightarrow> rel_path set \<Rightarrow> (string \<times> state) list \<Rightarrow> (string \<times> state) list \<Rightarrow> nat \<Rightarrow>
     (recon_action list \<times> bool, unit) result" where
  "plan_actions path kept [] local cnt = Ok ([], True)"
| "plan_actions path kept ((name, rstate) # rest) local cnt =
     bind_result (expect (vp_join path name)) (\<lambda>v.
       if vp_suffix v \<notin> kept then plan_actions path kept rest local cnt
       else (case st_signatures rstate of
          [] \<Rightarrow> plan_actions path kept rest local cnt
        | sig # _ \<Rightarrow>
            (case map_of local name of
               Some old \<Rightarrow>
                 (let local' = AList.delete name local in
                  if st_image old = st_image rstate \<or> \<not> older_signature old sig
                  then plan_actions path kept rest local' cnt
                  else if cnt \<ge> RECONCILE_BASEDIR_THROTTLE then Ok ([], False)
                  else bind_result (plan_actions path kept rest local' (Suc cnt)) (\<lambda>(acts, full).
                    Ok (ReconReplace v (st_image rstate) (st_image old) sig # acts, full)))
             | None \<Rightarrow>
                 if cnt \<ge> RECONCILE_BASEDIR_THROTTLE then Ok ([], False)
                 else bind_result (plan_actions path kept rest local (Suc cnt)) (\<lambda>(acts, full).
                   Ok (ReconAppend v (st_image rstate) sig # acts, full)))))"

definition reconcile_plan ::
  "directory \<Rightarrow> system_time \<Rightarrow> vpath \<Rightarrow> (vpath \<Rightarrow> image_id \<Rightarrow> bool) \<Rightarrow> rel_path list \<Rightarrow> nat \<Rightarrow>
     (string \<times> state) list \<Rightarrow> (string \<times> state) list \<Rightarrow> (recon_action list \<times> bool, unit) result" where
  "reconcile_plan cfg now path deleted keep_list cnt local remote =
     bind_result (possible_dirs path deleted local remote (dir_images path local)) (\<lambda>possible.
       let sel = (if auto_clean cfg then so_used (sort_out cfg now possible keep_list) else possible)
       in plan_actions path (fst ` set sel) (rev (sort_key (\<lambda>(_, r). max_timestamp r) remote)) local cnt)"

section \<open>What the search returns\<close>

text \<open>
  A peer's state is only used when it is the announced one: the directories that the search
  over the hosts returns have the announced hash, and come from the first host or from one that
  announced the hash.
\<close>

lemma find_dir_sound:
  assumes "find_dir for_dirs ask hsh hosts (addr, mid, n) e = (Some (a, dir), left, e')"
  shows "for_dirs (bdr_dirs dir) = hsh \<and> (a = addr \<or> a \<in> fst ` set hosts) \<and> set left \<subseteq> set hosts"
  using assms
proof (induction for_dirs ask hsh hosts "(addr, mid, n)" e arbitrary: addr mid n rule: find_dir.induct)
  case (1 for_dirs ask hsh hosts addr mid n e)
  obtain reply e1 where reply: "ask e addr = (reply, e1)" by fastforce
  let ?left = "removeAll (addr, mid) hosts"
  define next_host where "next_host = (case ?left of [] \<Rightarrow> (None, ?left, e1)
    | (addr', mid') # rest \<Rightarrow> find_dir for_dirs ask hsh (removeAll (addr', mid') rest) (addr', mid', 0) e1)"
  have step: "find_dir for_dirs ask hsh hosts (addr, mid, n) e = (case reply of
      DirReply d \<Rightarrow> if for_dirs (bdr_dirs d) = hsh then (Some (addr, d), hosts, e1) else next_host
    | Terminated \<Rightarrow> if n < 2 then find_dir for_dirs ask hsh hosts (addr, mid, Suc n) e1 else next_host
    | RequestFailed \<Rightarrow> next_host)"
    by (subst find_dir.simps) (cases reply; simp add: reply next_host_def Let_def)
  have more: "for_dirs (bdr_dirs dir) = hsh \<and> (a = addr \<or> a \<in> fst ` set hosts) \<and> set left \<subseteq> set hosts"
    if nh: "next_host = (Some (a, dir), left, e')"
  proof -
    obtain addr' mid' rest where l: "?left = (addr', mid') # rest"
      using nh by (cases ?left) (auto simp: next_host_def)
    have sub: "set ((addr', mid') # rest) \<subseteq> set hosts" unfolding l [symmetric] by auto
    have "find_dir for_dirs ask hsh (removeAll (addr', mid') rest) (addr', mid', 0) e1 = (Some (a, dir), left, e')"
      using nh by (simp add: next_host_def l)
    from "1.hyps"(1) [OF reply [symmetric] refl refl l refl this] sub show ?thesis by force
  qed
  show ?case
  proof (cases reply)
    case (DirReply d)
    then show ?thesis using "1.prems" step more by (auto split: if_splits)
  next
    case Terminated
    then show ?thesis using "1.prems" step more "1.hyps"(2) [OF reply [symmetric] refl refl refl Terminated]
      by (auto split: if_splits)
  next
    case RequestFailed
    then show ?thesis using "1.prems" step more by simp
  qed
qed


section \<open>The plan\<close>

text \<open>The action for one directory of the peer, without the limit.\<close>

definition wanted ::
  "vpath \<Rightarrow> rel_path set \<Rightarrow> (string \<times> state) list \<Rightarrow> string \<times> state \<Rightarrow> recon_action option" where
  "wanted path kept local nr =
     (case (vp_join path (fst nr), st_signatures (snd nr)) of
        (Some v, sig # _) \<Rightarrow>
          if vp_suffix v \<notin> kept then None
          else (case map_of local (fst nr) of
              None \<Rightarrow> Some (ReconAppend v (st_image (snd nr)) sig)
            | Some old \<Rightarrow>
                if st_image old = st_image (snd nr) \<or> \<not> older_signature old sig then None
                else Some (ReconReplace v (st_image (snd nr)) (st_image old) sig))
      | _ \<Rightarrow> None)"

lemma wanted_delete: "fst nr \<noteq> name \<Longrightarrow> wanted path kept (AList.delete name local) nr = wanted path kept local nr"
  by (auto simp: wanted_def delete_conv' split: option.splits list.splits)

lemma map_filter_wanted_delete:
  "name \<notin> fst ` set rs \<Longrightarrow>
     List.map_filter (wanted path kept (AList.delete name local)) rs = List.map_filter (wanted path kept local) rs"
  by (induction rs) (auto simp: map_filter_simps wanted_delete split: option.splits)

lemma plan_actions_spec:
  assumes "\<forall>(n, r) \<in> set rs. vp_join path n \<noteq> None" "distinct (map fst rs)"
  shows "plan_actions path kept rs local cnt =
    (let acts = List.map_filter (wanted path kept local) rs; k = RECONCILE_BASEDIR_THROTTLE - cnt
     in Ok (take k acts, length acts \<le> k))"
  using assms
proof (induction rs arbitrary: local cnt)
  case (Cons nr rs)
  obtain name r where nr: "nr = (name, r)" by fastforce
  obtain v where v: "vp_join path name = Some v" using Cons.prems(1) nr by auto
  have fresh: "name \<notin> fst ` set rs" using Cons.prems(2) nr by auto
  note IH = Cons.IH [unfolded Let_def] and del = map_filter_wanted_delete [OF fresh, of path kept]
  have throttle: "RECONCILE_BASEDIR_THROTTLE - cnt = Suc (RECONCILE_BASEDIR_THROTTLE - Suc cnt)"
    if "\<not> RECONCILE_BASEDIR_THROTTLE \<le> cnt" using that by simp
  show ?case
    using Cons.prems
    by (auto simp: nr v wanted_def [of path kept local "(name, r)"] map_filter_simps IH del Let_def throttle
        split: list.splits option.splits)
qed (simp add: map_filter_simps)

lemma possible_dirs_keys:
  assumes "\<forall>(n, r) \<in> set rs. name_ok n"
  shows "\<exists>p. possible_dirs path deleted local rs acc = Ok p \<and>
    fst ` set p \<subseteq> fst ` set acc \<union> {vp_suffix (vp_child path n) | n r. (n, r) \<in> set rs \<and>
      \<not> deleted (vp_child path n) (st_image r)}"
  using assms
proof (induction rs arbitrary: acc)
  case (Cons nr rs)
  obtain name r where nr: "nr = (name, r)" by fastforce
  let ?take = "AList.update (vp_suffix (vp_child path name)) r acc"
  define K where "K rs = {vp_suffix (vp_child path n) | n r. (n, r) \<in> set rs \<and> \<not> deleted (vp_child path n) (st_image r)}"
    for rs :: "(string \<times> state) list"
  have join: "vp_join path name = Some (vp_child path name)" using Cons.prems nr by (simp add: vp_join_name)
  obtain p q where p: "possible_dirs path deleted local rs acc = Ok p" "fst ` set p \<subseteq> fst ` set acc \<union> K rs"
    and q: "possible_dirs path deleted local rs ?take = Ok q" "fst ` set q \<subseteq> fst ` set ?take \<union> K rs"
    using Cons.IH [of acc] Cons.IH [of ?take] Cons.prems unfolding K_def by auto
  have "possible_dirs path deleted local (nr # rs) acc = Ok p \<or>
      \<not> deleted (vp_child path name) (st_image r) \<and> possible_dirs path deleted local (nr # rs) acc = Ok q"
    by (auto simp: nr join p q Let_def split: list.splits option.splits)
  moreover have "fst ` set ?take = insert (vp_suffix (vp_child path name)) (fst ` set acc)" by (simp add: dom_update)
  moreover have mono: "K rs \<subseteq> K (nr # rs)" by (auto simp: K_def)
  moreover have here: "vp_suffix (vp_child path name) \<in> K (nr # rs)" if "\<not> deleted (vp_child path name) (st_image r)"
    using that nr by (auto simp: K_def)
  moreover have "fst ` set p \<subseteq> fst ` set acc \<union> K (nr # rs)" using p(2) mono by (meson Un_mono order_refl order_trans)
  moreover have "fst ` set q \<subseteq> fst ` set acc \<union> K (nr # rs)" if "\<not> deleted (vp_child path name) (st_image r)"
  proof -
    have "fst ` set ?take \<subseteq> fst ` set acc \<union> K (nr # rs)" using here [OF that] by (simp add: dom_update)
    then show ?thesis using q(2) mono by (meson Un_least Un_upper2 order_trans)
  qed
  ultimately show ?case unfolding K_def [symmetric] by metis
qed auto

lemma vp_child_suffix: "vp_suffix (vp_child p n) = vp_suffix p @ [n]"
  by (simp add: vp_child_def)

lemma reconcile_plan_eq:
  assumes "\<forall>(n, r) \<in> set remote. name_ok n" "distinct (map fst remote)"
  shows "\<exists>possible. possible_dirs path deleted local remote (dir_images path local) = Ok possible \<and>
    fst ` set possible \<subseteq> fst ` set (dir_images path local) \<union> {vp_suffix (vp_child path n) | n r. (n, r) \<in> set remote \<and>
      \<not> deleted (vp_child path n) (st_image r)} \<and>
    reconcile_plan cfg now path deleted keep_list cnt local remote =
      (let kept = fst ` set (if auto_clean cfg then so_used (sort_out cfg now possible keep_list) else possible);
           acts = List.map_filter (wanted path kept local) (rev (sort_key (\<lambda>(_, r). max_timestamp r) remote));
           k = RECONCILE_BASEDIR_THROTTLE - cnt
       in Ok (take k acts, length acts \<le> k))"
proof -
  obtain p where p: "possible_dirs path deleted local remote (dir_images path local) = Ok p"
    "fst ` set p \<subseteq> fst ` set (dir_images path local) \<union> {vp_suffix (vp_child path n) | n r. (n, r) \<in> set remote \<and>
      \<not> deleted (vp_child path n) (st_image r)}"
    using possible_dirs_keys [OF assms(1), of path deleted local "dir_images path local"] by blast
  let ?rs = "rev (sort_key (\<lambda>(_, r). max_timestamp r) remote)"
  have "\<forall>(n, r) \<in> set ?rs. vp_join path n \<noteq> None" using assms(1) by (auto simp: vp_join_name)
  moreover have "distinct (map fst ?rs)"
    using assms(2) by (simp add: rev_map [symmetric] distinct_map)
  ultimately show ?thesis using p plan_actions_spec by (auto simp: reconcile_plan_def Let_def)
qed


lemma so_used_subset: "set (so_used (sort_out cfg now its kl)) \<subseteq> set its"
proof -
  have "mset (so_used (sort_out cfg now its kl)) \<subseteq># mset its"
    by (metis mset_subset_eq_add_left sort_out_mset)
  then show ?thesis by (metis set_mset_mono set_mset_mset)
qed

lemma wanted_SomeD:
  assumes "wanted path kept local (n, r) = Some a" "name_ok n"
  shows "\<exists>sig rest. st_signatures r = sig # rest \<and> vp_suffix (vp_child path n) \<in> kept \<and>
    (case map_of local n of
       None \<Rightarrow> a = ReconAppend (vp_child path n) (st_image r) sig
     | Some old \<Rightarrow> a = ReconReplace (vp_child path n) (st_image r) (st_image old) sig \<and>
         st_image old \<noteq> st_image r \<and> list_all (\<lambda>s. timestamp s < timestamp sig) (st_signatures old))"
  using assms
  by (auto simp: wanted_def vp_join_name older_signature_def list_ex_iff list_all_iff
      split: list.splits option.splits if_splits)

text \<open>
  What reconciliation may do. Every action of a plan is for a directory the peer listed, with the image and
  the first signature it listed; an existing directory is only replaced by another image whose
  signature is later than every signature we have; a new one is only added when that image was not recently
  deleted here; and no plan brings the downloads in a directory above three.
\<close>

theorem reconcile_actions_justified:
  assumes "\<forall>(n, r) \<in> set remote. name_ok n" "distinct (map fst remote)"
    and "reconcile_plan cfg now path deleted keep_list cnt local remote = Ok (acts, full)" "a \<in> set acts"
  shows "cnt + length acts \<le> 3 \<and> (\<exists>n r sig rest. (n, r) \<in> set remote \<and> st_signatures r = sig # rest \<and>
    (case map_of local n of
       None \<Rightarrow> a = ReconAppend (vp_child path n) (st_image r) sig \<and> \<not> deleted (vp_child path n) (st_image r)
     | Some old \<Rightarrow> a = ReconReplace (vp_child path n) (st_image r) (st_image old) sig \<and>
         st_image old \<noteq> st_image r \<and> list_all (\<lambda>s. timestamp s < timestamp sig) (st_signatures old)))"
proof -
  obtain p where p: "fst ` set p \<subseteq> fst ` set (dir_images path local) \<union> {vp_suffix (vp_child path n) | n r. (n, r) \<in> set remote \<and>
      \<not> deleted (vp_child path n) (st_image r)}"
    and plan: "reconcile_plan cfg now path deleted keep_list cnt local remote =
      (let kept = fst ` set (if auto_clean cfg then so_used (sort_out cfg now p keep_list) else p);
           acts = List.map_filter (wanted path kept local) (rev (sort_key (\<lambda>(_, r). max_timestamp r) remote));
           k = RECONCILE_BASEDIR_THROTTLE - cnt
       in Ok (take k acts, length acts \<le> k))"
    using reconcile_plan_eq [OF assms(1,2), of path deleted local cfg now keep_list cnt] by blast
  define kept where "kept = fst ` set (if auto_clean cfg then so_used (sort_out cfg now p keep_list) else p)"
  define all_acts where "all_acts = List.map_filter (wanted path kept local) (rev (sort_key (\<lambda>(_, r). max_timestamp r) remote))"
  have acts: "acts = take (3 - cnt) all_acts"
    using plan assms(3) by (simp add: Let_def kept_def all_acts_def RECONCILE_BASEDIR_THROTTLE_def)
  then have "a \<in> set all_acts" using assms(4) by (metis in_set_takeD)
  then obtain n r where nr: "(n, r) \<in> set remote" "wanted path kept local (n, r) = Some a"
    by (auto simp: all_acts_def map_filter_def)
  have ok: "name_ok n" using nr(1) assms(1) by auto
  have "kept \<subseteq> fst ` set p" using so_used_subset [of cfg now p keep_list] by (auto simp: kept_def)
  have undeleted: "\<not> deleted (vp_child path n) (st_image r)"
    if none: "map_of local n = None" and k: "vp_suffix (vp_child path n) \<in> kept"
  proof -
    have "vp_suffix (vp_child path n) \<notin> fst ` set (dir_images path local)"
      using none by (auto simp: dir_images_def vp_child_suffix map_of_eq_None_iff image_iff)
    moreover have "vp_suffix (vp_child path n) \<in> fst ` set p" using k \<open>kept \<subseteq> fst ` set p\<close> by (rule rev_subsetD)
    ultimately have "vp_suffix (vp_child path n) \<in> {vp_suffix (vp_child path n) | n r. (n, r) \<in> set remote \<and>
      \<not> deleted (vp_child path n) (st_image r)}" using p by (meson UnE subsetD)
    then obtain n' r' where "vp_suffix (vp_child path n') = vp_suffix (vp_child path n)" "(n', r') \<in> set remote"
      "\<not> deleted (vp_child path n') (st_image r')" by fastforce
    then show ?thesis
      using nr(1) assms(2) by (auto simp: vp_child_suffix dest: eq_key_imp_eq_value)
  qed
  have "length acts > 0" using assms(4) by auto
  then have "cnt + length acts \<le> 3" unfolding acts length_take by linarith
  moreover obtain sig rest where "st_signatures r = sig # rest" "vp_suffix (vp_child path n) \<in> kept"
    "case map_of local n of
       None \<Rightarrow> a = ReconAppend (vp_child path n) (st_image r) sig
     | Some old \<Rightarrow> a = ReconReplace (vp_child path n) (st_image r) (st_image old) sig \<and>
         st_image old \<noteq> st_image r \<and> list_all (\<lambda>s. timestamp s < timestamp sig) (st_signatures old)"
    using wanted_SomeD [OF nr(2) ok] by blast
  ultimately show ?thesis using nr(1) undeleted
    by (intro conjI exI [of _ n] exI [of _ r] exI [of _ sig] exI [of _ rest]) (auto split: option.splits)
qed

text \<open>
  The guard against taking back a deleted image does not cover replacements. A directory with an older
  image here and a newer one at the peer is replaced even when that newer image was recently deleted here (an aborted
  replacement records it as such), although the same list of directories leaves the newer image out of
  the images that could be here.
\<close>

theorem replace_ignores_deletion:
  assumes "name_ok n" and old: "st_image old \<noteq> st_image r" "st_signatures r = [sig]"
    "st_signatures old = [osig]" "timestamp osig < timestamp sig" and "\<not> auto_clean cfg"
  shows "possible_dirs path (\<lambda>v img. True) [(n, old)] [(n, r)] (dir_images path [(n, old)]) = Ok (dir_images path [(n, old)]) \<and>
    reconcile_plan cfg now path (\<lambda>v img. True) keep_list 0 [(n, old)] [(n, r)] =
      Ok ([ReconReplace (vp_child path n) (st_image r) (st_image old) sig], True)"
  using assms
  by (simp add: reconcile_plan_def vp_join_name dir_images_def vp_child_suffix older_signature_def
      RECONCILE_BASEDIR_THROTTLE_def)

subsection \<open>A concrete directory\<close>

definition demo_peer_state :: "image_id \<Rightarrow> system_time \<Rightarrow> state" where
  "demo_peer_state img ts = \<lparr>st_image = img, st_signatures = [SignatureEntry ts (SshEd25519 [])]\<rparr>"

lemma demo_peer_state_simps [simp]:
  "st_image (demo_peer_state img ts) = img" "st_signatures (demo_peer_state img ts) = [SignatureEntry ts (SshEd25519 [])]"
  by (simp_all add: demo_peer_state_def)

theorem replace_ignores_deletion_witness:
  "reconcile_plan (demo_base\<lparr>auto_clean := False\<rparr>) 0 (VPath ''k'' []) (\<lambda>v img. True) [] 0
     [(''a'', demo_peer_state (Other [1]) 5)] [(''a'', demo_peer_state (Other [2]) 6)] =
   Ok ([ReconReplace (VPath ''k'' [''a'']) (Other [2]) (Other [1]) (SignatureEntry 6 (SshEd25519 []))], True)"
  using replace_ignores_deletion [of "''a''" "demo_peer_state (Other [1]) 5" "demo_peer_state (Other [2]) 6"
      "SignatureEntry 6 (SshEd25519 [])" "SignatureEntry 5 (SshEd25519 [])" "demo_base\<lparr>auto_clean := False\<rparr>"
      "VPath ''k'' []" 0 "[]"]
  by (simp add: name_ok_def vp_child_def)


theorem reconcile_actions_justified_witness:
  "3 \<le> 2 + length [ReconReplace (VPath ''k'' [''a'']) (Other [2]) (Other [1]) (SignatureEntry 6 (SshEd25519 []))] \<and>
   2 + length [ReconReplace (VPath ''k'' [''a'']) (Other [2]) (Other [1]) (SignatureEntry 6 (SshEd25519 []))] \<le> (3 :: nat)"
proof -
  have "reconcile_plan (demo_base\<lparr>auto_clean := False\<rparr>) 0 (VPath ''k'' []) (\<lambda>v img. False) [] 2
     [(''a'', demo_peer_state (Other [1]) 5)] [(''a'', demo_peer_state (Other [2]) 6)] =
     Ok ([ReconReplace (VPath ''k'' [''a'']) (Other [2]) (Other [1]) (SignatureEntry 6 (SshEd25519 []))], True)"
    by (simp add: reconcile_plan_def vp_join_name name_ok_def dir_images_def vp_child_def older_signature_def
        RECONCILE_BASEDIR_THROTTLE_def AList.update.simps)
  from reconcile_actions_justified [OF _ _ this] show ?thesis by (simp add: name_ok_def)
qed

theorem find_dir_sound_witness:
  "\<exists>a dir. find_dir (\<lambda>_. Hash [1]) (\<lambda>e a. (DirReply \<lparr>bdr_config_hash = Hash [], bdr_keep_list_hash = Hash [], bdr_dirs = []\<rparr>, e))
      (Hash [1]) [] (7 :: nat, MachineId [1], 0) () = (Some (a, dir), [], ()) \<and> a = 7"
proof -
  let ?d = "\<lparr>bdr_config_hash = Hash [], bdr_keep_list_hash = Hash [], bdr_dirs = []\<rparr>"
  have r: "find_dir (\<lambda>_. Hash [1]) (\<lambda>e a. (DirReply ?d, e)) (Hash [1]) [] (7 :: nat, MachineId [1], 0) () = (Some (7, ?d), [], ())"
    by (simp add: find_dir.simps)
  from find_dir_sound [OF r] r show ?thesis by blast
qed


end
