(* ===== verification/Tracking.thy ===== *)
theory Tracking
  imports Progress Peers Reconciliation
begin

text \<open>
  The tracking subsystem (\<^verbatim>\<open>src/daemon/tracking/mod.rs\<close> with \<^verbatim>\<open>BaseDir::commit_scan\<close>, the steps of
  \<^verbatim>\<open>fetch_dir.rs\<close> and the end of \<^verbatim>\<open>reconciliation.rs\<close>): which images are being downloaded, which
  base directories exist, what is being reconciled and watched. Its channels are queues of the
  state; the remote and peers subsystems it calls are parts of the state. Clocks and random choices are arguments.
\<close>

definition DELETED_RETENTION :: nat where "DELETED_RETENTION = 300000 * 1000000"
definition AVOID_DOWNLOAD :: nat where "AVOID_DOWNLOAD = 120000 * 1000000"
definition RECENT_RETENTION :: nat where "RECENT_RETENTION = 300000 * 1000000"
definition DEFAULT_INDEX_GC :: int where "DEFAULT_INDEX_GC = 86400 * 1000000000"
definition DISABLE_INDEX_GC_IF_DOWNLOADING :: nat where "DISABLE_INDEX_GC_IF_DOWNLOADING = 5"
definition EARLY_INDEX_GC_IF_DELETED :: nat where "EARLY_INDEX_GC_IF_DELETED = 100"
definition RECONCILE_MAX_DOWNLOADING :: nat where "RECONCILE_MAX_DOWNLOADING = 20"

section \<open>State\<close>

datatype watched_status = Absent | Checking | CompleteStatus image_id

record 'a recon_push =
  rp_path :: vpath
  rp_hash :: hash
  rp_initial_addr :: 'a
  rp_initial_machine_id :: machine_id

datatype 'a command = FetchDir "'a downloading" | ReconcileCmd "'a recon_push"

datatype cleanup_command = CleanBase vpath | CleanIndexGc | CleanReschedule

text \<open>
  A \<^verbatim>\<open>BaseDir\<close> is shared between the table and the list, which therefore holds its path. The number of
  deletions is not bounded: its 64 bits are never used up.
\<close>

record 'a tracking =
  tr_config :: config
  tr_in_progress :: "(vpath \<times> 'a downloading) list"
  tr_recently_deleted :: "vpath \<times> image_id \<rightharpoonup> instant"
  tr_deleted_since_index_gc :: nat
  tr_last_index_gc :: system_time
  tr_base_dirs :: "(vpath \<times> base_dir) list"
  tr_base_dir_list :: "vpath list"
  tr_reconciling :: "vpath \<times> hash \<rightharpoonup> ('a \<times> machine_id) list"
  tr_recently_received :: "vpath \<rightharpoonup> ('a \<rightharpoonup> instant)"
  tr_watched :: "(vpath \<times> watched_status) list"
  tr_commands :: "'a command list"
  tr_rescans :: "(vpath \<times> instant \<times> bool) list"
  tr_cleanups :: "cleanup_command list"
  tr_dry_cleanup :: bool
  tr_remote :: "'a remote"
  tr_peers :: "'a peers"

text \<open>\<open>gc\<close> is the random time since the last index collection that a new daemon starts with.\<close>

definition tracking_new :: "config \<Rightarrow> system_time \<Rightarrow> int \<Rightarrow> 'a remote \<Rightarrow> 'a peers \<Rightarrow> 'a tracking" where
  "tracking_new cfg now gc rm pe = \<lparr>tr_config = cfg, tr_in_progress = [], tr_recently_deleted = Map.empty,
     tr_deleted_since_index_gc = 0, tr_last_index_gc = now - gc, tr_base_dirs = [], tr_base_dir_list = [],
     tr_reconciling = Map.empty, tr_recently_received = Map.empty, tr_watched = [], tr_commands = [],
     tr_rescans = [], tr_cleanups = [], tr_dry_cleanup = True, tr_remote = rm, tr_peers = pe\<rparr>"

definition with_peers :: "('a peers \<Rightarrow> 'a peers) \<Rightarrow> 'a tracking \<Rightarrow> 'a tracking" where
  "with_peers f tr = tr\<lparr>tr_peers := f (tr_peers tr)\<rparr>"

definition with_remote :: "('a remote \<Rightarrow> 'a remote) \<Rightarrow> 'a tracking \<Rightarrow> 'a tracking" where
  "with_remote f tr = tr\<lparr>tr_remote := f (tr_remote tr)\<rparr>"

definition send_command :: "'a command \<Rightarrow> 'a tracking \<Rightarrow> 'a tracking" where
  "send_command c tr = tr\<lparr>tr_commands := tr_commands tr @ [c]\<rparr>"

definition rescan_dir :: "instant \<Rightarrow> vpath \<Rightarrow> 'a tracking \<Rightarrow> 'a tracking" where
  "rescan_dir now p tr = tr\<lparr>tr_rescans := tr_rescans tr @ [(p, now, False)]\<rparr>"

definition scan_dir_first :: "instant \<Rightarrow> vpath \<Rightarrow> 'a tracking \<Rightarrow> 'a tracking" where
  "scan_dir_first now p tr = tr\<lparr>tr_rescans := tr_rescans tr @ [(p, now, True)]\<rparr>"

text \<open>\<^verbatim>\<open>matches_basedir\<close> asserts that the path has a level.\<close>

fun count_in_basedir :: "vpath \<Rightarrow> vpath list \<Rightarrow> (nat, unit) result" where
  "count_in_basedir p [] = Ok 0"
| "count_in_basedir p (item # rest) =
     bind_result (expect (vp_matches_basedir item p)) (\<lambda>m.
     bind_result (count_in_basedir p rest) (\<lambda>n. Ok (if m then Suc n else n)))"

definition downloading_in_basedir :: "vpath \<Rightarrow> 'a tracking \<Rightarrow> (nat, unit) result" where
  "downloading_in_basedir p tr = count_in_basedir p (map fst (tr_in_progress tr))"

section \<open>Requests to the subsystem\<close>

definition reconcile_dir ::
  "instant \<Rightarrow> vpath \<Rightarrow> hash \<Rightarrow> 'a \<Rightarrow> machine_id \<Rightarrow> 'a tracking \<Rightarrow> ('a tracking, unit) result" where
  "reconcile_dir now p h addr mid tr =
     (if cf_dirs (tr_config tr) (vp_key p) = None then Ok tr
      else if length (tr_in_progress tr) > RECONCILE_MAX_DOWNLOADING then Ok tr
      else if (case map_of (tr_base_dirs tr) p of Some b \<Rightarrow> \<not> bdir_is_superset_of now h b | None \<Rightarrow> True)
      then (case tr_reconciling tr (p, h) of
              Some hosts \<Rightarrow> Ok (tr\<lparr>tr_reconciling := (tr_reconciling tr)((p, h) \<mapsto> List.insert (addr, mid) hosts)\<rparr>)
            | None \<Rightarrow>
                bind_result (downloading_in_basedir p tr) (\<lambda>cur.
                if cur \<ge> RECONCILE_BASEDIR_THROTTLE then Ok tr
                else Ok (send_command
                       (ReconcileCmd \<lparr>rp_path = p, rp_hash = h, rp_initial_addr = addr, rp_initial_machine_id = mid\<rparr>)
                       (tr\<lparr>tr_reconciling := (tr_reconciling tr)((p, h) \<mapsto> [(addr, mid)])\<rparr>))))
      else Ok tr)"

definition downloading_new :: "vpath \<Rightarrow> image_id \<Rightarrow> bool \<Rightarrow> directory \<Rightarrow> 'a downloading" where
  "downloading_new p img replace cfg = \<lparr>dw_virtual_path = p, dw_replacing = replace, dw_image_id = img,
     dw_config = cfg, dw_slices = [], dw_mask = 0, dw_index_fetched = False, dw_bytes_total = 0,
     dw_bytes_fetched = 0, dw_blocks_total = 0, dw_blocks_fetched = 0, dw_stalled = False\<rparr>"

definition fetch_dir :: "vpath \<Rightarrow> image_id \<Rightarrow> bool \<Rightarrow> 'a tracking \<Rightarrow> ('a tracking, unit) result" where
  "fetch_dir p img replace tr =
     bind_result (expect (cf_dirs (tr_config tr) (vp_key p))) (\<lambda>cfg.
       Ok (send_command (FetchDir (downloading_new p img replace cfg)) tr))"

fun check_watched :: "vpath list \<Rightarrow> 'a tracking \<Rightarrow> 'a tracking" where
  "check_watched [] tr = tr"
| "check_watched (p # ps) tr =
     check_watched ps
       (if map_of (tr_watched tr) p = None \<and> map_of (tr_in_progress tr) p = None \<and>
           is_valid_destination (tr_config tr) p
        then tr\<lparr>tr_watched := AList.update p Checking (tr_watched tr)\<rparr> else tr)"

text \<open>The entry of a slice that the random generator picks.\<close>

definition choose_one :: "(nat \<Rightarrow> nat) \<Rightarrow> 'x list \<Rightarrow> 'x option" where
  "choose_one rnd xs = (if xs = [] then None else Some (xs ! (rnd (length xs) mod length xs)))"

definition pick_random_dir :: "(nat \<Rightarrow> nat) \<Rightarrow> 'a tracking \<Rightarrow> (vpath \<times> hash) option" where
  "pick_random_dir rnd tr =
     (case choose_one rnd (tr_base_dir_list tr) of
        None \<Rightarrow> None
      | Some p \<Rightarrow> map_option (\<lambda>b. (p, bdir_hash b)) (map_of (tr_base_dirs tr) p))"

record short_progress =
  sp_image_id :: image_id
  sp_mask :: mask
  sp_stalled :: bool
  sp_source :: bool

definition get_in_progress :: "'a tracking \<Rightarrow> (vpath \<times> short_progress) list" where
  "get_in_progress tr = map (\<lambda>(_, d). (dw_virtual_path d,
     \<lparr>sp_image_id = dw_image_id d, sp_mask = atomic_get (dw_mask d), sp_stalled = dw_stalled d,
      sp_source = has_image_source (dw_image_id d) (tr_remote tr)\<rparr>)) (tr_in_progress tr)"

definition get_watching :: "'a tracking \<Rightarrow> vpath list" where
  "get_watching tr = remote_get_watching (tr_remote tr)"

section \<open>Watched paths\<close>

datatype image_check = CheckPending | CheckFound image_id | CheckNotFound | CheckError

text \<open>\<^verbatim>\<open>check\<close> is what polling the lookup of a path gives; an error drops the entry.\<close>

fun poll_watched_list ::
  "(vpath \<Rightarrow> image_check) \<Rightarrow> (vpath \<times> watched_status) list \<Rightarrow> 'a peers \<Rightarrow> (vpath \<times> watched_status) list \<times> 'a peers" where
  "poll_watched_list check [] pe = ([], pe)"
| "poll_watched_list check ((p, Checking) # rest) pe =
     (case check p of
        CheckPending \<Rightarrow> (case poll_watched_list check rest pe of (ws, pe') \<Rightarrow> ((p, Checking) # ws, pe'))
      | CheckFound i \<Rightarrow>
          (case poll_watched_list check rest (notify_complete p i pe) of (ws, pe') \<Rightarrow> ((p, CompleteStatus i) # ws, pe'))
      | CheckNotFound \<Rightarrow> (case poll_watched_list check rest pe of (ws, pe') \<Rightarrow> ((p, Absent) # ws, pe'))
      | CheckError \<Rightarrow> poll_watched_list check rest pe)"
| "poll_watched_list check (w # rest) pe =
     (case poll_watched_list check rest pe of (ws, pe') \<Rightarrow> (w # ws, pe'))"

definition poll_watched :: "(vpath \<Rightarrow> image_check) \<Rightarrow> 'a tracking \<Rightarrow> 'a tracking" where
  "poll_watched check tr =
     (case poll_watched_list check (tr_watched tr) (tr_peers tr) of
        (ws, pe) \<Rightarrow> tr\<lparr>tr_watched := ws, tr_peers := pe\<rparr>)"

fun complete_entries :: "(vpath \<times> watched_status) list \<Rightarrow> (vpath \<times> image_id) list" where
  "complete_entries [] = []"
| "complete_entries ((p, CompleteStatus i) # rest) = (p, i) # complete_entries rest"
| "complete_entries (_ # rest) = complete_entries rest"

definition get_complete :: "(vpath \<Rightarrow> image_check) \<Rightarrow> 'a tracking \<Rightarrow> (vpath \<times> image_id) list \<times> 'a tracking" where
  "get_complete check tr = (let tr' = poll_watched check tr in (complete_entries (tr_watched tr'), tr'))"

section \<open>Where to fetch from\<close>

definition pick_from ::
  "instant \<Rightarrow> (nat \<Rightarrow> nat) \<Rightarrow> 'a failures \<Rightarrow> 'a list \<Rightarrow> 'a tracking \<Rightarrow> (conn_id \<times> 'a tracking) option \<times> 'a option" where
  "pick_from now rnd fails items tr =
     (case split_connected now (tr_remote tr) (filter (can_try now fails) items) of
        (conn, not_conn) \<Rightarrow> (map_option (\<lambda>c. (c, tr)) (choose_one rnd conn), choose_one rnd not_conn))"

definition connect_to :: "'a \<Rightarrow> 'a tracking \<Rightarrow> conn_id \<times> 'a tracking" where
  "connect_to addr tr = (case ensure_connected addr (tr_remote tr) of (c, rm) \<Rightarrow> (c, tr\<lparr>tr_remote := rm\<rparr>))"

text \<open>\<open>received_order\<close> is the order in which the addresses of a hash map are gone through.\<close>

definition get_connection_by_mask ::
  "instant \<Rightarrow> (nat \<Rightarrow> nat) \<Rightarrow> (('a \<rightharpoonup> instant) \<Rightarrow> 'a list) \<Rightarrow> vpath \<Rightarrow> image_id \<Rightarrow> mask \<Rightarrow> 'a failures \<Rightarrow>
     'a tracking \<Rightarrow> (conn_id option \<times> 'a tracking, unit) result" where
  "get_connection_by_mask now rnd received_order v img m fails tr =
     (let found = (\<lambda>(c, tr'). Ok (Some c, tr'));
          by_mask = pick_from now rnd fails (addrs_by_mask (tr_peers tr) v img m) tr;
          received = (case tr_recently_received tr v of
              Some dict \<Rightarrow> pick_from now rnd fails (received_order dict) tr | None \<Rightarrow> (None, None));
          last_resort = bind_result (expect (vp_parent v)) (\<lambda>par.
            case pick_from now rnd fails (addrs_by_basedir (tr_peers tr) par) tr of
              (Some ct, _) \<Rightarrow> found ct
            | (None, Some addr) \<Rightarrow> found (connect_to addr tr)
            | (None, None) \<Rightarrow> Ok (None, tr))
      in case fst by_mask of
           Some ct \<Rightarrow> found ct
         | None \<Rightarrow>
             (case get_incoming_connection_for_image img (tr_remote tr) of
                Some c \<Rightarrow> Ok (Some c, tr)
              | None \<Rightarrow>
                  (case snd by_mask of
                     Some addr \<Rightarrow> found (connect_to addr tr)
                   | None \<Rightarrow>
                       (case received of
                          (Some ct, _) \<Rightarrow> found ct
                        | (None, Some addr) \<Rightarrow> found (connect_to addr tr)
                        | (None, None) \<Rightarrow> last_resort))))"

section \<open>Life of a download\<close>

text \<open>\<^verbatim>\<open>state.base_dirs.get(&parent).map(f)\<close> with interior mutability.\<close>

definition update_base_dir :: "(base_dir \<Rightarrow> base_dir) \<Rightarrow> vpath \<Rightarrow> 'a tracking \<Rightarrow> 'a tracking" where
  "update_base_dir f p tr =
     tr\<lparr>tr_base_dirs := map (\<lambda>(q, b). (q, if q = p then f b else b)) (tr_base_dirs tr)\<rparr>"

text \<open>The part of \<^verbatim>\<open>fetch_dir::start\<close> that runs at once.\<close>

definition fetch_dir_start :: "instant \<Rightarrow> 'a downloading \<Rightarrow> 'a tracking \<Rightarrow> ('a tracking, unit) result" where
  "fetch_dir_start now cmd tr =
     bind_result (expect (vp_parent (dw_virtual_path cmd))) (\<lambda>par.
       let tr1 = rescan_dir now par tr;
           tr2 = tr1\<lparr>tr_recently_deleted := (tr_recently_deleted tr1)((dw_virtual_path cmd, dw_image_id cmd) := None),
                     tr_in_progress := AList.update (dw_virtual_path cmd) cmd (tr_in_progress tr1)\<rparr>;
           tr3 = update_base_dir incr_downloading par tr2
       in Ok (with_peers (notify_progress (dw_virtual_path cmd) (dw_image_id cmd) (atomic_get (dw_mask cmd))
                (has_image_source (dw_image_id cmd) (tr_remote tr3))) tr3))"

definition tracking_dir_deleted :: "instant \<Rightarrow> vpath \<Rightarrow> image_id \<Rightarrow> 'a tracking \<Rightarrow> 'a tracking" where
  "tracking_dir_deleted now p img tr =
     tr\<lparr>tr_deleted_since_index_gc := Suc (tr_deleted_since_index_gc tr),
        tr_recently_deleted := (tr_recently_deleted tr)((p, img) \<mapsto> now)\<rparr>"

definition is_recently_deleted :: "instant \<Rightarrow> vpath \<Rightarrow> image_id \<Rightarrow> 'a tracking \<Rightarrow> bool" where
  "is_recently_deleted now p img tr =
     (case tr_recently_deleted tr (p, img) of Some ts \<Rightarrow> ts + AVOID_DOWNLOAD \<ge> now | None \<Rightarrow> False)"

definition tracking_dir_aborted ::
  "instant \<Rightarrow> 'a downloading \<Rightarrow> string \<Rightarrow> 'a tracking \<Rightarrow> ('a tracking, unit) result" where
  "tracking_dir_aborted now cmd reason tr =
     (let tr1 = tracking_dir_deleted now (dw_virtual_path cmd) (dw_image_id cmd) tr;
          tr2 = tr1\<lparr>tr_in_progress := AList.delete (dw_virtual_path cmd) (tr_in_progress tr1)\<rparr>
      in bind_result (expect (vp_parent (dw_virtual_path cmd))) (\<lambda>par.
           let tr3 = update_base_dir decr_downloading par tr2;
               tr4 = with_remote (notify_aborted_image (dw_image_id cmd) (dw_virtual_path cmd) reason) tr3
           in Ok (rescan_dir now par tr4)))"

definition tracking_dir_committed :: "instant \<Rightarrow> 'a downloading \<Rightarrow> 'a tracking \<Rightarrow> ('a tracking, unit) result" where
  "tracking_dir_committed now cmd tr =
     (let tr1 = tr\<lparr>tr_in_progress := AList.delete (dw_virtual_path cmd) (tr_in_progress tr),
                   tr_watched := AList.update (dw_virtual_path cmd) (CompleteStatus (dw_image_id cmd)) (tr_watched tr)\<rparr>
      in bind_result (expect (vp_parent (dw_virtual_path cmd))) (\<lambda>par.
           let tr2 = update_base_dir decr_downloading par tr1;
               tr3 = with_remote (notify_received_image (dw_image_id cmd) (dw_virtual_path cmd)) tr2;
               tr4 = with_peers (notify_complete (dw_virtual_path cmd) (dw_image_id cmd)) tr3
           in Ok (rescan_dir now par tr4)))"

section \<open>Base directories\<close>

fun count_children :: "vpath \<Rightarrow> vpath list \<Rightarrow> (nat, unit) result" where
  "count_children p [] = Ok 0"
| "count_children p (item # rest) =
     bind_result (expect (vp_parent item)) (\<lambda>q.
     bind_result (count_children p rest) (\<lambda>n. Ok (if q = p then Suc n else n)))"

definition commit_scan ::
  "hashes \<Rightarrow> instant \<Rightarrow> base_dir_state \<Rightarrow> directory \<Rightarrow> instant \<Rightarrow> 'a tracking \<Rightarrow> ('a tracking, unit) result" where
  "commit_scan hf now data cfg scan_time tr =
     (let hsh = hf_dirs hf (bs_dirs data); p = bs_path data in
      bind_result (count_children p (map fst (tr_in_progress tr))) (\<lambda>down.
        case map_of (tr_base_dirs tr) p of
          None \<Rightarrow>
            (let new = \<lparr>bdir_path = p, bdir_config = cfg, bdir_hash = hsh, bdir_last_scan = scan_time,
                        bdir_num_subdirs = length (bs_dirs data), bdir_num_downloading = word_of_nat down,
                        bdir_recon_table = Map.empty\<rparr>
             in Ok (with_peers (notify_basedir p hsh)
                  (tr\<lparr>tr_base_dir_list := tr_base_dir_list tr @ [p],
                      tr_base_dirs := AList.update p new (tr_base_dirs tr)\<rparr>)))
        | Some old \<Rightarrow>
            (let tr1 = update_base_dir (\<lambda>b. b\<lparr>bdir_last_scan := scan_time\<rparr>) p tr in
             if bdir_hash old = hsh then Ok tr1
             else Ok (with_peers (notify_basedir p hsh)
                    (update_base_dir (\<lambda>b. add_parent_hash now (bdir_hash old)
                       (b\<lparr>bdir_hash := hsh, bdir_num_subdirs := length (bs_dirs data)\<rparr>)) p tr1)))))"

text \<open>The start of the rescan loop: a scan that is older than the last one is skipped.\<close>

definition rescan_needed :: "vpath \<Rightarrow> instant \<Rightarrow> 'a tracking \<Rightarrow> (directory option, unit) result" where
  "rescan_needed p time tr =
     (if (case map_of (tr_base_dirs tr) p of Some b \<Rightarrow> bdir_last_scan b > time | None \<Rightarrow> False) then Ok None
      else bind_result (expect (cf_dirs (tr_config tr) (vp_key p))) (\<lambda>cfg. Ok (Some cfg)))"

section \<open>The end of a reconciliation\<close>

definition mark_received :: "instant \<Rightarrow> vpath \<times> hash \<Rightarrow> vpath \<Rightarrow> 'a tracking \<Rightarrow> 'a tracking" where
  "mark_received now pair v tr =
     (case tr_reconciling tr pair of
        None \<Rightarrow> tr
      | Some hosts \<Rightarrow> tr\<lparr>tr_recently_received := map_entry_update v Map.empty
          (\<lambda>dict. map_extend dict (map (\<lambda>(addr, _). (addr, now)) hosts)) (tr_recently_received tr)\<rparr>)"

definition reconcile_finish :: "instant \<Rightarrow> vpath \<times> hash \<Rightarrow> bool \<Rightarrow> 'a tracking \<Rightarrow> 'a tracking" where
  "reconcile_finish now pair full tr =
     (let tr1 = (if full then update_base_dir (add_parent_hash now (snd pair)) (fst pair) tr else tr)
      in tr1\<lparr>tr_reconciling := (tr_reconciling tr1)(pair := None)\<rparr>)"

section \<open>Periodic work\<close>

text \<open>What happens every fifteen seconds. Cut-offs are written with the retention on the other side.\<close>

definition retain_recent :: "instant \<Rightarrow> ('a \<rightharpoonup> instant) \<Rightarrow> ('a \<rightharpoonup> instant)" where
  "retain_recent now = map_retain (\<lambda>_ time. time + RECENT_RETENTION > now)"

definition housekeeping :: "instant \<Rightarrow> (vpath \<Rightarrow> image_check) \<Rightarrow> 'a tracking \<Rightarrow> 'a tracking" where
  "housekeeping now check tr =
     (let cluster_watching = get_all_watching (tr_peers tr) @ remote_get_watching (tr_remote tr);
          tr1 = tr\<lparr>tr_recently_received := (\<lambda>v. case tr_recently_received tr v of
                      None \<Rightarrow> None
                    | Some hosts \<Rightarrow> (let left = retain_recent now hosts in if left = Map.empty then None else Some left)),
                   tr_recently_deleted := map_retain (\<lambda>_ time. time + DELETED_RETENTION > now) (tr_recently_deleted tr)\<rparr>;
          tr2 = poll_watched check tr1;
          tr3 = tr2\<lparr>tr_watched := filter (\<lambda>(k, _). k \<in> set cluster_watching) (tr_watched tr2)\<rparr>
      in tr3\<lparr>tr_base_dirs := map (\<lambda>(q, b). (q, clean_parent_hashes now b)) (tr_base_dirs tr3)\<rparr>)"

definition should_run_index_gc :: "system_time \<Rightarrow> 'a tracking \<Rightarrow> bool" where
  "should_run_index_gc now tr \<longleftrightarrow> length (tr_in_progress tr) < DISABLE_INDEX_GC_IF_DOWNLOADING \<and>
     (tr_deleted_since_index_gc tr > EARLY_INDEX_GC_IF_DELETED \<or> tr_last_index_gc tr + DEFAULT_INDEX_GC < now)"

text \<open>The \<^verbatim>\<open>Reschedule\<close> command of the cleanup loop (\<^verbatim>\<open>tracking/cleanup.rs\<close>).\<close>

definition cleanup_reschedule :: "system_time \<Rightarrow> 'a tracking \<Rightarrow> 'a tracking" where
  "cleanup_reschedule now tr =
     (let tr1 = (if cf_aggressive_index_gc (tr_config tr) \<or> should_run_index_gc now tr
                 then tr\<lparr>tr_cleanups := tr_cleanups tr @ [CleanIndexGc], tr_deleted_since_index_gc := 0\<rparr> else tr);
          bases = map (\<lambda>(p, b). CleanBase p) (filter (\<lambda>(p, b). auto_clean (bdir_config b)) (tr_base_dirs tr1))
      in tr1\<lparr>tr_cleanups := tr_cleanups tr1 @ bases @ [CleanReschedule]\<rparr>)"

definition cleanup_index_gc_done :: "system_time \<Rightarrow> 'a tracking \<Rightarrow> 'a tracking" where
  "cleanup_index_gc_done now tr = tr\<lparr>tr_last_index_gc := now\<rparr>"

end
