(* ===== verification/Tracking_Invariant.thy ===== *)
theory Tracking_Invariant
  imports Tracking
begin

text \<open>
  The tables of the tracking subsystem stay consistent with each other: the counters of the base directories with
  the table of downloads, the list of base directories with their table, and the table of running
  reconciliations with the commands and tasks that will end them.
\<close>

section \<open>Steps\<close>

text \<open>
  The state with the reconciliations that were taken from the queue and have not ended. A download is
  started only for a path without one, which the table of uploads of the metadata store guarantees, and
  is ended only once; while it runs its progress changes.
\<close>

type_synonym 'a tracking_sys = "'a tracking \<times> (vpath \<times> hash) list"

definition queued :: "'a command list \<Rightarrow> (vpath \<times> hash) list" where
  "queued cs = List.map_filter (\<lambda>c. case c of ReconcileCmd rp \<Rightarrow> Some (rp_path rp, rp_hash rp) | FetchDir _ \<Rightarrow> None) cs"

inductive tracking_step :: "'a tracking_sys \<Rightarrow> 'a tracking_sys \<Rightarrow> bool" where
  announce: "reconcile_dir now p h addr mid tr = Ok tr' \<Longrightarrow> tracking_step (tr, run) (tr', run)"
| request: "fetch_dir p img replace tr = Ok tr' \<Longrightarrow> tracking_step (tr, run) (tr', run)"
| take_fetch: "tr_commands tr = FetchDir d # cs \<Longrightarrow> map_of (tr_in_progress tr) (dw_virtual_path d) = None \<Longrightarrow>
    fetch_dir_start now d (tr\<lparr>tr_commands := cs\<rparr>) = Ok tr' \<Longrightarrow> tracking_step (tr, run) (tr', run)"
| take_reconcile: "tr_commands tr = ReconcileCmd rp # cs \<Longrightarrow>
    tracking_step (tr, run) (tr\<lparr>tr_commands := cs\<rparr>, (rp_path rp, rp_hash rp) # run)"
| mark: "pair \<in> set run \<Longrightarrow> tracking_step (tr, run) (mark_received now pair v tr, run)"
| finish: "pair \<in> set run \<Longrightarrow> tracking_step (tr, run) (reconcile_finish now pair full tr, removeAll pair run)"
| progress: "map_of (tr_in_progress tr) p = Some d \<Longrightarrow> dw_virtual_path d' = p \<Longrightarrow>
    tracking_step (tr, run) (tr\<lparr>tr_in_progress := AList.update p d' (tr_in_progress tr)\<rparr>, run)"
| commit: "map_of (tr_in_progress tr) (dw_virtual_path d) = Some d' \<Longrightarrow>
    tracking_dir_committed now d tr = Ok tr' \<Longrightarrow> tracking_step (tr, run) (tr', run)"
| abort: "map_of (tr_in_progress tr) (dw_virtual_path d) = Some d' \<Longrightarrow>
    tracking_dir_aborted now d reason tr = Ok tr' \<Longrightarrow> tracking_step (tr, run) (tr', run)"
| scanned: "commit_scan hf now data cfg time tr = Ok tr' \<Longrightarrow> tracking_step (tr, run) (tr', run)"
| periodic: "tracking_step (tr, run) (housekeeping now check tr, run)"
| watch: "tracking_step (tr, run) (check_watched ps tr, run)"
| completed: "tracking_step (tr, run) (snd (get_complete check tr), run)"
| deleted: "tracking_step (tr, run) (tracking_dir_deleted now p img tr, run)"
| rescheduled: "tracking_step (tr, run) (cleanup_reschedule time tr, run)"
| collected: "tracking_step (tr, run) (cleanup_index_gc_done time tr, run)"
| connecting: "get_connection_by_mask now rnd order v img m fails tr = Ok (c, tr') \<Longrightarrow>
    tracking_step (tr, run) (tr', run)"

definition tracking_init :: "'a tracking_sys \<Rightarrow> bool" where
  "tracking_init s \<longleftrightarrow> (\<exists>cfg now gc rm pe. s = (tracking_new cfg now gc rm pe, []))"

section \<open>The invariant\<close>

definition children :: "vpath \<Rightarrow> (vpath \<times> 'd) list \<Rightarrow> nat" where
  "children p ds = length (filter (\<lambda>(q, _). vp_parent q = Some p) ds)"

definition downloads_ok :: "(vpath \<times> 'a downloading) list \<Rightarrow> bool" where
  "downloads_ok ds \<longleftrightarrow> distinct (map fst ds) \<and> list_all (\<lambda>(p, d). dw_virtual_path d = p \<and> vp_parent p \<noteq> None) ds"

definition base_dirs_ok :: "(vpath \<times> 'a downloading) list \<Rightarrow> (vpath \<times> base_dir) list \<Rightarrow> bool" where
  "base_dirs_ok ds bs \<longleftrightarrow> distinct (map fst bs) \<and>
     list_all (\<lambda>(p, b). bdir_path b = p \<and> bdir_num_downloading b = word_of_nat (children p ds)) bs"

definition list_ok :: "vpath list \<Rightarrow> (vpath \<times> base_dir) list \<Rightarrow> bool" where
  "list_ok ps bs \<longleftrightarrow> distinct ps \<and> set ps = fst ` set bs"

definition reconciling_ok :: "'a tracking_sys \<Rightarrow> bool" where
  "reconciling_ok s = (case s of (tr, run) \<Rightarrow> distinct (run @ queued (tr_commands tr)) \<and>
     dom (tr_reconciling tr) = set run \<union> set (queued (tr_commands tr)))"

definition tracking_inv :: "'a tracking_sys \<Rightarrow> bool" where
  "tracking_inv s = (case s of (tr, run) \<Rightarrow> downloads_ok (tr_in_progress tr) \<and>
     base_dirs_ok (tr_in_progress tr) (tr_base_dirs tr) \<and> list_ok (tr_base_dir_list tr) (tr_base_dirs tr) \<and>
     reconciling_ok s)"

lemma queued_append [simp]: "queued (cs @ cs') = queued cs @ queued cs'"
  by (simp add: queued_def List.map_filter_def)

lemma queued_simps [simp]: "queued [] = []" "queued (FetchDir d # cs) = queued cs"
  "queued (ReconcileCmd rp # cs) = (rp_path rp, rp_hash rp) # queued cs"
  by (simp_all add: queued_def List.map_filter_simps)

lemma reconciling_ok_simp:
  "reconciling_ok (tr, run) \<longleftrightarrow> distinct (run @ queued (tr_commands tr)) \<and>
     dom (tr_reconciling tr) = set run \<union> set (queued (tr_commands tr))"
  by (simp add: reconciling_ok_def)

lemma base_dirs_ok_map:
  assumes "base_dirs_ok ds bs"
    and "\<And>q b. (q, b) \<in> set bs \<Longrightarrow> bdir_path b = q \<Longrightarrow> bdir_num_downloading b = word_of_nat (children q ds) \<Longrightarrow>
      bdir_path (f q b) = q \<and> bdir_num_downloading (f q b) = word_of_nat (children q ds')"
  shows "base_dirs_ok ds' (map (\<lambda>(q, b). (q, f q b)) bs)"
proof -
  have "map fst (map (\<lambda>(q, b). (q, f q b)) bs) = map fst bs" by (induction bs) auto
  moreover have "distinct (map fst bs)" using assms(1) by (simp add: base_dirs_ok_def)
  ultimately have "distinct (map fst (map (\<lambda>(q, b). (q, f q b)) bs))" by metis
  with assms show ?thesis by (auto simp: base_dirs_ok_def list_all_iff)
qed

lemma list_ok_map: "list_ok ps bs \<Longrightarrow> list_ok ps (map (\<lambda>(q, b). (q, f q b)) bs)"
  by (force simp: list_ok_def)

section \<open>Downloads\<close>

lemma children_Cons [simp]: "children p ((q, d) # ds) = (if vp_parent q = Some p then Suc (children p ds) else children p ds)"
  by (simp add: children_def)

lemma children_Nil [simp]: "children p [] = 0"
  by (simp add: children_def)

lemma children_update_new:
  "map_of ds q = None \<Longrightarrow> children p (AList.update q d ds) = (if vp_parent q = Some p then Suc (children p ds) else children p ds)"
  by (induction ds) (auto split: if_splits)

lemma children_update_old: "map_of ds q = Some d' \<Longrightarrow> children p (AList.update q d ds) = children p ds"
  by (induction ds) (auto split: if_splits)

lemma children_delete:
  "distinct (map fst ds) \<Longrightarrow> map_of ds q = Some d \<Longrightarrow>
     children p ds = (if vp_parent q = Some p then Suc (children p (AList.delete q ds)) else children p (AList.delete q ds))"
  by (induction ds) (auto simp: delete_idem split: if_splits)

lemma downloads_ok_update:
  "downloads_ok ds \<Longrightarrow> vp_parent p \<noteq> None \<Longrightarrow> dw_virtual_path d = p \<Longrightarrow> downloads_ok (AList.update p d ds)"
  unfolding downloads_ok_def list_all_iff by (induction ds) (auto simp: dom_update image_iff)

lemma downloads_ok_delete: "downloads_ok ds \<Longrightarrow> downloads_ok (AList.delete p ds)"
  unfolding downloads_ok_def list_all_iff by (simp add: distinct_delete) (auto simp: AList.delete_eq)

lemma start_base_dirs_ok:
  assumes "base_dirs_ok ds bs" "map_of ds v = None" "vp_parent v = Some par"
  shows "base_dirs_ok (AList.update v d ds) (map (\<lambda>(q, b). (q, if q = par then incr_downloading b else b)) bs)"
  by (rule base_dirs_ok_map [OF assms(1)]) (auto simp: incr_downloading_def children_update_new assms(2,3))

lemma end_base_dirs_ok:
  assumes "downloads_ok ds" "base_dirs_ok ds bs" "map_of ds v = Some d" "vp_parent v = Some par"
  shows "base_dirs_ok (AList.delete v ds) (map (\<lambda>(q, b). (q, if q = par then decr_downloading b else b)) bs)"
proof (rule base_dirs_ok_map [OF assms(2)])
  fix q and b :: base_dir assume b: "bdir_path b = q" "bdir_num_downloading b = word_of_nat (children q ds)"
  have "children q ds = (if par = q then Suc (children q (AList.delete v ds)) else children q (AList.delete v ds))"
    using children_delete [OF _ assms(3), of q] assms(1,4) by (auto simp: downloads_ok_def)
  with b show "bdir_path (if q = par then decr_downloading b else b) = q \<and>
      bdir_num_downloading (if q = par then decr_downloading b else b) = word_of_nat (children q (AList.delete v ds))"
    by (auto simp: decr_downloading_def)
qed

section \<open>Every step keeps the invariant\<close>

text \<open>A step that leaves the five tables of the invariant alone.\<close>

lemma tracking_inv_frame:
  assumes "tracking_inv (tr, run)" "tr_in_progress tr' = tr_in_progress tr" "tr_base_dirs tr' = tr_base_dirs tr"
    "tr_base_dir_list tr' = tr_base_dir_list tr" "dom (tr_reconciling tr') = dom (tr_reconciling tr)"
    "queued (tr_commands tr') = queued (tr_commands tr)"
  shows "tracking_inv (tr', run)"
  using assms by (simp add: tracking_inv_def reconciling_ok_simp)

lemma reconcile_dir_inv:
  assumes "tracking_inv (tr, run)" "reconcile_dir now p h addr mid tr = Ok tr'"
  shows "tracking_inv (tr', run)"
proof -
  have D: "distinct (run @ queued (tr_commands tr))" "dom (tr_reconciling tr) = set run \<union> set (queued (tr_commands tr))"
    using assms(1) by (simp_all add: tracking_inv_def reconciling_ok_simp)
  consider "tr' = tr"
    | hosts where "tr_reconciling tr (p, h) = Some hosts"
        "tr' = tr\<lparr>tr_reconciling := (tr_reconciling tr)((p, h) \<mapsto> List.insert (addr, mid) hosts)\<rparr>"
    | "tr_reconciling tr (p, h) = None" "tr' = send_command
        (ReconcileCmd \<lparr>rp_path = p, rp_hash = h, rp_initial_addr = addr, rp_initial_machine_id = mid\<rparr>)
        (tr\<lparr>tr_reconciling := (tr_reconciling tr)((p, h) \<mapsto> [(addr, mid)])\<rparr>)"
    using assms(2) unfolding reconcile_dir_def bind_result_eq_Ok
    by (cases "tr_reconciling tr (p, h)") (auto split: if_split_asm)
  then show ?thesis
  proof cases
    case 2
    then have "dom (tr_reconciling tr') = dom (tr_reconciling tr)" by auto
    with assms(1) 2 show ?thesis by (intro tracking_inv_frame [OF assms(1)]) simp_all
  next
    case 3
    then have "(p, h) \<notin> set run \<union> set (queued (tr_commands tr))" using D(2) by (metis domIff)
    with 3 D assms(1) show ?thesis
      unfolding tracking_inv_def reconciling_ok_simp send_command_def by simp
  qed (use assms(1) in simp)
qed

lemma fetch_dir_start_inv:
  assumes inv: "tracking_inv (tr, run)" and "tr_commands tr = FetchDir d # cs"
    and new: "map_of (tr_in_progress tr) (dw_virtual_path d) = None"
    and ok: "fetch_dir_start now d (tr\<lparr>tr_commands := cs\<rparr>) = Ok tr'"
  shows "tracking_inv (tr', run)"
proof -
  obtain par where "vp_parent (dw_virtual_path d) = Some par" using ok by (auto simp: fetch_dir_start_def)
  with assms show ?thesis
    using start_base_dirs_ok [OF _ new] list_ok_map downloads_ok_update [of "tr_in_progress tr" "dw_virtual_path d" d]
    unfolding tracking_inv_def reconciling_ok_simp
    by (clarsimp simp: fetch_dir_start_def Let_def with_peers_def update_base_dir_def rescan_dir_def)
qed

lemma end_download_inv:
  assumes inv: "tracking_inv (tr, run)" and old: "map_of (tr_in_progress tr) v = Some d'" and par: "vp_parent v = Some par"
    and "tr_in_progress tr' = AList.delete v (tr_in_progress tr)"
      "tr_base_dirs tr' = map (\<lambda>(q, b). (q, if q = par then decr_downloading b else b)) (tr_base_dirs tr)"
      "tr_base_dir_list tr' = tr_base_dir_list tr" "tr_reconciling tr' = tr_reconciling tr"
      "tr_commands tr' = tr_commands tr"
  shows "tracking_inv (tr', run)"
  using assms end_base_dirs_ok [OF _ _ old par] list_ok_map downloads_ok_delete
  by (auto simp: tracking_inv_def reconciling_ok_simp)

lemma dir_committed_inv:
  assumes "tracking_inv (tr, run)" "map_of (tr_in_progress tr) (dw_virtual_path d) = Some d'"
    and ok: "tracking_dir_committed now d tr = Ok tr'"
  shows "tracking_inv (tr', run)"
proof -
  obtain par where par: "vp_parent (dw_virtual_path d) = Some par" using ok by (auto simp: tracking_dir_committed_def Let_def)
  show ?thesis
    by (rule end_download_inv [OF assms(1,2) par])
      (use ok par in \<open>auto simp: tracking_dir_committed_def Let_def with_peers_def with_remote_def update_base_dir_def
        rescan_dir_def\<close>)
qed

lemma dir_aborted_inv:
  assumes "tracking_inv (tr, run)" "map_of (tr_in_progress tr) (dw_virtual_path d) = Some d'"
    and ok: "tracking_dir_aborted now d reason tr = Ok tr'"
  shows "tracking_inv (tr', run)"
proof -
  obtain par where par: "vp_parent (dw_virtual_path d) = Some par" using ok by (auto simp: tracking_dir_aborted_def Let_def)
  show ?thesis
    by (rule end_download_inv [OF assms(1,2) par])
      (use ok par in \<open>auto simp: tracking_dir_aborted_def tracking_dir_deleted_def Let_def with_peers_def with_remote_def
        update_base_dir_def rescan_dir_def\<close>)
qed

text \<open>A change of the base directories that keeps their paths and counters.\<close>

lemma update_base_dir_inv:
  assumes "tracking_inv (tr, run)"
    and "\<And>b. bdir_path (f b) = bdir_path b" "\<And>b. bdir_num_downloading (f b) = bdir_num_downloading b"
  shows "tracking_inv (update_base_dir f p tr, run)"
  using assms(1) base_dirs_ok_map [of "tr_in_progress tr" "tr_base_dirs tr" "\<lambda>q b. if q = p then f b else b" "tr_in_progress tr"] list_ok_map
  by (auto simp: tracking_inv_def reconciling_ok_simp update_base_dir_def assms(2,3))

lemma with_peers_inv: "tracking_inv (tr, run) \<Longrightarrow> tracking_inv (with_peers f tr, run)"
  by (rule tracking_inv_frame) (auto simp: with_peers_def)

lemma count_children_eq: "count_children p qs = Ok n \<Longrightarrow> n = length (filter (\<lambda>q. vp_parent q = Some p) qs)"
  by (induction qs arbitrary: n) auto

lemma children_map_fst: "children p ds = length (filter (\<lambda>q. vp_parent q = Some p) (map fst ds))"
  by (induction ds) auto

lemma update_fresh: "p \<notin> fst ` set xs \<Longrightarrow> AList.update p b xs = xs @ [(p, b)]"
  by (induction xs) auto

lemma new_base_dir_inv:
  assumes inv: "tracking_inv (tr, run)" and "map_of (tr_base_dirs tr) p = None"
    and "bdir_path b = p" "bdir_num_downloading b = word_of_nat (children p (tr_in_progress tr))"
  shows "tracking_inv (tr\<lparr>tr_base_dir_list := tr_base_dir_list tr @ [p],
    tr_base_dirs := AList.update p b (tr_base_dirs tr)\<rparr>, run)"
proof -
  have new: "p \<notin> fst ` set (tr_base_dirs tr)" using assms(2) by (simp add: map_of_eq_None_iff)
  then have "AList.update p b (tr_base_dirs tr) = tr_base_dirs tr @ [(p, b)]" by (rule update_fresh)
  with new assms show ?thesis
    by (auto simp: tracking_inv_def reconciling_ok_simp base_dirs_ok_def list_ok_def)
qed

lemma commit_scan_inv:
  assumes inv: "tracking_inv (tr, run)" and ok: "commit_scan hf now data cfg time tr = Ok tr'"
  shows "tracking_inv (tr', run)"
proof (cases "map_of (tr_base_dirs tr) (bs_path data)")
  case None
  obtain n where n: "count_children (bs_path data) (map fst (tr_in_progress tr)) = Ok n"
    using ok by (auto simp: commit_scan_def Let_def)
  have "n = children (bs_path data) (tr_in_progress tr)" using count_children_eq [OF n] by (simp add: children_map_fst)
  with ok n None show ?thesis
    by (auto simp: commit_scan_def Let_def intro!: with_peers_inv new_base_dir_inv [OF inv])
next
  case (Some old)
  with ok show ?thesis
    by (auto simp: commit_scan_def Let_def add_parent_hash_def split: if_splits
        intro!: with_peers_inv update_base_dir_inv inv)
qed

lemma check_watched_inv: "tracking_inv (tr, run) \<Longrightarrow> tracking_inv (check_watched ps tr, run)"
proof (induction ps arbitrary: tr)
  case (Cons p ps)
  have "tracking_inv (tr\<lparr>tr_watched := w\<rparr>, run)" for w using Cons.prems by (rule tracking_inv_frame) auto
  then show ?case using Cons by simp
qed simp

lemma poll_watched_inv: "tracking_inv (tr, run) \<Longrightarrow> tracking_inv (poll_watched check tr, run)"
  by (erule tracking_inv_frame) (auto simp: poll_watched_def split: prod.splits)

lemma clean_inv:
  assumes "tracking_inv (tr, run)"
  shows "tracking_inv (tr\<lparr>tr_base_dirs := map (\<lambda>(q, b). (q, clean_parent_hashes now b)) (tr_base_dirs tr)\<rparr>, run)"
  using assms base_dirs_ok_map [of "tr_in_progress tr" "tr_base_dirs tr" "\<lambda>q. clean_parent_hashes now" "tr_in_progress tr"] list_ok_map
  by (auto simp: tracking_inv_def reconciling_ok_simp clean_parent_hashes_def)

lemma housekeeping_inv:
  assumes inv: "tracking_inv (tr, run)"
  shows "tracking_inv (housekeeping now check tr, run)"
proof -
  have 1: "tracking_inv (tr\<lparr>tr_recently_received := r, tr_recently_deleted := d\<rparr>, run)" for r d
    using inv by (rule tracking_inv_frame) auto
  have 2: "tracking_inv (tr''\<lparr>tr_watched := w\<rparr>, run)" if "tracking_inv (tr'', run)" for tr'' w
    using that by (rule tracking_inv_frame) auto
  show ?thesis unfolding housekeeping_def Let_def by (rule clean_inv [OF 2 [OF poll_watched_inv [OF 1]]])
qed

lemma connection_inv:
  assumes inv: "tracking_inv (tr, run)" and ok: "get_connection_by_mask now rnd order v img m fails tr = Ok (c, tr')"
  shows "tracking_inv (tr', run)"
proof -
  have "tr' = tr \<or> (\<exists>rm. tr' = tr\<lparr>tr_remote := rm\<rparr>)"
    using ok unfolding get_connection_by_mask_def Let_def
    by (auto simp: pick_from_def connect_to_def split: option.splits prod.splits)
  then show ?thesis using inv tracking_inv_frame [OF inv] by auto
qed

lemma fetch_dir_inv:
  assumes "tracking_inv (tr, run)" "fetch_dir p img replace tr = Ok tr'"
  shows "tracking_inv (tr', run)"
  using assms(2) by (intro tracking_inv_frame [OF assms(1)]) (auto simp: fetch_dir_def send_command_def)

lemma progress_inv:
  assumes inv: "tracking_inv (tr, run)" and old: "map_of (tr_in_progress tr) (dw_virtual_path d) = Some d'"
  shows "tracking_inv (tr\<lparr>tr_in_progress := AList.update (dw_virtual_path d) d (tr_in_progress tr)\<rparr>, run)"
proof -
  let ?ds = "tr_in_progress tr" and ?ds' = "AList.update (dw_virtual_path d) d (tr_in_progress tr)"
  have "vp_parent (dw_virtual_path d) \<noteq> None"
    using inv map_of_SomeD [OF old] by (auto simp: tracking_inv_def downloads_ok_def list_all_iff)
  moreover have "base_dirs_ok ?ds' (tr_base_dirs tr) = base_dirs_ok ?ds (tr_base_dirs tr)"
    by (simp add: base_dirs_ok_def children_update_old [OF old])
  ultimately show ?thesis using inv downloads_ok_update [of ?ds "dw_virtual_path d" d]
    unfolding tracking_inv_def reconciling_ok_simp by simp
qed

lemma take_reconcile_inv:
  "tracking_inv (tr, run) \<Longrightarrow> tr_commands tr = ReconcileCmd rp # cs \<Longrightarrow>
     tracking_inv (tr\<lparr>tr_commands := cs\<rparr>, (rp_path rp, rp_hash rp) # run)"
  unfolding tracking_inv_def reconciling_ok_simp by auto

lemma finish_inv:
  assumes "tracking_inv (tr, run)" "pair \<in> set run"
  shows "tracking_inv (reconcile_finish now pair full tr, removeAll pair run)"
proof -
  define tr1 where "tr1 = (if full then update_base_dir (add_parent_hash now (snd pair)) (fst pair) tr else tr)"
  have "tracking_inv (tr1, run)"
    unfolding tr1_def by (simp add: assms(1)) (auto simp: add_parent_hash_def intro!: update_base_dir_inv assms(1))
  with assms(2) show ?thesis
    unfolding reconcile_finish_def tracking_inv_def reconciling_ok_simp tr1_def [symmetric] Let_def
    by (auto simp: distinct_removeAll)
qed

lemma mark_inv: "tracking_inv (tr, run) \<Longrightarrow> tracking_inv (mark_received now pair v tr, run)"
  by (erule tracking_inv_frame) (auto simp: mark_received_def split: option.splits)

lemma cleanup_inv:
  "tracking_inv (tr, run) \<Longrightarrow> tracking_inv (cleanup_reschedule time tr, run)"
  "tracking_inv (tr, run) \<Longrightarrow> tracking_inv (cleanup_index_gc_done time tr, run)"
  "tracking_inv (tr, run) \<Longrightarrow> tracking_inv (tracking_dir_deleted now p img tr, run)"
  by (erule tracking_inv_frame; simp add: cleanup_reschedule_def cleanup_index_gc_done_def tracking_dir_deleted_def Let_def)+

lemmas tracking_keeps = reconcile_dir_inv fetch_dir_inv fetch_dir_start_inv take_reconcile_inv finish_inv progress_inv
  dir_committed_inv dir_aborted_inv commit_scan_inv housekeeping_inv check_watched_inv poll_watched_inv connection_inv
  mark_inv cleanup_inv

interpretation downloads: invariant_system tracking_init tracking_step tracking_inv
proof
  show "tracking_inv s" if "tracking_init s" for s :: "'a tracking_sys"
    using that by (auto simp: tracking_init_def tracking_new_def tracking_inv_def reconciling_ok_simp downloads_ok_def
        base_dirs_ok_def list_ok_def)
  show "tracking_inv t" if inv: "tracking_inv s" and step: "tracking_step s t" for s t :: "'a tracking_sys"
    using step
    by cases (use inv in \<open>auto simp: get_complete_def Let_def intro: tracking_keeps\<close>)
qed

section \<open>Properties\<close>

lemma count_in_basedir_eq:
  "\<forall>q \<in> set qs. vp_parent q \<noteq> None \<Longrightarrow>
     count_in_basedir p qs = Ok (length (filter (\<lambda>q. vp_parent q = Some p) qs))"
  by (induction qs) (auto simp: vp_matches_basedir_def)

lemma downloading_in_basedir_eq:
  assumes "tracking_inv (tr, run)"
  shows "downloading_in_basedir p tr = Ok (children p (tr_in_progress tr))"
  using assms count_in_basedir_eq [of "map fst (tr_in_progress tr)" p]
  by (fastforce simp: downloading_in_basedir_def children_map_fst tracking_inv_def downloads_ok_def list_all_iff)

text \<open>
  C32. The two ways in which the daemon counts the downloads of a base directory agree. In every reachable state
  of the tracking subsystem, whatever was announced, fetched, committed, aborted, scanned and cleaned in between, the
  wrapping atomic counter of each base directory is the number of running downloads directly below it, as the
  throttle of reconciliations counts them, which therefore never panics.
\<close>

theorem downloads_counted:
  assumes "reachable tracking_init tracking_step (tr, run)" and "map_of (tr_base_dirs tr) p = Some b"
    and "length (tr_in_progress tr) < 2 ^ 64"
  shows "downloading_in_basedir p tr = Ok (unat (bdir_num_downloading b)) \<and>
    unat (bdir_num_downloading b) = length (filter (\<lambda>(q, d). vp_parent q = Some p) (tr_in_progress tr))"
proof -
  note inv = downloads.reachable_inv [OF assms(1)]
  have "children p (tr_in_progress tr) \<le> length (tr_in_progress tr)" by (simp add: children_def)
  moreover have "bdir_num_downloading b = word_of_nat (children p (tr_in_progress tr))"
    using inv map_of_SomeD [OF assms(2)] by (auto simp: tracking_inv_def base_dirs_ok_def list_all_iff)
  ultimately have "unat (bdir_num_downloading b) = children p (tr_in_progress tr)"
    using assms(3) by (simp add: unat_of_nat)
  with downloading_in_basedir_eq [OF inv] show ?thesis by (simp add: children_def)
qed

text \<open>
  C33. A directory is reconciled with a given hash at most once at a time, and never forgotten. In every reachable
  state the table of reconciliations holds exactly the pairs of path and hash for which a command waits in the queue or a
  task is running, and there is only one of these for each pair; a further announcement of such a pair
  only adds its sender to the hosts to ask, and a pair that is not in the table is not started once three downloads
  run in the directory or more than twenty in all.
\<close>

theorem reconciliations_tracked:
  assumes "reachable tracking_init tracking_step (tr, run)"
  shows "distinct (run @ queued (tr_commands tr)) \<and>
    dom (tr_reconciling tr) = set (run @ queued (tr_commands tr)) \<and>
    (\<forall>now p h addr mid. \<exists>tr'. reconcile_dir now p h addr mid tr = Ok tr' \<and>
      (queued (tr_commands tr') = queued (tr_commands tr) \<or>
       queued (tr_commands tr') = queued (tr_commands tr) @ [(p, h)] \<and> tr_reconciling tr (p, h) = None \<and>
       length (tr_in_progress tr) \<le> 20 \<and> children p (tr_in_progress tr) < 3))"
proof -
  note inv = downloads.reachable_inv [OF assms]
  have "\<exists>tr'. reconcile_dir now p h addr mid tr = Ok tr' \<and>
      (queued (tr_commands tr') = queued (tr_commands tr) \<or>
       queued (tr_commands tr') = queued (tr_commands tr) @ [(p, h)] \<and> tr_reconciling tr (p, h) = None \<and>
       length (tr_in_progress tr) \<le> 20 \<and> children p (tr_in_progress tr) < 3)" for now p h addr mid
    by (cases "tr_reconciling tr (p, h)")
      (auto simp: reconcile_dir_def downloading_in_basedir_eq [OF inv] send_command_def RECONCILE_MAX_DOWNLOADING_def
        RECONCILE_BASEDIR_THROTTLE_def)
  with inv show ?thesis by (simp add: tracking_inv_def reconciling_ok_simp)
qed

section \<open>An example\<close>

definition demo_tracking :: "nat tracking" where
  "demo_tracking = tracking_new \<lparr>cf_machine_id = MachineId [], cf_hostname = [], cf_port = 0,
     cf_aggressive_index_gc = False, cf_dirs = [''k'' \<mapsto> demo_base]\<rparr> 0 0 (remote_new [] (MachineId [])) peers_new"

definition demo_base_dir :: base_dir where
  "demo_base_dir = \<lparr>bdir_path = VPath ''k'' [], bdir_config = demo_base, bdir_hash = Hash [3], bdir_last_scan = 5,
     bdir_num_subdirs = 0, bdir_num_downloading = 1, bdir_recon_table = Map.empty\<rparr>"

text \<open>A scan, then a download in the scanned directory, then an announcement of the directory.\<close>

lemma demo_tracking_reachable:
  "\<exists>tr :: nat tracking. reachable tracking_init tracking_step (tr, []) \<and> tr_base_dirs tr = [(VPath ''k'' [], demo_base_dir)] \<and>
     length (tr_in_progress tr) = 1 \<and> queued (tr_commands tr) = [(VPath ''k'' [], Hash [9])]"
proof -
  define d :: "nat downloading" where "d = downloading_new (VPath ''k'' [''a'']) (Other [1]) False demo_base"
  define hf where "hf = \<lparr>hf_config = (\<lambda>_. Hash [1]), hf_names = (\<lambda>_. Hash [2]), hf_dirs = (\<lambda>_. Hash [3])\<rparr>"
  define scan where "scan = \<lparr>bs_path = VPath ''k'' [], bs_config_hash = Hash [1], bs_keep_list_hash = Hash [2], bs_dirs = []\<rparr>"
  let ?T = demo_tracking
  obtain t1 where t1: "commit_scan hf 5 scan demo_base 5 ?T = Ok t1" "tr_commands t1 = []" "tr_in_progress t1 = []"
      "tr_base_dirs t1 = [(VPath ''k'' [], demo_base_dir\<lparr>bdir_num_downloading := 0\<rparr>)]" "tr_config t1 = tr_config ?T"
      "tr_reconciling t1 = Map.empty"
    by (simp add: commit_scan_def demo_tracking_def tracking_new_def hf_def scan_def Let_def with_peers_def demo_base_dir_def)
  have t2: "fetch_dir (VPath ''k'' [''a'']) (Other [1]) False t1 = Ok (send_command (FetchDir d) t1)"
    by (simp add: fetch_dir_def t1 demo_tracking_def tracking_new_def d_def)
  obtain t3 where t3: "fetch_dir_start 6 d ((send_command (FetchDir d) t1)\<lparr>tr_commands := []\<rparr>) = Ok t3"
      "tr_base_dirs t3 = [(VPath ''k'' [], demo_base_dir)]" "tr_in_progress t3 = [(VPath ''k'' [''a''], d)]"
      "tr_commands t3 = []" "tr_config t3 = tr_config ?T" "tr_reconciling t3 = Map.empty"
    by (simp add: fetch_dir_start_def send_command_def t1 d_def downloading_new_def vp_parent_def rescan_dir_def
        update_base_dir_def with_peers_def incr_downloading_def demo_base_dir_def)
  obtain t4 where t4: "reconcile_dir 7 (VPath ''k'' []) (Hash [9]) 8 (MachineId [2]) t3 = Ok t4"
      "tr_base_dirs t4 = tr_base_dirs t3" "tr_in_progress t4 = tr_in_progress t3"
      "queued (tr_commands t4) = [(VPath ''k'' [], Hash [9])]"
    by (simp add: reconcile_dir_def t3 demo_tracking_def tracking_new_def RECONCILE_MAX_DOWNLOADING_def
        bdir_is_superset_of_def demo_base_dir_def downloading_in_basedir_def vp_matches_basedir_def vp_parent_def
        RECONCILE_BASEDIR_THROTTLE_def send_command_def)
  have "reachable tracking_init tracking_step (?T, [])"
    unfolding demo_tracking_def by (rule reach_init) (use tracking_init_def in blast)
  then have "reachable tracking_init tracking_step (t1, [])" by (rule reach_step) (rule scanned [OF t1(1)])
  then have "reachable tracking_init tracking_step (send_command (FetchDir d) t1, [])"
    by (rule reach_step) (rule request [OF t2])
  then have "reachable tracking_init tracking_step (t3, [])"
    by (rule reach_step) (rule take_fetch [OF _ _ t3(1)], simp_all add: send_command_def t1)
  then have "reachable tracking_init tracking_step (t4, [])" by (rule reach_step) (rule announce [OF t4(1)])
  with t3 t4 show ?thesis by (intro exI [of _ t4]) simp
qed

theorem downloads_counted_witness:
  "\<exists>tr :: nat tracking. tr_base_dirs tr = [(VPath ''k'' [], demo_base_dir)] \<and>
     downloading_in_basedir (VPath ''k'' []) tr = Ok 1"
proof -
  obtain tr :: "nat tracking" where tr: "reachable tracking_init tracking_step (tr, [])"
      "tr_base_dirs tr = [(VPath ''k'' [], demo_base_dir)]" "length (tr_in_progress tr) = 1"
    using demo_tracking_reachable by blast
  then have "map_of (tr_base_dirs tr) (VPath ''k'' []) = Some demo_base_dir" by simp
  from downloads_counted [OF tr(1) this] tr show ?thesis by (auto simp: demo_base_dir_def)
qed

theorem reconciliations_tracked_witness:
  "\<exists>tr :: nat tracking. queued (tr_commands tr) = [(VPath ''k'' [], Hash [9])] \<and>
     dom (tr_reconciling tr) = {(VPath ''k'' [], Hash [9])}"
proof -
  obtain tr :: "nat tracking" where tr: "reachable tracking_init tracking_step (tr, [])"
      "queued (tr_commands tr) = [(VPath ''k'' [], Hash [9])]"
    using demo_tracking_reachable by blast
  from reconciliations_tracked [OF tr(1)] tr show ?thesis by auto
qed

end
