(* ===== verification/Gossip.thy ===== *)
theory Gossip
  imports Tracking
begin

text \<open>
  The gossip protocol (\<^verbatim>\<open>src/daemon/peers/gossip.rs\<close>): what a daemon does with each packet it receives, to
  whom it sends each message and what it announces every second. The state is that of the tracking
  subsystem, which owns the tables of the peers, with the fields of \<^verbatim>\<open>Gossip\<close>; packets that were sent
  are recorded. A packet is decoded and encoded by \<^verbatim>\<open>serde_cbor\<close>; one that cannot be decoded is skipped and a failure
  to send is ignored.
\<close>

definition PACKETS_AT_ONCE :: nat where "PACKETS_AT_ONCE = 4"
definition MAX_BASE_DIRS :: nat where "MAX_BASE_DIRS = 10"

record 'a gossip =
  go_tracking :: "'a tracking"
  go_machine_id :: machine_id
  go_config_hash :: hash
  go_config_list :: "vpath list"
  go_future_peers :: "('a \<times> string) list"
  go_sent :: "('a \<times> packet) list"

text \<open>
  Sources of chance, from the crate \<^verbatim>\<open>rand\<close>: the \<open>k\<close>-th number drawn from a range, a sample of at most so many
  entries, a choice of a position; and the order in which the keys of a hash map are visited.
\<close>

record 'a chance =
  ch_range :: "nat \<Rightarrow> nat \<Rightarrow> nat \<Rightarrow> nat"
  ch_sample :: "nat \<Rightarrow> (machine_id \<times> 'a peer) list \<Rightarrow> (machine_id \<times> 'a peer) list"
  ch_choice :: "nat \<Rightarrow> nat \<Rightarrow> nat"
  ch_deleted_keys :: "(vpath \<times> image_id \<rightharpoonup> instant) \<Rightarrow> (vpath \<times> image_id) list"

definition go_peers :: "'a gossip \<Rightarrow> 'a peers" where
  "go_peers g = tr_peers (go_tracking g)"

definition with_tracking :: "('a tracking \<Rightarrow> 'a tracking) \<Rightarrow> 'a gossip \<Rightarrow> 'a gossip" where
  "with_tracking f g = g\<lparr>go_tracking := f (go_tracking g)\<rparr>"

definition with_hosts ::
  "((machine_id \<times> host_data) list \<Rightarrow> (machine_id \<times> host_data) list) \<Rightarrow> 'a gossip \<Rightarrow> 'a gossip" where
  "with_hosts f = with_tracking (with_peers (\<lambda>pe. pe\<lparr>pe_by_host := f (pe_by_host pe)\<rparr>))"

section \<open>Sending\<close>

definition send_packet :: "'a \<Rightarrow> machine_id option \<Rightarrow> gossip_message \<Rightarrow> 'a gossip \<Rightarrow> 'a gossip" where
  "send_packet addr i message g =
     (let hsh = Option.bind i (\<lambda>i. map_option hi_hash (config_map_get i (pe_configs (go_peers g))))
      in g\<lparr>go_sent := go_sent g @
             [(addr, \<lparr>pk_machine_id = go_machine_id g, pk_your_config = hsh, pk_message = message\<rparr>)]\<rparr>)"

definition send_config :: "'a \<Rightarrow> machine_id \<Rightarrow> 'a gossip \<Rightarrow> 'a gossip" where
  "send_config addr i g = send_packet addr (Some i) (ConfigSync (go_config_list g)) g"

definition complete_ack :: "'a \<Rightarrow> machine_id \<Rightarrow> vpath \<Rightarrow> 'a gossip \<Rightarrow> 'a gossip" where
  "complete_ack addr i p = send_packet addr (Some i) (CompleteAck p)"

section \<open>Receiving\<close>

text \<open>\<^verbatim>\<open>hosts.entry(mid).or_insert_with(..)\<close> followed by an update.\<close>

definition host_entry ::
  "machine_id \<Rightarrow> (host_data \<Rightarrow> host_data) \<Rightarrow> (machine_id \<times> host_data) list \<Rightarrow> (machine_id \<times> host_data) list" where
  "host_entry mid f hosts =
     AList.update mid (f (case map_of hosts mid of None \<Rightarrow> host_data_new | Some h \<Rightarrow> h)) hosts"

definition host_watch :: "vpath \<Rightarrow> host_data \<Rightarrow> host_data" where
  "host_watch p h = h\<lparr>ho_watching := List.insert p (ho_watching h)\<rparr>"

text \<open>Machines that watch a path, as reported by another; our own id is skipped.\<close>

definition add_watches ::
  "machine_id \<Rightarrow> vpath \<Rightarrow> machine_id list \<Rightarrow> (machine_id \<times> host_data) list \<Rightarrow> (machine_id \<times> host_data) list" where
  "add_watches me p mids = fold (\<lambda>mid hosts. if mid = me then hosts else host_entry mid (host_watch p) hosts) mids"

text \<open>A peer from the list of addresses without an id answers for the first time.\<close>

definition meet_future_peer :: "'a \<Rightarrow> machine_id \<Rightarrow> 'a gossip \<Rightarrow> 'a gossip" where
  "meet_future_peer addr mid g =
     (case map_of (go_future_peers g) addr of
        None \<Rightarrow> g
      | Some name \<Rightarrow>
          with_tracking (with_peers (\<lambda>pe. pe\<lparr>pe_peers := AList.update mid
              \<lparr>peer_id = mid, peer_addr = addr, peer_hostname = name, peer_name = name\<rparr> (pe_peers pe)\<rparr>))
            (g\<lparr>go_future_peers := AList.delete addr (go_future_peers g)\<rparr>))"

fun reconcile_all ::
  "instant \<Rightarrow> 'a \<Rightarrow> machine_id \<Rightarrow> (vpath \<times> hash) list \<Rightarrow> 'a tracking \<Rightarrow> ('a tracking, unit) result" where
  "reconcile_all now addr mid [] tr = Ok tr"
| "reconcile_all now addr mid ((p, h) # rest) tr =
     bind_result (reconcile_dir now p h addr mid tr) (reconcile_all now addr mid rest)"

definition forward_complete :: "'a \<Rightarrow> machine_id \<Rightarrow> 'a peer \<Rightarrow> vpath \<times> image_id \<Rightarrow> 'a gossip \<Rightarrow> 'a gossip" where
  "forward_complete addr mid peer pi g = (case pi of (p, img) \<Rightarrow>
     complete_ack addr mid p (with_tracking (with_remote (forward_notify_received_image img p peer)) g))"

definition forward_completes :: "'a \<Rightarrow> machine_id \<Rightarrow> (vpath \<times> image_id) list \<Rightarrow> 'a gossip \<Rightarrow> 'a gossip" where
  "forward_completes addr mid pis g =
     (case map_of (pe_peers (go_peers g)) mid of
        None \<Rightarrow> g
      | Some peer \<Rightarrow> fold (forward_complete addr mid peer) pis g)"

definition downloading_of :: "vpath \<times> image_id \<times> mask \<times> bool \<times> bool \<Rightarrow> vpath \<times> host_downloading" where
  "downloading_of v = (case v of (k, img, m, source, stalled) \<Rightarrow>
     (k, \<lparr>hd_image = img, hd_mask = m, hd_source = source, hd_stalled = stalled\<rparr>))"

fun handle_message ::
  "(vpath list \<Rightarrow> hash) \<Rightarrow> instant \<Rightarrow> 'a \<Rightarrow> machine_id \<Rightarrow> gossip_message \<Rightarrow> 'a gossip \<Rightarrow> ('a gossip, unit) result" where
  "handle_message for_object now addr mid (BaseDirs in_progress watching complete deleted base_dirs) g =
     bind_result (reconcile_all now addr mid base_dirs (go_tracking g)) (\<lambda>tr.
       let g1 = forward_completes addr mid complete (g\<lparr>go_tracking := tr\<rparr>);
           g2 = with_tracking (check_watched watching) g1
       in Ok (with_hosts (if in_progress = [] \<and> deleted = [] \<and> watching = [] \<and> complete = []
            then AList.delete mid
            else AList.update mid \<lparr>ho_downloading = map downloading_of in_progress, ho_complete = complete,
                   ho_watching = watching, ho_deleted = deleted\<rparr>) g2))"
| "handle_message for_object now addr mid (Downloading p img m source watches) g =
     (let g1 = with_hosts (host_entry mid (\<lambda>h. h\<lparr>ho_downloading := AList.update p
                  \<lparr>hd_image = img, hd_mask = m, hd_source = source, hd_stalled = False\<rparr> (ho_downloading h)\<rparr>)) g;
          g2 = with_tracking (check_watched [p]) g1
      in Ok (with_hosts (add_watches (go_machine_id g) p watches) g2))"
| "handle_message for_object now addr mid (Complete p img) g =
     Ok (forward_completes addr mid [(p, img)] (with_hosts (host_entry mid (\<lambda>h.
       h\<lparr>ho_downloading := AList.delete p (ho_downloading h), ho_complete := AList.update p img (ho_complete h)\<rparr>)) g))"
| "handle_message for_object now addr mid (CompleteAck p) g =
     Ok (with_hosts (\<lambda>hosts. case map_of hosts mid of
         None \<Rightarrow> hosts
       | Some h \<Rightarrow> AList.update mid (h\<lparr>ho_watching := removeAll p (ho_watching h)\<rparr>) hosts) g)"
| "handle_message for_object now addr mid (ConfigSync paths) g =
     bind_result (config_map_set for_object mid paths (pe_configs (go_peers g))) (\<lambda>cm.
       Ok (with_tracking (with_peers (\<lambda>pe. pe\<lparr>pe_configs := cm\<rparr>)) g))"
| "handle_message for_object now addr mid (Reconcile p h watches) g =
     bind_result (reconcile_dir now p h addr mid (go_tracking g)) (\<lambda>tr.
       Ok (with_hosts (fold (\<lambda>(wpath, ids). add_watches (go_machine_id g) wpath ids) watches) (g\<lparr>go_tracking := tr\<rparr>)))"

definition handle_packet ::
  "(vpath list \<Rightarrow> hash) \<Rightarrow> instant \<Rightarrow> 'a \<Rightarrow> packet \<Rightarrow> 'a gossip \<Rightarrow> ('a gossip, unit) result" where
  "handle_packet for_object now addr pkt g =
     (if pk_machine_id pkt = go_machine_id g then Ok g
      else
        let g1 = meet_future_peer addr (pk_machine_id pkt) g;
            g2 = (if pk_your_config pkt \<noteq> Some (go_config_hash g1) then send_config addr (pk_machine_id pkt) g1 else g1)
        in handle_message for_object now addr (pk_machine_id pkt) (pk_message pkt) g2)"

section \<open>Destinations\<close>

text \<open>A map from addresses to ids, filled in three loops.\<close>

fun watcher_dests ::
  "vpath \<Rightarrow> 'a peers \<Rightarrow> (machine_id \<times> host_data) list \<Rightarrow> ('a \<times> machine_id) list \<Rightarrow> ('a \<times> machine_id) list" where
  "watcher_dests p pe [] dests = dests"
| "watcher_dests p pe ((hid, hdata) # rest) dests =
     watcher_dests p pe rest
       (if p \<in> set (ho_watching hdata)
        then (case map_of (pe_peers pe) hid of Some peer \<Rightarrow> AList.update (peer_addr peer) hid dests | None \<Rightarrow> dests)
        else dests)"

text \<open>\<^verbatim>\<open>Iterator::position\<close> of the first id above ours, zero when there is none.\<close>

fun position :: "('x \<Rightarrow> bool) \<Rightarrow> 'x list \<Rightarrow> nat option" where
  "position P [] = None"
| "position P (x # xs) = (if P x then Some 0 else map_option Suc (position P xs))"

definition next_index :: "machine_id \<Rightarrow> machine_id list \<Rightarrow> nat" where
  "next_index me ids = (case position (\<lambda>x. x > me) ids of Some i \<Rightarrow> i | None \<Rightarrow> 0)"

definition add_peer :: "'a peers \<Rightarrow> machine_id list \<Rightarrow> nat \<Rightarrow> ('a \<times> machine_id) list \<Rightarrow> ('a \<times> machine_id) list" where
  "add_peer pe ids idx dests =
     (let i = ids ! (idx mod length ids) in
      case map_of (pe_peers pe) i of Some p \<Rightarrow> AList.update (peer_addr p) i dests | None \<Rightarrow> dests)"

definition ring_dests ::
  "'a chance \<Rightarrow> machine_id \<Rightarrow> 'a peers \<Rightarrow> machine_id list \<Rightarrow> ('a \<times> machine_id) list \<Rightarrow> ('a \<times> machine_id) list" where
  "ring_dests ch me pe ids dests =
     (if length ids > 1
      then (let myidx = next_index me ids in
            fold (\<lambda>k. add_peer pe ids (myidx + ch_range ch k 1 (length ids))) [0..<PACKETS_AT_ONCE - 1]
              (add_peer pe ids myidx dests))
      else dests)"

definition dests_for_path :: "'a chance \<Rightarrow> vpath \<Rightarrow> 'a gossip \<Rightarrow> ('a \<times> machine_id) list" where
  "dests_for_path ch p g =
     (let pe = go_peers g;
          d1 = watcher_dests p pe (pe_by_host pe) [];
          d2 = (case by_dir (vp_key_vpath p) (pe_configs pe) of
                  Some cpeers \<Rightarrow> ring_dests ch (go_machine_id g) pe (sorted_list_of_set cpeers) d1
                | None \<Rightarrow> d1)
      in if length d2 < PACKETS_AT_ONCE
         then fold (\<lambda>(i, p). AList.update (peer_addr p) i) (ch_sample ch PACKETS_AT_ONCE (pe_peers pe)) d2
         else d2)"

text \<open>Only messages that are sent through the queue have destinations; the others are \<^verbatim>\<open>unreachable!()\<close>.\<close>

fun dest_for_packet :: "'a chance \<Rightarrow> gossip_message \<Rightarrow> 'a gossip \<Rightarrow> (('a \<times> machine_id) list, unit) result" where
  "dest_for_packet ch (Reconcile p h w) g = Ok (dests_for_path ch p g)"
| "dest_for_packet ch (Downloading p i m s w) g = Ok (dests_for_path ch p g)"
| "dest_for_packet ch (Complete p i) g = Ok (dests_for_path ch p g)"
| "dest_for_packet ch (BaseDirs a b c d e) g = Panic"
| "dest_for_packet ch (ConfigSync ps) g = Panic"
| "dest_for_packet ch (CompleteAck p) g = Panic"

section \<open>Messages from the queue\<close>

definition watch_entry :: "vpath \<Rightarrow> machine_id \<Rightarrow> (vpath \<times> machine_id list) list \<Rightarrow> (vpath \<times> machine_id list) list" where
  "watch_entry p mid ws =
     AList.update p (List.insert mid (case map_of ws p of None \<Rightarrow> [] | Some ids \<Rightarrow> ids)) ws"

text \<open>The paths below \<open>p\<close> that a machine watches; \<^verbatim>\<open>hpath.parent()\<close> asserts that a path has a level.\<close>

fun fill_paths ::
  "vpath \<Rightarrow> machine_id \<Rightarrow> vpath list \<Rightarrow> (vpath \<times> machine_id list) list \<Rightarrow> ((vpath \<times> machine_id list) list, unit) result" where
  "fill_paths p mid [] ws = Ok ws"
| "fill_paths p mid (hpath # rest) ws =
     bind_result (expect (vp_parent hpath)) (\<lambda>par.
       fill_paths p mid rest (if par = p then watch_entry hpath mid ws else ws))"

fun fill_hosts ::
  "vpath \<Rightarrow> (machine_id \<times> host_data) list \<Rightarrow> (vpath \<times> machine_id list) list \<Rightarrow> ((vpath \<times> machine_id list) list, unit) result" where
  "fill_hosts p [] ws = Ok ws"
| "fill_hosts p ((mid, host) # rest) ws = bind_result (fill_paths p mid (ho_watching host) ws) (fill_hosts p rest)"

fun fill_msg :: "gossip_message \<Rightarrow> 'a gossip \<Rightarrow> (gossip_message, unit) result" where
  "fill_msg (Reconcile p h watches) g =
     bind_result (fill_hosts p (pe_by_host (go_peers g)) watches) (\<lambda>w1.
     bind_result (fill_paths p (go_machine_id g) (get_watching (go_tracking g)) w1) (\<lambda>w2.
       Ok (Reconcile p h w2)))"
| "fill_msg (Downloading p i m s watches) g =
     (let w1 = fold (\<lambda>(mid, host) w. if p \<in> set (ho_watching host) then List.insert mid w else w)
                 (pe_by_host (go_peers g)) watches;
          w2 = (if p \<in> set (get_watching (go_tracking g)) then List.insert (go_machine_id g) w1 else w1)
      in Ok (Downloading p i m s w2))"
| "fill_msg msg g = Ok msg"

definition write_message :: "'a chance \<Rightarrow> gossip_message \<Rightarrow> 'a gossip \<Rightarrow> ('a gossip, unit) result" where
  "write_message ch msg g =
     bind_result (dest_for_packet ch msg g) (\<lambda>dests.
     bind_result (fill_msg msg g) (\<lambda>m.
       Ok (fold (\<lambda>(addr, i). send_packet addr (Some i) m) dests g)))"

fun write_list :: "'a chance \<Rightarrow> gossip_message list \<Rightarrow> 'a gossip \<Rightarrow> ('a gossip, unit) result" where
  "write_list ch [] g = Ok g"
| "write_list ch (msg # rest) g = bind_result (write_message ch msg g) (write_list ch rest)"

text \<open>\<^verbatim>\<open>write_messages\<close> empties the queue.\<close>

definition write_messages :: "'a chance \<Rightarrow> 'a gossip \<Rightarrow> ('a gossip, unit) result" where
  "write_messages ch g =
     write_list ch (pe_messages (go_peers g)) (with_tracking (with_peers (\<lambda>pe. pe\<lparr>pe_messages := []\<rparr>)) g)"

section \<open>What is announced every second\<close>

fun pick_dirs :: "(nat \<Rightarrow> nat \<Rightarrow> nat) \<Rightarrow> nat \<Rightarrow> 'a tracking \<Rightarrow> (vpath \<times> hash) list" where
  "pick_dirs rnd 0 tr = []"
| "pick_dirs rnd (Suc k) tr =
     (case pick_random_dir (rnd k) tr of None \<Rightarrow> [] | Some (p, h) \<Rightarrow> AList.update p h (pick_dirs rnd k tr))"

definition send_gossip ::
  "'a chance \<Rightarrow> (vpath \<times> short_progress) list \<Rightarrow> (vpath \<times> image_id) list \<Rightarrow> vpath list \<Rightarrow> (vpath \<times> image_id) list \<Rightarrow>
     'a \<Rightarrow> machine_id option \<Rightarrow> 'a gossip \<Rightarrow> 'a gossip" where
  "send_gossip ch in_progress complete watching deleted addr i g =
     send_packet addr i (BaseDirs (map (\<lambda>(k, s). (k, sp_image_id s, sp_mask s, sp_source s, sp_stalled s)) in_progress)
       watching complete deleted (pick_dirs (ch_choice ch) MAX_BASE_DIRS (go_tracking g))) g"

text \<open>The known hosts that watch something complete.\<close>

definition waiting_hosts :: "(vpath \<times> image_id) list \<Rightarrow> 'a peers \<Rightarrow> (machine_id \<times> 'a peer) list" where
  "waiting_hosts complete pe = List.map_filter (\<lambda>(mid, hdata).
     if (\<exists>p \<in> set (ho_watching hdata). map_of complete p \<noteq> None)
     then map_option (\<lambda>peer. (mid, peer)) (map_of (pe_peers pe) mid) else None) (pe_by_host pe)"

definition send_gossips :: "'a chance \<Rightarrow> (vpath \<Rightarrow> image_check) \<Rightarrow> 'a gossip \<Rightarrow> 'a gossip" where
  "send_gossips ch check g =
     (let ipr = get_in_progress (go_tracking g);
          deleted = ch_deleted_keys ch (tr_recently_deleted (go_tracking g)) in
      case get_complete check (go_tracking g) of
        (complete, tr) \<Rightarrow>
          (let g1 = g\<lparr>go_tracking := tr\<rparr>;
               watching = get_watching tr;
               g2 = fold (\<lambda>(addr, _). send_gossip ch ipr complete watching deleted addr None) (go_future_peers g1) g1;
               lst = pe_peers (go_peers g2);
               h1 = (if complete \<noteq> [] then waiting_hosts complete (go_peers g2) else []);
               h2 = (if length h1 > PACKETS_AT_ONCE then ch_sample ch PACKETS_AT_ONCE h1 else h1);
               hosts = fold (\<lambda>(i, p). AList.update i p) (ch_sample ch PACKETS_AT_ONCE lst) h2
           in fold (\<lambda>(i, host). send_gossip ch ipr complete watching deleted (peer_addr host) (Some i)) hosts g2))"

section \<open>Start\<close>

definition gossip_start ::
  "(vpath list \<Rightarrow> hash) \<Rightarrow> machine_id \<Rightarrow> string list \<Rightarrow> 'a tracking \<Rightarrow> ('a \<times> string) list \<Rightarrow> 'a gossip" where
  "gossip_start for_object mid keys tr future =
     (let cl = map (\<lambda>k. VPath k []) keys
      in \<lparr>go_tracking = tr, go_machine_id = mid, go_config_hash = for_object cl, go_config_list = cl,
          go_future_peers = future, go_sent = []\<rparr>)"

end
