(* ===== verification/Gossip_Delivery.thy ===== *)
theory Gossip_Delivery
  imports Gossip
begin

text \<open>
  What the gossip protocol guarantees: a daemon never takes itself for a peer, who receives a message,
  that the order of machine ids leads a message to every machine, and a packet that brings a daemon down.
\<close>

section \<open>A daemon is not its own peer\<close>

definition own_id_unknown :: "'a gossip \<Rightarrow> bool" where
  "own_id_unknown g \<longleftrightarrow> (let me = go_machine_id g; pe = go_peers g in
     me \<notin> fst ` set (pe_by_host pe) \<and> cm_forward (pe_configs pe) me = None \<and>
     (\<forall>p ids. by_dir p (pe_configs pe) = Some ids \<longrightarrow> me \<notin> ids))"

text \<open>
  Steps of the protocol, and of the rest of the daemon, which leaves the two tables that only the protocol
  writes as they are.
\<close>

inductive gossip_step :: "(vpath list \<Rightarrow> hash) \<Rightarrow> 'a gossip \<Rightarrow> 'a gossip \<Rightarrow> bool" for for_object where
  receive: "handle_packet for_object now addr pkt g = Ok g' \<Longrightarrow> gossip_step for_object g g'"
| write_queue: "write_messages ch g = Ok g' \<Longrightarrow> gossip_step for_object g g'"
| tick: "gossip_step for_object g (send_gossips ch check g)"
| others: "pe_by_host (tr_peers tr) = pe_by_host (go_peers g) \<Longrightarrow> pe_configs (tr_peers tr) = pe_configs (go_peers g) \<Longrightarrow>
    gossip_step for_object g (g\<lparr>go_tracking := tr\<rparr>)"

definition gossip_init :: "(vpath list \<Rightarrow> hash) \<Rightarrow> 'a gossip \<Rightarrow> bool" where
  "gossip_init for_object g \<longleftrightarrow> (\<exists>mid keys tr future. g = gossip_start for_object mid keys tr future \<and>
     pe_by_host (tr_peers tr) = [] \<and> pe_configs (tr_peers tr) = config_map_new)"

text \<open>The part of the state that the invariant is about.\<close>

definition tables :: "'a gossip \<Rightarrow> machine_id \<times> (machine_id \<times> host_data) list \<times> config_map" where
  "tables g = (go_machine_id g, pe_by_host (go_peers g), pe_configs (go_peers g))"

lemma own_id_unknown_tables: "tables g' = tables g \<Longrightarrow> own_id_unknown g \<Longrightarrow> own_id_unknown g'"
  by (simp add: tables_def own_id_unknown_def Let_def)

lemma tables_with_tracking:
  "(\<And>tr. pe_by_host (tr_peers (f tr)) = pe_by_host (tr_peers tr) \<and> pe_configs (tr_peers (f tr)) = pe_configs (tr_peers tr)) \<Longrightarrow>
     tables (with_tracking f g) = tables g"
  by (simp add: tables_def with_tracking_def go_peers_def)

lemma tables_send [simp]: "tables (send_packet addr i m g) = tables g"
  by (simp add: tables_def send_packet_def Let_def go_peers_def)

lemma tables_fold: "(\<And>x g. tables (f x g) = tables g) \<Longrightarrow> tables (fold f xs g) = tables g"
  by (induction xs arbitrary: g) auto

lemma tables_meet [simp]: "tables (meet_future_peer addr mid g) = tables g"
  by (auto simp: tables_def meet_future_peer_def with_tracking_def go_peers_def with_peers_def split: option.splits)

lemma tables_config [simp]: "tables (send_config addr i g) = tables g"
  by (simp add: send_config_def)

lemma tables_forward [simp]: "tables (forward_complete addr mid peer pi g) = tables g"
  by (auto simp: forward_complete_def complete_ack_def with_remote_def intro: tables_with_tracking split: prod.splits)

lemma tables_forwards [simp]: "tables (forward_completes addr mid pis g) = tables g"
  by (auto simp: forward_completes_def intro: tables_fold split: option.splits)

lemma tables_check_watched [simp]: "tables (with_tracking (check_watched ps) g) = tables g"
proof (rule tables_with_tracking)
  show "pe_by_host (tr_peers (check_watched ps tr)) = pe_by_host (tr_peers tr) \<and>
      pe_configs (tr_peers (check_watched ps tr)) = pe_configs (tr_peers tr)" for tr :: "'a tracking"
    by (induction ps arbitrary: tr) auto
qed

lemma reconcile_dir_peers: "reconcile_dir now p h addr mid tr = Ok tr' \<Longrightarrow> tr_peers tr' = tr_peers tr"
  by (auto simp: reconcile_dir_def send_command_def split: if_splits option.splits)

lemma reconcile_all_peers: "reconcile_all now addr mid xs tr = Ok tr' \<Longrightarrow> tr_peers tr' = tr_peers tr"
proof (induction xs arbitrary: tr)
  case (Cons x xs)
  then show ?case by (cases x) (auto dest!: reconcile_dir_peers)
qed simp

lemma tables_with_hosts [simp]:
  "tables (with_hosts f g) = (go_machine_id g, f (pe_by_host (go_peers g)), pe_configs (go_peers g))"
  by (simp add: tables_def with_hosts_def with_tracking_def with_peers_def go_peers_def)

lemma own_id_unknown_hosts:
  assumes "own_id_unknown g" "tables g' = (go_machine_id g, hosts, pe_configs (go_peers g))"
    "go_machine_id g \<notin> fst ` set hosts"
  shows "own_id_unknown g'"
  using assms by (auto simp: tables_def own_id_unknown_def Let_def)

lemma host_entry_keys: "fst ` set (host_entry mid f hosts) = insert mid (fst ` set hosts)"
  by (simp add: host_entry_def dom_update)

lemma add_watches_keys: "me \<notin> fst ` set hosts \<Longrightarrow> me \<notin> fst ` set (add_watches me p mids hosts)"
  unfolding add_watches_def by (induction mids arbitrary: hosts) (auto simp: host_entry_keys)

lemma add_all_watches_keys:
  "me \<notin> fst ` set hosts \<Longrightarrow> me \<notin> fst ` set (fold (\<lambda>(wpath, ids). add_watches me wpath ids) ws hosts)"
proof (induction ws arbitrary: hosts)
  case (Cons w ws)
  then show ?case using add_watches_keys by (cases w) simp
qed simp

lemma config_set_other:
  assumes "config_map_set for_object mid paths cm = Ok cm'" "me \<noteq> mid" "cm_forward cm me = None"
    "\<forall>p ids. by_dir p cm = Some ids \<longrightarrow> me \<notin> ids"
  shows "cm_forward cm' me = None \<and> (\<forall>p ids. by_dir p cm' = Some ids \<longrightarrow> me \<notin> ids)"
proof -
  have add: "\<forall>p ids. add_machine mid ps b p = Some ids \<longrightarrow> me \<notin> ids" if "\<forall>p ids. b p = Some ids \<longrightarrow> me \<notin> ids" for ps b
    using that
  proof (induction ps arbitrary: b)
    case (Cons q ps)
    have "\<forall>p ids. map_entry_update q {} (insert mid) b p = Some ids \<longrightarrow> me \<notin> ids"
      using Cons.prems assms(2) by (auto simp: map_entry_update_def split: option.splits)
    then show ?case using Cons.IH by simp
  qed simp
  have drop: "\<forall>p ids. b' p = Some ids \<longrightarrow> me \<notin> ids"
    if "drop_machine mid configs ps b = Ok b'" "\<forall>p ids. b p = Some ids \<longrightarrow> me \<notin> ids" for configs ps b b'
    using that
  proof (induction ps arbitrary: b)
    case (Cons q ps)
    show ?case
    proof (cases "q \<in> set configs")
      case False
      then obtain ids where ids: "b q = Some ids" using Cons.prems(1) by (auto split: option.splits)
      define c where "c = (if ids - {mid} = {} then b(q := None) else b(q \<mapsto> ids - {mid}))"
      have "\<forall>p ids. c p = Some ids \<longrightarrow> me \<notin> ids" using Cons.prems(2) ids by (auto simp: c_def)
      moreover have "drop_machine mid configs ps c = Ok b'"
        using Cons.prems(1) False ids by (simp add: c_def Let_def)
      ultimately show ?thesis by (rule Cons.IH [rotated])
    qed (use Cons in simp)
  qed simp
  show ?thesis
  proof (cases "cm_forward cm mid")
    case None
    then show ?thesis using assms add [of "cm_backward cm" paths] by (auto simp: config_map_set_def by_dir_def Let_def)
  next
    case (Some info)
    show ?thesis
    proof (cases "hi_hash info = for_object paths")
      case False
      then obtain b where "drop_machine mid paths (hi_configs info) (cm_backward cm) = Ok b"
          "cm' = cm\<lparr>cm_backward := add_machine mid paths b,
             cm_forward := (cm_forward cm)(mid \<mapsto> \<lparr>hi_hash = for_object paths, hi_configs = paths\<rparr>)\<rparr>"
        using assms(1) Some by (auto simp: config_map_set_def Let_def)
      moreover from this have "\<forall>p ids. b p = Some ids \<longrightarrow> me \<notin> ids" using drop assms(4) by (simp add: by_dir_def)
      ultimately show ?thesis using add [of b paths] assms(2,3) by (simp add: by_dir_def)
    qed (use assms Some in \<open>simp add: config_map_set_def\<close>)
  qed
qed

lemma own_id_hosts [simp]: "own_id_unknown g \<Longrightarrow> go_machine_id g \<notin> fst ` set (pe_by_host (go_peers g))"
  by (simp add: own_id_unknown_def Let_def)

lemma tables_eq_iff:
  "tables g' = tables g \<longleftrightarrow> go_machine_id g' = go_machine_id g \<and>
     pe_by_host (go_peers g') = pe_by_host (go_peers g) \<and> pe_configs (go_peers g') = pe_configs (go_peers g)"
  by (auto simp: tables_def)

lemma own_id_with_hosts:
  assumes "own_id_unknown g" "tables g' = tables g" "go_machine_id g \<notin> fst ` set (f (pe_by_host (go_peers g)))"
  shows "own_id_unknown (with_hosts f g')"
  using assms(2,3) by (intro own_id_unknown_hosts [OF assms(1), of _ "f (pe_by_host (go_peers g))"]) (simp_all add: tables_eq_iff)

lemma handle_message_own_id:
  assumes own: "own_id_unknown g" and mid: "mid \<noteq> go_machine_id g"
    and ok: "handle_message for_object now addr mid msg g = Ok g'"
  shows "own_id_unknown g'"
proof (cases msg)
  case (BaseDirs ip w c d bd)
  obtain tr where tr: "reconcile_all now addr mid bd (go_tracking g) = Ok tr"
    and g': "g' = with_hosts (if ip = [] \<and> d = [] \<and> w = [] \<and> c = [] then AList.delete mid
       else AList.update mid \<lparr>ho_downloading = map downloading_of ip, ho_complete = c, ho_watching = w, ho_deleted = d\<rparr>)
       (with_tracking (check_watched w) (forward_completes addr mid c (g\<lparr>go_tracking := tr\<rparr>)))"
    using ok BaseDirs by (auto simp: Let_def)
  have "tables (g\<lparr>go_tracking := tr\<rparr>) = tables g" by (simp add: tables_def go_peers_def reconcile_all_peers [OF tr])
  moreover have "go_machine_id g \<notin> fst ` set (AList.delete mid (pe_by_host (go_peers g)))"
    using own_id_hosts [OF own] by (force simp: AList.delete_eq)
  ultimately show ?thesis unfolding g' using mid own
    by (intro own_id_with_hosts [OF own]) (simp_all add: dom_update)
next
  case (Downloading p img m source watches)
  define g1 where "g1 = with_hosts (host_entry mid (\<lambda>h. h\<lparr>ho_downloading := AList.update p
      \<lparr>hd_image = img, hd_mask = m, hd_source = source, hd_stalled = False\<rparr> (ho_downloading h)\<rparr>)) g"
  have g': "g' = with_hosts (add_watches (go_machine_id g) p watches) (with_tracking (check_watched [p]) g1)"
    using ok Downloading by (simp add: g1_def Let_def)
  have g1: "own_id_unknown g1" "go_machine_id g1 = go_machine_id g"
    unfolding g1_def using mid own
    by (intro own_id_with_hosts [OF own refl], simp add: host_entry_keys) (simp add: with_hosts_def with_tracking_def)
  show ?thesis unfolding g'
    by (rule own_id_with_hosts [OF g1(1)], simp) (metis add_watches_keys g1 own_id_hosts)
next
  case (Reconcile p h watches)
  then obtain tr where tr: "reconcile_dir now p h addr mid (go_tracking g) = Ok tr"
    and g': "g' = with_hosts (fold (\<lambda>(wpath, ids). add_watches (go_machine_id g) wpath ids) watches) (g\<lparr>go_tracking := tr\<rparr>)"
    using ok by auto
  have "tables (g\<lparr>go_tracking := tr\<rparr>) = tables g" by (simp add: tables_def go_peers_def reconcile_dir_peers [OF tr])
  then show ?thesis unfolding g' using own by (intro own_id_with_hosts [OF own] add_all_watches_keys) simp_all
next
  case (Complete p img)
  then have "tables g' = tables (with_hosts (host_entry mid (\<lambda>h. h\<lparr>ho_downloading := AList.delete p (ho_downloading h),
      ho_complete := AList.update p img (ho_complete h)\<rparr>)) g)" using ok by auto
  then show ?thesis
    by (rule own_id_unknown_tables) (use own mid in \<open>simp add: host_entry_keys own_id_with_hosts [OF own refl]\<close>)
next
  case (CompleteAck p)
  define f where "f = (\<lambda>hosts :: (machine_id \<times> host_data) list. case map_of hosts mid of None \<Rightarrow> hosts
       | Some h \<Rightarrow> AList.update mid (h\<lparr>ho_watching := removeAll p (ho_watching h)\<rparr>) hosts)"
  have "go_machine_id g \<notin> fst ` set (f (pe_by_host (go_peers g)))"
    using own mid by (simp add: f_def dom_update split: option.splits)
  moreover have "g' = with_hosts f g" using ok CompleteAck by (simp add: f_def)
  ultimately show ?thesis using own_id_with_hosts [OF own refl] by simp
next
  case (ConfigSync paths)
  then obtain cm where cm: "config_map_set for_object mid paths (pe_configs (go_peers g)) = Ok cm"
    and g': "g' = with_tracking (with_peers (\<lambda>pe. pe\<lparr>pe_configs := cm\<rparr>)) g" using ok by auto
  have "tables g' = (go_machine_id g, pe_by_host (go_peers g), cm)"
    by (simp add: g' tables_def go_peers_def with_tracking_def with_peers_def)
  moreover have "cm_forward cm (go_machine_id g) = None \<and> (\<forall>p ids. by_dir p cm = Some ids \<longrightarrow> go_machine_id g \<notin> ids)"
    by (rule config_set_other [OF cm mid [symmetric]]) (use own in \<open>simp_all add: own_id_unknown_def Let_def\<close>)
  ultimately show ?thesis using own by (simp add: own_id_unknown_def Let_def tables_def)
qed

lemma handle_packet_own_id:
  assumes "own_id_unknown g" "handle_packet for_object now addr pkt g = Ok g'"
  shows "own_id_unknown g'"
proof (cases "pk_machine_id pkt = go_machine_id g")
  case False
  let ?g1 = "meet_future_peer addr (pk_machine_id pkt) g"
  define g2 where "g2 = (if pk_your_config pkt \<noteq> Some (go_config_hash ?g1) then send_config addr (pk_machine_id pkt) ?g1 else ?g1)"
  have t: "tables g2 = tables g" by (simp add: g2_def)
  have "handle_message for_object now addr (pk_machine_id pkt) (pk_message pkt) g2 = Ok g'"
    using assms(2) False by (simp add: handle_packet_def Let_def g2_def)
  with handle_message_own_id [of g2] own_id_unknown_tables [OF t assms(1)] t False show ?thesis
    by (simp add: tables_eq_iff)
qed (use assms in \<open>simp add: handle_packet_def\<close>)

lemma tables_write_list: "write_list ch msgs g = Ok g' \<Longrightarrow> tables g' = tables g"
proof (induction msgs arbitrary: g)
  case (Cons m ms)
  have "tables (fold (\<lambda>(addr, i). send_packet addr (Some i) x) ds g) = tables g" for x ds by (rule tables_fold) auto
  then show ?case using Cons by (auto simp: write_message_def)
qed simp

lemma tables_write_messages: "write_messages ch g = Ok g' \<Longrightarrow> tables g' = tables g"
  unfolding write_messages_def
  by (drule tables_write_list) (simp add: tables_with_tracking with_peers_def)

lemma poll_watched_list_tables:
  "pe_by_host (snd (poll_watched_list check ws pe)) = pe_by_host pe \<and> pe_configs (snd (poll_watched_list check ws pe)) = pe_configs pe"
  by (induction check ws pe rule: poll_watched_list.induct)
    (auto simp: notify_complete_def send_message_def split: prod.splits image_check.splits)

lemma tables_send_gossips: "tables (send_gossips ch check g) = tables g"
proof -
  define tr where "tr = snd (get_complete check (go_tracking g))"
  have t: "tables (g\<lparr>go_tracking := tr\<rparr>) = tables g"
    using poll_watched_list_tables [of check "tr_watched (go_tracking g)" "tr_peers (go_tracking g)"]
    by (auto simp: tr_def tables_def go_peers_def get_complete_def Let_def poll_watched_def split: prod.splits)
  show ?thesis
    unfolding send_gossips_def Let_def t [symmetric] tr_def
    by (auto split: prod.splits simp: send_gossip_def intro!: trans [OF tables_fold tables_fold])
qed

interpretation protocol: invariant_system "gossip_init for_object" "gossip_step for_object" own_id_unknown
  for for_object :: "vpath list \<Rightarrow> hash"
proof
  show "own_id_unknown g" if "gossip_init for_object g" for g :: "'a gossip"
    using that by (auto simp: gossip_init_def own_id_unknown_def gossip_start_def go_peers_def Let_def config_map_new_def by_dir_def)
  show "own_id_unknown g'" if own: "own_id_unknown g" and step: "gossip_step for_object g g'" for g g' :: "'a gossip"
    using step
  proof cases
    case (others tr)
    then have "tables g' = tables g" by (simp add: tables_def go_peers_def)
    then show ?thesis using own by (rule own_id_unknown_tables)
  qed (use own in \<open>auto intro: handle_packet_own_id own_id_unknown_tables tables_write_messages tables_send_gossips\<close>)
qed

text \<open>
  A daemon never takes itself for a peer. In every reachable state of the protocol, whatever packets
  were received, forged ones with our own id or with ourselves among the watchers included, the daemon's own
  machine id has no entry among the hosts whose progress is known and is not among the machines that serve any directory; so it
  neither waits for itself nor counts itself when it decides that a download is stalled everywhere.
\<close>

theorem own_id_never_peer:
  assumes "reachable (gossip_init for_object) (gossip_step for_object) g"
  shows "map_of (pe_by_host (go_peers g)) (go_machine_id g) = None \<and>
    config_map_get (go_machine_id g) (pe_configs (go_peers g)) = None \<and>
    (\<forall>p ids. by_dir p (pe_configs (go_peers g)) = Some ids \<longrightarrow> go_machine_id g \<notin> ids)"
  using protocol.reachable_inv [OF assms]
  by (simp add: own_id_unknown_def Let_def map_of_eq_None_iff config_map_get_def)

section \<open>Who receives a message\<close>

definition keys_of :: "('a \<times> 'b) list \<Rightarrow> 'a set" where
  "keys_of ds = fst ` set ds"

definition sound_dests :: "'a peers \<Rightarrow> ('a \<times> machine_id) list \<Rightarrow> bool" where
  "sound_dests pe ds \<longleftrightarrow> distinct (map fst ds) \<and>
     list_all (\<lambda>(a, i). map_option peer_addr (map_of (pe_peers pe) i) = Some a) ds"

lemma keys_of_update [simp]: "keys_of (AList.update k v ds) = insert k (keys_of ds)"
  by (simp add: keys_of_def dom_update)

lemma set_update_sub: "set (AList.update k v xs) \<subseteq> insert (k, v) (set xs)"
  by (induction xs) auto

lemma sound_update:
  "sound_dests pe ds \<Longrightarrow> map_of (pe_peers pe) i = Some peer \<Longrightarrow> sound_dests pe (AList.update (peer_addr peer) i ds)"
  unfolding sound_dests_def list_all_iff using set_update_sub [of "peer_addr peer" i ds] by (auto simp: distinct_update)

lemma watcher_dests_keys:
  "keys_of ds \<subseteq> keys_of (watcher_dests p pe hosts ds) \<and>
     (\<forall>hid hdat peer. (hid, hdat) \<in> set hosts \<and> p \<in> set (ho_watching hdat) \<and> map_of (pe_peers pe) hid = Some peer \<longrightarrow>
        peer_addr peer \<in> keys_of (watcher_dests p pe hosts ds))"
proof (induction p pe hosts ds rule: watcher_dests.induct)
  case (2 p pe hid hdata rest dests)
  let ?d = "if p \<in> set (ho_watching hdata)
     then (case map_of (pe_peers pe) hid of Some peer \<Rightarrow> AList.update (peer_addr peer) hid dests | None \<Rightarrow> dests) else dests"
  have "keys_of dests \<subseteq> keys_of ?d" by (auto split: option.splits)
  moreover have "peer_addr peer \<in> keys_of ?d" if "p \<in> set (ho_watching hdata)" "map_of (pe_peers pe) hid = Some peer" for peer
    using that by simp
  ultimately show ?case using 2 by auto
qed simp

lemma watcher_dests_sound: "sound_dests pe ds \<Longrightarrow> sound_dests pe (watcher_dests p pe hosts ds)"
  by (induction p pe hosts ds rule: watcher_dests.induct) (auto simp: sound_update split: option.splits)

lemma add_peer_keys: "keys_of ds \<subseteq> keys_of (add_peer pe ids k ds)"
  by (auto simp: add_peer_def Let_def split: option.splits)

lemma add_peer_sound: "sound_dests pe ds \<Longrightarrow> sound_dests pe (add_peer pe ids k ds)"
  by (auto simp: add_peer_def Let_def sound_update split: option.splits)

lemma fold_mono_keys: "(\<And>x ds. keys_of ds \<subseteq> keys_of (f x ds)) \<Longrightarrow> keys_of ds \<subseteq> keys_of (fold f xs ds)"
  by (induction xs arbitrary: ds) (simp, metis fold_simps(2) subset_trans)

lemma fold_keep: "(\<And>x ds. x \<in> set xs \<Longrightarrow> Q ds \<Longrightarrow> Q (f x ds)) \<Longrightarrow> Q ds \<Longrightarrow> Q (fold f xs ds)"
  by (induction xs arbitrary: ds) auto

text \<open>The machine after \<open>me\<close> in the order of ids, the first one after the last.\<close>

definition ring_next :: "machine_id \<Rightarrow> machine_id list \<Rightarrow> machine_id" where
  "ring_next me ids = ids ! (next_index me ids mod length ids)"

lemma add_peers_keys: "keys_of ds \<subseteq> keys_of (fold (\<lambda>j. add_peer pe ids (f j)) js ds)"
  by (rule fold_mono_keys) (rule add_peer_keys)

lemma ring_dests_keys: "keys_of ds \<subseteq> keys_of (ring_dests ch me pe ids ds)"
  unfolding ring_dests_def Let_def by (simp add: subset_trans [OF add_peer_keys add_peers_keys])

lemma ring_dests_next:
  assumes "length ids > 1" "map_of (pe_peers pe) (ring_next me ids) = Some peer"
  shows "peer_addr peer \<in> keys_of (ring_dests ch me pe ids ds)"
proof -
  have "peer_addr peer \<in> keys_of (add_peer pe ids (next_index me ids) ds)"
    using assms(2) by (simp add: add_peer_def ring_next_def Let_def)
  then show ?thesis using assms(1) unfolding ring_dests_def Let_def by (simp add: subsetD [OF add_peers_keys])
qed

lemma ring_dests_sound: "sound_dests pe ds \<Longrightarrow> sound_dests pe (ring_dests ch me pe ids ds)"
  unfolding ring_dests_def Let_def by (auto intro!: fold_keep [where Q = "sound_dests pe"] add_peer_sound)

text \<open>The same, without lists: the least id above ours, or the least of all when there is none.\<close>

definition next_machine :: "machine_id \<Rightarrow> machine_id set \<Rightarrow> machine_id" where
  "next_machine me ids = (if \<exists>x \<in> ids. me < x then Min {x \<in> ids. me < x} else Min ids)"

lemma position_SomeD: "position P xs = Some i \<Longrightarrow> i < length xs \<and> P (xs ! i) \<and> (\<forall>j < i. \<not> P (xs ! j))"
  by (induction xs arbitrary: i) (auto split: if_splits simp: less_Suc_eq_0_disj)

lemma position_None_iff: "position P xs = None \<longleftrightarrow> (\<forall>x \<in> set xs. \<not> P x)"
  by (induction xs) auto

lemma ring_next_machine:
  assumes "finite ids" "ids \<noteq> {}"
  shows "ring_next me (sorted_list_of_set ids) = next_machine me ids"
proof -
  let ?xs = "sorted_list_of_set ids"
  have sorted: "sorted ?xs" and set: "set ?xs = ids" and len: "length ?xs > 0"
    using assms by (simp_all add: card_gt_0_iff)
  show ?thesis
  proof (cases "position (\<lambda>x. x > me) ?xs")
    case None
    then have "\<not> (\<exists>x \<in> ids. me < x)" unfolding position_None_iff set by blast
    moreover have "Min ids = ?xs ! 0"
    proof (rule Min_eqI [OF assms(1)])
      show "?xs ! 0 \<in> ids" using nth_mem [OF len] set by simp
      show "?xs ! 0 \<le> y" if "y \<in> ids" for y
        using that sorted_nth_mono [OF sorted, of 0] set by (metis in_set_conv_nth le0)
    qed
    ultimately show ?thesis using None by (simp add: ring_next_def next_index_def next_machine_def)
  next
    case (Some i)
    have i: "i < length ?xs" "?xs ! i > me" "\<forall>j < i. \<not> ?xs ! j > me" using position_SomeD [OF Some] by auto
    have "Min {x \<in> ids. me < x} = ?xs ! i"
    proof (rule Min_eqI)
      show "finite {x \<in> ids. me < x}" using assms by simp
      show "?xs ! i \<in> {x \<in> ids. me < x}" using i set nth_mem [OF i(1)] by simp
      show "?xs ! i \<le> y" if y: "y \<in> {x \<in> ids. me < x}" for y
      proof -
        have "y \<in> set ?xs" using y set by simp
        then obtain j where j: "j < length ?xs" "?xs ! j = y" by (meson in_set_conv_nth)
        then have "\<not> j < i" using i(3) y by auto
        then show ?thesis using sorted_nth_mono [OF sorted, of i j] j by simp
      qed
    qed
    moreover have "\<exists>x \<in> ids. me < x" using i set nth_mem by metis
    ultimately show ?thesis using Some i(1) by (simp add: ring_next_def next_index_def next_machine_def)
  qed
qed

definition dests_before_sample :: "'a chance \<Rightarrow> vpath \<Rightarrow> 'a gossip \<Rightarrow> ('a \<times> machine_id) list" where
  "dests_before_sample ch p g =
     (case by_dir (vp_key_vpath p) (pe_configs (go_peers g)) of
        Some cpeers \<Rightarrow> ring_dests ch (go_machine_id g) (go_peers g) (sorted_list_of_set cpeers)
                         (watcher_dests p (go_peers g) (pe_by_host (go_peers g)) [])
      | None \<Rightarrow> watcher_dests p (go_peers g) (pe_by_host (go_peers g)) [])"

lemma dests_for_path_eq:
  "dests_for_path ch p g =
     (if length (dests_before_sample ch p g) < PACKETS_AT_ONCE
      then fold (\<lambda>(i, p). AList.update (peer_addr p) i) (ch_sample ch PACKETS_AT_ONCE (pe_peers (go_peers g)))
        (dests_before_sample ch p g)
      else dests_before_sample ch p g)"
  by (simp add: dests_for_path_def dests_before_sample_def Let_def)

lemma before_sample_keys: "keys_of (dests_before_sample ch p g) \<subseteq> keys_of (dests_for_path ch p g)"
  unfolding dests_for_path_eq by (auto intro!: subsetD [OF fold_mono_keys])

lemma before_sample_watchers:
  "(hid, hdat) \<in> set (pe_by_host (go_peers g)) \<Longrightarrow> p \<in> set (ho_watching hdat) \<Longrightarrow>
     map_of (pe_peers (go_peers g)) hid = Some peer \<Longrightarrow> peer_addr peer \<in> keys_of (dests_before_sample ch p g)"
  using watcher_dests_keys [of "[]" p "go_peers g" "pe_by_host (go_peers g)"]
  unfolding dests_before_sample_def by (auto split: option.splits intro!: subsetD [OF ring_dests_keys])

lemma before_sample_sound: "sound_dests (go_peers g) (dests_before_sample ch p g)"
proof -
  have "sound_dests (go_peers g) []" by (simp add: sound_dests_def)
  then show ?thesis
    unfolding dests_before_sample_def by (auto intro: ring_dests_sound watcher_dests_sound split: option.splits)
qed

lemma sample_sound:
  assumes "sound_dests pe ds" "set ips \<subseteq> set (pe_peers pe)" "distinct (map fst (pe_peers pe))"
  shows "sound_dests pe (fold (\<lambda>(i, p). AList.update (peer_addr p) i) ips ds)"
proof (rule fold_keep [where Q = "sound_dests pe"])
  fix ip ds assume "ip \<in> set ips" "sound_dests pe ds"
  then show "sound_dests pe ((case ip of (i, p) \<Rightarrow> AList.update (peer_addr p) i) ds)"
    using subsetD [OF assms(2)] assms(3) by (auto intro!: sound_update simp: map_of_eq_Some_iff split: prod.splits)
qed (rule assms(1))

lemma sample_keys: "keys_of (fold (\<lambda>(i, p). AList.update (peer_addr p) i) ips ds) = keys_of ds \<union> (\<lambda>(i, p). peer_addr p) ` set ips"
  by (induction ips arbitrary: ds) (auto split: prod.splits)

lemma length_keys: "distinct (map fst ds) \<Longrightarrow> length ds = card (keys_of ds)"
  by (metis distinct_card keys_of_def length_map list.set_map)

text \<open>
  Who receives a message about a path: every known machine that is known to watch the path; the next machine, in the order of
  ids, of those that have the directory configured, when it is known and there are at least two of them; nobody but
  known peers, each under its own address and once; and at least four machines, or all the known ones.
\<close>

theorem message_destinations:
  assumes msg: "msg = Reconcile p h w \<or> msg = Downloading p img m src ws \<or> msg = Complete p img"
    and sample: "set (ch_sample ch 4 (pe_peers (go_peers g))) \<subseteq> set (pe_peers (go_peers g))"
      "distinct (ch_sample ch 4 (pe_peers (go_peers g)))"
      "length (ch_sample ch 4 (pe_peers (go_peers g))) = min 4 (length (pe_peers (go_peers g)))"
    and peers: "distinct (map fst (pe_peers (go_peers g)))" "distinct (map (\<lambda>(i, p). peer_addr p) (pe_peers (go_peers g)))"
  shows "\<exists>ds. dest_for_packet ch msg g = Ok ds \<and> distinct (map fst ds) \<and>
    (\<forall>(a, i) \<in> set ds. map_option peer_addr (map_of (pe_peers (go_peers g)) i) = Some a) \<and>
    (\<forall>(hid, hdat) \<in> set (pe_by_host (go_peers g)). \<forall>peer.
       p \<in> set (ho_watching hdat) \<and> map_of (pe_peers (go_peers g)) hid = Some peer \<longrightarrow> peer_addr peer \<in> fst ` set ds) \<and>
    (\<forall>ids peer. by_dir (vp_key_vpath p) (pe_configs (go_peers g)) = Some ids \<and> card ids > 1 \<and>
       map_of (pe_peers (go_peers g)) (next_machine (go_machine_id g) ids) = Some peer \<longrightarrow> peer_addr peer \<in> fst ` set ds) \<and>
    min 4 (length (pe_peers (go_peers g))) \<le> length ds"
proof -
  define ds where "ds = dests_for_path ch p g"
  define smp where "smp = ch_sample ch 4 (pe_peers (go_peers g))"
  have ds_eq: "ds = (if length (dests_before_sample ch p g) < 4
      then fold (\<lambda>(i, p). AList.update (peer_addr p) i) smp (dests_before_sample ch p g) else dests_before_sample ch p g)"
    by (simp add: ds_def dests_for_path_eq smp_def PACKETS_AT_ONCE_def)
  have ok: "dest_for_packet ch msg g = Ok ds" using msg by (auto simp: ds_def)
  have sub: "keys_of (dests_before_sample ch p g) \<subseteq> fst ` set ds"
    using before_sample_keys [of ch p g] by (simp add: ds_def keys_of_def)
  have sound: "sound_dests (go_peers g) ds"
    unfolding ds_eq smp_def by (simp add: before_sample_sound sample_sound [OF before_sample_sound sample(1) peers(1)])
  have ring: "peer_addr peer \<in> fst ` set ds"
    if "by_dir (vp_key_vpath p) (pe_configs (go_peers g)) = Some ids" "card ids > 1"
      "map_of (pe_peers (go_peers g)) (next_machine (go_machine_id g) ids) = Some peer" for ids peer
  proof -
    have "finite ids" "ids \<noteq> {}" using that(2) by (auto intro: card_ge_0_finite)
    with that show ?thesis
      using ring_dests_next [of "sorted_list_of_set ids" "go_peers g" "go_machine_id g" peer] sub
      by (auto simp: dests_before_sample_def ring_next_machine)
  qed
  have "min 4 (length (pe_peers (go_peers g))) \<le> length ds"
  proof (cases "length (dests_before_sample ch p g) < 4")
    case True
    have "inj_on (\<lambda>(i, p). peer_addr p) (set (pe_peers (go_peers g)))" using peers(2) by (simp add: distinct_map)
    then have "card ((\<lambda>(i, p). peer_addr p) ` set smp) = length smp"
      using sample(1,2) by (metis card_image distinct_card inj_on_subset smp_def)
    moreover have "card ((\<lambda>(i, p). peer_addr p) ` set smp) \<le> card (keys_of ds)"
    proof (rule card_mono)
      show "finite (keys_of ds)" by (simp add: keys_of_def)
      show "(\<lambda>(i, p). peer_addr p) ` set smp \<subseteq> keys_of ds" unfolding ds_eq using True by (simp add: sample_keys)
    qed
    ultimately show ?thesis using sample(3) sound by (simp add: smp_def length_keys sound_dests_def)
  qed (simp add: ds_eq)
  with ok sound ring show ?thesis
    using before_sample_watchers [of _ _ g p _ ch] sub
    by (intro exI [of _ ds]) (fastforce simp: sound_dests_def list_all_iff)
qed

section \<open>The ring of machines\<close>

lemma position_append:
  "\<forall>x \<in> set xs. \<not> P x \<Longrightarrow> position P (xs @ ys) = map_option (\<lambda>i. length xs + i) (position P ys)"
  by (induction xs; cases "position P ys") auto

lemma ring_next_sorted:
  assumes sorted: "sorted_wrt (<) xs" and i: "i < length xs" and n: "length xs > 1"
  shows "ring_next (xs ! i) (remove1 (xs ! i) xs) = xs ! (Suc i mod length xs)"
proof -
  let ?m = "xs ! i" and ?a = "take i xs" and ?b = "drop (Suc i) xs"
  have xs: "xs = ?a @ ?m # ?b" using i by (rule id_take_nth_drop)
  have lo: "\<forall>x \<in> set ?a. x < ?m" and hi: "\<forall>x \<in> set ?b. ?m < x"
    using sorted by (subst (asm) xs, simp add: sorted_wrt_append)+
  then have "?m \<notin> set ?a" by auto
  then have ids: "remove1 ?m xs = ?a @ ?b" by (subst xs) (simp add: remove1_append)
  have len: "length (?a @ ?b) = length xs - 1" using i by simp
  show ?thesis
  proof (cases "Suc i < length xs")
    case True
    then obtain y ys where b: "?b = y # ys" by (metis drop_eq_Nil2 leD list.exhaust)
    have "position (\<lambda>x. x > ?m) (?a @ ?b) = Some i" using lo hi b i by (subst position_append) auto
    moreover have "(?a @ ?b) ! i = xs ! Suc i" using i True by (simp add: nth_append)
    ultimately show ?thesis using True len by (simp add: ring_next_def next_index_def ids)
  next
    case False
    then have last: "Suc i = length xs" "?b = []" using i by auto
    have "position (\<lambda>x. x > ?m) (?a @ ?b) = None" using lo last by (subst position_append) auto
    moreover have "(?a @ ?b) ! 0 = xs ! 0" using last n by (auto simp: nth_append)
    ultimately show ?thesis using last by (simp add: ring_next_def next_index_def ids)
  qed
qed

text \<open>The next machine of a group of machines that all know of each other.\<close>

definition ring_successor :: "machine_id set \<Rightarrow> machine_id \<Rightarrow> machine_id" where
  "ring_successor S m = ring_next m (sorted_list_of_set (S - {m}))"

lemma ring_successor_power:
  assumes "finite S" "card S > 1" "i < card S"
  shows "(ring_successor S ^^ k) (sorted_list_of_set S ! i) = sorted_list_of_set S ! ((i + k) mod card S)"
proof (induction k)
  case (Suc k)
  let ?xs = "sorted_list_of_set S" and ?j = "(i + k) mod card S"
  have len: "length ?xs = card S" by simp
  have j: "?j < length ?xs" using assms by simp
  have "ring_successor S (?xs ! ?j) = ?xs ! (Suc ?j mod card S)"
    using ring_next_sorted [OF strict_sorted_list_of_set j] assms
    by (simp add: ring_successor_def sorted_list_of_set_remove len)
  then show ?case using Suc by (simp add: mod_Suc_eq)
qed (use assms in simp)


section \<open>A packet that brings a daemon down\<close>

lemma fill_paths_panics: "q \<in> set ps \<Longrightarrow> vp_parent q = None \<Longrightarrow> fill_paths p mid ps ws = Panic"
proof (induction ps arbitrary: ws)
  case (Cons a ps)
  then show ?case by (cases "vp_parent a") auto
qed simp

lemma fill_hosts_not_err: "fill_hosts p hosts ws \<noteq> Err e"
proof -
  have paths: "fill_paths p mid ps ws \<noteq> Err e" for mid ps ws
  proof (induction ps arbitrary: ws)
    case (Cons a ps)
    then show ?case by (cases "vp_parent a") auto
  qed simp
  show ?thesis
  proof (induction hosts arbitrary: ws)
    case (Cons h hosts)
    then show ?case using paths [of "fst h" "ho_watching (snd h)" ws]
      by (cases h; cases "fill_paths p (fst h) (ho_watching (snd h)) ws") auto
  qed simp
qed

lemma fill_hosts_panics:
  "(mid, h) \<in> set hosts \<Longrightarrow> q \<in> set (ho_watching h) \<Longrightarrow> vp_parent q = None \<Longrightarrow> fill_hosts p hosts ws = Panic"
proof (induction hosts arbitrary: ws)
  case (Cons x hosts)
  obtain i hx where x: "x = (i, hx)" by (cases x)
  show ?case
  proof (cases "x = (mid, h)")
    case False
    then have "fill_hosts p hosts w = Panic" for w using Cons by auto
    then show ?thesis using fill_hosts_not_err [of p "x # hosts" ws] by (cases "fill_paths p i (ho_watching hx) ws") (auto simp: x)
  qed (use Cons.prems fill_paths_panics in \<open>simp add: fill_paths_panics\<close>)
qed simp

lemma host_entry_lookup: "map_of (host_entry mid f hosts) i =
    (if i = mid then Some (f (case map_of hosts mid of None \<Rightarrow> host_data_new | Some h \<Rightarrow> h)) else map_of hosts i)"
  by (simp add: host_entry_def update_conv')

lemma add_watches_lookup:
  "x \<in> set mids \<or> (\<exists>h. map_of hosts x = Some h \<and> p \<in> set (ho_watching h)) \<Longrightarrow> x \<noteq> me \<Longrightarrow>
     \<exists>h. map_of (add_watches me p mids hosts) x = Some h \<and> p \<in> set (ho_watching h)"
  unfolding add_watches_def
proof (induction mids arbitrary: hosts)
  case (Cons m mids)
  let ?h = "if m = me then hosts else host_entry m (host_watch p) hosts"
  have "x \<in> set mids \<or> (\<exists>h. map_of ?h x = Some h \<and> p \<in> set (ho_watching h))"
    using Cons.prems by (auto simp: host_entry_lookup host_watch_def)
  then show ?case using Cons.IH [of ?h] Cons.prems(2) by simp
qed simp

text \<open>
  A packet that brings a daemon down. A report of a download whose path is only the key of a directory, with
  any other machine among its watchers, is accepted; from then on any announcement of a directory makes
  the daemon panic, since it takes the parent of every watched path it has heard of.
\<close>

theorem key_path_watch_panics:
  assumes "pk_machine_id pkt \<noteq> go_machine_id g"
    and "pk_message pkt = Downloading p img m src watches" "vp_parent p = None"
    and "x \<in> set watches" "x \<noteq> go_machine_id g"
  shows "\<exists>g'. handle_packet for_object now addr pkt g = Ok g' \<and>
    (\<forall>q h w ch. write_message ch (Reconcile q h w) g' = Panic)"
proof -
  let ?g1 = "meet_future_peer addr (pk_machine_id pkt) g"
  define g2 where "g2 = (if pk_your_config pkt \<noteq> Some (go_config_hash ?g1) then send_config addr (pk_machine_id pkt) ?g1 else ?g1)"
  have "tables g2 = tables g" by (simp add: g2_def)
  then have me: "go_machine_id g2 = go_machine_id g" by (simp add: tables_def)
  define g3 where "g3 = with_tracking (check_watched [p]) (with_hosts (host_entry (pk_machine_id pkt) (\<lambda>h. h\<lparr>ho_downloading :=
      AList.update p \<lparr>hd_image = img, hd_mask = m, hd_source = src, hd_stalled = False\<rparr> (ho_downloading h)\<rparr>)) g2)"
  define g' where "g' = with_hosts (add_watches (go_machine_id g) p watches) g3"
  have ok: "handle_packet for_object now addr pkt g = Ok g'"
    using assms(1,2) me by (simp add: handle_packet_def Let_def g2_def [symmetric] g3_def g'_def)
  have "tables g' = (go_machine_id g3, add_watches (go_machine_id g) p watches (pe_by_host (go_peers g3)), pe_configs (go_peers g3))"
    by (simp add: g'_def)
  then have "pe_by_host (go_peers g') = add_watches (go_machine_id g) p watches (pe_by_host (go_peers g3))"
    by (simp add: tables_def)
  then obtain h where "map_of (pe_by_host (go_peers g')) x = Some h" "p \<in> set (ho_watching h)"
    using add_watches_lookup [of x watches "pe_by_host (go_peers g3)" p "go_machine_id g"] assms(4,5) by auto
  then have "fill_hosts q (pe_by_host (go_peers g')) w = Panic" for q w
    using fill_hosts_panics [OF map_of_SomeD _ assms(3)] by blast
  then show ?thesis using ok by (auto simp: write_message_def)
qed

section \<open>Examples\<close>

definition demo_peer :: "nat \<Rightarrow> nat peer" where
  "demo_peer k = \<lparr>peer_id = MachineId [of_nat k], peer_addr = k, peer_hostname = [], peer_name = []\<rparr>"

text \<open>A daemon with the id 1 that knows two others; the one with the id 3 watches \<^verbatim>\<open>/k/a\<close>.\<close>

definition demo_gossip :: "nat gossip" where
  "demo_gossip = gossip_start (\<lambda>_. Hash [1]) (MachineId [1]) [''k'']
     (tracking_new \<lparr>cf_machine_id = MachineId [1], cf_hostname = [], cf_port = 0,
        cf_aggressive_index_gc = False, cf_dirs = Map.empty\<rparr> 0 0 (remote_new [] (MachineId [1]))
        (peers_new\<lparr>pe_peers := [(MachineId [2], demo_peer 2), (MachineId [3], demo_peer 3)]\<rparr>)) []"

definition demo_packet :: "vpath \<Rightarrow> packet" where
  "demo_packet p = \<lparr>pk_machine_id = MachineId [2], pk_your_config = Some (Hash [1]),
     pk_message = Downloading p (Other [1]) (Mask 0) True [MachineId [3], MachineId [1]]\<rparr>"

definition demo_watched :: "nat gossip" where
  "demo_watched = (case handle_packet (\<lambda>_. Hash [1]) 5 2 (demo_packet (VPath ''k'' [''a''])) demo_gossip of Ok g \<Rightarrow> g | _ \<Rightarrow> demo_gossip)"

definition demo_chance :: "nat chance" where
  "demo_chance = \<lparr>ch_range = (\<lambda>k lo hi. lo), ch_sample = take, ch_choice = (\<lambda>_ _. 0), ch_deleted_keys = (\<lambda>_. [])\<rparr>"

lemmas demo_gossip_eval = demo_gossip_def gossip_start_def tracking_new_def peers_new_def demo_packet_def
  handle_packet_def meet_future_peer_def with_hosts_def with_tracking_def with_peers_def go_peers_def host_entry_def
  add_watches_def host_watch_def host_data_new_def is_valid_destination_def

lemma demo_watched_state:
  "handle_packet (\<lambda>_. Hash [1]) 5 2 (demo_packet (VPath ''k'' [''a''])) demo_gossip = Ok demo_watched"
  "go_machine_id demo_watched = MachineId [1]"
  "pe_peers (go_peers demo_watched) = [(MachineId [2], demo_peer 2), (MachineId [3], demo_peer 3)]"
  "map fst (pe_by_host (go_peers demo_watched)) = [MachineId [2], MachineId [3]]"
  "map (\<lambda>(i, h). ho_watching h) (pe_by_host (go_peers demo_watched)) = [[], [VPath ''k'' [''a'']]]"
  by (simp_all add: demo_watched_def demo_gossip_eval Let_def)

theorem own_id_never_peer_witness:
  "map fst (pe_by_host (go_peers demo_watched)) = [MachineId [2], MachineId [3]] \<and>
     map_of (pe_by_host (go_peers demo_watched)) (MachineId [1]) = None"
proof -
  have "reachable (gossip_init (\<lambda>_. Hash [1])) (gossip_step (\<lambda>_. Hash [1])) demo_gossip"
    by (rule reach_init) (simp add: gossip_init_def demo_gossip_def, intro exI conjI, rule refl,
      simp_all add: tracking_new_def peers_new_def)
  then have "reachable (gossip_init (\<lambda>_. Hash [1])) (gossip_step (\<lambda>_. Hash [1])) demo_watched"
    by (rule reach_step) (rule receive [OF demo_watched_state(1)])
  from own_id_never_peer [OF this] demo_watched_state show ?thesis by simp
qed

theorem message_destinations_witness:
  "\<exists>ds. dest_for_packet demo_chance (Complete (VPath ''k'' [''a'']) (Other [1])) demo_watched = Ok ds \<and>
     3 \<in> fst ` set ds \<and> length ds \<ge> 2"
proof -
  obtain h where h: "(MachineId [3], h) \<in> set (pe_by_host (go_peers demo_watched))" "ho_watching h = [VPath ''k'' [''a'']]"
    using demo_watched_state(4,5) by (cases "pe_by_host (go_peers demo_watched)"; cases "tl (pe_by_host (go_peers demo_watched))") auto
  have "\<exists>ds. dest_for_packet demo_chance (Complete (VPath ''k'' [''a'']) (Other [1])) demo_watched = Ok ds \<and>
      (\<forall>(hid, hdat) \<in> set (pe_by_host (go_peers demo_watched)). \<forall>peer. VPath ''k'' [''a''] \<in> set (ho_watching hdat) \<and>
         map_of (pe_peers (go_peers demo_watched)) hid = Some peer \<longrightarrow> peer_addr peer \<in> fst ` set ds) \<and>
      min 4 (length (pe_peers (go_peers demo_watched))) \<le> length ds"
    using message_destinations [of "Complete (VPath ''k'' [''a'']) (Other [1])" "VPath ''k'' [''a'']" undefined undefined
        "Other [1]" undefined undefined undefined demo_chance demo_watched]
    by (auto simp: demo_watched_state demo_chance_def demo_peer_def)
  then show ?thesis using h by (fastforce simp: demo_watched_state demo_peer_def)
qed


theorem key_path_watch_panics_witness:
  "\<exists>g'. handle_packet (\<lambda>_. Hash [1]) 5 2 (demo_packet (VPath ''k'' [])) demo_gossip = Ok g' \<and>
     write_message demo_chance (Reconcile (VPath ''k'' []) (Hash [4]) []) g' = Panic"
  using key_path_watch_panics [of "demo_packet (VPath ''k'' [])" demo_gossip "VPath ''k'' []" "Other [1]" "Mask 0" True
      "[MachineId [3], MachineId [1]]" "MachineId [3]" "\<lambda>_. Hash [1]" 5 2]
  by (auto simp: demo_packet_def demo_gossip_def gossip_start_def Let_def vp_parent_def)

end
