(* ===== verification/Rpc.thy ===== *)
theory Rpc
  imports Metadata_Scan Tracking
begin

text \<open>
  The requests a daemon answers (\<^verbatim>\<open>src/daemon/tracking/rpc.rs\<close>) and the frames it receives on a
  connection (\<^verbatim>\<open>frame\<close> of \<^verbatim>\<open>src/daemon/remote/websocket.rs\<close>), over the metadata store and the tracking
  subsystem. What a disk thread computes and what the continuation does with it is one step. The keep list
  is read by \<^verbatim>\<open>src/daemon/disk/public.rs\<close>; reading a block from the disk is a parameter.
\<close>

record ('s, 'a) daemon =
  da_meta :: "'s meta"
  da_tracking :: "'a tracking"

record ('s, 'b, 'm, 'i) rpc_env =
  re_meta :: "('s, 'b, 'm, 'i) meta_env"
  re_hashes :: hashes
  re_lines :: "string \<Rightarrow> io_kind + string option list"
  re_read_block :: "vpath \<Rightarrow> path \<Rightarrow> u64 \<Rightarrow> bool \<Rightarrow> (bytes, string) result"
  re_show :: "meta_error \<Rightarrow> string"

text \<open>An operation of the metadata store, and a change of the tracking subsystem, in the daemon.\<close>

definition on_meta :: "('s meta, 'x, meta_error) io \<Rightarrow> (('s, 'a) daemon, 'x, meta_error) io" where
  "on_meta m = (\<lambda>d. case m (da_meta d) of (r, s) \<Rightarrow> (r, d\<lparr>da_meta := s\<rparr>))"

definition on_tracking :: "('a tracking \<Rightarrow> ('a tracking, unit) result) \<Rightarrow> (('s, 'a) daemon, unit, 'e) io" where
  "on_tracking f = (\<lambda>d. case f (da_tracking d) of
      Ok tr \<Rightarrow> (Ok (), d\<lparr>da_tracking := tr\<rparr>)
    | _ \<Rightarrow> (Panic, d))"

definition da_servers :: "vpath \<Rightarrow> ('s, 'a) daemon \<Rightarrow> machine_id \<rightharpoonup> string" where
  "da_servers p d = servers_by_basedir (tr_peers (da_tracking d)) p"

definition da_config :: "('s, 'b, 'm, 'i) rpc_env \<Rightarrow> config" where
  "da_config env = me_config (re_meta env)"

text \<open>\<^verbatim>\<open>respond_with_future\<close>: an error becomes an error reply.\<close>

definition answer ::
  "('s, 'b, 'm, 'i) rpc_env \<Rightarrow> (('s, 'a) daemon, response, meta_error) io \<Rightarrow> (('s, 'a) daemon, response, unit) io" where
  "answer env m = (\<lambda>d. case m d of
      (Ok x, t) \<Rightarrow> (Ok x, t)
    | (Err e, t) \<Rightarrow> (Ok (ErrorResponse (re_show env e)), t)
    | (Panic, t) \<Rightarrow> (Panic, t))"

section \<open>Uploads\<close>

definition is_accepted :: "upload \<Rightarrow> bool" where
  "is_accepted r = (case r of Accepted _ \<Rightarrow> True | Rejected _ _ \<Rightarrow> False)"

definition reject_reason :: "upload \<Rightarrow> string option" where
  "reject_reason r = (case r of Rejected reason _ \<Rightarrow> Some reason | Accepted _ \<Rightarrow> None)"

definition upload_ack :: "upload \<Rightarrow> (machine_id \<rightharpoonup> string) \<Rightarrow> dir_ack" where
  "upload_ack r hosts = \<lparr>ack_accepted = is_accepted r, ack_reject_reason = reject_reason r, ack_hosts = hosts\<rparr>"

definition no_config_ack :: "(machine_id \<rightharpoonup> string) \<Rightarrow> dir_ack" where
  "no_config_ack hosts = \<lparr>ack_accepted = False, ack_reject_reason = Some ''no_config'', ack_hosts = hosts\<rparr>"

text \<open>What follows the decision of the metadata store.\<close>

fun after_append :: "vpath \<Rightarrow> image_id \<Rightarrow> upload \<Rightarrow> 'a tracking \<Rightarrow> ('a tracking, unit) result" where
  "after_append p img (Accepted New) tr = fetch_dir p img False tr"
| "after_append p img (Accepted AlreadyDone) tr = Ok (with_remote (notify_received_image img p) tr)"
| "after_append p img r tr = Ok tr"

fun after_replace :: "vpath \<Rightarrow> image_id \<Rightarrow> upload \<Rightarrow> 'a tracking \<Rightarrow> ('a tracking, unit) result" where
  "after_replace p img (Accepted New) tr = fetch_dir p img True tr"
| "after_replace p img (Accepted AlreadyDone) tr = Ok (with_remote (notify_received_image img p) tr)"
| "after_replace p img (Rejected reason (Some other)) tr =
     Ok (tr\<lparr>tr_watched := AList.update p (CompleteStatus other) (tr_watched tr)\<rparr>)"
| "after_replace p img r tr = Ok tr"

definition finish_upload ::
  "('s, 'b, 'm, 'i) rpc_env \<Rightarrow> (dir_ack \<Rightarrow> response) \<Rightarrow> vpath \<Rightarrow> ('s meta, upload, meta_error) io \<Rightarrow>
     (upload \<Rightarrow> 'a tracking \<Rightarrow> ('a tracking, unit) result) \<Rightarrow> (('s, 'a) daemon, response, unit) io" where
  "finish_upload env ack p m after =
     (if cf_dirs (da_config env) (vp_key p) = None
      then bind_io (ret (expect (vp_parent p))) (\<lambda>par. (\<lambda>d. (Ok (ack (no_config_ack (da_servers par d))), d)))
      else answer env
        (bind_io (on_meta m) (\<lambda>r.
         bind_io (ret (expect (vp_parent p))) (\<lambda>par.
         bind_io (on_tracking (after r)) (\<lambda>_. (\<lambda>d. (Ok (ack (upload_ack r (da_servers par d))), d)))))))"

definition rpc_append_dir :: "('s, 'b, 'm, 'i) rpc_env \<Rightarrow> append_dir \<Rightarrow> (('s, 'a) daemon, response, unit) io" where
  "rpc_append_dir env cmd =
     finish_upload env AppendDirAck (ad_path cmd) (start_append (re_meta env) cmd) (after_append (ad_path cmd) (ad_image cmd))"

definition rpc_replace_dir :: "('s, 'b, 'm, 'i) rpc_env \<Rightarrow> replace_dir \<Rightarrow> (('s, 'a) daemon, response, unit) io" where
  "rpc_replace_dir env cmd =
     finish_upload env ReplaceDirAck (rd_path cmd) (start_replace (re_meta env) cmd) (after_replace (rd_path cmd) (rd_image cmd))"

section \<open>Blocks and indexes\<close>

definition path_is_absolute :: "path \<Rightarrow> bool" where
  "path_is_absolute p \<longleftrightarrow> (\<exists>r. p = RootDir # r)"

definition path_has_file_name :: "path \<Rightarrow> bool" where
  "path_has_file_name p \<longleftrightarrow> p \<noteq> [] \<and> (\<exists>n. last p = Normal n)"

fun block_hint ::
  "('s, 'b, 'm, 'i) rpc_env \<Rightarrow> (vpath \<times> string \<times> u64) option \<Rightarrow> (('s, 'a) daemon, response, unit) io" where
  "block_hint env None = ret (Ok (ErrorResponse ''Hint is required for fetching blocks from server''))"
| "block_hint env (Some (v, text, offset)) =
     (let p = components text in
      if \<not> path_has_file_name p then ret (Ok (ErrorResponse ''Path must have at least one component''))
      else if \<not> path_is_absolute p then ret (Ok (ErrorResponse ''Path must be absolute''))
      else answer env (bind_io (on_meta (is_writing v)) (\<lambda>writing.
        case re_read_block env v p offset writing of
          Ok data \<Rightarrow> ret (Ok (GetBlockResponse data))
        | Err e \<Rightarrow> ret (Ok (ErrorResponse e))
        | Panic \<Rightarrow> ret Panic)))"

definition rpc_get_block :: "('s, 'b, 'm, 'i) rpc_env \<Rightarrow> get_block \<Rightarrow> (('s, 'a) daemon, response, unit) io" where
  "rpc_get_block env cmd = block_hint env (gb_hint cmd)"

definition rpc_get_index :: "('s, 'b, 'm, 'i) rpc_env \<Rightarrow> get_index \<Rightarrow> (('s, 'a) daemon, response, unit) io" where
  "rpc_get_index env cmd =
     answer env (bind_io (on_meta (read_bytes (re_meta env) (gi_id cmd))) (\<lambda>val. ret (Ok (GetIndexResponse val))))"

definition rpc_get_index_at :: "('s, 'b, 'm, 'i) rpc_env \<Rightarrow> get_index_at \<Rightarrow> (('s, 'a) daemon, response, unit) io" where
  "rpc_get_index_at env cmd =
     answer env (bind_io (attempt (on_meta (bind_io (get_image_id (re_meta env) (gia_path cmd)) (read_bytes (re_meta env))))) (\<lambda>res.
       bind_io (ret (expect (vp_parent (gia_path cmd)))) (\<lambda>par.
         (\<lambda>d. (Ok (GetIndexAtResponse \<lparr>gir_data = (case res of Ok x \<Rightarrow> Some x | _ \<Rightarrow> None),
            gir_hosts = da_servers par d\<rparr>), d)))))"

section \<open>Base directories\<close>

text \<open>The keep list: one path to a line, comments skipped, only paths of the configured depth.\<close>

definition component_name :: "component \<Rightarrow> string" where
  "component_name c = (case c of RootDir \<Rightarrow> ''/'' | CurDir \<Rightarrow> ''.'' | ParentDir \<Rightarrow> ''..'' | Normal n \<Rightarrow> n)"

fun keep_list_lines :: "nat \<Rightarrow> string option list \<Rightarrow> rel_path list option" where
  "keep_list_lines levels [] = Some []"
| "keep_list_lines levels (None # ls) = None"
| "keep_list_lines levels (Some l # ls) =
     (let line = trim l in
      if starts_with line ''#'' then keep_list_lines levels ls
      else
        let p = map component_name (components (dropWhile (\<lambda>c. c = CHR ''/'') line)) in
        if length p = levels then map_option ((#) p) (keep_list_lines levels ls)
        else keep_list_lines levels ls)"

definition read_keep_list :: "('s, 'b, 'm, 'i) rpc_env \<Rightarrow> directory \<Rightarrow> (rel_path list, string) result" where
  "read_keep_list env cfg =
     (case keep_list_file cfg of
        None \<Rightarrow> Ok []
      | Some fpath \<Rightarrow>
          (case re_lines env fpath of
             Inl NotFound \<Rightarrow> Ok []
           | Inl k \<Rightarrow> Err ''can't read keep list''
           | Inr ls \<Rightarrow> ok_or (keep_list_lines (num_levels cfg) ls) ''can't read keep list''))"

text \<open>A \<^verbatim>\<open>BTreeMap\<close> as the list of its entries in order.\<close>

definition btree_entries :: "(string \<rightharpoonup> 'v) \<Rightarrow> (string \<times> 'v) list" where
  "btree_entries m = map (\<lambda>n. (n, the (m n))) (sorted_list_of_set (dom m))"

text \<open>\<^verbatim>\<open>base_dir::scan\<close> with what it reads.\<close>

definition scan_base_dir ::
  "('s, 'b, 'm, 'i) rpc_env \<Rightarrow> system_time \<Rightarrow> vpath \<Rightarrow> directory \<Rightarrow>
     (('s, 'a) daemon, (base_dir_state, string) result, meta_error) io" where
  "scan_base_dir env now p cfg =
     bind_io (on_meta (meta_scan_dir (re_meta env) p)) (\<lambda>dirs.
       case read_keep_list env cfg of
         Ok kl \<Rightarrow> (case scan_result (re_hashes env) now p cfg (btree_entries dirs) kl of
                     Ok bs \<Rightarrow> ret (Ok (Ok bs)) | _ \<Rightarrow> ret Panic)
       | Err e \<Rightarrow> ret (Ok (Err e))
       | Panic \<Rightarrow> ret Panic)"

definition rpc_get_base_dir ::
  "('s, 'b, 'm, 'i) rpc_env \<Rightarrow> system_time \<Rightarrow> get_base_dir \<Rightarrow> (('s, 'a) daemon, response, unit) io" where
  "rpc_get_base_dir env now cmd =
     (case cf_dirs (da_config env) (vp_key (gbd_path cmd)) of
        None \<Rightarrow> ret (Ok (ErrorResponse ''No such config''))
      | Some cfg \<Rightarrow> answer env (bind_io (scan_base_dir env now (gbd_path cmd) cfg) (\<lambda>r.
          case r of
            Ok bs \<Rightarrow> ret (Ok (GetBaseDirResponse \<lparr>bdr_config_hash = bs_config_hash bs,
                       bdr_keep_list_hash = bs_keep_list_hash bs, bdr_dirs = bs_dirs bs\<rparr>))
          | Err e \<Rightarrow> ret (Ok (ErrorResponse e))
          | Panic \<Rightarrow> ret Panic)))"

section \<open>Frames\<close>

fun handle_request ::
  "('s, 'b, 'm, 'i) rpc_env \<Rightarrow> system_time \<Rightarrow> conn_id \<Rightarrow> request \<Rightarrow> (('s, 'a) daemon, response, unit) io" where
  "handle_request env now c (AppendDir ad) =
     bind_io (on_tracking (\<lambda>tr. Ok (with_remote (add_watch (ad_path ad) c) tr))) (\<lambda>_. rpc_append_dir env ad)"
| "handle_request env now c (ReplaceDir rd) =
     bind_io (on_tracking (\<lambda>tr. Ok (with_remote (add_watch (rd_path rd) c) tr))) (\<lambda>_. rpc_replace_dir env rd)"
| "handle_request env now c (GetIndex gi) = rpc_get_index env gi"
| "handle_request env now c (GetIndexAt gi) = rpc_get_index_at env gi"
| "handle_request env now c (GetBlock gb) = rpc_get_block env gb"
| "handle_request env now c (GetBaseDir gb) = rpc_get_base_dir env now gb"

definition send_reply :: "conn_id \<Rightarrow> u64 \<Rightarrow> response \<Rightarrow> 'a tracking \<Rightarrow> 'a tracking" where
  "send_reply c rid resp =
     with_remote (update_conn (send_wrap (case resp of ErrorResponse e \<Rightarrow> ErrorWrap rid e | _ \<Rightarrow> ResponseWrap rid resp)) c)"

text \<open>A frame that cannot be decoded, or one that is not binary, is \<open>None\<close>; it is logged.\<close>

fun handle_frame ::
  "('s, 'b, 'm, 'i) rpc_env \<Rightarrow> system_time \<Rightarrow> conn_id \<Rightarrow> proto_message option \<Rightarrow> (('s, 'a) daemon, unit, unit) io" where
  "handle_frame env now c None = ret (Ok ())"
| "handle_frame env now c (Some (MRequest rid req)) =
     bind_io (handle_request env now c req) (\<lambda>resp. on_tracking (\<lambda>tr. Ok (send_reply c rid resp tr)))"
| "handle_frame env now c (Some (MResponse rid resp)) =
     on_tracking (\<lambda>tr. Ok (with_remote (update_conn (\<lambda>cn. cn\<lparr>cn_registry := fst (respond rid resp (cn_registry cn))\<rparr>) c) tr))"
| "handle_frame env now c (Some (MNotification (PublishImage idx))) =
     on_tracking (\<lambda>tr. Ok (with_remote (publish_image_received c (pi_id idx)) tr))"
| "handle_frame env now c (Some (MNotification n)) = ret (Ok ())"

end
