(* ===== verification/Rpc_Safety.thy ===== *)
theory Rpc_Safety
  imports Rpc
begin

text \<open>
  What the answers of a daemon guarantee to both sides of a connection: every request is answered once, and
  downloads start only for authorised uploads whose path was reserved for them. Requests that bring the daemon
  down are shown at the end.
\<close>

section \<open>Replies\<close>

definition is_reply :: "wrap \<Rightarrow> bool" where
  "is_reply w = (case w of ResponseWrap _ _ \<Rightarrow> True | ErrorWrap _ _ \<Rightarrow> True | _ \<Rightarrow> False)"

definition conn_replies :: "'a remote \<Rightarrow> conn_id \<Rightarrow> wrap list option" where
  "conn_replies rm c = map_option (\<lambda>cn. filter is_reply (cn_sent cn)) (rm_conns rm c)"

definition same_replies :: "('s, 'a) daemon \<Rightarrow> ('s, 'a) daemon \<Rightarrow> bool" where
  "same_replies d d' \<longleftrightarrow> conn_replies (tr_remote (da_tracking d')) = conn_replies (tr_remote (da_tracking d))"

text \<open>An operation that sends no reply.\<close>

definition silent :: "(('s, 'a) daemon, 'x, 'e) io \<Rightarrow> bool" where
  "silent m \<longleftrightarrow> (\<forall>d r d'. m d = (r, d') \<longrightarrow> same_replies d d')"

named_theorems silent_rules \<open>operations that send no reply\<close>

lemma silent_ret [silent_rules]: "silent (ret r)"
  by (simp add: silent_def same_replies_def)

lemma silent_read [silent_rules]: "silent (\<lambda>d. (f d, d))"
  by (simp add: silent_def same_replies_def)

lemma silent_bind [silent_rules]: "silent m \<Longrightarrow> (\<And>x. silent (f x)) \<Longrightarrow> silent (bind_io m f)"
  unfolding silent_def same_replies_def bind_io_def by (fastforce split: prod.splits result.splits)

lemma silent_on_meta [silent_rules]: "silent (on_meta m)"
  by (auto simp: silent_def on_meta_def same_replies_def split: prod.splits)

lemma silent_answer [silent_rules]: "silent m \<Longrightarrow> silent (answer env m)"
  unfolding silent_def answer_def by (fastforce split: prod.splits result.splits)

lemma silent_attempt [silent_rules]: "silent m \<Longrightarrow> silent (attempt m)"
  unfolding silent_def attempt_def by (fastforce split: prod.splits result.splits)

lemma silent_on_tracking [silent_rules]:
  "(\<And>tr tr'. f tr = Ok tr' \<Longrightarrow> conn_replies (tr_remote tr') = conn_replies (tr_remote tr)) \<Longrightarrow> silent (on_tracking f)"
  by (auto simp: silent_def on_tracking_def same_replies_def split: result.splits)

lemma conn_replies_update:
  "(\<And>cn. filter is_reply (cn_sent (f cn)) = filter is_reply (cn_sent cn)) \<Longrightarrow> conn_replies (update_conn f c rm) = conn_replies rm"
  by (auto simp: conn_replies_def update_conn_def option.map_comp comp_def)

lemma conn_replies_notify [simp]: "conn_replies (notify_where P n rm) = conn_replies rm"
proof -
  have "conn_replies (fold (\<lambda>c. update_conn (\<lambda>cn. if P cn then send_wrap (NotificationWrap n) cn else cn) c) cs r) =
      conn_replies r" for cs and r :: "'a remote"
    by (induction cs arbitrary: r) (simp_all add: conn_replies_update send_wrap_def is_reply_def)
  then show ?thesis by (simp add: notify_where_def)
qed

lemma fetch_dir_remote: "fetch_dir p img rp tr = Ok tr' \<Longrightarrow> tr_remote tr' = tr_remote tr"
  by (auto simp: fetch_dir_def send_command_def)

lemma after_append_replies:
  "after_append p img u tr = Ok tr' \<Longrightarrow> conn_replies (tr_remote tr') = conn_replies (tr_remote tr)"
  by (cases "(p, img, u, tr)" rule: after_append.cases)
    (auto simp: with_remote_def notify_received_image_def received_image_sent_def fetch_dir_remote)

lemma after_replace_replies:
  "after_replace p img u tr = Ok tr' \<Longrightarrow> conn_replies (tr_remote tr') = conn_replies (tr_remote tr)"
  by (cases "(p, img, u, tr)" rule: after_replace.cases)
    (auto simp: with_remote_def notify_received_image_def received_image_sent_def fetch_dir_remote)

lemma silent_finish_upload:
  assumes "\<And>u tr tr'. after u tr = Ok tr' \<Longrightarrow> conn_replies (tr_remote tr') = conn_replies (tr_remote tr)"
  shows "silent (finish_upload env ack p m after)"
  unfolding finish_upload_def by (auto intro!: silent_rules assms)

lemma silent_watch: "silent (on_tracking (\<lambda>tr. Ok (with_remote (add_watch p c) tr)))"
  by (auto intro!: silent_rules simp: with_remote_def add_watch_def conn_replies_update)

lemma silent_block: "silent (block_hint env h)"
  by (induction env h rule: block_hint.induct) (auto simp: Let_def intro!: silent_rules split: result.splits)

lemma silent_base_dir: "silent (rpc_get_base_dir env now cmd)"
  unfolding rpc_get_base_dir_def scan_base_dir_def
  by (auto intro!: silent_rules split: option.splits result.splits)

lemma silent_request: "silent (handle_request env now c req)"
proof (cases req)
  case (AppendDir ad)
  then show ?thesis by (auto simp: rpc_append_dir_def after_append_replies intro!: silent_bind silent_watch silent_finish_upload)
next
  case (ReplaceDir rd)
  then show ?thesis by (auto simp: rpc_replace_dir_def after_replace_replies intro!: silent_bind silent_watch silent_finish_upload)
qed (auto simp: rpc_get_index_def rpc_get_index_at_def rpc_get_block_def intro!: silent_rules silent_block silent_base_dir)

section \<open>The kind of an answer\<close>

definition answers :: "request \<Rightarrow> response \<Rightarrow> bool" where
  "answers req resp \<longleftrightarrow> response_kind resp = RequestType (request_kind req) \<or> (\<exists>e. resp = ErrorResponse e)"

lemma bind_io_OkE:
  assumes "bind_io m f s = (Ok y, t)"
  obtains x u where "m s = (Ok x, u)" "f x u = (Ok y, t)"
  using assms by (auto simp: bind_io_Ok_iff)

lemma answer_OkD: "answer env m d = (Ok resp, d') \<Longrightarrow> m d = (Ok resp, d') \<or> (\<exists>e. resp = ErrorResponse e)"
  by (auto simp: answer_def split: prod.splits result.splits)

lemma upload_kind:
  assumes "finish_upload env ack p m after d = (Ok resp, d')"
  shows "(\<exists>a. resp = ack a) \<or> (\<exists>e. resp = ErrorResponse e)"
  using assms
  by (auto simp: finish_upload_def bind_io_Ok_iff split: if_splits dest!: answer_OkD)

lemma block_kind:
  assumes "block_hint env h d = (Ok resp, d')"
  shows "(\<exists>x. resp = GetBlockResponse x) \<or> (\<exists>e. resp = ErrorResponse e)"
proof (cases h)
  case (Some x)
  obtain v fpath offset where x: "x = (v, fpath, offset)" by (cases x)
  have "(\<exists>x. resp = GetBlockResponse x) \<or> (\<exists>e. resp = ErrorResponse e)"
    if "(case re_read_block env v p offset w of Ok data \<Rightarrow> ret (Ok (GetBlockResponse data)) | Err e \<Rightarrow> ret (Ok (ErrorResponse e))
      | Panic \<Rightarrow> ret Panic) u = (Ok resp, d')" for p w u
    using that by (cases "re_read_block env v p offset w") auto
  then show ?thesis using assms unfolding Some x
    by (auto simp: Let_def bind_io_Ok_iff split: if_splits dest!: answer_OkD)
qed (use assms in auto)

lemma base_dir_kind:
  assumes "rpc_get_base_dir env now gb d = (Ok resp, d')"
  shows "(\<exists>x. resp = GetBaseDirResponse x) \<or> (\<exists>e. resp = ErrorResponse e)"
proof (cases "cf_dirs (da_config env) (vp_key (gbd_path gb))")
  case (Some cfg)
  have "(\<exists>x. resp = GetBaseDirResponse x) \<or> (\<exists>e. resp = ErrorResponse e)"
    if "(case r of Ok bs \<Rightarrow> ret (Ok (GetBaseDirResponse (f bs))) | Err e \<Rightarrow> ret (Ok (ErrorResponse e))
      | Panic \<Rightarrow> ret Panic) u = (Ok resp, d')" for r f u
    using that by (cases r) auto
  then show ?thesis using assms Some
    by (auto simp: rpc_get_base_dir_def bind_io_Ok_iff dest!: answer_OkD)
qed (use assms in \<open>auto simp: rpc_get_base_dir_def\<close>)

lemma request_kind_answer:
  assumes "handle_request env now c req d = (Ok resp, d')"
  shows "answers req resp"
proof (cases req)
  case (AppendDir ad)
  then show ?thesis using assms by (auto simp: rpc_append_dir_def answers_def elim!: bind_io_OkE dest!: upload_kind)
next
  case (ReplaceDir rd)
  then show ?thesis using assms by (auto simp: rpc_replace_dir_def answers_def elim!: bind_io_OkE dest!: upload_kind)
next
  case (GetBlock gb)
  then have "block_hint env (gb_hint gb) d = (Ok resp, d')" using assms by (simp add: rpc_get_block_def)
  then show ?thesis using block_kind by (fastforce simp: GetBlock answers_def)
next
  case (GetBaseDir gb)
  then have "rpc_get_base_dir env now gb d = (Ok resp, d')" using assms by simp
  then show ?thesis using base_dir_kind by (fastforce simp: GetBaseDir answers_def)
qed (use assms in \<open>auto simp: rpc_get_index_def rpc_get_index_at_def answers_def bind_io_Ok_iff dest!: answer_OkD\<close>)

text \<open>
  C17. Every request is answered exactly once, to the one who asked. When a daemon has handled a frame with a request
  without panicking, one reply was added to what the connection it came from has to send, with the number of the
  request, and it is a reply of the type of the request or an error; no other connection got a reply.
\<close>

theorem request_answered_once:
  assumes "handle_frame env now c (Some (MRequest rid req)) d = (Ok (), d')"
    and "conn_replies (tr_remote (da_tracking d)) c = Some before"
  shows "\<exists>resp. answers req resp \<and>
    conn_replies (tr_remote (da_tracking d')) c =
      Some (before @ [case resp of ErrorResponse e \<Rightarrow> ErrorWrap rid e | _ \<Rightarrow> ResponseWrap rid resp]) \<and>
    (\<forall>c'. c' \<noteq> c \<longrightarrow> conn_replies (tr_remote (da_tracking d')) c' = conn_replies (tr_remote (da_tracking d)) c')"
proof -
  obtain resp d1 where run: "handle_request env now c req d = (Ok resp, d1)"
    and d': "da_tracking d' = send_reply c rid resp (da_tracking d1)"
    using assms(1) by (auto simp: bind_io_Ok_iff on_tracking_def)
  have same: "conn_replies (tr_remote (da_tracking d1)) = conn_replies (tr_remote (da_tracking d))"
    using silent_request run unfolding silent_def same_replies_def by blast
  let ?w = "case resp of ErrorResponse e \<Rightarrow> ErrorWrap rid e | _ \<Rightarrow> ResponseWrap rid resp"
  have "is_reply ?w" by (simp add: is_reply_def split: response.splits)
  then have "conn_replies (tr_remote (da_tracking d')) =
      (conn_replies (tr_remote (da_tracking d1)))(c := map_option (\<lambda>ws. ws @ [?w]) (conn_replies (tr_remote (da_tracking d1)) c))"
    by (auto simp: d' send_reply_def with_remote_def conn_replies_def update_conn_def send_wrap_def option.map_comp comp_def fun_eq_iff)
  with same assms(2) request_kind_answer [OF run] show ?thesis by auto
qed

section \<open>Downloads that are started over the network\<close>

definition queue_is :: "'a command list \<Rightarrow> ('s, 'a) daemon \<Rightarrow> bool" where
  "queue_is cs d \<longleftrightarrow> tr_commands (da_tracking d) = cs"

lemma keeps_queue:
  "keeps (queue_is cs) (on_meta m)" "keeps (queue_is cs) (\<lambda>d. (f d, d))"
  "keeps (queue_is cs) m' \<Longrightarrow> keeps (queue_is cs) (answer env m')"
  by (auto simp: keeps_def queue_is_def on_meta_def answer_def split: prod.splits result.splits)

lemma keeps_queue_tracking:
  "(\<And>tr tr'. f tr = Ok tr' \<Longrightarrow> tr_commands tr' = tr_commands tr) \<Longrightarrow> keeps (queue_is cs) (on_tracking f)"
  by (auto simp: keeps_def queue_is_def on_tracking_def split: result.splits)

lemma other_requests_keep_queue:
  "keeps (queue_is cs) (rpc_get_index env gi)" "keeps (queue_is cs) (rpc_get_index_at env gia)"
  "keeps (queue_is cs) (rpc_get_block env gb)" "keeps (queue_is cs) (rpc_get_base_dir env now gbd)"
proof -
  show "keeps (queue_is cs) (rpc_get_index env gi)" "keeps (queue_is cs) (rpc_get_index_at env gia)"
    unfolding rpc_get_index_def rpc_get_index_at_def by (intro keeps_queue keeps_bind keeps_ret keeps_attempt)+
  have "keeps (queue_is cs) (block_hint env h)" for h
    by (induction env h rule: block_hint.induct)
      (auto simp: Let_def intro!: keeps_queue keeps_bind keeps_ret split: result.splits)
  then show "keeps (queue_is cs) (rpc_get_block env gb)" by (simp add: rpc_get_block_def)
  show "keeps (queue_is cs) (rpc_get_base_dir env now gbd)"
    unfolding rpc_get_base_dir_def scan_base_dir_def
    by (auto intro!: keeps_queue keeps_bind keeps_ret split: option.splits result.splits)
qed

lemma finish_upload_queue:
  assumes run: "finish_upload env ack p m after d = (r, d')" and new: "tr_commands (da_tracking d') \<noteq> tr_commands (da_tracking d)"
    and after: "\<And>u tr tr'. after u tr = Ok tr' \<Longrightarrow> tr_commands tr' \<noteq> tr_commands tr \<Longrightarrow>
      u = Accepted New \<and> fetch_dir p img rp tr = Ok tr'"
  shows "m (da_meta d) = (Ok (Accepted New), da_meta d') \<and> fetch_dir p img rp (da_tracking d) = Ok (da_tracking d')"
proof -
  obtain x s where m: "m (da_meta d) = (x, s)" by fastforce
  have cfg: "cf_dirs (da_config env) (vp_key p) \<noteq> None"
  proof
    assume "cf_dirs (da_config env) (vp_key p) = None"
    then show False using run new by (cases "vp_parent p") (simp_all add: finish_upload_def)
  qed
  have par: "vp_parent p \<noteq> None"
  proof
    assume "vp_parent p = None"
    then show False using run new cfg m by (cases x) (auto simp: finish_upload_def answer_def bind_io_def on_meta_def)
  qed
  obtain u where u: "x = Ok u"
    using run new cfg m by (cases x) (auto simp: finish_upload_def answer_def bind_io_def on_meta_def)
  obtain tr where tr: "after u (da_tracking d) = Ok tr"
    using run new cfg par m u
    by (cases "after u (da_tracking d)") (auto simp: finish_upload_def answer_def bind_io_def on_meta_def on_tracking_def)
  have d': "da_meta d' = s" "da_tracking d' = tr"
    using run cfg par m u tr by (auto simp: finish_upload_def answer_def bind_io_def on_meta_def on_tracking_def)
  with after [OF tr] new m u show ?thesis by simp
qed

lemma after_append_queue:
  "after_append p img u tr = Ok tr' \<Longrightarrow> tr_commands tr' \<noteq> tr_commands tr \<Longrightarrow> u = Accepted New \<and> fetch_dir p img False tr = Ok tr'"
  by (cases "(p, img, u, tr)" rule: after_append.cases) (auto simp: with_remote_def)

lemma after_replace_queue:
  "after_replace p img u tr = Ok tr' \<Longrightarrow> tr_commands tr' \<noteq> tr_commands tr \<Longrightarrow> u = Accepted New \<and> fetch_dir p img True tr = Ok tr'"
  by (cases "(p, img, u, tr)" rule: after_replace.cases) (auto simp: with_remote_def)

text \<open>A new upload takes a path that was free in the table of uploads.\<close>

lemma append_reserves:
  assumes "posix_dirs (me_oa env)" "state_codec env" "start_append env a s = (Ok (Accepted New), t)"
  shows "mt_writing s (ad_path a) = None \<and> map_option wr_image (mt_writing t (ad_path a)) = Some (ad_image a)"
  using append_handler.refines [OF assms]
  by (auto simp: append_spec_def spec_append_def spec_begin_def spec_continue_def spec_done_def path_view_def Let_def
      split: option.splits if_splits)

lemma replace_reserves:
  assumes "posix_dirs (me_oa env)" "state_codec env" "start_replace env p s = (Ok (Accepted New), t)"
  shows "mt_writing s (rd_path p) = None \<and> map_option wr_image (mt_writing t (rd_path p)) = Some (rd_image p)"
  using replace_handler.refines [OF assms]
  by (auto simp: replace_spec_def spec_replace_def spec_begin_def spec_continue_def spec_done_def path_view_def Let_def
      split: option.splits if_splits)

lemma fetch_dir_queues:
  "fetch_dir v img rp tr = Ok tr' \<Longrightarrow> \<exists>dl. tr_commands tr' = tr_commands tr @ [FetchDir (downloading_new v img rp dl)]"
  by (auto simp: fetch_dir_def send_command_def)

text \<open>A frame that queues a download for an append request.\<close>

lemma append_frame_queue:
  fixes d :: "('s, 'a) daemon"
  assumes run: "handle_frame env now c (Some (MRequest rid (AppendDir a))) d = (r, d')"
    and new: "tr_commands (da_tracking d') \<noteq> tr_commands (da_tracking d)"
  shows "start_append (re_meta env) a (da_meta d) = (Ok (Accepted New), da_meta d') \<and>
    (\<exists>dl. tr_commands (da_tracking d') = tr_commands (da_tracking d) @ [FetchDir (downloading_new (ad_path a) (ad_image a) False dl)])"
proof -
  have queue: "tr_commands (with_remote f tr) = tr_commands tr" for f and tr :: "'a tracking" by (simp add: with_remote_def)
  obtain x d1 where req: "handle_request env now c (AppendDir a) d = (x, d1)" by fastforce
  have d1: "tr_commands (da_tracking d1) = tr_commands (da_tracking d')" "da_meta d1 = da_meta d'"
    using run req by (cases x; auto simp: bind_io_def on_tracking_def send_reply_def queue)+
  have "finish_upload env AppendDirAck (ad_path a) (start_append (re_meta env) a) (after_append (ad_path a) (ad_image a))
      (d\<lparr>da_tracking := with_remote (add_watch (ad_path a) c) (da_tracking d)\<rparr>) = (x, d1)"
    using req by (simp add: rpc_append_dir_def bind_io_def on_tracking_def)
  from finish_upload_queue [OF this _ after_append_queue] new d1
  have "start_append (re_meta env) a (da_meta d) = (Ok (Accepted New), da_meta d')"
    and f: "fetch_dir (ad_path a) (ad_image a) False (with_remote (add_watch (ad_path a) c) (da_tracking d)) = Ok (da_tracking d1)"
    by (simp_all add: queue)
  with d1 fetch_dir_queues [OF f] show ?thesis by (simp add: queue)
qed

text \<open>
  C6. A download is started over the network only for an authorised upload, and for a path of its own. When handling
  a frame queues a command that was not there before, the frame is an append or replace request, the command
  fetches its image to its path, the request has a valid signature of an upload key of the directory configured
  at the path and level (which for a replace is not append-only), the path was not being
  uploaded before and is reserved for this image afterwards.
\<close>

theorem network_download_authorised:
  fixes d :: "('s, 'a) daemon"
  assumes env: "posix_dirs (me_oa (re_meta env))" "state_codec (re_meta env)"
    and run: "handle_frame env now c fr d = (r, d')"
    and new: "tr_commands (da_tracking d') \<noteq> tr_commands (da_tracking d)"
  shows "\<exists>rid v img rp cfg dl. ((\<exists>a. fr = Some (MRequest rid (AppendDir a)) \<and> v = ad_path a \<and> img = ad_image a \<and> \<not> rp \<and>
        authorised (re_meta env) v (append_sig_data a) (ad_signatures a) cfg) \<or>
      (\<exists>p. fr = Some (MRequest rid (ReplaceDir p)) \<and> v = rd_path p \<and> img = rd_image p \<and> rp \<and> \<not> append_only cfg \<and>
        authorised (re_meta env) v (replace_sig_data p) (rd_signatures p) cfg)) \<and>
    tr_commands (da_tracking d') = tr_commands (da_tracking d) @ [FetchDir (downloading_new v img rp dl)] \<and>
    mt_writing (da_meta d) v = None \<and> map_option wr_image (mt_writing (da_meta d') v) = Some img"
proof -
  have reply: "tr_commands (send_reply c rid resp tr) = tr_commands tr" for rid resp and tr :: "'a tracking"
    by (simp add: send_reply_def with_remote_def)
  obtain rid req where fr: "fr = Some (MRequest rid req)"
    using run new
    by (cases "(env, now, c, fr)" rule: handle_frame.cases) (auto simp: on_tracking_def with_remote_def)
  obtain x d1 where req: "handle_request env now c req d = (x, d1)" by fastforce
  have d1: "tr_commands (da_tracking d1) = tr_commands (da_tracking d')" "da_meta d1 = da_meta d'"
    using run req unfolding fr by (cases x; auto simp: bind_io_def on_tracking_def reply)+
  let ?d0 = "\<lambda>p. d\<lparr>da_tracking := with_remote (add_watch p c) (da_tracking d)\<rparr>"
  have queue: "tr_commands (with_remote f tr) = tr_commands tr" for f and tr :: "'a tracking" by (simp add: with_remote_def)
  show ?thesis
  proof (cases req)
    case (AppendDir a)
    obtain dl where m: "start_append (re_meta env) a (da_meta d) = (Ok (Accepted New), da_meta d')"
      and "tr_commands (da_tracking d') = tr_commands (da_tracking d) @
        [FetchDir (downloading_new (ad_path a) (ad_image a) False dl)]"
      using append_frame_queue run new unfolding fr AppendDir by blast
    moreover obtain cfg where "authorised (re_meta env) (ad_path a) (append_sig_data a) (ad_signatures a) cfg"
      using append_handler.changes_authorised [OF env(1) m] by blast
    ultimately show ?thesis using append_reserves [OF env m]
      by (intro exI [of _ rid] exI [of _ "ad_path a"] exI [of _ "ad_image a"] exI [of _ False] exI [of _ cfg] exI [of _ dl])
        (simp add: fr AppendDir)
  next
    case (ReplaceDir p)
    have "finish_upload env ReplaceDirAck (rd_path p) (start_replace (re_meta env) p) (after_replace (rd_path p) (rd_image p))
        (?d0 (rd_path p)) = (x, d1)"
      using req ReplaceDir by (simp add: rpc_replace_dir_def bind_io_def on_tracking_def)
    from finish_upload_queue [OF this _ after_replace_queue] new d1
    have m: "start_replace (re_meta env) p (da_meta d) = (Ok (Accepted New), da_meta d')"
      and f: "fetch_dir (rd_path p) (rd_image p) True (with_remote (add_watch (rd_path p) c) (da_tracking d)) = Ok (da_tracking d1)"
      by (simp_all add: queue)
    obtain cfg where "authorised (re_meta env) (rd_path p) (replace_sig_data p) (rd_signatures p) cfg" "\<not> append_only cfg"
      using start_replace_run [OF env(1) m refl] by blast
    moreover obtain dl where "tr_commands (da_tracking d') = tr_commands (da_tracking d) @
        [FetchDir (downloading_new (rd_path p) (rd_image p) True dl)]" using fetch_dir_queues [OF f] d1 by (auto simp: queue)
    ultimately show ?thesis using replace_reserves [OF env m]
      by (intro exI [of _ rid] exI [of _ "rd_path p"] exI [of _ "rd_image p"] exI [of _ True] exI [of _ cfg] exI [of _ dl])
        (simp add: fr ReplaceDir)
  qed (use req new d1 keepsD [OF other_requests_keep_queue(1)] keepsD [OF other_requests_keep_queue(2)]
      keepsD [OF other_requests_keep_queue(3)] keepsD [OF other_requests_keep_queue(4)] in \<open>fastforce simp: queue_is_def\<close>)+
qed

section \<open>Requests that bring a daemon down\<close>

text \<open>
  An upload to a path that is only a key brings the daemon down: whether the key is configured or not, the request
  is refused, but the answer lists the servers of the parent of the path, and taking the parent panics.
\<close>

theorem upload_to_key_panics:
  assumes "vp_parent (ad_path a) = None" and "\<forall>cfg. cf_dirs (me_config (re_meta env)) (vp_key (ad_path a)) = Some cfg \<longrightarrow> num_levels cfg > 0"
  shows "fst (handle_frame env now c (Some (MRequest rid (AppendDir a))) d) = Panic"
proof (cases "cf_dirs (da_config env) (vp_key (ad_path a))")
  case None
  then show ?thesis using assms(1)
    by (simp add: rpc_append_dir_def finish_upload_def bind_io_def on_tracking_def)
next
  case (Some cfg)
  then have "num_levels cfg \<noteq> vp_level (ad_path a)"
    using assms vp.par_None_iff [of "ad_path a"] by (auto simp: da_config_def)
  then have "\<exists>t. start_append (re_meta env) a (da_meta d) = (Ok (Rejected ''config_level_mismatch'' None), t)"
    using Some by (simp add: start_append_def da_config_def mark_used_def Let_def bind_io_def)
  then show ?thesis using assms(1) Some
    by (auto simp: rpc_append_dir_def finish_upload_def bind_io_def on_tracking_def answer_def on_meta_def)
qed

lemma keep_names_panics:
  "kp \<in> set kl \<Longrightarrow> strip_prefix sfx kp = Some (a # b # cs) \<Longrightarrow> keep_names sfx kl \<noteq> Ok ns"
  by (induction sfx kl arbitrary: ns rule: keep_names.induct) (auto split: option.splits list.splits)

text \<open>
  A request for a base directory above the configured depth brings the daemon down as soon as the keep list has an entry
  below it: the level of the path is not checked, and the scan asserts that what remains of an entry is one name.
\<close>

theorem base_dir_request_panics:
  assumes "cf_dirs (da_config env) (vp_key p) = Some cfg" and "fst (meta_scan_dir (re_meta env) p (da_meta d)) = Ok dirs"
    and "read_keep_list env cfg = Ok kl" and "kp \<in> set kl" and "strip_prefix (vp_suffix p) kp = Some (x # y # zs)"
  shows "fst (handle_frame env now c (Some (MRequest rid (GetBaseDir \<lparr>gbd_path = p\<rparr>))) d) = Panic"
proof -
  have "scan_result (re_hashes env) now p cfg (btree_entries dirs) kl \<noteq> Ok bs" for bs
    using keep_names_panics [OF assms(4,5)] by (auto simp: scan_result_def)
  then have "fst (scan_base_dir env now p cfg d) = Panic"
    using assms(2,3)
    by (auto simp: scan_base_dir_def bind_io_def on_meta_def split: prod.splits result.splits)
  then show ?thesis using assms(1)
    by (auto simp: rpc_get_base_dir_def answer_def bind_io_def split: prod.splits result.splits)
qed

section \<open>Examples\<close>

definition demo_rpc_env :: "(demo_file mem_fs, demo_file, string \<times> bytes \<times> u64, bytes) rpc_env" where
  "demo_rpc_env = \<lparr>re_meta = demo_env True, re_hashes = \<lparr>hf_config = (\<lambda>_. Hash [1]), hf_names = (\<lambda>_. Hash [2]), hf_dirs = (\<lambda>_. Hash [3])\<rparr>,
     re_lines = (\<lambda>_. Inr [Some ''/a/b'']), re_read_block = (\<lambda>_ _ _ _. Ok [1]), re_show = (\<lambda>_. [])\<rparr>"

definition demo_daemon :: "(demo_file mem_fs, nat) daemon" where
  "demo_daemon = \<lparr>da_meta = meta_new demo_fs,
     da_tracking = tracking_new (demo_config True) 0 0 (snd (hijack 7 (remote_new [] (MachineId [])))) peers_new\<rparr>"

lemma demo_daemon_conn: "conn_replies (tr_remote (da_tracking demo_daemon)) 0 = Some []"
  by (simp add: demo_daemon_def tracking_new_def hijack_def new_connection_def remote_new_def conn_replies_def
      register_connection_def dispatcher_new_def update_conn_def connection_new_def Let_def send_wrap_def)

theorem request_answered_once_witness:
  "\<exists>d'. handle_frame demo_rpc_env 0 0 (Some (MRequest 9 (GetBlock \<lparr>gb_hash = BlockHash [], gb_hint = None\<rparr>))) demo_daemon = (Ok (), d') \<and>
     map_option length (conn_replies (tr_remote (da_tracking d')) 0) = Some 1"
proof -
  obtain d' where run: "handle_frame demo_rpc_env 0 0 (Some (MRequest 9 (GetBlock \<lparr>gb_hash = BlockHash [], gb_hint = None\<rparr>))) demo_daemon =
      (Ok (), d')"
    by (simp add: rpc_get_block_def bind_io_def on_tracking_def)
  from request_answered_once [OF run demo_daemon_conn] run show ?thesis by fastforce
qed

lemma demo_upload_frame:
  "\<exists>d'. handle_frame demo_rpc_env 0 0 (Some (MRequest 9 (AppendDir (demo_append ''a'' (Other [1]))))) demo_daemon = (Ok (), d') \<and>
     tr_commands (da_tracking d') \<noteq> []"
proof -
  have meta: "start_append (demo_env True) (demo_append ''a'' (Other [1])) (meta_new demo_fs) =
      (Ok (Accepted New), demo_uploading (Other [1]))" by (rule demo_append_new)
  have path: "ad_path (demo_append ''a'' (Other [1])) = VPath ''k'' [''a'']" by (simp add: demo_append_def)
  have cfg: "cf_dirs (me_config (demo_env True)) ''k'' = Some (demo_dir True)" "cf_dirs (demo_config True) ''k'' = Some (demo_dir True)"
    by (simp_all add: demo_env_def demo_config_def)
  show ?thesis
    by (simp add: rpc_append_dir_def finish_upload_def demo_rpc_env_def da_config_def on_tracking_def on_meta_def answer_def
        bind_io_def demo_daemon_def meta path cfg vp_parent_def fetch_dir_def tracking_new_def
        with_remote_def send_command_def send_reply_def)
qed

theorem network_download_authorised_witness:
  "\<exists>cfg. authorised (re_meta demo_rpc_env) (VPath ''k'' [''a'']) (append_sig_data (demo_append ''a'' (Other [1])))
     (ad_signatures (demo_append ''a'' (Other [1]))) cfg"
proof -
  obtain d' where run: "handle_frame demo_rpc_env 0 0 (Some (MRequest 9 (AppendDir (demo_append ''a'' (Other [1]))))) demo_daemon = (Ok (), d')"
      and new: "tr_commands (da_tracking d') \<noteq> tr_commands (da_tracking demo_daemon)"
    using demo_upload_frame by (auto simp: demo_daemon_def tracking_new_def)
  have env: "posix_dirs (me_oa (re_meta demo_rpc_env))" "state_codec (re_meta demo_rpc_env)"
    by (simp_all add: demo_rpc_env_def demo_posix demo_codec)
  from network_download_authorised [OF env run new] show ?thesis by (auto simp: demo_append_def)
qed

theorem upload_to_key_panics_witness:
  "fst (handle_frame demo_rpc_env 0 0 (Some (MRequest 9 (AppendDir ((demo_append ''a'' (Other [1]))\<lparr>ad_path := VPath ''k'' []\<rparr>)))) demo_daemon) = Panic"
  by (rule upload_to_key_panics) (simp_all add: vp_parent_def demo_rpc_env_def demo_env_def demo_config_def demo_dir_def)

definition demo_deep_env :: "(demo_file mem_fs, demo_file, string \<times> bytes \<times> u64, bytes) rpc_env" where
  "demo_deep_env = demo_rpc_env\<lparr>re_meta := (demo_env True)\<lparr>me_config := (demo_config True)\<lparr>cf_dirs :=
     [''k'' \<mapsto> (demo_dir True)\<lparr>num_levels := 2, keep_list_file := Some ''f''\<rparr>]\<rparr>\<rparr>\<rparr>"

theorem base_dir_request_panics_witness:
  "fst (handle_frame demo_deep_env 0 0 (Some (MRequest 9 (GetBaseDir \<lparr>gbd_path = VPath ''k'' []\<rparr>))) demo_daemon) = Panic"
proof -
  obtain dirs where scan: "fst (meta_scan_dir (re_meta demo_deep_env) (VPath ''k'' []) (da_meta demo_daemon)) = Ok dirs"
    unfolding demo_daemon_def by (simp add: demo_deep_env_def demo_rpc_env_def demo_eval demo_scan_eval)
  have keep: "read_keep_list demo_deep_env ((demo_dir True)\<lparr>num_levels := 2, keep_list_file := Some ''f''\<rparr>) = Ok [[''a'', ''b'']]"
    by (simp add: read_keep_list_def demo_deep_env_def demo_rpc_env_def trim_def is_space_def starts_with_def components_def
        split_slash.simps piece_component_def map_filter_def component_name_def)
  show ?thesis
    by (rule base_dir_request_panics [OF _ scan keep, of "[''a'', ''b'']"]) (auto simp: da_config_def demo_deep_env_def)
qed

end
