(* ===== verification/Cluster_Upload.thy ===== *)
theory Cluster_Upload
  imports Proto
begin

text \<open>
  How a client decides that an upload is done (\<^verbatim>\<open>src/cluster/upload.rs\<close>, \<^verbatim>\<open>config.rs\<close> and \<^verbatim>\<open>error.rs\<close>): what it has
  heard from the servers, and the check that is made after every answer. A \<^verbatim>\<open>HashSet\<close> is a set and a \<^verbatim>\<open>HashMap\<close> a map;
  their lengths are cardinalities. The number of hosts that a fraction stands for is a rounded product of
  32-bit floating point numbers, and the function that computes it is a parameter of the configuration.
\<close>

section \<open>Configuration\<close>

record cluster_config =
  cc_initial_connections :: u32
  cc_port :: u16
  cc_early_hosts :: u32
  cc_early_fraction :: "u32 \<Rightarrow> nat"
  cc_early_timeout :: nat
  cc_maximum_timeout :: nat

text \<open>Timeouts are in seconds; \<open>three_quarters\<close> is the fraction 0.75.\<close>

definition cluster_config_new :: "(u32 \<Rightarrow> nat) \<Rightarrow> cluster_config" where
  "cluster_config_new three_quarters =
     \<lparr>cc_initial_connections = 3, cc_port = 24783, cc_early_hosts = 3, cc_early_fraction = three_quarters,
      cc_early_timeout = 10, cc_maximum_timeout = 30 * 60\<rparr>"

definition set_initial_connections :: "u32 \<Rightarrow> cluster_config \<Rightarrow> cluster_config" where
  "set_initial_connections num cfg = cfg\<lparr>cc_initial_connections := num\<rparr>"

definition set_port :: "u16 \<Rightarrow> cluster_config \<Rightarrow> cluster_config" where
  "set_port port cfg = cfg\<lparr>cc_port := port\<rparr>"

definition early_upload :: "u32 \<Rightarrow> (u32 \<Rightarrow> nat) \<Rightarrow> nat \<Rightarrow> cluster_config \<Rightarrow> cluster_config" where
  "early_upload hosts fraction timeout cfg =
     cfg\<lparr>cc_early_hosts := hosts, cc_early_fraction := fraction, cc_early_timeout := timeout\<rparr>"

definition set_maximum_timeout :: "nat \<Rightarrow> cluster_config \<Rightarrow> cluster_config" where
  "set_maximum_timeout timeout cfg = cfg\<lparr>cc_maximum_timeout := timeout\<rparr>"

section \<open>What has been heard\<close>

datatype error_kind = DeadlineReached | Rejected

record 'a bookkeeping =
  bk_accepted_ips :: "'a set"
  bk_discovered_servers :: "machine_id \<rightharpoonup> string"
  bk_done_ips :: "'a set"
  bk_done_servers :: "machine_id \<rightharpoonup> string"
  bk_aborted_ips :: "'a \<rightharpoonup> string"
  bk_aborted_ids :: "machine_id \<rightharpoonup> string"
  bk_aborted_hostnames :: "string \<rightharpoonup> string"
  bk_rejected_no_config :: "'a set"
  bk_rejected_ips :: "'a \<rightharpoonup> string"

record 'a stats =
  ss_cluster_name :: "string list"
  ss_path :: vpath
  ss_weak_errors :: bool
  ss_book :: "'a bookkeeping"
  ss_total_responses :: u64

definition stats_new :: "string list \<Rightarrow> vpath \<Rightarrow> bool \<Rightarrow> 'a stats" where
  "stats_new cluster_name path weak =
     \<lparr>ss_cluster_name = cluster_name, ss_path = path, ss_weak_errors = weak,
      ss_book = \<lparr>bk_accepted_ips = {}, bk_discovered_servers = Map.empty, bk_done_ips = {}, bk_done_servers = Map.empty,
        bk_aborted_ips = Map.empty, bk_aborted_ids = Map.empty, bk_aborted_hostnames = Map.empty,
        bk_rejected_no_config = {}, bk_rejected_ips = Map.empty\<rparr>,
      ss_total_responses = 0\<rparr>"

definition with_book :: "('a bookkeeping \<Rightarrow> 'a bookkeeping) \<Rightarrow> 'a stats \<Rightarrow> 'a stats" where
  "with_book f s = s\<lparr>ss_book := f (ss_book s)\<rparr>"

definition stats_received_image :: "'a \<Rightarrow> received_image \<Rightarrow> 'a stats \<Rightarrow> 'a stats" where
  "stats_received_image addr info = with_book (\<lambda>book.
     let book1 = (if \<not> ri_forwarded info then book\<lparr>bk_done_ips := insert addr (bk_done_ips book)\<rparr> else book)
     in book1\<lparr>bk_done_servers := (bk_done_servers book1)(ri_machine_id info \<mapsto> ri_hostname info),
              bk_discovered_servers := (bk_discovered_servers book1)(ri_machine_id info \<mapsto> ri_hostname info)\<rparr>)"

definition stats_aborted_image :: "'a \<Rightarrow> aborted_image \<Rightarrow> 'a stats \<Rightarrow> 'a stats" where
  "stats_aborted_image addr info = with_book (\<lambda>book.
     let book1 = (if \<not> ai_forwarded info
                  then book\<lparr>bk_aborted_ips := (bk_aborted_ips book)(addr \<mapsto> ai_reason info)\<rparr> else book)
     in book1\<lparr>bk_aborted_ids := (bk_aborted_ids book1)(ai_machine_id info \<mapsto> ai_reason info),
              bk_aborted_hostnames := (bk_aborted_hostnames book1)(ai_hostname info \<mapsto> ai_reason info)\<rparr>)"

text \<open>An entry is counted as a response only when it is new.\<close>

definition count_response :: "bool \<Rightarrow> 'a stats \<Rightarrow> 'a stats" where
  "count_response new s = (if new then s\<lparr>ss_total_responses := ss_total_responses s + 1\<rparr> else s)"

definition tolerated :: "string option \<Rightarrow> bool" where
  "tolerated reason \<longleftrightarrow> reason = Some ''already_exists'' \<or> reason = Some ''already_uploading_different_version''"

definition add_response ::
  "'a \<Rightarrow> bool \<Rightarrow> string option \<Rightarrow> (machine_id \<rightharpoonup> string) \<Rightarrow> 'a stats \<Rightarrow> bool \<times> 'a stats" where
  "add_response source accepted reject_reason hosts s =
     (let book = ss_book s;
          (accepted1, s1) =
            (if \<not> accepted \<and> tolerated reject_reason \<and> ss_weak_errors s then
               (True, with_book (\<lambda>b. b\<lparr>bk_done_ips := insert source (bk_done_ips b)\<rparr>)
                        (count_response (source \<notin> bk_accepted_ips book)
                          (with_book (\<lambda>b. b\<lparr>bk_accepted_ips := insert source (bk_accepted_ips b)\<rparr>) s)))
             else if \<not> accepted \<and> reject_reason = Some ''no_config'' then
               (accepted, count_response (source \<notin> bk_rejected_no_config book)
                  (with_book (\<lambda>b. b\<lparr>bk_rejected_no_config := insert source (bk_rejected_no_config b)\<rparr>) s))
             else if \<not> accepted then
               (accepted, count_response (bk_rejected_ips book source = None)
                  (with_book (\<lambda>b. b\<lparr>bk_rejected_ips := (bk_rejected_ips b)
                      (source \<mapsto> (case reject_reason of Some r \<Rightarrow> r | None \<Rightarrow> ''unknown''))\<rparr>) s))
             else
               (accepted, count_response (source \<notin> bk_accepted_ips book)
                  (with_book (\<lambda>b. b\<lparr>bk_accepted_ips := insert source (bk_accepted_ips b)\<rparr>) s)))
      in (accepted1, with_book (\<lambda>b. b\<lparr>bk_discovered_servers := bk_discovered_servers b ++ hosts\<rparr>) s1))"

definition total_responses :: "'a stats \<Rightarrow> u32" where
  "total_responses s = ucast (ss_total_responses s)"

definition is_rejected :: "'a \<Rightarrow> 'a stats \<Rightarrow> bool" where
  "is_rejected addr s \<longleftrightarrow>
     bk_rejected_ips (ss_book s) addr \<noteq> None \<or> addr \<in> bk_rejected_no_config (ss_book s)"

section \<open>The check\<close>

definition discovered_num :: "'a bookkeeping \<Rightarrow> u32" where
  "discovered_num book =
     (let explicit = word_of_nat (card (dom (bk_discovered_servers book)))
      in if card (bk_accepted_ips book) = 1 \<and> bk_rejected_ips book = Map.empty \<and> bk_rejected_no_config book = {}
         then explicit + 1 else explicit)"

definition servers_superset :: "(machine_id \<rightharpoonup> string) \<Rightarrow> (machine_id \<rightharpoonup> string) \<Rightarrow> bool" where
  "servers_superset finished discovered \<longleftrightarrow> dom discovered \<subseteq> dom finished"

text \<open>
  \<open>addresses\<close> is the cell of the initial addresses: whether all names are resolved, and the addresses so far.
\<close>

definition upload_check ::
  "'a stats \<Rightarrow> cluster_config \<Rightarrow> bool \<times> 'a list \<Rightarrow> bool \<Rightarrow> bool \<Rightarrow> (error_kind + unit) option" where
  "upload_check s cfg initial_addr early_timeout_timed_out no_candidates =
     (let book = ss_book s;
          all_rejected =
            bk_accepted_ips book = {} \<and> fst initial_addr \<and> no_candidates \<and>
            (bk_rejected_ips book \<noteq> Map.empty \<or> bk_rejected_no_config book \<noteq> {}) \<and>
            list_all (\<lambda>a. bk_rejected_ips book a \<noteq> None \<or> bk_aborted_ips book a \<noteq> None \<or>
                          a \<in> bk_rejected_no_config book) (snd initial_addr)
      in if all_rejected then Some (Inl Rejected)
         else if early_timeout_timed_out then
           (let fract_hosts = cc_early_fraction cfg (discovered_num book);
                hosts = min (unat (discovered_num book)) (max (unat (cc_early_hosts cfg)) fract_hosts)
            in if hosts > 0 \<and> card (dom (bk_done_servers book)) \<ge> hosts then
                 (if bk_rejected_ips book \<noteq> Map.empty \<or> bk_aborted_ids book \<noteq> Map.empty
                  then Some (Inl Rejected) else Some (Inr ()))
               else None)
         else if bk_accepted_ips book \<subseteq> bk_done_ips book \<and>
                 servers_superset (bk_done_servers book) (bk_discovered_servers book) then
           (if card (dom (bk_done_servers book)) > 0 then
              (if bk_rejected_ips book \<noteq> Map.empty \<or> bk_aborted_ips book \<noteq> Map.empty
               then Some (Inl Rejected) else Some (Inr ()))
            else None)
         else None)"

section \<open>The history of an upload\<close>

text \<open>What a client hears of an upload, and the tables as a function of it.\<close>

datatype 'a heard =
    HResponse 'a bool "string option" "machine_id \<rightharpoonup> string"
  | HReceived 'a received_image
  | HAborted 'a aborted_image

fun hear :: "'a heard \<Rightarrow> 'a stats \<Rightarrow> 'a stats" where
  "hear (HResponse a acc r h) s = snd (add_response a acc r h s)"
| "hear (HReceived a i) s = stats_received_image a i s"
| "hear (HAborted a i) s = stats_aborted_image a i s"

text \<open>
  Every table of the bookkeeping only grows: an event adds to it what the event says. The locale gives the table
  after any sequence of events; it is interpreted on each of the tables.
\<close>

locale growing_table =
  fixes step :: "'e \<Rightarrow> 's \<Rightarrow> 's"
    and ok :: "'s \<Rightarrow> bool"
    and view :: "'s \<Rightarrow> 'x set"
    and adds :: "'e \<Rightarrow> 'x set"
  assumes step_ok: "ok s \<Longrightarrow> ok (step e s)"
    and step_view: "ok s \<Longrightarrow> view (step e s) = view s \<union> adds e"
begin

lemma run_ok: "ok s \<Longrightarrow> ok (fold step es s)"
  by (induction es arbitrary: s) (auto intro: step_ok)

lemma run_view: "ok s \<Longrightarrow> view (fold step es s) = view s \<union> (\<Union>e\<in>set es. adds e)"
proof (induction es arbitrary: s)
  case (Cons e es)
  then have "view (fold step es (step e s)) = view (step e s) \<union> (\<Union>e\<in>set es. adds e)" by (blast intro: step_ok)
  then show ?case using Cons.prems by (auto simp: step_view)
qed simp

end

fun accept_of :: "bool \<Rightarrow> 'a heard \<Rightarrow> 'a set" where
  "accept_of w (HResponse a acc r h) = (if acc \<or> w \<and> tolerated r then {a} else {})"
| "accept_of w _ = {}"

fun done_ip_of :: "bool \<Rightarrow> 'a heard \<Rightarrow> 'a set" where
  "done_ip_of w (HResponse a acc r h) = (if \<not> acc \<and> w \<and> tolerated r then {a} else {})"
| "done_ip_of w (HReceived a i) = (if ri_forwarded i then {} else {a})"
| "done_ip_of w _ = {}"

fun discovered_of :: "'a heard \<Rightarrow> machine_id set" where
  "discovered_of (HResponse a acc r h) = dom h"
| "discovered_of (HReceived a i) = {ri_machine_id i}"
| "discovered_of _ = {}"

fun done_server_of :: "'a heard \<Rightarrow> machine_id set" where
  "done_server_of (HReceived a i) = {ri_machine_id i}"
| "done_server_of _ = {}"

fun rejected_of :: "bool \<Rightarrow> 'a heard \<Rightarrow> 'a set" where
  "rejected_of w (HResponse a acc r h) =
     (if \<not> acc \<and> \<not> (w \<and> tolerated r) \<and> r \<noteq> Some ''no_config'' then {a} else {})"
| "rejected_of w _ = {}"

fun no_config_of :: "'a heard \<Rightarrow> 'a set" where
  "no_config_of (HResponse a acc r h) = (if \<not> acc \<and> r = Some ''no_config'' then {a} else {})"
| "no_config_of _ = {}"

fun aborted_ip_of :: "'a heard \<Rightarrow> 'a set" where
  "aborted_ip_of (HAborted a i) = (if ai_forwarded i then {} else {a})"
| "aborted_ip_of _ = {}"

fun aborted_id_of :: "'a heard \<Rightarrow> machine_id set" where
  "aborted_id_of (HAborted a i) = {ai_machine_id i}"
| "aborted_id_of _ = {}"

lemmas stats_ops = add_response_def stats_received_image_def stats_aborted_image_def with_book_def
  count_response_def Let_def

lemma hear_weak [simp]: "ss_weak_errors (hear e s) = ss_weak_errors s"
  by (cases e) (auto simp: stats_ops)

lemma hear_accepted: "bk_accepted_ips (ss_book (hear e s)) = bk_accepted_ips (ss_book s) \<union> accept_of (ss_weak_errors s) e"
  by (cases e) (auto simp: stats_ops tolerated_def)

lemma hear_done_ips: "bk_done_ips (ss_book (hear e s)) = bk_done_ips (ss_book s) \<union> done_ip_of (ss_weak_errors s) e"
  by (cases e) (auto simp: stats_ops tolerated_def)

lemma hear_discovered:
  "dom (bk_discovered_servers (ss_book (hear e s))) = dom (bk_discovered_servers (ss_book s)) \<union> discovered_of e"
  by (cases e) (auto simp: stats_ops)

lemma hear_done_servers:
  "dom (bk_done_servers (ss_book (hear e s))) = dom (bk_done_servers (ss_book s)) \<union> done_server_of e"
  by (cases e) (auto simp: stats_ops)

lemma hear_rejected:
  "dom (bk_rejected_ips (ss_book (hear e s))) = dom (bk_rejected_ips (ss_book s)) \<union> rejected_of (ss_weak_errors s) e"
  by (cases e) (auto simp: stats_ops tolerated_def)

lemma hear_no_config:
  "bk_rejected_no_config (ss_book (hear e s)) = bk_rejected_no_config (ss_book s) \<union> no_config_of e"
  by (cases e) (auto simp: stats_ops tolerated_def)

lemma hear_aborted_ips:
  "dom (bk_aborted_ips (ss_book (hear e s))) = dom (bk_aborted_ips (ss_book s)) \<union> aborted_ip_of e"
  by (cases e) (auto simp: stats_ops)

lemma hear_aborted_ids:
  "dom (bk_aborted_ids (ss_book (hear e s))) = dom (bk_aborted_ids (ss_book s)) \<union> aborted_id_of e"
  by (cases e) (auto simp: stats_ops)

interpretation accepted: growing_table hear "\<lambda>s. ss_weak_errors s = w" "\<lambda>s. bk_accepted_ips (ss_book s)" "accept_of w" for w
  by unfold_locales (auto simp: hear_accepted)

interpretation done_ips: growing_table hear "\<lambda>s. ss_weak_errors s = w" "\<lambda>s. bk_done_ips (ss_book s)" "done_ip_of w" for w
  by unfold_locales (auto simp: hear_done_ips)

interpretation discovered: growing_table hear "\<lambda>s. True" "\<lambda>s. dom (bk_discovered_servers (ss_book s))" discovered_of
  by unfold_locales (auto simp only: hear_discovered)

interpretation done_servers: growing_table hear "\<lambda>s. True" "\<lambda>s. dom (bk_done_servers (ss_book s))" done_server_of
  by unfold_locales (auto simp only: hear_done_servers)

interpretation rejected: growing_table hear "\<lambda>s. ss_weak_errors s = w" "\<lambda>s. dom (bk_rejected_ips (ss_book s))" "rejected_of w" for w
  by unfold_locales (auto simp only: hear_weak hear_rejected)

interpretation no_config: growing_table hear "\<lambda>s. True" "\<lambda>s. bk_rejected_no_config (ss_book s)" no_config_of
  by unfold_locales (auto simp only: hear_no_config)

interpretation aborted_ips: growing_table hear "\<lambda>s. True" "\<lambda>s. dom (bk_aborted_ips (ss_book s))" aborted_ip_of
  by unfold_locales (auto simp only: hear_aborted_ips)

interpretation aborted_ids: growing_table hear "\<lambda>s. True" "\<lambda>s. dom (bk_aborted_ids (ss_book s))" aborted_id_of
  by unfold_locales (auto simp only: hear_aborted_ids)

text \<open>The tables after a history that starts from an empty record.\<close>

lemma stats_new_tables [simp]:
  "ss_weak_errors (stats_new n p w) = w"
  "bk_accepted_ips (ss_book (stats_new n p w)) = {}" "bk_done_ips (ss_book (stats_new n p w)) = {}"
  "bk_discovered_servers (ss_book (stats_new n p w)) = Map.empty"
  "bk_done_servers (ss_book (stats_new n p w)) = Map.empty"
  "bk_rejected_ips (ss_book (stats_new n p w)) = Map.empty"
  "bk_rejected_no_config (ss_book (stats_new n p w)) = {}"
  "bk_aborted_ips (ss_book (stats_new n p w)) = Map.empty" "bk_aborted_ids (ss_book (stats_new n p w)) = Map.empty"
  "ss_total_responses (stats_new n p w) = 0"
  by (simp_all add: stats_new_def)

lemma heard_tables:
  assumes s: "s = fold hear es (stats_new n p w)"
  shows "bk_accepted_ips (ss_book s) = (\<Union>e\<in>set es. accept_of w e)"
    and "bk_done_ips (ss_book s) = (\<Union>e\<in>set es. done_ip_of w e)"
    and "dom (bk_discovered_servers (ss_book s)) = (\<Union>e\<in>set es. discovered_of e)"
    and "dom (bk_done_servers (ss_book s)) = (\<Union>e\<in>set es. done_server_of e)"
    and "dom (bk_rejected_ips (ss_book s)) = (\<Union>e\<in>set es. rejected_of w e)"
    and "bk_rejected_no_config (ss_book s) = (\<Union>e\<in>set es. no_config_of e)"
    and "dom (bk_aborted_ips (ss_book s)) = (\<Union>e\<in>set es. aborted_ip_of e)"
    and "dom (bk_aborted_ids (ss_book s)) = (\<Union>e\<in>set es. aborted_id_of e)"
  unfolding s
  by (simp_all add: accepted.run_view done_ips.run_view discovered.run_view done_servers.run_view
      rejected.run_view no_config.run_view aborted_ips.run_view aborted_ids.run_view)

text \<open>The number of responses is the number of servers that have answered.\<close>

definition stats_counted :: "'a stats \<Rightarrow> bool" where
  "stats_counted s \<longleftrightarrow>
     (let book = ss_book s
      in finite (bk_accepted_ips book) \<and> finite (bk_rejected_no_config book) \<and> finite (dom (bk_rejected_ips book)) \<and>
         ss_total_responses s = word_of_nat (card (bk_accepted_ips book) + card (bk_rejected_no_config book) +
                                             card (dom (bk_rejected_ips book))))"

lemma hear_counted: "stats_counted s \<Longrightarrow> stats_counted (hear e s)"
  by (cases e) (auto simp: stats_counted_def stats_ops card_insert_if insert_absorb domIff)

lemma run_counted: "stats_counted (fold hear es (stats_new n p w))"
proof -
  have "stats_counted s \<Longrightarrow> stats_counted (fold hear es s)" for s :: "'a stats"
    by (induction es arbitrary: s) (auto intro: hear_counted)
  then show ?thesis by (simp add: stats_counted_def)
qed

text \<open>
  The specification of a complete upload, on the history alone: some server reports the image; every server that takes
  part has reported it itself; every machine that was named has it; and no server refused or gave up.
\<close>

definition delivered :: "bool \<Rightarrow> 'a heard list \<Rightarrow> bool" where
  "delivered w es \<longleftrightarrow>
     (\<exists>e\<in>set es. done_server_of e \<noteq> {}) \<and>
     (\<forall>e\<in>set es. (\<forall>a\<in>accept_of w e. \<exists>d\<in>set es. a \<in> done_ip_of w d) \<and>
                 (\<forall>m\<in>discovered_of e. \<exists>d\<in>set es. m \<in> done_server_of d) \<and>
                 rejected_of w e = {} \<and> aborted_ip_of e = {})"

text \<open>No server that was asked takes part in the upload.\<close>

definition nobody_takes :: "bool \<Rightarrow> bool \<times> 'a list \<Rightarrow> bool \<Rightarrow> 'a heard list \<Rightarrow> bool" where
  "nobody_takes w initial_addr no_candidates es \<longleftrightarrow>
     (\<forall>e\<in>set es. accept_of w e = {}) \<and> fst initial_addr \<and> no_candidates \<and>
     (\<exists>e\<in>set es. rejected_of w e \<union> no_config_of e \<noteq> {}) \<and>
     (\<forall>a\<in>set (snd initial_addr). \<exists>e\<in>set es. a \<in> rejected_of w e \<union> aborted_ip_of e \<union> no_config_of e)"

lemma empty_iff_dom: "m = Map.empty \<longleftrightarrow> dom m = {}"
  by auto

lemma finite_done_servers:
  "finite (dom (bk_done_servers (ss_book (fold hear es (stats_new n p w)))))"
proof -
  have "finite (done_server_of e)" for e :: "'a heard" by (cases e) auto
  then show ?thesis by (simp add: heard_tables(4) [OF refl])
qed

lemma finite_discovered:
  assumes "\<forall>a acc r h. HResponse a acc r h \<in> set es \<longrightarrow> finite (dom h)"
  shows "finite (dom (bk_discovered_servers (ss_book (fold hear es (stats_new n p w)))))"
proof -
  have "finite (discovered_of e)" if "e \<in> set es" for e
  proof (cases e)
    case (HResponse a acc r h)
    then show ?thesis using that assms by auto
  qed simp_all
  then show ?thesis by (simp add: heard_tables(3) [OF refl])
qed

lemma all_rejected_heard:
  assumes s: "s = fold hear es (stats_new n p w)"
  defines "book \<equiv> ss_book s"
  shows "(bk_accepted_ips book = {} \<and> fst addrs \<and> nc \<and>
      (bk_rejected_ips book \<noteq> Map.empty \<or> bk_rejected_no_config book \<noteq> {}) \<and>
      list_all (\<lambda>a. bk_rejected_ips book a \<noteq> None \<or> bk_aborted_ips book a \<noteq> None \<or>
                    a \<in> bk_rejected_no_config book) (snd addrs)) \<longleftrightarrow> nobody_takes w addrs nc es"
proof -
  have mem: "(m a \<noteq> None) = (a \<in> dom m)" for m :: "'a \<rightharpoonup> string" and a by auto
  show ?thesis
    unfolding book_def empty_iff_dom mem heard_tables [OF s] nobody_takes_def list_all_iff by blast
qed

lemma upload_check_heard:
  assumes s: "s = fold hear es (stats_new n p w)"
  shows "upload_check s cfg addrs early nc =
     (if nobody_takes w addrs nc es then Some (Inl Rejected)
      else if early then
        (let hosts = min (unat (discovered_num (ss_book s)))
                         (max (unat (cc_early_hosts cfg)) (cc_early_fraction cfg (discovered_num (ss_book s))))
         in if hosts > 0 \<and> card (\<Union>e\<in>set es. done_server_of e) \<ge> hosts then
              (if (\<exists>e\<in>set es. rejected_of w e \<noteq> {} \<or> aborted_id_of e \<noteq> {}) then Some (Inl Rejected) else Some (Inr ()))
            else None)
      else if (\<forall>e\<in>set es. \<forall>a\<in>accept_of w e. \<exists>d\<in>set es. a \<in> done_ip_of w d) \<and>
              (\<forall>e\<in>set es. \<forall>m\<in>discovered_of e. \<exists>d\<in>set es. m \<in> done_server_of d) then
        (if (\<exists>e\<in>set es. done_server_of e \<noteq> {}) then
           (if (\<exists>e\<in>set es. rejected_of w e \<noteq> {} \<or> aborted_ip_of e \<noteq> {}) then Some (Inl Rejected) else Some (Inr ()))
         else None)
      else None)"
proof -
  have fin: "finite (dom (bk_done_servers (ss_book s)))" unfolding s by (rule finite_done_servers)
  have e1: "bk_rejected_ips (ss_book s) \<noteq> Map.empty \<or> bk_aborted_ids (ss_book s) \<noteq> Map.empty \<longleftrightarrow>
      (\<exists>e\<in>set es. rejected_of w e \<noteq> {} \<or> aborted_id_of e \<noteq> {})"
    unfolding empty_iff_dom heard_tables [OF s] by blast
  have e2: "bk_rejected_ips (ss_book s) \<noteq> Map.empty \<or> bk_aborted_ips (ss_book s) \<noteq> Map.empty \<longleftrightarrow>
      (\<exists>e\<in>set es. rejected_of w e \<noteq> {} \<or> aborted_ip_of e \<noteq> {})"
    unfolding empty_iff_dom heard_tables [OF s] by blast
  have e3: "bk_accepted_ips (ss_book s) \<subseteq> bk_done_ips (ss_book s) \<and>
      servers_superset (bk_done_servers (ss_book s)) (bk_discovered_servers (ss_book s)) \<longleftrightarrow>
      (\<forall>e\<in>set es. \<forall>a\<in>accept_of w e. \<exists>d\<in>set es. a \<in> done_ip_of w d) \<and>
      (\<forall>e\<in>set es. \<forall>m\<in>discovered_of e. \<exists>d\<in>set es. m \<in> done_server_of d)"
    unfolding servers_superset_def heard_tables [OF s] by blast
  have e4: "card (dom (bk_done_servers (ss_book s))) > 0 \<longleftrightarrow> (\<exists>e\<in>set es. done_server_of e \<noteq> {})"
    using fin unfolding card_gt_0_iff heard_tables [OF s] by blast
  show ?thesis
    unfolding upload_check_def Let_def all_rejected_heard [OF s] e1 e2 e3 e4
    by (simp only: heard_tables(4) [OF s])
qed

text \<open>
  C13. When an upload is complete. Before the early timeout the check reports success exactly when the answers and
  notifications that came say so: every server that took the upload has reported it or had it, every machine that was
  named has reported it, at least one has, and nobody refused or aborted it; and not all initial servers refuse it.
\<close>

theorem upload_check_complete:
  fixes es :: "'a heard list"
  shows "upload_check (fold hear es (stats_new n p w)) cfg addrs False nc = Some (Inr ()) \<longleftrightarrow>
     delivered w es \<and> \<not> nobody_takes w addrs nc es"
  unfolding upload_check_heard [OF refl] delivered_def
  by (simp split: if_splits) blast

end
