(* ===== verification/Cluster_Set.thy ===== *)
theory Cluster_Set
  imports Cluster_Upload Failure_Tracker "HOL-Library.AList"
begin

text \<open>
  The connections of a client to a cluster (\<^verbatim>\<open>src/cluster/set.rs\<close>): the messages the task receives, the connections it
  opens for uploads and fetches, the requests it sends over them and how an upload or a fetch is polled to its end.

  A connection is known by its address, a request future by the number of the request, a one-shot sender by
  a number, and a \<^verbatim>\<open>Location\<close>, which is a shared cell, by its address in a store. Hash maps and hash sets are lists in
  an arbitrary order without repetition. What futures and timers yield in one round of polling, the clock, random choices
  and the parser of host names are the environment of the round.
\<close>

section \<open>Data\<close>

type_synonym 'i addr = "'i \<times> u16"

datatype req_error = UnexpectedTermination | RequestFailed

datatype 'b polled = NotReady | Ready 'b | Failed req_error

record hashes_of =
  hs_block_size :: nat
  hs_hashes :: "bytes list"

record 'i pointer =
  pt_vpath :: vpath
  pt_candidate_hosts :: "string list"
  pt_failures :: "'i addr failures"

record 'i new_upload =
  nu_replace :: bool
  nu_weak :: bool
  nu_path :: vpath
  nu_upload :: signed_upload
  nu_old_image :: "image_id option"
  nu_stats :: "'i addr stats"
  nu_resolve :: nat

datatype 'i set_message =
    NewUpload "'i new_upload"
  | FetchIndex vpath nat
  | FetchFile string nat nat hashes_of nat
  | SetNotification "'i addr" notification
  | Closed "'i addr"

datatype rfuture = RAppend nat | RReplace nat

record 'i client_upload =
  up_replace :: bool
  up_weak :: bool
  up_old_image :: "image_id option"
  up_path :: vpath
  up_upload :: signed_upload
  up_stats :: "'i addr stats"
  up_resolve :: nat
  up_connections :: "'i addr list"
  up_futures :: "('i addr \<times> rfuture) list"
  up_early :: instant
  up_deadline :: instant
  up_candidate_hosts :: "string list"

datatype frequest =
    FRIndex (fr_future: "nat option") (fr_resolve: nat)
  | FRFile (fr_buf: bytes) (fr_path: string) (fr_position: nat) (fr_hashes: hashes_of)
      (fr_future: "nat option") (fr_resolve: nat)

record 'i client_fetch =
  ft_location :: nat
  ft_connection :: "'i addr option"
  ft_req :: frequest

text \<open>What a one-shot sender was given.\<close>

datatype resolution = UploadDone | UploadFailed error_kind | IndexFetched bytes nat | FileFetched bytes

record 'i conn_set =
  cs_config :: cluster_config
  cs_initial_names :: "string list"
  cs_initial_addr :: "bool \<times> 'i addr list"
  cs_failures :: "'i addr failures"
  cs_pending :: "'i addr list"
  cs_active :: "'i addr list"
  cs_uploads :: "'i client_upload list"
  cs_fetches :: "'i client_fetch list"
  cs_pending_addrs :: "string list"
  cs_failed_addrs :: "string failures"
  cs_addrs :: "string \<rightharpoonup> 'i addr list"
  cs_locations :: "'i pointer list"
  cs_next_request :: nat
  cs_sent :: "(nat \<times> 'i addr \<times> request) list"
  cs_published :: "('i addr \<times> image_id) list"
  cs_resolved :: "(nat \<times> resolution) list"

record 'i round_env =
  rv_now :: instant
  rv_connect :: "'i addr \<Rightarrow> unit polled"
  rv_resolve :: "string \<Rightarrow> 'i list polled"
  rv_ack :: "nat \<Rightarrow> dir_ack polled"
  rv_index :: "nat \<Rightarrow> get_index_at_response polled"
  rv_block :: "nat \<Rightarrow> bytes polled"
  rv_cancelled :: "nat \<Rightarrow> bool"
  rv_sample_addr :: "nat \<Rightarrow> 'i addr list \<Rightarrow> 'i addr list"
  rv_sample_name :: "nat \<Rightarrow> string list \<Rightarrow> string list"
  rv_pick_one :: "'i addr list \<Rightarrow> 'i addr option"
  rv_union :: "'i addr list \<Rightarrow> 'i addr list \<Rightarrow> 'i addr list"
  rv_retry :: bool
  rv_names :: "(machine_id \<rightharpoonup> string) \<Rightarrow> string list"

text \<open>The parts of the state that a request over a connection changes.\<close>

definition send_request :: "'i addr \<Rightarrow> request \<Rightarrow> 'i conn_set \<Rightarrow> nat \<times> 'i conn_set" where
  "send_request addr req cs =
     (cs_next_request cs,
      cs\<lparr>cs_next_request := Suc (cs_next_request cs), cs_sent := cs_sent cs @ [(cs_next_request cs, addr, req)]\<rparr>)"

definition resolve_with :: "nat \<Rightarrow> resolution \<Rightarrow> 'i conn_set \<Rightarrow> 'i conn_set" where
  "resolve_with ch r cs = cs\<lparr>cs_resolved := cs_resolved cs @ [(ch, r)]\<rparr>"

definition update_location :: "nat \<Rightarrow> ('i pointer \<Rightarrow> 'i pointer) \<Rightarrow> 'i conn_set \<Rightarrow> 'i conn_set" where
  "update_location l f cs =
     (if l < length (cs_locations cs)
      then cs\<lparr>cs_locations := (cs_locations cs)[l := f (cs_locations cs ! l)]\<rparr> else cs)"

definition hash_at :: "hashes_of \<Rightarrow> nat \<Rightarrow> (block_hash, unit) result" where
  "hash_at hs position =
     (if hs_block_size hs = 0 then Panic
      else let i = position div hs_block_size hs
           in if i < length (hs_hashes hs) \<and> length (hs_hashes hs ! i) = 32
              then Ok (BlockHash (hs_hashes hs ! i)) else Panic)"

section \<open>Messages\<close>

definition start_upload :: "instant \<Rightarrow> 'i new_upload \<Rightarrow> 'i conn_set \<Rightarrow> 'i conn_set" where
  "start_upload now up cs =
     cs\<lparr>cs_uploads := cs_uploads cs @
       [\<lparr>up_replace = nu_replace up, up_weak = nu_weak up, up_old_image = nu_old_image up, up_path = nu_path up,
         up_upload = nu_upload up, up_stats = nu_stats up, up_resolve = nu_resolve up, up_connections = [], up_futures = [],
         up_early = now + cc_early_timeout (cs_config cs) * 1000000000,
         up_deadline = now + cc_maximum_timeout (cs_config cs) * 1000000000, up_candidate_hosts = []\<rparr>]\<rparr>"

definition start_fetch_index :: "vpath \<Rightarrow> nat \<Rightarrow> 'i conn_set \<Rightarrow> 'i conn_set" where
  "start_fetch_index vp tx cs =
     cs\<lparr>cs_locations := cs_locations cs @
          [\<lparr>pt_vpath = vp, pt_candidate_hosts = [], pt_failures = failures_new_slow\<rparr>],
        cs_fetches := cs_fetches cs @
          [\<lparr>ft_location = length (cs_locations cs), ft_connection = None, ft_req = FRIndex None tx\<rparr>]\<rparr>"

definition start_fetch_file ::
  "string \<Rightarrow> nat \<Rightarrow> nat \<Rightarrow> hashes_of \<Rightarrow> nat \<Rightarrow> 'i conn_set \<Rightarrow> 'i conn_set" where
  "start_fetch_file path loc sz hs tx cs =
     cs\<lparr>cs_fetches := cs_fetches cs @
          [\<lparr>ft_location = loc, ft_connection = None, ft_req = FRFile (replicate sz 0) path 0 hs None tx\<rparr>]\<rparr>"

definition remove_conn :: "'i addr \<Rightarrow> 'i client_upload \<Rightarrow> 'i client_upload" where
  "remove_conn addr up = up\<lparr>up_connections := removeAll addr (up_connections up)\<rparr>"

definition on_received :: "'i addr \<Rightarrow> received_image \<Rightarrow> 'i client_upload \<Rightarrow> 'i client_upload" where
  "on_received addr img up =
     (if up_path up = ri_path img \<and> (up_weak up \<or> up_path up = ri_path img)
      then up\<lparr>up_stats := stats_received_image addr img (up_stats up)\<rparr> else up)"

definition on_aborted :: "'i addr \<Rightarrow> aborted_image \<Rightarrow> 'i client_upload \<Rightarrow> 'i client_upload" where
  "on_aborted addr img up =
     (if su_image (up_upload up) = ai_id img \<and> (up_weak up \<or> up_path up = ai_path img)
      then up\<lparr>up_stats := stats_aborted_image addr img (up_stats up)\<rparr> else up)"

fun read_message :: "instant \<Rightarrow> 'i set_message \<Rightarrow> 'i conn_set \<Rightarrow> ('i conn_set, unit) result" where
  "read_message now (NewUpload up) cs = Ok (start_upload now up cs)"
| "read_message now (FetchIndex path tx) cs = Ok (start_fetch_index path tx cs)"
| "read_message now (FetchFile path loc sz hs tx) cs = Ok (start_fetch_file path loc sz hs tx cs)"
| "read_message now (SetNotification addr (ReceivedImage img)) cs =
     Ok (cs\<lparr>cs_uploads := map (on_received addr img) (cs_uploads cs)\<rparr>)"
| "read_message now (SetNotification addr (AbortedImage img)) cs =
     Ok (cs\<lparr>cs_uploads := map (on_aborted addr img) (cs_uploads cs)\<rparr>)"
| "read_message now (SetNotification addr (PublishImage n)) cs = Ok cs"
| "read_message now (Closed addr) cs =
     (if addr \<in> set (cs_active cs)
      then Ok (cs\<lparr>cs_uploads := map (remove_conn addr) (cs_uploads cs), cs_active := removeAll addr (cs_active cs)\<rparr>)
      else Panic)"

fun read_messages :: "instant \<Rightarrow> 'i set_message list \<Rightarrow> 'i conn_set \<Rightarrow> ('i conn_set, unit) result" where
  "read_messages now [] cs = Ok cs"
| "read_messages now (m # ms) cs = bind_result (read_message now m cs) (read_messages now ms)"

section \<open>Opening connections\<close>

definition free_addr :: "'i round_env \<Rightarrow> 'i conn_set \<Rightarrow> 'i addr \<Rightarrow> bool" where
  "free_addr env cs a \<longleftrightarrow>
     a \<notin> set (cs_pending cs) \<and> a \<notin> set (cs_active cs) \<and> can_try (rv_now env) (cs_failures cs) a"

definition resolved_hosts :: "'i round_env \<Rightarrow> 'i conn_set \<Rightarrow> string list \<Rightarrow> 'i addr list" where
  "resolved_hosts env cs hosts = List.map_filter (\<lambda>h. Option.bind (cs_addrs cs h) (rv_pick_one env)) hosts"

definition to_resolve :: "'i round_env \<Rightarrow> 'i conn_set \<Rightarrow> string list \<Rightarrow> string list" where
  "to_resolve env cs hosts =
     filter (\<lambda>h. can_try (rv_now env) (cs_failed_addrs cs) h \<and> cs_addrs cs h = None \<and> h \<notin> set (cs_pending_addrs cs)) hosts"

definition start_resolving :: "string list \<Rightarrow> 'i conn_set \<Rightarrow> 'i conn_set" where
  "start_resolving hosts cs = cs\<lparr>cs_pending_addrs := fold List.insert hosts (cs_pending_addrs cs)\<rparr>"

text \<open>The check for duplicates is \<^const>\<open>List.insert\<close>: an address that is pending is not connected to again.\<close>

definition open_conns :: "'i addr list \<Rightarrow> 'i conn_set \<Rightarrow> 'i conn_set" where
  "open_conns addrs cs = cs\<lparr>cs_pending := fold List.insert addrs (cs_pending cs)\<rparr>"

definition new_conns_for_upload :: "'i round_env \<Rightarrow> 'i client_upload \<Rightarrow> 'i conn_set \<Rightarrow> 'i conn_set" where
  "new_conns_for_upload env up cs =
     (let initial = unat (cc_initial_connections (cs_config cs));
          usable = (\<lambda>a. \<not> is_rejected a (up_stats up));
          valid = length (filter usable (cs_pending cs)) + length (filter usable (cs_active cs))
      in if length (up_connections up) \<ge> initial \<or> valid \<ge> initial then cs
         else
           let addrs1 = rv_sample_addr env initial
                 (filter (\<lambda>a. usable a \<and> free_addr env cs a) (resolved_hosts env cs (up_candidate_hosts up)));
               slots_left = initial - length addrs1
           in if slots_left > 0 then
                let cs1 = start_resolving (rv_sample_name env slots_left (to_resolve env cs (up_candidate_hosts up))) cs;
                    addrs2 = rv_sample_addr env slots_left
                      (filter (\<lambda>a. a \<notin> set (up_connections up) \<and> usable a \<and> free_addr env cs1 a)
                        (snd (cs_initial_addr cs1)))
                in open_conns (addrs1 @ addrs2) cs1
              else open_conns addrs1 cs)"

definition new_conn_for_fetch :: "'i round_env \<Rightarrow> 'i client_fetch \<Rightarrow> 'i conn_set \<Rightarrow> 'i conn_set" where
  "new_conn_for_fetch env ft cs =
     (if ft_connection ft \<noteq> None then cs
      else
        let loc = cs_locations cs ! ft_location ft;
            addrs1 = rv_sample_addr env 1
              (filter (\<lambda>a. can_try (rv_now env) (pt_failures loc) a \<and> free_addr env cs a)
                (resolved_hosts env cs (pt_candidate_hosts loc)))
        in if addrs1 = [] then
             let cs1 = start_resolving (rv_sample_name env 1 (to_resolve env cs (pt_candidate_hosts loc))) cs;
                 addrs2 = rv_sample_addr env 1
                   (filter (\<lambda>a. free_addr env cs1 a \<and> can_try (rv_now env) (pt_failures loc) a)
                     (snd (cs_initial_addr cs1)))
             in open_conns addrs2 cs1
           else cs)"

definition poll_connect :: "'i round_env \<Rightarrow> 'i conn_set \<Rightarrow> 'i conn_set" where
  "poll_connect env cs =
     (let cs1 = fold (new_conns_for_upload env) (cs_uploads cs) cs
      in fold (new_conn_for_fetch env) (cs_fetches cs1) cs1)"

definition poll_connection :: "'i round_env \<Rightarrow> 'i addr \<Rightarrow> 'i conn_set \<Rightarrow> 'i conn_set" where
  "poll_connection env addr cs =
     (case rv_connect env addr of
        NotReady \<Rightarrow> cs
      | Ready _ \<Rightarrow> cs\<lparr>cs_active := List.insert addr (cs_active cs), cs_pending := removeAll addr (cs_pending cs)\<rparr>
      | Failed _ \<Rightarrow> cs\<lparr>cs_failures := add_failure (rv_now env) addr (cs_failures cs),
                      cs_pending := removeAll addr (cs_pending cs)\<rparr>)"

definition poll_name :: "'i round_env \<Rightarrow> string \<Rightarrow> 'i conn_set \<Rightarrow> 'i conn_set" where
  "poll_name env name cs =
     (case rv_resolve env name of
        NotReady \<Rightarrow> cs
      | Ready ip_list \<Rightarrow> cs\<lparr>cs_addrs := (cs_addrs cs)(name \<mapsto> map (\<lambda>i. (i, cc_port (cs_config cs))) ip_list),
                           cs_pending_addrs := removeAll name (cs_pending_addrs cs)\<rparr>
      | Failed _ \<Rightarrow> cs\<lparr>cs_failed_addrs := add_failure (rv_now env) name (cs_failed_addrs cs),
                      cs_pending_addrs := removeAll name (cs_pending_addrs cs)\<rparr>)"

definition poll_pending :: "'i round_env \<Rightarrow> 'i conn_set \<Rightarrow> 'i conn_set" where
  "poll_pending env cs =
     (let cs1 = fold (poll_connection env) (cs_pending cs) cs
      in fold (poll_name env) (cs_pending_addrs cs1) cs1)"

section \<open>Sending requests\<close>

definition upload_request :: "'i client_upload \<Rightarrow> request" where
  "upload_request up =
     (let u = up_upload up
      in if up_replace up
         then ReplaceDir \<lparr>rd_path = up_path up, rd_spelling = su_spelling u, rd_image = su_image u,
                rd_old_image = up_old_image up, rd_timestamp = su_timestamp u, rd_signatures = su_signatures u\<rparr>
         else AppendDir \<lparr>ad_path = up_path up, ad_spelling = su_spelling u, ad_image = su_image u,
                ad_timestamp = su_timestamp u, ad_signatures = su_signatures u\<rparr>)"

definition upload_to :: "'i addr \<Rightarrow> 'i client_upload \<times> 'i conn_set \<Rightarrow> 'i client_upload \<times> 'i conn_set" where
  "upload_to addr = (\<lambda>(up, cs).
     if addr \<notin> set (up_connections up) \<and> \<not> is_rejected addr (up_stats up) then
       (case send_request addr (upload_request up)
               (cs\<lparr>cs_published := cs_published cs @ [(addr, su_image (up_upload up))]\<rparr>) of
          (n, cs1) \<Rightarrow>
            (up\<lparr>up_futures := AList.update addr (if up_replace up then RReplace n else RAppend n) (up_futures up),
                up_connections := List.insert addr (up_connections up)\<rparr>, cs1))
     else (up, cs))"

definition wakeup_upload :: "'i client_upload \<Rightarrow> 'i conn_set \<Rightarrow> 'i client_upload \<times> 'i conn_set" where
  "wakeup_upload up cs =
     (if length (up_connections up) < unat (cc_initial_connections (cs_config cs))
      then fold upload_to (cs_active cs) (up, cs) else (up, cs))"

text \<open>A loop over the elements of a queue that may change each of them and the rest of the state.\<close>

fun each :: "('x \<Rightarrow> 's \<Rightarrow> 'x \<times> 's) \<Rightarrow> 'x list \<Rightarrow> 's \<Rightarrow> 'x list \<times> 's" where
  "each f [] s = ([], s)"
| "each f (x # xs) s = (case f x s of (y, s1) \<Rightarrow> case each f xs s1 of (ys, s2) \<Rightarrow> (y # ys, s2))"

definition wakeup_uploads :: "'i conn_set \<Rightarrow> 'i conn_set" where
  "wakeup_uploads cs = (case each wakeup_upload (cs_uploads cs) cs of (ups, cs1) \<Rightarrow> cs1\<lparr>cs_uploads := ups\<rparr>)"

definition block_request :: "'i pointer \<Rightarrow> string \<Rightarrow> hashes_of \<Rightarrow> nat \<Rightarrow> (request, unit) result" where
  "block_request loc path hs position =
     bind_result (hash_at hs position) (\<lambda>h.
       Ok (GetBlock \<lparr>gb_hash = h, gb_hint = Some (pt_vpath loc, path, word_of_nat position)\<rparr>))"

fun set_future :: "nat option \<Rightarrow> frequest \<Rightarrow> frequest" where
  "set_future f (FRIndex _ tx) = FRIndex f tx"
| "set_future f (FRFile buf path pos hs _ tx) = FRFile buf path pos hs f tx"

fun fetch_request :: "'i pointer \<Rightarrow> frequest \<Rightarrow> (request, unit) result" where
  "fetch_request loc (FRIndex _ _) = Ok (GetIndexAt \<lparr>gia_path = pt_vpath loc\<rparr>)"
| "fetch_request loc (FRFile buf path pos hs _ _) = block_request loc path hs pos"

text \<open>
  The loop over the active connections has no end but the last connection: a request is sent
  over every connection that may be tried, and the last one stays recorded.
\<close>

fun wakeup_fetch ::
  "'i round_env \<Rightarrow> 'i addr list \<Rightarrow> 'i client_fetch \<Rightarrow> 'i conn_set \<Rightarrow> ('i client_fetch \<times> 'i conn_set, unit) result" where
  "wakeup_fetch env [] ft cs = Ok (ft, cs)"
| "wakeup_fetch env (addr # rest) ft cs =
     (let loc = cs_locations cs ! ft_location ft
      in if can_try (rv_now env) (pt_failures loc) addr then
           bind_result (fetch_request loc (ft_req ft)) (\<lambda>req.
             case send_request addr req cs of
               (n, cs1) \<Rightarrow> wakeup_fetch env rest
                 (ft\<lparr>ft_connection := Some addr, ft_req := set_future (Some n) (ft_req ft)\<rparr>) cs1)
         else wakeup_fetch env rest ft cs)"

fun wakeup_fetches_of ::
  "'i round_env \<Rightarrow> 'i client_fetch list \<Rightarrow> 'i conn_set \<Rightarrow> ('i client_fetch list \<times> 'i conn_set, unit) result" where
  "wakeup_fetches_of env [] cs = Ok ([], cs)"
| "wakeup_fetches_of env (ft # fts) cs =
     bind_result (if ft_connection ft = None then wakeup_fetch env (cs_active cs) ft cs else Ok (ft, cs)) (\<lambda>(ft1, cs1).
     bind_result (wakeup_fetches_of env fts cs1) (\<lambda>(fts1, cs2). Ok (ft1 # fts1, cs2)))"

definition wakeup_fetches :: "'i round_env \<Rightarrow> 'i conn_set \<Rightarrow> ('i conn_set, unit) result" where
  "wakeup_fetches env cs =
     bind_result (wakeup_fetches_of env (cs_fetches cs) cs) (\<lambda>(fts, cs1). Ok (cs1\<lparr>cs_fetches := fts\<rparr>))"

section \<open>Polling an upload\<close>

fun request_no :: "rfuture \<Rightarrow> nat" where
  "request_no (RAppend n) = n"
| "request_no (RReplace n) = n"

text \<open>One future of an upload: both arms of the source do the same with the two kinds of acknowledgements.\<close>

definition poll_ack ::
  "'i round_env \<Rightarrow> 'i addr \<times> rfuture \<Rightarrow> 'i client_upload \<times> 'i addr failures \<Rightarrow> 'i client_upload \<times> 'i addr failures" where
  "poll_ack env = (\<lambda>(addr, fut) (up, fails).
     case rv_ack env (request_no fut) of
       NotReady \<Rightarrow> (up, fails)
     | Ready resp \<Rightarrow>
         (case add_response addr (ack_accepted resp) (ack_reject_reason resp) (ack_hosts resp) (up_stats up) of
            (accepted, st) \<Rightarrow>
              (up\<lparr>up_candidate_hosts := fold List.insert (rv_names env (ack_hosts resp)) (up_candidate_hosts up),
                  up_stats := st,
                  up_connections := (if accepted then up_connections up else removeAll addr (up_connections up)),
                  up_futures := AList.delete addr (up_futures up)\<rparr>, fails))
     | Failed e \<Rightarrow>
         (up\<lparr>up_connections := removeAll addr (up_connections up), up_futures := AList.delete addr (up_futures up)\<rparr>,
          if e \<noteq> UnexpectedTermination then add_failure (rv_now env) addr fails else fails))"

definition poll_acks :: "'i round_env \<Rightarrow> 'i client_upload \<Rightarrow> 'i addr failures \<Rightarrow> 'i client_upload \<times> 'i addr failures" where
  "poll_acks env up fails = fold (poll_ack env) (up_futures up) (up, fails)"

text \<open>The check of an upload on the state of the set, and what is sent for its result.\<close>

definition check_upload :: "'i conn_set \<Rightarrow> bool \<Rightarrow> 'i client_upload \<Rightarrow> (error_kind + unit) option" where
  "check_upload cs early up =
     upload_check (up_stats up) (cs_config cs) (cs_initial_addr cs) early (up_candidate_hosts up = [])"

definition upload_outcome :: "error_kind + unit \<Rightarrow> resolution" where
  "upload_outcome r = (case r of Inl k \<Rightarrow> UploadFailed k | Inr _ \<Rightarrow> UploadDone)"

definition poll_upload :: "'i round_env \<Rightarrow> 'i client_upload \<Rightarrow> 'i conn_set \<Rightarrow> 'i client_upload option \<times> 'i conn_set" where
  "poll_upload env up0 cs0 =
     (case poll_acks env up0 (cs_failures cs0) of (up, fails) \<Rightarrow>
        let cs = cs0\<lparr>cs_failures := fails\<rparr>;
            early = (rv_now env \<ge> up_early up);
            at_answer = (if up_futures up = [] \<and> total_responses (up_stats up) > 0 then check_upload cs early up else None)
        in case at_answer of
             Some r \<Rightarrow> (None, resolve_with (up_resolve up) (upload_outcome r) cs)
           | None \<Rightarrow>
               if rv_now env \<ge> up_deadline up then
                 (case check_upload cs early up of
                    Some r \<Rightarrow> (None, resolve_with (up_resolve up) (upload_outcome r) cs)
                  | None \<Rightarrow> (None, resolve_with (up_resolve up) (UploadFailed DeadlineReached) cs))
               else (Some up, cs))"

text \<open>A queue whose elements are polled once each, and kept when they are not ready.\<close>

fun poll_queue :: "('x \<Rightarrow> 's \<Rightarrow> 'x option \<times> 's) \<Rightarrow> 'x list \<Rightarrow> 's \<Rightarrow> 'x list \<times> 's" where
  "poll_queue f [] s = ([], s)"
| "poll_queue f (x # xs) s =
     (case f x s of (r, s1) \<Rightarrow> case poll_queue f xs s1 of (ys, s2) \<Rightarrow>
        ((case r of None \<Rightarrow> ys | Some y \<Rightarrow> y # ys), s2))"

definition poll_uploads :: "'i round_env \<Rightarrow> 'i conn_set \<Rightarrow> 'i conn_set" where
  "poll_uploads env cs = (case poll_queue (poll_upload env) (cs_uploads cs) cs of (ups, cs1) \<Rightarrow> cs1\<lparr>cs_uploads := ups\<rparr>)"

section \<open>Polling a fetch\<close>

definition fetch_failed :: "'i round_env \<Rightarrow> 'i client_fetch \<Rightarrow> 'i conn_set \<Rightarrow> 'i client_fetch \<times> 'i conn_set" where
  "fetch_failed env ft cs =
     (ft\<lparr>ft_connection := None, ft_req := set_future None (ft_req ft)\<rparr>,
      case ft_connection ft of
        None \<Rightarrow> cs
      | Some addr \<Rightarrow> update_location (ft_location ft)
          (\<lambda>loc. loc\<lparr>pt_failures := add_failure (rv_now env) addr (pt_failures loc)\<rparr>) cs)"

definition polled_future :: "(nat \<Rightarrow> 'b polled) \<Rightarrow> nat option \<Rightarrow> 'b polled" where
  "polled_future f fut = (case fut of None \<Rightarrow> NotReady | Some n \<Rightarrow> f n)"

text \<open>The slice of a buffer from a position on is overwritten; the bounds were checked.\<close>

definition overwrite :: "bytes \<Rightarrow> nat \<Rightarrow> bytes \<Rightarrow> bytes" where
  "overwrite buf position data = take position buf @ data @ drop (position + length data) buf"

text \<open>
  One poll of the request: the fetch that goes on, if it does, and the state. In the loop of the
  file case a request that was just sent has no answer yet, so a second iteration ends the loop.
\<close>

fun poll_request ::
  "'i round_env \<Rightarrow> 'i client_fetch \<Rightarrow> frequest \<Rightarrow> 'i conn_set \<Rightarrow> ('i client_fetch option \<times> 'i conn_set, unit) result" where
  "poll_request env ft (FRIndex fut tx) cs =
     (case polled_future (rv_index env) fut of
        NotReady \<Rightarrow> Ok (Some ft, cs)
      | Ready res \<Rightarrow>
          (case gir_data res of
             Some data \<Rightarrow> Ok (None, resolve_with tx (IndexFetched data (ft_location ft)) cs)
           | None \<Rightarrow>
               (case fetch_failed env ft cs of (ft1, cs1) \<Rightarrow>
                  Ok (Some ft1, update_location (ft_location ft)
                    (\<lambda>loc. loc\<lparr>pt_candidate_hosts := fold List.insert (rv_names env (gir_hosts res)) (pt_candidate_hosts loc)\<rparr>)
                    cs1)))
      | Failed e \<Rightarrow> (case fetch_failed env ft cs of (ft1, cs1) \<Rightarrow> Ok (Some ft1, cs1)))"
| "poll_request env ft (FRFile buf path position hs fut tx) cs =
     (case polled_future (rv_block env) fut of
        NotReady \<Rightarrow> Ok (Some ft, cs)
      | Ready data \<Rightarrow>
          (let fin = position + length data
           in if length buf < fin then (case fetch_failed env ft cs of (ft1, cs1) \<Rightarrow> Ok (Some ft1, cs1))
              else
                let buf1 = overwrite buf position data
                in if fin = length buf1 then Ok (None, resolve_with tx (FileFetched buf1) cs)
                   else
                     bind_result (expect (ft_connection ft)) (\<lambda>addr.
                     bind_result (block_request (cs_locations cs ! ft_location ft) path hs fin) (\<lambda>req.
                       case send_request addr req cs of
                         (n, cs1) \<Rightarrow> Ok (Some (ft\<lparr>ft_req := FRFile buf1 path fin hs (Some n) tx\<rparr>), cs1))))
      | Failed e \<Rightarrow> (case fetch_failed env ft cs of (ft1, cs1) \<Rightarrow> Ok (Some ft1, cs1)))"

definition poll_fetch ::
  "'i round_env \<Rightarrow> 'i client_fetch \<Rightarrow> 'i conn_set \<Rightarrow> ('i client_fetch option \<times> 'i conn_set, unit) result" where
  "poll_fetch env ft cs =
     bind_result (poll_request env ft (ft_req ft) cs) (\<lambda>(r, cs1).
       case r of
         None \<Rightarrow> Ok (None, cs1)
       | Some ft1 \<Rightarrow> Ok (if rv_cancelled env (fr_resolve (ft_req ft1)) then None else Some ft1, cs1))"

fun poll_fetches_of ::
  "'i round_env \<Rightarrow> 'i client_fetch list \<Rightarrow> 'i conn_set \<Rightarrow> ('i client_fetch list \<times> 'i conn_set, unit) result" where
  "poll_fetches_of env [] cs = Ok ([], cs)"
| "poll_fetches_of env (ft # fts) cs =
     bind_result (poll_fetch env ft cs) (\<lambda>(r, cs1).
     bind_result (poll_fetches_of env fts cs1) (\<lambda>(fts1, cs2).
       Ok (case r of None \<Rightarrow> fts1 | Some ft1 \<Rightarrow> ft1 # fts1, cs2)))"

definition poll_fetches :: "'i round_env \<Rightarrow> 'i conn_set \<Rightarrow> ('i conn_set, unit) result" where
  "poll_fetches env cs =
     bind_result (poll_fetches_of env (cs_fetches cs) cs) (\<lambda>(fts, cs1). Ok (cs1\<lparr>cs_fetches := fts\<rparr>))"

section \<open>The task\<close>

text \<open>\<^verbatim>\<open>AddrCell::new\<close> and \<^verbatim>\<open>AddrCell::poll\<close> of \<^verbatim>\<open>addr.rs\<close>: the names the client was given are resolved once.\<close>

definition conn_set_new :: "string list \<Rightarrow> cluster_config \<Rightarrow> 'i conn_set" where
  "conn_set_new names cfg =
     \<lparr>cs_config = cfg, cs_initial_names = names, cs_initial_addr = (False, []), cs_failures = failures_new_default,
      cs_pending = [], cs_active = [], cs_uploads = [], cs_fetches = [], cs_pending_addrs = [],
      cs_failed_addrs = failures_new_default, cs_addrs = Map.empty, cs_locations = [], cs_next_request = 0,
      cs_sent = [], cs_published = [], cs_resolved = []\<rparr>"

definition poll_initial_name ::
  "'i round_env \<Rightarrow> u16 \<Rightarrow> string \<Rightarrow> string list \<times> 'i addr list \<Rightarrow> string list \<times> 'i addr list" where
  "poll_initial_name env port name = (\<lambda>(waiting, current).
     case rv_resolve env name of
       Ready new \<Rightarrow> (waiting, rv_union env current (map (\<lambda>i. (i, port)) new))
     | NotReady \<Rightarrow> (waiting @ [name], current)
     | Failed e \<Rightarrow> (waiting, current))"

definition addr_cell_poll :: "'i round_env \<Rightarrow> 'i conn_set \<Rightarrow> 'i conn_set" where
  "addr_cell_poll env cs =
     (if fst (cs_initial_addr cs) then cs
      else case fold (poll_initial_name env (cc_port (cs_config cs))) (cs_initial_names cs) ([], snd (cs_initial_addr cs)) of
             (waiting, current) \<Rightarrow> cs\<lparr>cs_initial_names := waiting, cs_initial_addr := (waiting = [], current)\<rparr>)"

text \<open>One round of the loop, and whether another one follows.\<close>

definition poll_round :: "'i round_env \<Rightarrow> 'i conn_set \<Rightarrow> (bool \<times> 'i conn_set, unit) result" where
  "poll_round env cs =
     (let retry = (rv_retry env \<and> cs_uploads cs \<noteq> []);
          cs1 = poll_connect env cs;
          cs2 = poll_pending env cs1
      in bind_result (wakeup_fetches env (wakeup_uploads cs2)) (\<lambda>cs3.
         let cs4 = poll_uploads env cs3
         in bind_result (poll_fetches env cs4) (\<lambda>cs5.
              Ok (retry \<or> length (cs_pending cs) \<noteq> length (cs_pending cs1) \<or>
                  length (cs_pending cs1) \<noteq> length (cs_pending cs2) \<or>
                  length (cs_pending_addrs cs1) \<noteq> length (cs_pending_addrs cs2) \<or>
                  length (cs_uploads cs3) \<noteq> length (cs_uploads cs4) \<or>
                  length (cs_fetches cs4) \<noteq> length (cs_fetches cs5), cs5))))"

text \<open>The rounds of one poll: the environments that are left over belong to later polls.\<close>

fun poll_rounds :: "'i round_env list \<Rightarrow> 'i conn_set \<Rightarrow> ('i conn_set, unit) result" where
  "poll_rounds [] cs = Ok cs"
| "poll_rounds (env # envs) cs =
     bind_result (poll_round env cs) (\<lambda>(again, cs1). if again then poll_rounds envs cs1 else Ok cs1)"

definition set_poll :: "'i round_env \<Rightarrow> 'i set_message list \<Rightarrow> 'i round_env list \<Rightarrow> 'i conn_set \<Rightarrow> ('i conn_set, unit) result" where
  "set_poll env msgs envs cs =
     bind_result (read_messages (rv_now env) msgs (addr_cell_poll env cs)) (poll_rounds (env # envs))"

text \<open>The task ends when its channel is closed and no upload is left.\<close>

definition set_finished :: "bool \<Rightarrow> 'i conn_set \<Rightarrow> bool" where
  "set_finished chan_done cs \<longleftrightarrow> chan_done \<and> cs_uploads cs = []"

end
