(* ===== verification/Cluster_Set_Safety.thy ===== *)
theory Cluster_Set_Safety
  imports Cluster_Set "HOL-Library.Multiset"
begin

text \<open>
  What the connection set of a client keeps: its tables are consistent and no poll panics, every upload is resolved
  exactly once, and what a resolved upload tells of the cluster.
\<close>

section \<open>Well-formed states\<close>

definition hashes_cover :: "nat \<Rightarrow> hashes_of \<Rightarrow> bool" where
  "hashes_cover sz hs \<longleftrightarrow>
     hs_block_size hs > 0 \<and> (sz + hs_block_size hs - 1) div hs_block_size hs = length (hs_hashes hs) \<and>
     list_all (\<lambda>h. length h = 32) (hs_hashes hs)"

fun frequest_wf :: "frequest \<Rightarrow> bool" where
  "frequest_wf (FRIndex fut tx) = True"
| "frequest_wf (FRFile buf path pos hs fut tx) = (pos < length buf \<and> hashes_cover (length buf) hs)"

definition fetch_wf :: "nat \<Rightarrow> 'i client_fetch \<Rightarrow> bool" where
  "fetch_wf n ft \<longleftrightarrow> ft_location ft < n \<and> (fr_future (ft_req ft) \<noteq> None \<longrightarrow> ft_connection ft \<noteq> None) \<and> frequest_wf (ft_req ft)"

definition upload_wf :: "'i addr list \<Rightarrow> 'i client_upload \<Rightarrow> bool" where
  "upload_wf act up \<longleftrightarrow>
     set (up_connections up) \<subseteq> set act \<and> distinct (up_connections up) \<and> distinct (map fst (up_futures up))"

definition set_wf :: "'i conn_set \<Rightarrow> bool" where
  "set_wf cs \<longleftrightarrow>
     distinct (cs_pending cs) \<and> distinct (cs_active cs) \<and> set (cs_pending cs) \<inter> set (cs_active cs) = {} \<and>
     list_all (upload_wf (cs_active cs)) (cs_uploads cs) \<and>
     list_all (fetch_wf (length (cs_locations cs))) (cs_fetches cs)"

text \<open>The law of the random choices: a sample is part of what it is taken from.\<close>

definition env_ok :: "'i round_env \<Rightarrow> bool" where
  "env_ok env \<longleftrightarrow> (\<forall>n xs. set (rv_sample_addr env n xs) \<subseteq> set xs)"

text \<open>
  The messages of a poll: a file is fetched with a location the set has given out and with as
  many hashes as \<^verbatim>\<open>fetch_file\<close> asserts, and it is not empty; a connection that is open is closed once.
\<close>

fun file_message_ok :: "nat \<Rightarrow> 'i set_message \<Rightarrow> bool" where
  "file_message_ok n (FetchFile path loc sz hs tx) \<longleftrightarrow> loc < n \<and> sz > 0 \<and> hashes_cover sz hs"
| "file_message_ok n _ \<longleftrightarrow> True"

fun closed_addr :: "'i set_message \<Rightarrow> 'i addr option" where
  "closed_addr (Closed a) = Some a"
| "closed_addr _ = None"

definition messages_ok :: "'i set_message list \<Rightarrow> 'i conn_set \<Rightarrow> bool" where
  "messages_ok msgs cs \<longleftrightarrow>
     list_all (file_message_ok (length (cs_locations cs))) msgs \<and>
     distinct (List.map_filter closed_addr msgs) \<and> set (List.map_filter closed_addr msgs) \<subseteq> set (cs_active cs)"

section \<open>Opening connections\<close>

lemma distinct_fold_insert: "distinct ys \<Longrightarrow> distinct (fold List.insert xs ys)"
  by (induction xs arbitrary: ys) auto

lemma set_fold_insert: "set (fold List.insert xs ys) = set xs \<union> set ys"
  by (induction xs arbitrary: ys) auto

text \<open>Steps that only add addresses which are neither pending nor active to the pending ones.\<close>

definition opens :: "'i conn_set \<Rightarrow> 'i conn_set \<Rightarrow> bool" where
  "opens cs cs' \<longleftrightarrow>
     (\<exists>xs names. set xs \<inter> set (cs_active cs) = {} \<and>
        cs' = cs\<lparr>cs_pending := fold List.insert xs (cs_pending cs), cs_pending_addrs := names\<rparr>)"

lemma opens_refl: "opens cs cs"
  unfolding opens_def by (rule exI [of _ "[]"], rule exI [of _ "cs_pending_addrs cs"]) simp

lemma opens_trans: "opens a b \<Longrightarrow> opens b c \<Longrightarrow> opens a c"
proof -
  assume "opens a b" "opens b c"
  then obtain xs ns ys ms where "set xs \<inter> set (cs_active a) = {}"
    "b = a\<lparr>cs_pending := fold List.insert xs (cs_pending a), cs_pending_addrs := ns\<rparr>"
    "set ys \<inter> set (cs_active b) = {}"
    "c = b\<lparr>cs_pending := fold List.insert ys (cs_pending b), cs_pending_addrs := ms\<rparr>"
    unfolding opens_def by blast
  then show "opens a c" unfolding opens_def by (intro exI [of _ "xs @ ys"] exI [of _ ms]) auto
qed

lemma opens_wf: "set_wf cs \<Longrightarrow> opens cs cs' \<Longrightarrow> set_wf cs'"
  unfolding opens_def set_wf_def by (auto simp: distinct_fold_insert set_fold_insert)

lemma opens_conns:
  assumes "\<And>a. a \<in> set xs \<Longrightarrow> a \<notin> set (cs_active cs)"
  shows "opens cs (open_conns xs (start_resolving hs cs))" "opens cs (open_conns xs cs)"
proof -
  show "opens cs (open_conns xs (start_resolving hs cs))"
    unfolding opens_def open_conns_def start_resolving_def
    by (intro exI [of _ xs] exI [of _ "fold List.insert hs (cs_pending_addrs cs)"]) (use assms in auto)
  show "opens cs (open_conns xs cs)"
    unfolding opens_def open_conns_def by (intro exI [of _ xs] exI [of _ "cs_pending_addrs cs"]) (use assms in auto)
qed

lemma sample_free:
  assumes "env_ok env" "a \<in> set (rv_sample_addr env n (filter P xs))" "\<And>a. P a \<Longrightarrow> free_addr env cs a"
  shows "a \<notin> set (cs_active cs)"
proof -
  have "a \<in> set (filter P xs)" using assms(1, 2) unfolding env_ok_def by blast
  then show ?thesis using assms(3) by (auto simp: free_addr_def)
qed

lemma free_addr_resolving [simp]: "free_addr env (start_resolving hs cs) a = free_addr env cs a"
  by (simp add: free_addr_def start_resolving_def)

lemma opens_for_upload: "env_ok env \<Longrightarrow> opens cs (new_conns_for_upload env up cs)"
  unfolding new_conns_for_upload_def Let_def
  by (auto intro!: opens_refl opens_conns dest: sample_free)

lemma opens_for_fetch: "env_ok env \<Longrightarrow> opens cs (new_conn_for_fetch env ft cs)"
  unfolding new_conn_for_fetch_def Let_def
  by (auto intro!: opens_refl opens_conns dest: sample_free)

lemma opens_fold: "(\<And>x cs. opens cs (f x cs)) \<Longrightarrow> opens cs (fold f xs cs)"
  by (induction xs arbitrary: cs) (auto intro: opens_refl opens_trans)

lemma opens_poll_connect: "env_ok env \<Longrightarrow> opens cs (poll_connect env cs)"
  unfolding poll_connect_def Let_def
  by (rule opens_trans [of cs "fold (new_conns_for_upload env) (cs_uploads cs) cs"])
     (auto intro!: opens_fold opens_for_upload opens_for_fetch)

section \<open>Pending connections\<close>

lemma upload_wf_mono: "upload_wf act up \<Longrightarrow> set act \<subseteq> set act' \<Longrightarrow> upload_wf act' up"
  by (auto simp: upload_wf_def)

lemma poll_connection_wf: "set_wf cs \<Longrightarrow> set_wf (poll_connection env a cs)"
proof -
  assume wf: "set_wf cs"
  then have ups: "list_all (upload_wf (List.insert a (cs_active cs))) (cs_uploads cs)"
    unfolding set_wf_def by (auto simp: list_all_iff intro: upload_wf_mono)
  show ?thesis using wf ups
    by (cases "rv_connect env a") (auto simp: poll_connection_def set_wf_def distinct_removeAll)
qed

lemma poll_name_wf: "set_wf cs \<Longrightarrow> set_wf (poll_name env h cs)"
  by (cases "rv_resolve env h") (auto simp: poll_name_def set_wf_def)

lemma fold_wf: "(\<And>x cs. P cs \<Longrightarrow> P (f x cs)) \<Longrightarrow> P cs \<Longrightarrow> P (fold f xs cs)"
  by (induction xs arbitrary: cs) auto

lemma poll_pending_wf: "set_wf cs \<Longrightarrow> set_wf (poll_pending env cs)"
  unfolding poll_pending_def Let_def 
  by (rule fold_wf [where P = set_wf], erule poll_name_wf, rule fold_wf [where P = set_wf], erule poll_connection_wf)

section \<open>Sending\<close>

text \<open>Steps that leave the tables of connections, the uploads, the fetches and the number of locations alone.\<close>

definition same_tables :: "'i conn_set \<Rightarrow> 'i conn_set \<Rightarrow> bool" where
  "same_tables cs cs' \<longleftrightarrow>
     cs_pending cs' = cs_pending cs \<and> cs_active cs' = cs_active cs \<and> cs_uploads cs' = cs_uploads cs \<and>
     cs_fetches cs' = cs_fetches cs \<and> length (cs_locations cs') = length (cs_locations cs)"

lemma same_tables_refl [simp]: "same_tables cs cs"
  by (simp add: same_tables_def)

lemma same_tables_trans [trans]: "same_tables a b \<Longrightarrow> same_tables b c \<Longrightarrow> same_tables a c"
  by (simp add: same_tables_def)

lemma same_tables_send [simp]: "same_tables cs (snd (send_request a r cs))"
  by (simp add: same_tables_def send_request_def)

lemma same_tables_resolve [simp]: "same_tables cs (resolve_with ch r cs)"
  by (simp add: same_tables_def resolve_with_def)

lemma same_tables_location [simp]: "same_tables cs (update_location l f cs)"
  by (simp add: same_tables_def update_location_def)

lemma upload_to_wf:
  assumes "upload_wf act up" "a \<in> set act" "upload_to a (up, cs) = (up', cs')"
  shows "upload_wf act up' \<and> same_tables cs cs' \<and> up_resolve up' = up_resolve up \<and> cs_resolved cs' = cs_resolved cs"
  using assms
  by (auto simp: upload_to_def upload_wf_def send_request_def same_tables_def distinct_update split: if_splits)

lemma upload_to_all_wf:
  assumes "upload_wf act up" "set xs \<subseteq> set act" "fold upload_to xs (up, cs) = (up', cs')"
  shows "upload_wf act up' \<and> same_tables cs cs' \<and> up_resolve up' = up_resolve up \<and> cs_resolved cs' = cs_resolved cs"
  using assms
proof (induction xs arbitrary: up cs)
  case (Cons a xs)
  obtain up1 cs1 where 1: "upload_to a (up, cs) = (up1, cs1)" by (cases "upload_to a (up, cs)")
  from Cons.prems have "a \<in> set act" "set xs \<subseteq> set act" by auto
  note first = upload_to_wf [OF Cons.prems(1) \<open>a \<in> set act\<close> 1]
  have "fold upload_to xs (up1, cs1) = (up', cs')" using Cons.prems(3) 1 by simp
  from Cons.IH [OF _ \<open>set xs \<subseteq> set act\<close> this] first show ?case by (auto intro: same_tables_trans)
qed auto

lemma wakeup_upload_wf:
  assumes "upload_wf (cs_active cs) up" "wakeup_upload up cs = (up', cs')"
  shows "upload_wf (cs_active cs) up' \<and> same_tables cs cs' \<and> up_resolve up' = up_resolve up \<and> cs_resolved cs' = cs_resolved cs"
  using assms upload_to_all_wf [of "cs_active cs" up "cs_active cs" cs up' cs']
  by (auto simp: wakeup_upload_def split: if_splits)

lemma each_wakeup_wf:
  assumes "list_all (upload_wf (cs_active cs)) ups" "each wakeup_upload ups cs = (ups', cs')"
  shows "list_all (upload_wf (cs_active cs)) ups' \<and> same_tables cs cs' \<and>
    map up_resolve ups' = map up_resolve ups \<and> cs_resolved cs' = cs_resolved cs"
  using assms
proof (induction ups arbitrary: cs ups' cs')
  case (Cons up ups)
  obtain up1 cs1 where 1: "wakeup_upload up cs = (up1, cs1)" by (cases "wakeup_upload up cs")
  obtain ups2 cs2 where 2: "each wakeup_upload ups cs1 = (ups2, cs2)" by (cases "each wakeup_upload ups cs1")
  have eq: "ups' = up1 # ups2" "cs' = cs2" using Cons.prems(2) 1 2 by auto
  from Cons.prems(1) have "upload_wf (cs_active cs) up" "list_all (upload_wf (cs_active cs)) ups" by auto
  note first = wakeup_upload_wf [OF this(1) 1]
  have act: "cs_active cs1 = cs_active cs" using first by (simp add: same_tables_def)
  have "list_all (upload_wf (cs_active cs1)) ups" using \<open>list_all (upload_wf (cs_active cs)) ups\<close> act by simp
  from Cons.IH [OF this 2] first act eq show ?case by (auto intro: same_tables_trans)
qed auto

lemma wakeup_uploads_wf: "set_wf cs \<Longrightarrow> set_wf (wakeup_uploads cs)"
proof -
  assume wf: "set_wf cs"
  obtain ups cs1 where e: "each wakeup_upload (cs_uploads cs) cs = (ups, cs1)" by (cases "each wakeup_upload (cs_uploads cs) cs")
  have "list_all (upload_wf (cs_active cs)) (cs_uploads cs)" using wf by (simp add: set_wf_def)
  from each_wakeup_wf [OF this e] wf show ?thesis by (simp add: wakeup_uploads_def e set_wf_def same_tables_def)
qed

section \<open>Fetches\<close>

lemma hash_at_ok:
  assumes "hashes_cover sz hs" "pos < sz"
  shows "\<exists>h. hash_at hs pos = Ok h"
proof -
  let ?b = "hs_block_size hs" and ?n = "length (hs_hashes hs)"
  have b: "?b > 0" and n: "(sz + ?b - 1) div ?b = ?n" and l: "\<forall>h \<in> set (hs_hashes hs). length h = 32"
    using assms(1) by (auto simp: hashes_cover_def list_all_iff)
  have "pos div ?b < (sz + ?b - 1) div ?b"
  proof -
    have "pos + ?b \<le> sz + ?b - 1" using assms(2) by simp
    then have "(pos + ?b) div ?b \<le> (sz + ?b - 1) div ?b" by (rule div_le_mono)
    then show ?thesis using b by (simp add: div_add_self2)
  qed
  then show ?thesis using b l n by (auto simp: hash_at_def Let_def)
qed

lemma fetch_request_ok: "frequest_wf r \<Longrightarrow> \<exists>req. fetch_request loc r = Ok req"
  by (cases r) (auto simp: block_request_def dest: hash_at_ok)

lemma frequest_set_future [simp]:
  "frequest_wf (set_future f r) = frequest_wf r" "fr_future (set_future f r) = f" "fr_resolve (set_future f r) = fr_resolve r"
  by (cases r; simp)+

lemma wakeup_fetch_ok:
  assumes "fetch_wf n ft" "n = length (cs_locations cs)"
  shows "\<exists>ft' cs'. wakeup_fetch env xs ft cs = Ok (ft', cs') \<and> fetch_wf n ft' \<and> same_tables cs cs' \<and> cs_resolved cs' = cs_resolved cs"
  using assms
proof (induction xs arbitrary: ft cs)
  case (Cons a xs)
  show ?case
  proof (cases "can_try (rv_now env) (pt_failures (cs_locations cs ! ft_location ft)) a")
    case True
    obtain req where req: "fetch_request (cs_locations cs ! ft_location ft) (ft_req ft) = Ok req"
      using fetch_request_ok Cons.prems(1) unfolding fetch_wf_def by blast
    define ft1 where "ft1 = ft\<lparr>ft_connection := Some a, ft_req := set_future (Some (cs_next_request cs)) (ft_req ft)\<rparr>"
    define cs1 where "cs1 = snd (send_request a req cs)"
    have "fetch_wf n ft1" using Cons.prems(1) by (simp add: ft1_def fetch_wf_def)
    moreover have "n = length (cs_locations cs1)" "same_tables cs cs1" "cs_resolved cs1 = cs_resolved cs"
      using Cons.prems(2) by (simp_all add: cs1_def send_request_def same_tables_def)
    moreover have "wakeup_fetch env (a # xs) ft cs = wakeup_fetch env xs ft1 cs1"
      using True req by (simp add: ft1_def cs1_def send_request_def)
    ultimately show ?thesis using Cons.IH [of ft1 cs1] by (metis same_tables_trans)
  next
    case False
    then show ?thesis using Cons by simp
  qed
qed auto

lemma wakeup_fetches_of_ok:
  assumes "list_all (fetch_wf n) fts" "n = length (cs_locations cs)"
  shows "\<exists>fts' cs'. wakeup_fetches_of env fts cs = Ok (fts', cs') \<and> list_all (fetch_wf n) fts' \<and> same_tables cs cs' \<and>
    cs_resolved cs' = cs_resolved cs"
  using assms
proof (induction fts arbitrary: cs)
  case (Cons ft fts)
  have "\<exists>ft1 cs1. (if ft_connection ft = None then wakeup_fetch env (cs_active cs) ft cs else Ok (ft, cs)) = Ok (ft1, cs1) \<and>
      fetch_wf n ft1 \<and> same_tables cs cs1 \<and> cs_resolved cs1 = cs_resolved cs"
    using wakeup_fetch_ok [of n ft cs env "cs_active cs"] Cons.prems by auto
  then obtain ft1 cs1 where 1: "(if ft_connection ft = None then wakeup_fetch env (cs_active cs) ft cs else Ok (ft, cs)) = Ok (ft1, cs1)"
    and 2: "fetch_wf n ft1" "same_tables cs cs1" "cs_resolved cs1 = cs_resolved cs" by blast
  have "n = length (cs_locations cs1)" using 2 Cons.prems by (simp add: same_tables_def)
  then obtain fts2 cs2 where 3: "wakeup_fetches_of env fts cs1 = Ok (fts2, cs2)" "list_all (fetch_wf n) fts2"
    "same_tables cs1 cs2" "cs_resolved cs2 = cs_resolved cs1"
    using Cons.IH [of cs1] Cons.prems by auto
  have "wakeup_fetches_of env (ft # fts) cs = Ok (ft1 # fts2, cs2)" using 1 3 by simp
  then show ?case using 2 3 by (auto intro: same_tables_trans)
qed auto

lemma wakeup_fetches_ok:
  assumes "set_wf cs"
  shows "\<exists>cs'. wakeup_fetches env cs = Ok cs' \<and> set_wf cs' \<and> cs_uploads cs' = cs_uploads cs \<and> cs_resolved cs' = cs_resolved cs"
proof -
  obtain fts cs1 where "wakeup_fetches_of env (cs_fetches cs) cs = Ok (fts, cs1)"
    "list_all (fetch_wf (length (cs_locations cs))) fts" "same_tables cs cs1" "cs_resolved cs1 = cs_resolved cs"
    using wakeup_fetches_of_ok [of _ "cs_fetches cs" cs env] assms unfolding set_wf_def by blast
  then show ?thesis using assms by (auto simp: wakeup_fetches_def set_wf_def same_tables_def)
qed

lemma fetch_failed_wf:
  assumes "fetch_wf n ft" "fetch_failed env ft cs = (ft', cs')"
  shows "fetch_wf n ft'" "same_tables cs cs'" "cs_resolved cs' = cs_resolved cs"
  using assms
  by (auto simp: fetch_failed_def fetch_wf_def same_tables_def update_location_def split: option.splits)

definition upload_channels :: "(nat \<times> resolution) list \<Rightarrow> nat list" where
  "upload_channels rs = map fst (filter (\<lambda>(ch, r). r = UploadDone \<or> (\<exists>k. r = UploadFailed k)) rs)"

lemma upload_channels_append [simp]: "upload_channels (xs @ ys) = upload_channels xs @ upload_channels ys"
  by (simp add: upload_channels_def)

lemma upload_channels_simps [simp]:
  "upload_channels [] = []"
  "upload_channels [(ch, IndexFetched d l)] = []" "upload_channels [(ch, FileFetched d)] = []"
  "upload_channels [(ch, UploadDone)] = [ch]" "upload_channels [(ch, UploadFailed k)] = [ch]"
  by (auto simp: upload_channels_def)

lemma length_overwrite: "position + length data \<le> length buf \<Longrightarrow> length (overwrite buf position data) = length buf"
  by (simp add: overwrite_def)

lemma poll_request_ok:
  assumes wf: "fetch_wf n ft" "n = length (cs_locations cs)"
  shows "\<exists>r cs'. poll_request env ft (ft_req ft) cs = Ok (r, cs') \<and> pred_option (fetch_wf n) r \<and> same_tables cs cs' \<and>
    upload_channels (cs_resolved cs') = upload_channels (cs_resolved cs)"
proof -
  obtain ft1 cs1 where f: "fetch_failed env ft cs = (ft1, cs1)" by (cases "fetch_failed env ft cs")
  note failed = fetch_failed_wf [OF wf(1) f]
  show ?thesis
  proof (cases "ft_req ft")
    case (FRIndex fut tx)
    then show ?thesis using wf f failed
      by (cases "polled_future (rv_index env) fut")
        (auto simp: resolve_with_def same_tables_def update_location_def split: option.splits)
  next
    case (FRFile buf path pos hs fut tx)
    show ?thesis
    proof (cases "polled_future (rv_block env) fut")
      case (Ready data)
      then have "fut \<noteq> None" by (auto simp: polled_future_def split: option.splits)
      then obtain a where a: "ft_connection ft = Some a" using wf FRFile by (auto simp: fetch_wf_def)
      show ?thesis
      proof (cases "pos + length data < length buf")
        case True
        have cover: "hashes_cover (length buf) hs" using wf FRFile by (simp add: fetch_wf_def)
        then obtain h where h: "hash_at hs (pos + length data) = Ok h" using hash_at_ok True by blast
        have "length (overwrite buf pos data) = length buf" using True by (simp add: length_overwrite)
        then show ?thesis using wf FRFile Ready a h True cover
          by (simp add: block_request_def send_request_def fetch_wf_def same_tables_def Let_def)
      next
        case False
        then show ?thesis using wf FRFile Ready f failed
          by (cases "pos + length data = length buf")
            (auto simp: Let_def length_overwrite resolve_with_def same_tables_def)
      qed
    qed (use wf FRFile f failed in auto)
  qed
qed

lemma poll_fetch_ok:
  assumes "fetch_wf n ft" "n = length (cs_locations cs)"
  shows "\<exists>r cs'. poll_fetch env ft cs = Ok (r, cs') \<and> pred_option (fetch_wf n) r \<and> same_tables cs cs' \<and>
    upload_channels (cs_resolved cs') = upload_channels (cs_resolved cs)"
proof -
  obtain r cs' where r: "poll_request env ft (ft_req ft) cs = Ok (r, cs')" "pred_option (fetch_wf n) r"
    and "same_tables cs cs'" "upload_channels (cs_resolved cs') = upload_channels (cs_resolved cs)"
    using poll_request_ok [OF assms] by blast
  then show ?thesis by (cases r) (auto simp: poll_fetch_def)
qed

lemma poll_fetches_of_ok:
  assumes "list_all (fetch_wf n) fts" "n = length (cs_locations cs)"
  shows "\<exists>fts' cs'. poll_fetches_of env fts cs = Ok (fts', cs') \<and> list_all (fetch_wf n) fts' \<and> same_tables cs cs' \<and>
    upload_channels (cs_resolved cs') = upload_channels (cs_resolved cs)"
  using assms
proof (induction fts arbitrary: cs)
  case (Cons ft fts)
  obtain r cs1 where 1: "poll_fetch env ft cs = Ok (r, cs1)" "pred_option (fetch_wf n) r" "same_tables cs cs1"
    "upload_channels (cs_resolved cs1) = upload_channels (cs_resolved cs)"
    using poll_fetch_ok [of n ft cs env] Cons.prems by auto
  have "n = length (cs_locations cs1)" using 1 Cons.prems by (simp add: same_tables_def)
  then obtain fts2 cs2 where 2: "poll_fetches_of env fts cs1 = Ok (fts2, cs2)" "list_all (fetch_wf n) fts2"
    "same_tables cs1 cs2" "upload_channels (cs_resolved cs2) = upload_channels (cs_resolved cs1)"
    using Cons.IH [of cs1] Cons.prems by auto
  have "poll_fetches_of env (ft # fts) cs = Ok (case r of None \<Rightarrow> fts2 | Some ft1 \<Rightarrow> ft1 # fts2, cs2)" using 1 2 by simp
  then show ?case using 1 2 by (cases r) (auto intro: same_tables_trans)
qed auto

lemma poll_fetches_ok:
  assumes "set_wf cs"
  shows "\<exists>cs'. poll_fetches env cs = Ok cs' \<and> set_wf cs' \<and> cs_uploads cs' = cs_uploads cs \<and>
    upload_channels (cs_resolved cs') = upload_channels (cs_resolved cs)"
proof -
  obtain fts cs1 where "poll_fetches_of env (cs_fetches cs) cs = Ok (fts, cs1)"
    "list_all (fetch_wf (length (cs_locations cs))) fts" "same_tables cs cs1"
    "upload_channels (cs_resolved cs1) = upload_channels (cs_resolved cs)"
    using poll_fetches_of_ok [of _ "cs_fetches cs" cs env] assms unfolding set_wf_def by blast
  then show ?thesis using assms by (auto simp: poll_fetches_def set_wf_def same_tables_def)
qed

section \<open>Uploads\<close>

lemma poll_ack_keeps:
  assumes "upload_wf act up" "poll_ack env af (up, fails) = (up', fails')"
  shows "upload_wf act up'" "up_resolve up' = up_resolve up" "up_path up' = up_path up" "up_weak up' = up_weak up"
    "up_early up' = up_early up" "up_deadline up' = up_deadline up"
proof -
  obtain a f where [simp]: "af = (a, f)" by (cases af)
  have "distinct (map fst (AList.delete a (up_futures up)))" if "distinct (map fst (up_futures up))"
    using that by (simp add: distinct_delete)
  then show "upload_wf act up'" "up_resolve up' = up_resolve up" "up_path up' = up_path up" "up_weak up' = up_weak up"
    "up_early up' = up_early up" "up_deadline up' = up_deadline up"
    using assms
    by (auto simp: poll_ack_def upload_wf_def distinct_removeAll split: polled.splits prod.splits if_splits)
qed

lemma poll_acks_keeps:
  assumes "upload_wf act up" "fold (poll_ack env) fs (up, fails) = (up', fails')"
  shows "upload_wf act up' \<and> up_resolve up' = up_resolve up \<and> up_path up' = up_path up \<and> up_weak up' = up_weak up \<and>
    up_early up' = up_early up \<and> up_deadline up' = up_deadline up"
  using assms
proof (induction fs arbitrary: up fails)
  case (Cons f fs)
  obtain up1 fails1 where 1: "poll_ack env f (up, fails) = (up1, fails1)" by (cases "poll_ack env f (up, fails)")
  note k = poll_ack_keeps [OF Cons.prems(1) 1]
  have "fold (poll_ack env) fs (up1, fails1) = (up', fails')" using Cons.prems(2) 1 by simp
  from Cons.IH [OF k(1) this] k show ?case by simp
qed auto

lemma poll_upload_cases:
  assumes "poll_upload env up cs = (r, cs')" "upload_wf act up"
  obtains (kept) up' where "r = Some up'" "upload_wf act up'" "up_resolve up' = up_resolve up"
      "\<exists>fails. cs' = cs\<lparr>cs_failures := fails\<rparr>"
  | (ended) res where "r = None" "\<exists>fails. cs' = resolve_with (up_resolve up) res (cs\<lparr>cs_failures := fails\<rparr>)"
      "res = UploadDone \<or> (\<exists>k. res = UploadFailed k)"
proof -
  obtain up1 fails where a: "poll_acks env up (cs_failures cs) = (up1, fails)" by (cases "poll_acks env up (cs_failures cs)")
  have k: "upload_wf act up1" "up_resolve up1 = up_resolve up"
    using poll_acks_keeps [OF assms(2) a [unfolded poll_acks_def]] by auto
  have "(\<exists>up'. r = Some up' \<and> upload_wf act up' \<and> up_resolve up' = up_resolve up \<and> (\<exists>fails. cs' = cs\<lparr>cs_failures := fails\<rparr>)) \<or>
    (\<exists>res. r = None \<and> (\<exists>fails. cs' = resolve_with (up_resolve up) res (cs\<lparr>cs_failures := fails\<rparr>)) \<and>
       (res = UploadDone \<or> (\<exists>k. res = UploadFailed k)))"
    using assms(1) k
    by (auto simp: poll_upload_def a Let_def upload_outcome_def split: option.splits if_splits sum.splits)
  then show thesis using that by blast
qed

text \<open>A channel of an upload is open, or it has been answered.\<close>

definition channels :: "'i conn_set \<Rightarrow> nat multiset" where
  "channels cs = mset (map up_resolve (cs_uploads cs)) + mset (upload_channels (cs_resolved cs))"

lemma poll_queue_uploads:
  assumes "list_all (upload_wf (cs_active cs)) ups" "poll_queue (poll_upload env) ups cs = (ups', cs')"
  shows "list_all (upload_wf (cs_active cs)) ups' \<and> same_tables cs cs' \<and>
    mset (map up_resolve ups') + mset (upload_channels (cs_resolved cs')) =
      mset (map up_resolve ups) + mset (upload_channels (cs_resolved cs))"
  using assms
proof (induction ups arbitrary: cs ups' cs')
  case (Cons up ups)
  obtain r cs1 where 1: "poll_upload env up cs = (r, cs1)" by (cases "poll_upload env up cs")
  obtain ups2 cs2 where 2: "poll_queue (poll_upload env) ups cs1 = (ups2, cs2)" by (cases "poll_queue (poll_upload env) ups cs1")
  have eq: "ups' = (case r of None \<Rightarrow> ups2 | Some y \<Rightarrow> y # ups2)" "cs' = cs2" using Cons.prems(2) 1 2 by auto
  from Cons.prems(1) have w: "upload_wf (cs_active cs) up" "list_all (upload_wf (cs_active cs)) ups" by auto
  from 1 w(1) show ?case
  proof (cases rule: poll_upload_cases)
    case (kept up')
    then have t: "same_tables cs cs1" "cs_resolved cs1 = cs_resolved cs" by (auto simp: same_tables_def)
    then have "cs_active cs1 = cs_active cs" by (simp add: same_tables_def)
    with Cons.IH [OF _ 2] w(2) t kept eq show ?thesis by (auto intro: same_tables_trans)
  next
    case (ended res)
    then have t: "same_tables cs cs1" by (auto simp: same_tables_def resolve_with_def)
    have "cs_resolved cs1 = cs_resolved cs @ [(up_resolve up, res)]" using ended(2) by (auto simp: resolve_with_def)
    then have u: "upload_channels (cs_resolved cs1) = upload_channels (cs_resolved cs) @ [up_resolve up]" using ended(3) by auto
    have "cs_active cs1 = cs_active cs" using t by (simp add: same_tables_def)
    with Cons.IH [OF _ 2] w(2) t u ended(1) eq show ?thesis by (auto intro: same_tables_trans)
  qed
qed auto

lemma poll_uploads_ok:
  assumes "set_wf cs"
  shows "set_wf (poll_uploads env cs)" "channels (poll_uploads env cs) = channels cs"
proof -
  obtain ups cs1 where e: "poll_queue (poll_upload env) (cs_uploads cs) cs = (ups, cs1)"
    by (cases "poll_queue (poll_upload env) (cs_uploads cs) cs")
  have "list_all (upload_wf (cs_active cs)) (cs_uploads cs)" using assms by (simp add: set_wf_def)
  note q = poll_queue_uploads [OF this e]
  show "set_wf (poll_uploads env cs)" using q assms by (simp add: poll_uploads_def e set_wf_def same_tables_def)
  show "channels (poll_uploads env cs) = channels cs" using q by (simp add: poll_uploads_def e channels_def)
qed

lemma opens_channels: "opens cs cs' \<Longrightarrow> channels cs' = channels cs"
  by (auto simp: opens_def channels_def)

lemma poll_pending_channels: "channels (poll_pending env cs) = channels cs"
proof -
  have a: "channels (poll_connection env a cs) = channels cs" for a and cs :: "'a conn_set"
    by (auto simp: poll_connection_def channels_def split: polled.splits)
  have b: "channels (poll_name env h cs) = channels cs" for h and cs :: "'a conn_set"
    by (auto simp: poll_name_def channels_def split: polled.splits)
  have f: "channels (fold g xs cs) = channels cs" if "\<And>x cs. channels (g x cs) = channels cs" for g xs and cs :: "'a conn_set"
    using that by (induction xs arbitrary: cs) auto
  show ?thesis by (simp add: poll_pending_def Let_def f a b)
qed

lemma wakeup_uploads_channels: "set_wf cs \<Longrightarrow> channels (wakeup_uploads cs) = channels cs"
proof -
  assume wf: "set_wf cs"
  obtain ups cs1 where e: "each wakeup_upload (cs_uploads cs) cs = (ups, cs1)" by (cases "each wakeup_upload (cs_uploads cs) cs")
  have "list_all (upload_wf (cs_active cs)) (cs_uploads cs)" using wf by (simp add: set_wf_def)
  from each_wakeup_wf [OF this e] show ?thesis by (simp add: wakeup_uploads_def e channels_def)
qed

lemma poll_round_ok:
  assumes "set_wf cs" "env_ok env"
  shows "\<exists>again cs'. poll_round env cs = Ok (again, cs') \<and> set_wf cs' \<and> channels cs' = channels cs"
proof -
  define cs2 where "cs2 = poll_pending env (poll_connect env cs)"
  have 2: "set_wf cs2" "channels cs2 = channels cs"
    unfolding cs2_def using opens_poll_connect [OF assms(2)] assms(1)
    by (auto intro: poll_pending_wf opens_wf simp: poll_pending_channels opens_channels)
  obtain cs3 where 3: "wakeup_fetches env (wakeup_uploads cs2) = Ok cs3" "set_wf cs3" "channels cs3 = channels cs2"
    using wakeup_fetches_ok [OF wakeup_uploads_wf [OF 2(1)], of env] wakeup_uploads_channels [OF 2(1)]
    by (auto simp: channels_def)
  obtain cs5 where 5: "poll_fetches env (poll_uploads env cs3) = Ok cs5" "set_wf cs5" "channels cs5 = channels cs3"
    using poll_fetches_ok [OF poll_uploads_ok(1) [OF 3(2)], of env env] poll_uploads_ok(2) [OF 3(2)]
    by (auto simp: channels_def)
  show ?thesis unfolding poll_round_def Let_def cs2_def [symmetric] using 2 3 5 by simp
qed

lemma poll_rounds_ok:
  assumes "set_wf cs" "list_all env_ok envs"
  shows "\<exists>cs'. poll_rounds envs cs = Ok cs' \<and> set_wf cs' \<and> channels cs' = channels cs"
  using assms
proof (induction envs arbitrary: cs)
  case (Cons env envs)
  obtain again cs1 where "poll_round env cs = Ok (again, cs1)" "set_wf cs1" "channels cs1 = channels cs"
    using poll_round_ok [of cs env] Cons.prems by auto
  then show ?case using Cons.IH [of cs1] Cons.prems by auto
qed auto

section \<open>Messages\<close>

fun new_channel :: "'i set_message \<Rightarrow> nat option" where
  "new_channel (NewUpload up) = Some (nu_resolve up)"
| "new_channel _ = None"

lemma fetch_wf_mono: "fetch_wf n ft \<Longrightarrow> n \<le> m \<Longrightarrow> fetch_wf m ft"
  by (auto simp: fetch_wf_def)

lemma map_filter_case: "List.map_filter f (x # xs) = (case f x of None \<Rightarrow> List.map_filter f xs | Some y \<Rightarrow> y # List.map_filter f xs)"
  by (simp add: List.map_filter_def split: option.splits)

lemma file_message_ok_mono: "file_message_ok n m \<Longrightarrow> n \<le> k \<Longrightarrow> file_message_ok k m"
  by (cases m) auto

lemma upload_wf_update:
  "upload_wf act (on_received a i up) = upload_wf act up" "upload_wf act (on_aborted a j up) = upload_wf act up"
  "up_resolve (on_received a i up) = up_resolve up" "up_resolve (on_aborted a j up) = up_resolve up"
  "up_resolve (remove_conn a up) = up_resolve up"
  by (simp_all add: on_received_def on_aborted_def remove_conn_def upload_wf_def)

lemma remove_conn_wf: "upload_wf act up \<Longrightarrow> upload_wf (removeAll a act) (remove_conn a up)"
  by (auto simp: upload_wf_def remove_conn_def distinct_removeAll)

lemma read_message_ok:
  assumes wf: "set_wf cs" and fm: "file_message_ok (length (cs_locations cs)) m"
    and cl: "\<And>a. closed_addr m = Some a \<Longrightarrow> a \<in> set (cs_active cs)"
  shows "\<exists>cs'. read_message now m cs = Ok cs' \<and> set_wf cs' \<and>
     channels cs' = channels cs + mset (case new_channel m of None \<Rightarrow> [] | Some ch \<Rightarrow> [ch]) \<and>
     length (cs_locations cs) \<le> length (cs_locations cs') \<and>
     cs_active cs' = (case closed_addr m of None \<Rightarrow> cs_active cs | Some a \<Rightarrow> removeAll a (cs_active cs))"
proof (cases m)
  case (SetNotification a n)
  then show ?thesis using wf
    by (cases n) (auto simp: set_wf_def channels_def list_all_iff upload_wf_update image_mset.compositionality comp_def)
next
  case (Closed a)
  then show ?thesis using wf cl
    by (auto simp: set_wf_def channels_def list_all_iff upload_wf_update image_mset.compositionality comp_def remove_conn_wf distinct_removeAll)
next
  case (FetchFile path loc sz hs tx)
  then show ?thesis using wf fm
    by (auto simp: set_wf_def channels_def start_fetch_file_def fetch_wf_def)
next
  case (FetchIndex path tx)
  then show ?thesis using wf
    by (auto simp: set_wf_def channels_def start_fetch_index_def fetch_wf_def list_all_iff)
next
  case (NewUpload up)
  then show ?thesis using wf
    by (auto simp: set_wf_def channels_def start_upload_def upload_wf_def)
qed

lemma read_messages_ok:
  assumes "set_wf cs" "messages_ok msgs cs"
  shows "\<exists>cs'. read_messages now msgs cs = Ok cs' \<and> set_wf cs' \<and>
     channels cs' = channels cs + mset (List.map_filter new_channel msgs)"
  using assms
proof (induction msgs arbitrary: cs)
  case Nil
  then show ?case by (simp add: List.map_filter_def)
next
  case (Cons m msgs)
  have f: "file_message_ok (length (cs_locations cs)) m" using Cons.prems(2) by (simp add: messages_ok_def)
  have c: "a \<in> set (cs_active cs)" if "closed_addr m = Some a" for a
    using Cons.prems(2) that by (simp add: messages_ok_def map_filter_case)
  obtain cs1 where 1: "read_message now m cs = Ok cs1" "set_wf cs1"
    and ch: "channels cs1 = channels cs + mset (case new_channel m of None \<Rightarrow> [] | Some ch \<Rightarrow> [ch])"
    and l: "length (cs_locations cs) \<le> length (cs_locations cs1)"
    and act: "cs_active cs1 = (case closed_addr m of None \<Rightarrow> cs_active cs | Some a \<Rightarrow> removeAll a (cs_active cs))"
    using read_message_ok [OF Cons.prems(1) f c] by blast
  have "messages_ok msgs cs1"
    using Cons.prems(2) act l
    by (auto simp: messages_ok_def map_filter_case list_all_iff intro: file_message_ok_mono split: option.splits)
  from Cons.IH [OF 1(2) this] 1 ch show ?case by (auto simp: map_filter_case split: option.splits)
qed

lemma addr_cell_poll_tables:
  "same_tables cs (addr_cell_poll env cs)" "cs_resolved (addr_cell_poll env cs) = cs_resolved cs"
  by (simp_all add: addr_cell_poll_def same_tables_def split: prod.splits)

lemma set_poll_ok:
  assumes "set_wf cs" "messages_ok msgs cs" "env_ok env" "list_all env_ok envs"
  shows "\<exists>cs'. set_poll env msgs envs cs = Ok cs' \<and> set_wf cs' \<and>
     channels cs' = channels cs + mset (List.map_filter new_channel msgs)"
proof -
  define cs0 where "cs0 = addr_cell_poll env cs"
  have 0: "set_wf cs0" "messages_ok msgs cs0" "channels cs0 = channels cs"
    using assms(1, 2) addr_cell_poll_tables(1) [of cs env] addr_cell_poll_tables(2) [of env cs]
    by (simp_all add: cs0_def set_wf_def messages_ok_def channels_def same_tables_def)
  obtain cs1 where 1: "read_messages (rv_now env) msgs cs0 = Ok cs1" "set_wf cs1"
    "channels cs1 = channels cs + mset (List.map_filter new_channel msgs)"
    using read_messages_ok [OF 0(1, 2)] 0(3) by metis
  have "list_all env_ok (env # envs)" using assms(3, 4) by simp
  then obtain cs2 where 2: "poll_rounds (env # envs) cs1 = Ok cs2" "set_wf cs2" "channels cs2 = channels cs1"
    using poll_rounds_ok [OF 1(2)] by blast
  have "set_poll env msgs envs cs = Ok cs2" by (simp only: set_poll_def cs0_def [symmetric] 1(1) 2(1) bind_result.simps)
  then show ?thesis using 1(3) 2(2, 3) by metis
qed

section \<open>Runs of the task\<close>

text \<open>
  \<^verbatim>\<open>Connection::_upload\<close> of \<^verbatim>\<open>src/cluster/mod.rs\<close>: an upload starts with empty statistics for its path, and the channel of
  its result is new.
\<close>

definition conn_upload ::
  "string list \<Rightarrow> bool \<Rightarrow> bool \<Rightarrow> vpath \<Rightarrow> signed_upload \<Rightarrow> image_id option \<Rightarrow> nat \<Rightarrow> 'i set_message" where
  "conn_upload cluster_name replace weak path upload old_image tx =
     NewUpload \<lparr>nu_replace = replace, nu_weak = weak, nu_path = path, nu_upload = upload, nu_old_image = old_image,
       nu_stats = stats_new cluster_name path weak, nu_resolve = tx\<rparr>"

fun upload_message_ok :: "string list \<Rightarrow> 'i set_message \<Rightarrow> bool" where
  "upload_message_ok names (NewUpload nu) \<longleftrightarrow> nu_stats nu = stats_new names (nu_path nu) (nu_weak nu)"
| "upload_message_ok names _ \<longleftrightarrow> True"

text \<open>
  The states a connection set reaches from its start, together with all messages it has read and
  the environments of all rounds.
\<close>

inductive set_run ::
  "string list \<Rightarrow> cluster_config \<Rightarrow> 'i set_message list \<Rightarrow> 'i round_env list \<Rightarrow> 'i conn_set \<Rightarrow> bool" for names cfg where
  set_start: "set_run names cfg [] [] (conn_set_new names cfg)"
| set_next: "set_run names cfg ms es cs \<Longrightarrow> messages_ok msgs cs \<Longrightarrow> list_all (upload_message_ok names) msgs \<Longrightarrow>
     distinct (List.map_filter new_channel (ms @ msgs)) \<Longrightarrow> list_all env_ok (env # envs) \<Longrightarrow>
     set_poll env msgs envs cs = Ok cs' \<Longrightarrow> set_run names cfg (ms @ msgs) (es @ env # envs) cs'"

lemma map_filter_append: "List.map_filter f (xs @ ys) = List.map_filter f xs @ List.map_filter f ys"
  by (simp add: List.map_filter_def)

lemma set_run_inv:
  "set_run names cfg ms es cs \<Longrightarrow>
     set_wf cs \<and> distinct (List.map_filter new_channel ms) \<and> channels cs = mset (List.map_filter new_channel ms)"
proof (induction rule: set_run.induct)
  case set_start
  then show ?case by (simp add: set_wf_def conn_set_new_def channels_def List.map_filter_def)
next
  case (set_next ms es cs msgs env envs cs')
  then show ?case using set_poll_ok [of cs msgs env envs] by (auto simp: map_filter_append)
qed


end
