(* ===== verification/Cluster_Outcomes.thy ===== *)
theory Cluster_Outcomes
  imports Cluster_Set_Safety
begin

text \<open>
  What the outcome of an upload tells: the history that a client has heard of it, when it counts as done, when it
  is given up, and the cases in which the client's answer is wrong.
\<close>

section \<open>The history of an open upload\<close>

text \<open>
  An event of the history of the upload \<open>nu\<close> is real: a notification was read from the address, for the path of the
  upload, or an acknowledgement came for a request of the upload that was sent to the address.
\<close>

fun real_event ::
  "'i set_message set \<Rightarrow> (nat \<times> dir_ack) set \<Rightarrow> (nat \<times> 'i addr \<times> request) set \<Rightarrow> 'i client_upload \<Rightarrow> 'i addr heard \<Rightarrow> bool" where
  "real_event M A S up (HReceived a i) \<longleftrightarrow> SetNotification a (ReceivedImage i) \<in> M \<and> ri_path i = up_path up"
| "real_event M A S up (HAborted a i) \<longleftrightarrow> SetNotification a (AbortedImage i) \<in> M \<and> ai_id i = su_image (up_upload up)"
| "real_event M A S up (HResponse a acc r h) \<longleftrightarrow>
     (\<exists>n. (n, \<lparr>ack_accepted = acc, ack_reject_reason = r, ack_hosts = h\<rparr>) \<in> A \<and> (n, a, upload_request up) \<in> S)"

definition same_upload :: "'i new_upload \<Rightarrow> 'i client_upload \<Rightarrow> bool" where
  "same_upload nu up \<longleftrightarrow> up_resolve up = nu_resolve nu \<and> up_path up = nu_path nu \<and> up_weak up = nu_weak nu \<and>
     up_upload up = nu_upload nu \<and> up_replace up = nu_replace nu \<and> up_old_image up = nu_old_image nu"

definition tracks ::
  "string list \<Rightarrow> 'i set_message set \<Rightarrow> (nat \<times> dir_ack) set \<Rightarrow> (nat \<times> 'i addr \<times> request) set \<Rightarrow> 'i client_upload \<Rightarrow> bool" where
  "tracks names M A S up \<longleftrightarrow>
     (\<forall>(a, f) \<in> set (up_futures up). (request_no f, a, upload_request up) \<in> S) \<and>
     (\<exists>nu hs. NewUpload nu \<in> M \<and> same_upload nu up \<and>
        up_stats up = fold hear hs (stats_new names (up_path up) (up_weak up)) \<and> list_all (real_event M A S up) hs)"

text \<open>The number of hosts that is enough after the early timeout, and the machines that have reported the image.\<close>

definition quorum :: "string list \<Rightarrow> cluster_config \<Rightarrow> 'i client_upload \<Rightarrow> 'i addr heard list \<Rightarrow> nat" where
  "quorum names cfg up hs =
     (let d = discovered_num (ss_book (fold hear hs (stats_new names (up_path up) (up_weak up))))
      in min (unat d) (max (unat (cc_early_hosts cfg)) (cc_early_fraction cfg d)))"

definition early_done :: "string list \<Rightarrow> cluster_config \<Rightarrow> 'i client_upload \<Rightarrow> 'i addr heard list \<Rightarrow> bool" where
  "early_done names cfg up hs \<longleftrightarrow>
     0 < quorum names cfg up hs \<and> quorum names cfg up hs \<le> card (\<Union>e\<in>set hs. done_server_of e) \<and>
     (\<forall>e\<in>set hs. rejected_of (up_weak up) e = {} \<and> aborted_id_of e = {})"

text \<open>The outcome of a channel is justified: the upload it belongs to was complete, or complete enough.\<close>

definition justified ::
  "string list \<Rightarrow> cluster_config \<Rightarrow> 'i set_message set \<Rightarrow> (nat \<times> dir_ack) set \<Rightarrow> (nat \<times> 'i addr \<times> request) set \<Rightarrow>
   nat \<Rightarrow> bool" where
  "justified names cfg M A S ch \<longleftrightarrow>
     (\<exists>nu up hs. NewUpload nu \<in> M \<and> nu_resolve nu = ch \<and> same_upload nu up \<and> list_all (real_event M A S up) hs \<and>
        (delivered (up_weak up) hs \<or> early_done names cfg up hs))"

section \<open>Growing logs\<close>

lemma real_event_mono:
  "real_event M A S up e \<Longrightarrow> M \<subseteq> M' \<Longrightarrow> A \<subseteq> A' \<Longrightarrow> S \<subseteq> S' \<Longrightarrow> real_event M' A' S' up e"
  by (cases e) auto

lemma tracks_mono:
  assumes "tracks names M A S up" "M \<subseteq> M'" "A \<subseteq> A'" "S \<subseteq> S'"
  shows "tracks names M' A' S' up"
proof -
  have "list_all (real_event M' A' S' up) hs" if "list_all (real_event M A S up) hs" for hs
    using that assms(2-4) by (auto simp: list_all_iff intro: real_event_mono)
  then show ?thesis using assms unfolding tracks_def by blast
qed

lemma justified_mono:
  assumes "justified names cfg M A S ch" "M \<subseteq> M'" "A \<subseteq> A'" "S \<subseteq> S'"
  shows "justified names cfg M' A' S' ch"
proof -
  have "list_all (real_event M' A' S' up) hs" if "list_all (real_event M A S up) hs" for hs up
    using that assms(2-4) by (auto simp: list_all_iff intro: real_event_mono)
  moreover obtain nu up hs where "NewUpload nu \<in> M" "nu_resolve nu = ch" "same_upload nu up" "list_all (real_event M A S up) hs"
    "delivered (up_weak up) hs \<or> early_done names cfg up hs"
    using assms(1) unfolding justified_def by blast
  ultimately show ?thesis using assms(2) unfolding justified_def by blast
qed

text \<open>A change of an upload that adds one event to its history, or none.\<close>

definition only_grows :: "'i client_upload \<Rightarrow> 'i client_upload \<Rightarrow> 'i addr heard list \<Rightarrow> bool" where
  "only_grows up up' es \<longleftrightarrow>
     up_resolve up' = up_resolve up \<and> up_path up' = up_path up \<and> up_weak up' = up_weak up \<and> up_upload up' = up_upload up \<and>
     up_replace up' = up_replace up \<and> up_old_image up' = up_old_image up \<and> up_stats up' = fold hear es (up_stats up)"

lemma upload_request_cong: "only_grows up up' es \<Longrightarrow> upload_request up' = upload_request up"
  by (simp add: only_grows_def upload_request_def Let_def)

lemma real_event_cong:
  assumes "only_grows up up' es" shows "real_event M A S up' e = real_event M A S up e"
  using upload_request_cong [OF assms] assms by (cases e) (auto simp: only_grows_def)

lemma tracks_step:
  assumes "tracks names M A S up" "only_grows up up' es" "list_all (real_event M A S up) es"
    and "\<And>a f. (a, f) \<in> set (up_futures up') \<Longrightarrow> (a, f) \<in> set (up_futures up) \<or> (request_no f, a, upload_request up) \<in> S"
  shows "tracks names M A S up'"
proof -
  obtain nu hs where nu: "NewUpload nu \<in> M" "same_upload nu up"
    "up_stats up = fold hear hs (stats_new names (up_path up) (up_weak up))" "list_all (real_event M A S up) hs"
    using assms(1) unfolding tracks_def by blast
  have f: "\<forall>(a, f) \<in> set (up_futures up'). (request_no f, a, upload_request up') \<in> S"
    unfolding upload_request_cong [OF assms(2)]
  proof (rule ballI)
    fix af
    assume af: "af \<in> set (up_futures up')"
    obtain a f where [simp]: "af = (a, f)" by (cases af)
    from assms(4) [of a f] af assms(1) show "case af of (a, f) \<Rightarrow> (request_no f, a, upload_request up) \<in> S"
      unfolding tracks_def by auto
  qed
  have "up_stats up' = fold hear (hs @ es) (stats_new names (up_path up') (up_weak up'))"
    using nu(3) assms(2) by (simp add: only_grows_def)
  moreover have "same_upload nu up'" using nu(2) assms(2) by (simp add: same_upload_def only_grows_def)
  moreover have "list_all (real_event M A S up') (hs @ es)"
    unfolding list_all_iff real_event_cong [OF assms(2)] using nu(4) assms(3) by (auto simp: list_all_iff)
  ultimately show ?thesis using nu(1) f unfolding tracks_def by blast
qed

section \<open>Steps of an upload\<close>

lemma tracks_received:
  assumes "tracks names M A S up" "SetNotification a (ReceivedImage i) \<in> M"
  shows "tracks names M A S (on_received a i up)"
proof (cases "up_path up = ri_path i")
  case True
  have "only_grows up (on_received a i up) [HReceived a i]" using True by (simp add: only_grows_def on_received_def)
  then show ?thesis by (rule tracks_step [OF assms(1)]) (use assms(2) True in \<open>auto simp: on_received_def\<close>)
qed (use assms in \<open>simp add: on_received_def\<close>)

lemma tracks_aborted:
  assumes "tracks names M A S up" "SetNotification a (AbortedImage i) \<in> M"
  shows "tracks names M A S (on_aborted a i up)"
proof (cases "su_image (up_upload up) = ai_id i \<and> (up_weak up \<or> up_path up = ai_path i)")
  case True
  have "only_grows up (on_aborted a i up) [HAborted a i]" using True by (simp add: only_grows_def on_aborted_def)
  then show ?thesis by (rule tracks_step [OF assms(1)]) (use assms(2) True in \<open>auto simp: on_aborted_def\<close>)
qed (use assms in \<open>auto simp: on_aborted_def\<close>)

lemma tracks_remove_conn: "tracks names M A S up \<Longrightarrow> tracks names M A S (remove_conn a up)"
  by (rule tracks_step [of names M A S up _ "[]"]) (auto simp: only_grows_def remove_conn_def)

lemma set_alist_update: "(k, v) \<in> set (AList.update a b xs) \<Longrightarrow> (k, v) \<in> set xs \<or> (k, v) = (a, b)"
  by (induction xs) (auto split: if_splits)

lemma set_alist_delete: "kv \<in> set (AList.delete a xs) \<Longrightarrow> kv \<in> set xs"
  by (auto simp: AList.delete_eq)

lemma tracks_upload_to:
  assumes "upload_to a (up, cs) = (up', cs')" "tracks names M A (set (cs_sent cs)) up"
  shows "tracks names M A (set (cs_sent cs')) up'" "set (cs_sent cs) \<subseteq> set (cs_sent cs')" "cs_config cs' = cs_config cs"
proof -
  show s: "set (cs_sent cs) \<subseteq> set (cs_sent cs')" "cs_config cs' = cs_config cs"
    using assms(1) by (auto simp: upload_to_def send_request_def split: if_splits)
  have t: "tracks names M A (set (cs_sent cs')) up" using tracks_mono [OF assms(2)] s(1) by blast
  show "tracks names M A (set (cs_sent cs')) up'"
  proof (cases "a \<notin> set (up_connections up) \<and> \<not> is_rejected a (up_stats up)")
    case True
    let ?n = "cs_next_request cs" and ?f = "if up_replace up then RReplace (cs_next_request cs) else RAppend (cs_next_request cs)"
    have up': "up' = up\<lparr>up_futures := AList.update a ?f (up_futures up), up_connections := List.insert a (up_connections up)\<rparr>"
      and sent: "(?n, a, upload_request up) \<in> set (cs_sent cs')"
      using assms(1) True by (auto simp: upload_to_def send_request_def)
    show ?thesis
    proof (rule tracks_step [OF t, of up' "[]"])
      show "only_grows up up' []" by (simp add: up' only_grows_def)
    next
      fix k f
      assume "(k, f) \<in> set (up_futures up')"
      then have "(k, f) \<in> set (up_futures up) \<or> (k, f) = (a, ?f)" using set_alist_update unfolding up' by fastforce
      then show "(k, f) \<in> set (up_futures up) \<or> (request_no f, k, upload_request up) \<in> set (cs_sent cs')"
        using sent by auto
    qed simp
  qed (use assms t in \<open>auto simp: upload_to_def\<close>)
qed

lemma tracks_fold_upload_to:
  assumes "fold upload_to xs (up, cs) = (up', cs')" "tracks names M A (set (cs_sent cs)) up"
  shows "tracks names M A (set (cs_sent cs')) up' \<and> set (cs_sent cs) \<subseteq> set (cs_sent cs') \<and> cs_config cs' = cs_config cs"
  using assms
proof (induction xs arbitrary: up cs)
  case (Cons a xs)
  obtain up1 cs1 where 1: "upload_to a (up, cs) = (up1, cs1)" by (cases "upload_to a (up, cs)")
  note t = tracks_upload_to [OF 1 Cons.prems(2)]
  have "fold upload_to xs (up1, cs1) = (up', cs')" using Cons.prems(1) 1 by simp
  from Cons.IH [OF this t(1)] t show ?case by auto
qed auto

lemma tracks_poll_ack:
  assumes "poll_ack env (a, f) (up, fails) = (up', fails')" "tracks names M A S up"
    and "(request_no f, a, upload_request up) \<in> S" "{(n, ack). rv_ack env n = Ready ack} \<subseteq> A"
  shows "tracks names M A S up'" "upload_request up' = upload_request up"
    "up_resolve up' = up_resolve up" "up_path up' = up_path up" "up_weak up' = up_weak up"
proof -
  have key: "tracks names M A S up' \<and> (\<exists>es. only_grows up up' es)"
  proof (cases "rv_ack env (request_no f)")
    case (Ready resp)
    let ?e = "HResponse a (ack_accepted resp) (ack_reject_reason resp) (ack_hosts resp)"
    have g: "only_grows up up' [?e]" and fut: "up_futures up' = AList.delete a (up_futures up)"
      using assms(1) Ready by (auto simp: poll_ack_def only_grows_def split: prod.splits)
    have "(request_no f, resp) \<in> A" using assms(4) Ready by auto
    then have "real_event M A S up ?e" using assms(3) by (cases resp) auto
    then have "tracks names M A S up'" using tracks_step [OF assms(2) g] fut set_alist_delete by fastforce
    then show ?thesis using g by blast
  next
    case (Failed x)
    then have g: "only_grows up up' []" and fut: "up_futures up' = AList.delete a (up_futures up)"
      using assms(1) by (auto simp: poll_ack_def only_grows_def)
    have "tracks names M A S up'" using tracks_step [OF assms(2) g] fut set_alist_delete by fastforce
    then show ?thesis using g by blast
  next
    case NotReady
    then have "up' = up" using assms(1) by (simp add: poll_ack_def)
    then show ?thesis using assms(2) by (auto intro!: exI [of _ "[]"] simp: only_grows_def)
  qed
  then show "tracks names M A S up'" "upload_request up' = upload_request up"
    "up_resolve up' = up_resolve up" "up_path up' = up_path up" "up_weak up' = up_weak up"
    using upload_request_cong by (auto simp: only_grows_def)
qed

lemma tracks_poll_acks:
  assumes "fold (poll_ack env) fs (up, fails) = (up', fails')" "tracks names M A S up"
    and "\<forall>(a, f) \<in> set fs. (request_no f, a, upload_request up) \<in> S" "{(n, ack). rv_ack env n = Ready ack} \<subseteq> A"
  shows "tracks names M A S up'"
  using assms(1-3)
proof (induction fs arbitrary: up fails)
  case (Cons af fs)
  obtain a f where [simp]: "af = (a, f)" by (cases af)
  obtain up1 fails1 where 1: "poll_ack env (a, f) (up, fails) = (up1, fails1)" by (cases "poll_ack env (a, f) (up, fails)")
  have "(request_no f, a, upload_request up) \<in> S" using Cons.prems(3) by simp
  note t = tracks_poll_ack [OF 1 Cons.prems(2) this assms(4)]
  show ?case using Cons.IH [of up1 fails1] Cons.prems 1 t by simp
qed auto

lemma tracks_check:
  assumes "tracks names M A S up" "check_upload cs early up = Some (Inr ())" "cs_config cs = cfg"
  shows "justified names cfg M A S (up_resolve up)"
proof -
  obtain nu hs where nu: "NewUpload nu \<in> M" "same_upload nu up" "list_all (real_event M A S up) hs"
    and st: "up_stats up = fold hear hs (stats_new names (up_path up) (up_weak up))"
    using assms(1) unfolding tracks_def by blast
  have "delivered (up_weak up) hs \<or> early_done names cfg up hs"
    using assms(2, 3) unfolding check_upload_def upload_check_heard [OF st] quorum_def early_done_def delivered_def st [symmetric]
    by (auto simp: Let_def split: if_splits)
  then show ?thesis using nu unfolding justified_def same_upload_def by metis
qed

section \<open>The invariant of the set\<close>

definition set_inv ::
  "string list \<Rightarrow> cluster_config \<Rightarrow> 'i set_message set \<Rightarrow> (nat \<times> dir_ack) set \<Rightarrow> 'i conn_set \<Rightarrow> bool" where
  "set_inv names cfg M A cs \<longleftrightarrow>
     cs_config cs = cfg \<and> (\<forall>up \<in> set (cs_uploads cs). tracks names M A (set (cs_sent cs)) up) \<and>
     (\<forall>ch. (ch, UploadDone) \<in> set (cs_resolved cs) \<longrightarrow> justified names cfg M A (set (cs_sent cs)) ch)"

lemma set_inv_mono: "set_inv names cfg M A cs \<Longrightarrow> M \<subseteq> M' \<Longrightarrow> A \<subseteq> A' \<Longrightarrow> set_inv names cfg M' A' cs"
  unfolding set_inv_def by (meson order_refl tracks_mono justified_mono)

text \<open>Steps that leave the uploads alone, send requests and resolve no upload as done.\<close>

definition neutral :: "'i conn_set \<Rightarrow> 'i conn_set \<Rightarrow> bool" where
  "neutral cs cs' \<longleftrightarrow>
     cs_config cs' = cs_config cs \<and> cs_uploads cs' = cs_uploads cs \<and> set (cs_sent cs) \<subseteq> set (cs_sent cs') \<and>
     (\<forall>ch. (ch, UploadDone) \<in> set (cs_resolved cs') \<longrightarrow> (ch, UploadDone) \<in> set (cs_resolved cs))"

lemma neutral_refl [simp]: "neutral cs cs"
  by (simp add: neutral_def)

lemma neutral_trans: "neutral a b \<Longrightarrow> neutral b c \<Longrightarrow> neutral a c"
  unfolding neutral_def by auto

lemma neutral_fold: "(\<And>x cs. neutral cs (g x cs)) \<Longrightarrow> neutral cs (fold g xs cs)"
  by (induction xs arbitrary: cs) (auto intro: neutral_trans)

lemma neutral_send: "neutral cs (snd (send_request a r cs))"
  by (auto simp: neutral_def send_request_def)

lemma set_inv_neutral:
  assumes "set_inv names cfg M A cs" "neutral cs cs'"
  shows "set_inv names cfg M A cs'"
  using assms tracks_mono [of names M A "set (cs_sent cs)" _ M A "set (cs_sent cs')"]
    justified_mono [of names cfg M A "set (cs_sent cs)" _ M A "set (cs_sent cs')"]
  unfolding set_inv_def neutral_def by auto

lemma read_message_inv:
  assumes "set_inv names cfg M A cs" "m \<in> M" "upload_message_ok names m" "read_message now m cs = Ok cs'"
  shows "set_inv names cfg M A cs'"
proof (cases m)
  case (NewUpload nu)
  let ?S = "set (cs_sent cs)"
  have cs': "cs' = start_upload now nu cs" using assms(4) NewUpload by simp
  define up where "up = last (cs_uploads cs')"
  have up: "up_futures up = []" "same_upload nu up" "up_stats up = nu_stats nu"
    unfolding up_def cs' by (simp_all add: start_upload_def same_upload_def)
  have "up_stats up = fold hear [] (stats_new names (up_path up) (up_weak up))"
    using up assms(3) NewUpload by (simp add: same_upload_def)
  moreover have "list_all (real_event M A ?S up) []" by simp
  ultimately have "tracks names M A ?S up" unfolding tracks_def using up(1, 2) assms(2) NewUpload by (metis empty_iff list.set(1))
  moreover have "set (cs_uploads cs') = insert up (set (cs_uploads cs))" unfolding up_def cs' by (simp add: start_upload_def)
  moreover have "cs_config cs' = cs_config cs" "cs_sent cs' = cs_sent cs" "cs_resolved cs' = cs_resolved cs"
    unfolding cs' by (simp_all add: start_upload_def)
  ultimately show ?thesis using assms(1) unfolding set_inv_def by auto
next
  case (SetNotification a n)
  then show ?thesis using assms by (cases n) (auto simp: set_inv_def tracks_received tracks_aborted)
next
  case (Closed a)
  then show ?thesis using assms by (auto simp: set_inv_def tracks_remove_conn split: if_splits)
next
  case (FetchFile path loc sz hs tx)
  then show ?thesis using assms by (auto simp: set_inv_def start_fetch_file_def)
next
  case (FetchIndex path tx)
  then show ?thesis using assms by (auto simp: set_inv_def start_fetch_index_def)
qed

lemma read_messages_inv:
  assumes "set_inv names cfg M A cs" "set msgs \<subseteq> M" "list_all (upload_message_ok names) msgs"
    and "read_messages now msgs cs = Ok cs'"
  shows "set_inv names cfg M A cs'"
  using assms
proof (induction msgs arbitrary: cs)
  case (Cons m msgs)
  then obtain cs1 where "read_message now m cs = Ok cs1" "read_messages now msgs cs1 = Ok cs'" by auto
  then show ?case using Cons.IH [of cs1] Cons.prems read_message_inv [of names cfg M A cs m now cs1] by simp
qed simp

lemma opens_neutral: "opens cs cs' \<Longrightarrow> neutral cs cs'"
  by (auto simp: opens_def neutral_def)

lemma poll_pending_neutral: "neutral cs (poll_pending env cs)"
proof -
  have "neutral cs (poll_connection env a cs)" for a and cs :: "'a conn_set"
    by (auto simp: poll_connection_def neutral_def split: polled.splits)
  moreover have "neutral cs (poll_name env h cs)" for h and cs :: "'a conn_set"
    by (auto simp: poll_name_def neutral_def split: polled.splits)
  ultimately show ?thesis unfolding poll_pending_def Let_def
    using neutral_trans [OF neutral_fold [of "poll_connection env"] neutral_fold [of "poll_name env"]] by blast
qed

lemma wakeup_fetch_neutral: "wakeup_fetch env xs ft cs = Ok (ft', cs') \<Longrightarrow> neutral cs cs'"
proof (induction xs arbitrary: ft cs)
  case (Cons a xs)
  show ?case
  proof (cases "can_try (rv_now env) (pt_failures (cs_locations cs ! ft_location ft)) a")
    case True
    then obtain req where "fetch_request (cs_locations cs ! ft_location ft) (ft_req ft) = Ok req"
      using Cons.prems by (auto simp: Let_def)
    then have "\<exists>ft1. wakeup_fetch env xs ft1 (snd (send_request a req cs)) = Ok (ft', cs')"
      using Cons.prems True by (auto simp: Let_def split: prod.splits)
    then show ?thesis using Cons.IH neutral_trans [OF neutral_send] by blast
  qed (use Cons in \<open>simp add: Let_def\<close>)
qed simp

lemma wakeup_fetches_neutral: "wakeup_fetches env cs = Ok cs' \<Longrightarrow> neutral cs cs'"
proof -
  have of: "wakeup_fetches_of env fts cs = Ok (fts', cs') \<Longrightarrow> neutral cs cs'" for fts fts' and cs cs' :: "'a conn_set"
  proof (induction fts arbitrary: cs fts')
    case (Cons ft fts)
    then obtain ft1 cs1 fts1 where 1: "(if ft_connection ft = None then wakeup_fetch env (cs_active cs) ft cs else Ok (ft, cs)) = Ok (ft1, cs1)"
      "wakeup_fetches_of env fts cs1 = Ok (fts1, cs')" by (auto split: prod.splits)
    have "neutral cs cs1" using 1(1) wakeup_fetch_neutral by (auto split: if_splits)
    then show ?case using Cons.IH [OF 1(2)] neutral_trans by blast
  qed simp
  assume "wakeup_fetches env cs = Ok cs'"
  then obtain fts cs1 where 1: "wakeup_fetches_of env (cs_fetches cs) cs = Ok (fts, cs1)" "cs' = cs1\<lparr>cs_fetches := fts\<rparr>"
    by (auto simp: wakeup_fetches_def)
  have "neutral cs1 cs'" by (simp add: neutral_def 1(2))
  then show "neutral cs cs'" using of [OF 1(1)] neutral_trans by blast
qed

lemma update_location_neutral: "neutral cs (update_location l f cs)"
  by (simp add: neutral_def update_location_def)

lemma fetch_failed_neutral: "fetch_failed env ft cs = (ft', cs') \<Longrightarrow> neutral cs cs'"
  by (auto simp: fetch_failed_def update_location_neutral split: option.splits)

lemma poll_request_neutral:
  assumes "poll_request env ft r cs = Ok (r', cs')" shows "neutral cs cs'"
proof -
  obtain ft1 cs1 where f: "fetch_failed env ft cs = (ft1, cs1)" by (cases "fetch_failed env ft cs")
  note n1 = fetch_failed_neutral [OF f]
  show ?thesis
  proof (cases r)
    case (FRIndex fut tx)
    then show ?thesis using assms f n1 neutral_trans [OF n1 update_location_neutral]
      by (auto simp: resolve_with_def neutral_def update_location_def split: polled.splits option.splits)
  next
    case (FRFile buf path pos hs fut tx)
    then show ?thesis using assms f n1 neutral_send
      by (auto simp: Let_def resolve_with_def send_request_def neutral_def split: polled.splits if_splits)
  qed
qed

lemma poll_fetches_neutral: "poll_fetches env cs = Ok cs' \<Longrightarrow> neutral cs cs'"
proof -
  have of: "poll_fetches_of env fts cs = Ok (fts', cs') \<Longrightarrow> neutral cs cs'" for fts fts' and cs cs' :: "'a conn_set"
  proof (induction fts arbitrary: cs fts')
    case (Cons ft fts)
    then obtain r cs1 fts1 where 1: "poll_fetch env ft cs = Ok (r, cs1)" "poll_fetches_of env fts cs1 = Ok (fts1, cs')"
      by (auto split: prod.splits)
    have "\<exists>r0. poll_request env ft (ft_req ft) cs = Ok (r0, cs1)"
      using 1(1) by (auto simp: poll_fetch_def split: option.splits prod.splits)
    then have "neutral cs cs1" using poll_request_neutral by blast
    then show ?case using Cons.IH [OF 1(2)] neutral_trans by blast
  qed simp
  assume "poll_fetches env cs = Ok cs'"
  then obtain fts cs1 where 1: "poll_fetches_of env (cs_fetches cs) cs = Ok (fts, cs1)" "cs' = cs1\<lparr>cs_fetches := fts\<rparr>"
    by (auto simp: poll_fetches_def)
  have "neutral cs1 cs'" by (simp add: neutral_def 1(2))
  then show "neutral cs cs'" using of [OF 1(1)] neutral_trans by blast
qed

lemma each_wakeup_inv:
  assumes "each wakeup_upload ups cs = (ups', cs')" "\<forall>up \<in> set ups. tracks names M A (set (cs_sent cs)) up"
  shows "(\<forall>up \<in> set ups'. tracks names M A (set (cs_sent cs')) up) \<and> set (cs_sent cs) \<subseteq> set (cs_sent cs') \<and>
    cs_config cs' = cs_config cs"
  using assms
proof (induction ups arbitrary: cs ups' cs')
  case (Cons up ups)
  obtain up1 cs1 where 1: "wakeup_upload up cs = (up1, cs1)" by (cases "wakeup_upload up cs")
  obtain ups2 cs2 where 2: "each wakeup_upload ups cs1 = (ups2, cs2)" by (cases "each wakeup_upload ups cs1")
  have eq: "ups' = up1 # ups2" "cs' = cs2" using Cons.prems(1) 1 2 by auto
  have t: "tracks names M A (set (cs_sent cs1)) up1" "set (cs_sent cs) \<subseteq> set (cs_sent cs1)" "cs_config cs1 = cs_config cs"
    using tracks_fold_upload_to [of "cs_active cs" up cs up1 cs1 names M A] 1 Cons.prems(2)
    by (auto simp: wakeup_upload_def split: if_splits)
  have "\<forall>up \<in> set ups. tracks names M A (set (cs_sent cs1)) up"
    using Cons.prems(2) t(2) tracks_mono by (metis list.set_intros(2) order_refl)
  from Cons.IH [OF 2 this] t eq tracks_mono [OF t(1), of M A "set (cs_sent cs2)"] show ?case by auto
qed auto

lemma wakeup_uploads_inv:
  assumes "set_inv names cfg M A cs" "set_wf cs" shows "set_inv names cfg M A (wakeup_uploads cs)"
proof -
  obtain ups cs1 where e: "each wakeup_upload (cs_uploads cs) cs = (ups, cs1)" by (cases "each wakeup_upload (cs_uploads cs) cs")
  have i: "(\<forall>up \<in> set ups. tracks names M A (set (cs_sent cs1)) up)" "set (cs_sent cs) \<subseteq> set (cs_sent cs1)"
    "cs_config cs1 = cs_config cs"
    using each_wakeup_inv [OF e] assms(1) unfolding set_inv_def by auto
  have "cs_resolved cs1 = cs_resolved cs" using each_wakeup_wf [OF _ e] assms(2) by (simp add: set_wf_def)
  then show ?thesis using assms(1) i justified_mono [of names cfg M A "set (cs_sent cs)" _ M A "set (cs_sent cs1)"]
    by (auto simp: wakeup_uploads_def e set_inv_def)
qed

lemma poll_upload_inv:
  assumes "poll_upload env up cs = (r, cs')" "tracks names M A (set (cs_sent cs)) up" "cs_config cs = cfg"
    and "{(n, ack). rv_ack env n = Ready ack} \<subseteq> A"
  shows "pred_option (tracks names M A (set (cs_sent cs))) r" "cs_sent cs' = cs_sent cs" "cs_config cs' = cs_config cs"
    "(ch, UploadDone) \<in> set (cs_resolved cs') \<Longrightarrow> (ch, UploadDone) \<in> set (cs_resolved cs) \<or> justified names cfg M A (set (cs_sent cs)) ch"
proof -
  obtain up1 fails where a: "poll_acks env up (cs_failures cs) = (up1, fails)" by (cases "poll_acks env up (cs_failures cs)")
  have t: "tracks names M A (set (cs_sent cs)) up1"
    using tracks_poll_acks [OF a [unfolded poll_acks_def] assms(2) _ assms(4)] assms(2) unfolding tracks_def by blast
  define cs1 where "cs1 = cs\<lparr>cs_failures := fails\<rparr>"
  define early where "early \<longleftrightarrow> rv_now env \<ge> up_early up1"
  have c: "justified names cfg M A (set (cs_sent cs)) (up_resolve up1)" if "check_upload cs1 early up1 = Some (Inr ())"
    using tracks_check [OF t that] assms(3) by (simp add: cs1_def)
  have out: "upload_outcome x = UploadDone \<longleftrightarrow> x = Inr ()" for x by (cases x) (auto simp: upload_outcome_def)
  have cases: "(r = Some up1 \<and> cs' = cs1) \<or>
      (r = None \<and> (\<exists>res. cs' = resolve_with (up_resolve up1) res cs1 \<and>
         (res = UploadDone \<longrightarrow> check_upload cs1 early up1 = Some (Inr ()))))"
  proof (cases "check_upload cs1 early up1")
    case None
    then show ?thesis using assms(1)
      by (auto simp: poll_upload_def a Let_def cs1_def early_def split: if_splits)
  next
    case (Some x)
    have "(r = Some up1 \<and> cs' = cs1) \<or> (r = None \<and> cs' = resolve_with (up_resolve up1) (upload_outcome x) cs1)"
      using assms(1) Some by (auto simp: poll_upload_def a Let_def cs1_def early_def split: if_splits)
    then show ?thesis using Some out by auto
  qed
  then show "pred_option (tracks names M A (set (cs_sent cs))) r" using t by auto
  show "cs_sent cs' = cs_sent cs" "cs_config cs' = cs_config cs"
    using cases by (auto simp: resolve_with_def cs1_def)
  show "(ch, UploadDone) \<in> set (cs_resolved cs) \<or> justified names cfg M A (set (cs_sent cs)) ch"
    if "(ch, UploadDone) \<in> set (cs_resolved cs')"
    using cases that c by (auto simp: resolve_with_def cs1_def)
qed

lemma poll_queue_inv:
  assumes "poll_queue (poll_upload env) ups cs = (ups', cs')" "\<forall>up \<in> set ups. tracks names M A (set (cs_sent cs)) up"
    and "cs_config cs = cfg" "{(n, ack). rv_ack env n = Ready ack} \<subseteq> A"
  shows "(\<forall>up \<in> set ups'. tracks names M A (set (cs_sent cs)) up) \<and> cs_sent cs' = cs_sent cs \<and> cs_config cs' = cfg \<and>
    (\<forall>ch. (ch, UploadDone) \<in> set (cs_resolved cs') \<longrightarrow>
       (ch, UploadDone) \<in> set (cs_resolved cs) \<or> justified names cfg M A (set (cs_sent cs)) ch)"
  using assms(1-3)
proof (induction ups arbitrary: cs ups' cs')
  case (Cons up ups)
  obtain r cs1 where 1: "poll_upload env up cs = (r, cs1)" by (cases "poll_upload env up cs")
  obtain ups2 cs2 where 2: "poll_queue (poll_upload env) ups cs1 = (ups2, cs2)" by (cases "poll_queue (poll_upload env) ups cs1")
  have eq: "ups' = (case r of None \<Rightarrow> ups2 | Some y \<Rightarrow> y # ups2)" "cs' = cs2" using Cons.prems(1) 1 2 by auto
  have "tracks names M A (set (cs_sent cs)) up" using Cons.prems(2) by simp
  note p = poll_upload_inv [OF 1 this Cons.prems(3) assms(4)]
  have "\<forall>up \<in> set ups. tracks names M A (set (cs_sent cs1)) up" using Cons.prems(2) p(2) by simp
  note q = Cons.IH [OF 2 this] 
  show ?case using p(1) eq q p(2, 3) Cons.prems(3) p(4) by (cases r) auto
qed auto

lemma poll_uploads_inv:
  assumes "set_inv names cfg M A cs" "{(n, ack). rv_ack env n = Ready ack} \<subseteq> A"
  shows "set_inv names cfg M A (poll_uploads env cs)"
proof -
  obtain ups cs1 where e: "poll_queue (poll_upload env) (cs_uploads cs) cs = (ups, cs1)"
    by (cases "poll_queue (poll_upload env) (cs_uploads cs) cs")
  from poll_queue_inv [OF e, of names M A cfg] assms show ?thesis by (auto simp: poll_uploads_def e set_inv_def)
qed

lemma poll_round_inv:
  assumes "set_inv names cfg M A cs" "set_wf cs" "env_ok env" "{(n, ack). rv_ack env n = Ready ack} \<subseteq> A"
    and "poll_round env cs = Ok (again, cs')"
  shows "set_inv names cfg M A cs'"
proof -
  define cs2 where "cs2 = poll_pending env (poll_connect env cs)"
  obtain cs3 where 3: "wakeup_fetches env (wakeup_uploads cs2) = Ok cs3" "poll_fetches env (poll_uploads env cs3) = Ok cs'"
    using assms(5) by (auto simp: poll_round_def Let_def cs2_def)
  have o: "opens cs (poll_connect env cs)" by (rule opens_poll_connect [OF assms(3)])
  have "set_inv names cfg M A cs2" unfolding cs2_def
    using set_inv_neutral [OF set_inv_neutral [OF assms(1) opens_neutral [OF o]] poll_pending_neutral] .
  moreover have "set_wf cs2" unfolding cs2_def by (rule poll_pending_wf [OF opens_wf [OF assms(2) o]])
  ultimately have "set_inv names cfg M A (wakeup_uploads cs2)" by (rule wakeup_uploads_inv)
  then have "set_inv names cfg M A cs3" using wakeup_fetches_neutral [OF 3(1)] by (rule set_inv_neutral)
  then have "set_inv names cfg M A (poll_uploads env cs3)" using assms(4) by (rule poll_uploads_inv)
  then show ?thesis using poll_fetches_neutral [OF 3(2)] by (rule set_inv_neutral)
qed

lemma poll_rounds_inv:
  assumes "set_inv names cfg M A cs" "set_wf cs" "list_all env_ok envs"
    and "\<forall>env \<in> set envs. {(n, ack). rv_ack env n = Ready ack} \<subseteq> A" "poll_rounds envs cs = Ok cs'"
  shows "set_inv names cfg M A cs'"
  using assms
proof (induction envs arbitrary: cs)
  case (Cons env envs)
  obtain again cs1 where 1: "poll_round env cs = Ok (again, cs1)" "(if again then poll_rounds envs cs1 else Ok cs1) = Ok cs'"
    using Cons.prems(5) by auto
  have "set_wf cs1" using poll_round_ok [of cs env] Cons.prems(2, 3) 1(1) by auto
  moreover have "set_inv names cfg M A cs1" using poll_round_inv [OF Cons.prems(1, 2) _ _ 1(1)] Cons.prems(3, 4) by simp
  ultimately show ?case using Cons.IH [of cs1] 1(2) Cons.prems(3, 4) by (auto split: if_splits)
qed auto

lemma addr_cell_poll_neutral: "neutral cs (addr_cell_poll env cs)"
  by (simp add: addr_cell_poll_def neutral_def split: prod.splits)

definition acks_of :: "'i round_env list \<Rightarrow> (nat \<times> dir_ack) set" where
  "acks_of es = {(n, ack). \<exists>env \<in> set es. rv_ack env n = Ready ack}"

lemma set_poll_inv:
  assumes inv: "set_inv names cfg M A cs" and wf: "set_wf cs" and msgs: "messages_ok msgs cs" "list_all (upload_message_ok names) msgs"
    and envs: "list_all env_ok (env # envs)" and poll: "set_poll env msgs envs cs = Ok cs'"
    and logs: "set msgs \<subseteq> M" "acks_of (env # envs) \<subseteq> A"
  shows "set_inv names cfg M A cs'"
proof -
  define cs0 where "cs0 = addr_cell_poll env cs"
  have 0: "set_wf cs0" "messages_ok msgs cs0" "set_inv names cfg M A cs0"
    using wf msgs(1) addr_cell_poll_tables(1) [of cs env] set_inv_neutral [OF inv addr_cell_poll_neutral]
    by (simp_all add: cs0_def set_wf_def messages_ok_def same_tables_def)
  obtain cs1 where 1: "read_messages (rv_now env) msgs cs0 = Ok cs1" "poll_rounds (env # envs) cs1 = Ok cs'"
    using poll unfolding set_poll_def cs0_def [symmetric] by (simp only: bind_result_eq_Ok) blast
  have "set_wf cs1" using read_messages_ok [OF 0(1, 2), of "rv_now env"] 1(1) by auto
  moreover have "set_inv names cfg M A cs1" using read_messages_inv [OF 0(3) logs(1) msgs(2) 1(1)] .
  moreover have "\<forall>e \<in> set (env # envs). {(n, ack). rv_ack e n = Ready ack} \<subseteq> A" using logs(2) by (auto simp: acks_of_def)
  ultimately show ?thesis using poll_rounds_inv [OF _ _ envs _ 1(2)] by blast
qed

lemma set_run_set_inv: "set_run names cfg ms es cs \<Longrightarrow> set_inv names cfg (set ms) (acks_of es) cs"
proof (induction rule: set_run.induct)
  case set_start
  then show ?case by (simp add: set_inv_def conn_set_new_def)
next
  case (set_next ms es cs msgs env envs cs')
  have "set_inv names cfg (set (ms @ msgs)) (acks_of (es @ env # envs)) cs"
    by (rule set_inv_mono [OF set_next.IH]) (auto simp: acks_of_def)
  moreover have "set_wf cs" using set_run_inv [OF set_next.hyps(1)] by simp
  moreover have "set msgs \<subseteq> set (ms @ msgs)" "acks_of (env # envs) \<subseteq> acks_of (es @ env # envs)" by (auto simp: acks_of_def)
  ultimately show ?case using set_poll_inv set_next.hyps by blast
qed


section \<open>Deadlines\<close>

text \<open>The uploads that are open, with their deadlines. No step changes the deadline of an upload.\<close>

definition deadlines :: "'i conn_set \<Rightarrow> (nat \<times> instant) set" where
  "deadlines cs = (\<lambda>up. (up_resolve up, up_deadline up)) ` set (cs_uploads cs)"

lemma upload_to_key:
  "upload_to a (up, cs) = (up', cs') \<Longrightarrow> up_resolve up' = up_resolve up \<and> up_deadline up' = up_deadline up"
  by (auto simp: upload_to_def send_request_def split: if_splits)

lemma fold_upload_to_key:
  "fold upload_to xs (up, cs) = (up', cs') \<Longrightarrow> up_resolve up' = up_resolve up \<and> up_deadline up' = up_deadline up"
proof (induction xs arbitrary: up cs)
  case (Cons a xs)
  obtain up1 cs1 where 1: "upload_to a (up, cs) = (up1, cs1)" by (cases "upload_to a (up, cs)")
  show ?case using Cons.IH [of up1 cs1] Cons.prems 1 upload_to_key [OF 1] by simp
qed auto

lemma each_key:
  assumes "each f xs s = (ys, s')" "\<And>x s y s'. f x s = (y, s') \<Longrightarrow> k y = k x"
  shows "map k ys = map k xs"
  using assms(1)
proof (induction xs arbitrary: s ys)
  case (Cons x xs)
  obtain y s1 where "f x s = (y, s1)" by (cases "f x s")
  then show ?case using Cons assms(2) by (auto split: prod.splits)
qed auto

lemma wakeup_uploads_deadlines: "deadlines (wakeup_uploads cs) = deadlines cs"
proof -
  obtain ups cs1 where e: "each wakeup_upload (cs_uploads cs) cs = (ups, cs1)" by (cases "each wakeup_upload (cs_uploads cs) cs")
  have "map (\<lambda>up. (up_resolve up, up_deadline up)) ups = map (\<lambda>up. (up_resolve up, up_deadline up)) (cs_uploads cs)"
    using e by (rule each_key) (auto simp: wakeup_upload_def fold_upload_to_key split: if_splits dest: fold_upload_to_key)
  then have "(\<lambda>up. (up_resolve up, up_deadline up)) ` set ups = (\<lambda>up. (up_resolve up, up_deadline up)) ` set (cs_uploads cs)"
    by (metis list.set_map)
  then show ?thesis by (simp add: wakeup_uploads_def e deadlines_def)
qed

lemma poll_queue_deadlines:
  assumes "poll_queue (poll_upload env) ups cs = (ups', cs')" "list_all (upload_wf act) ups"
  shows "\<forall>up' \<in> set ups'. rv_now env < up_deadline up' \<and>
    (\<exists>up \<in> set ups. up_resolve up' = up_resolve up \<and> up_deadline up' = up_deadline up)"
  using assms
proof (induction ups arbitrary: cs ups')
  case (Cons up ups)
  obtain r cs1 where 1: "poll_upload env up cs = (r, cs1)" by (cases "poll_upload env up cs")
  obtain ups2 cs2 where 2: "poll_queue (poll_upload env) ups cs1 = (ups2, cs2)" by (cases "poll_queue (poll_upload env) ups cs1")
  obtain up1 fails where a: "poll_acks env up (cs_failures cs) = (up1, fails)" by (cases "poll_acks env up (cs_failures cs)")
  have k: "up_resolve up1 = up_resolve up" "up_deadline up1 = up_deadline up"
    using poll_acks_keeps [OF _ a [unfolded poll_acks_def]] Cons.prems(2) by auto
  have "y = up1 \<and> rv_now env < up_deadline up1" if "r = Some y" for y
    using 1 that by (auto simp: poll_upload_def a Let_def split: option.splits if_splits)
  moreover have "cs' = cs2" "ups' = (case r of None \<Rightarrow> ups2 | Some y \<Rightarrow> y # ups2)" using Cons.prems(1) 1 2 by auto
  ultimately show ?case using Cons.IH [of cs1 ups2] 2 Cons.prems(2) k by (cases r) auto
qed auto

lemma poll_round_deadlines:
  assumes "poll_round env cs = Ok (again, cs')" "set_wf cs" "env_ok env"
  shows "deadlines cs' \<subseteq> deadlines cs \<inter> {(ch, d). rv_now env < d}"
proof -
  define cs2 where "cs2 = poll_pending env (poll_connect env cs)"
  obtain cs3 where 3: "wakeup_fetches env (wakeup_uploads cs2) = Ok cs3" "poll_fetches env (poll_uploads env cs3) = Ok cs'"
    using assms(1) by (auto simp: poll_round_def Let_def cs2_def)
  have o: "opens cs (poll_connect env cs)" by (rule opens_poll_connect [OF assms(3)])
  have "cs_uploads cs2 = cs_uploads cs" unfolding cs2_def
    using poll_pending_neutral [of "poll_connect env cs" env] opens_neutral [OF o] by (simp add: neutral_def)
  then have d2: "deadlines (wakeup_uploads cs2) = deadlines cs" by (simp add: wakeup_uploads_deadlines) (simp add: deadlines_def)
  have d3: "cs_uploads cs3 = cs_uploads (wakeup_uploads cs2)" using wakeup_fetches_neutral [OF 3(1)] by (simp add: neutral_def)
  have "set_wf cs3"
    using wakeup_fetches_ok [OF wakeup_uploads_wf, of cs2 env] 3(1) poll_pending_wf [OF opens_wf [OF assms(2) o]] cs2_def by auto
  then have w3: "list_all (upload_wf (cs_active cs3)) (cs_uploads cs3)" by (simp add: set_wf_def)
  obtain ups cs4 where e: "poll_queue (poll_upload env) (cs_uploads cs3) cs3 = (ups, cs4)"
    by (cases "poll_queue (poll_upload env) (cs_uploads cs3) cs3")
  have "cs_uploads cs' = ups" using poll_fetches_neutral [OF 3(2)] by (simp add: neutral_def poll_uploads_def e)
  then show ?thesis using poll_queue_deadlines [OF e w3] d2 d3 unfolding deadlines_def by fastforce
qed

lemma poll_rounds_deadlines:
  assumes "poll_rounds envs cs = Ok cs'" "set_wf cs" "list_all env_ok envs" "envs \<noteq> []" "\<forall>e \<in> set envs. t \<le> rv_now e"
  shows "deadlines cs' \<subseteq> deadlines cs \<inter> {(ch, d). t < d}"
  using assms
proof (induction envs arbitrary: cs)
  case (Cons env envs)
  obtain again cs1 where 1: "poll_round env cs = Ok (again, cs1)" "(if again then poll_rounds envs cs1 else Ok cs1) = Ok cs'"
    using Cons.prems(1) by auto
  have w: "set_wf cs1" using poll_round_ok [of cs env] Cons.prems(2, 3) 1(1) by auto
  have "t \<le> rv_now env" using Cons.prems(5) by simp
  then have d: "deadlines cs1 \<subseteq> deadlines cs \<inter> {(ch, d). t < d}"
    using poll_round_deadlines [OF 1(1) Cons.prems(2)] Cons.prems(3) by fastforce
  show ?case
  proof (cases "again \<and> envs \<noteq> []")
    case True
    then have "deadlines cs' \<subseteq> deadlines cs1 \<inter> {(ch, d). t < d}" using Cons.IH [of cs1] 1(2) w Cons.prems(3, 5) by auto
    then show ?thesis using d by blast
  next
    case False
    then have "cs' = cs1" using 1(2) by (cases envs) (auto split: if_splits)
    then show ?thesis using d by simp
  qed
qed simp

lemma read_messages_deadlines:
  assumes "read_messages now msgs cs = Ok cs'"
  shows "deadlines cs' \<subseteq> deadlines cs \<union> {(ch, d). ch \<in> set (List.map_filter new_channel msgs)}"
  using assms
proof (induction msgs arbitrary: cs)
  case (Cons m msgs)
  obtain cs1 where 1: "read_message now m cs = Ok cs1" "read_messages now msgs cs1 = Ok cs'" using Cons.prems by auto
  have "deadlines cs1 \<subseteq> deadlines cs \<union> {(ch, d). new_channel m = Some ch}"
  proof (cases m)
    case (SetNotification a n)
    then show ?thesis using 1(1) by (cases n) (auto simp: deadlines_def on_received_def on_aborted_def)
  qed (use 1(1) in \<open>auto simp: deadlines_def start_upload_def start_fetch_file_def start_fetch_index_def remove_conn_def split: if_splits\<close>)
  then show ?case using Cons.IH [OF 1(2)] by (cases "new_channel m") (auto simp: map_filter_case)
qed auto


end
