(* ===== verification/Cluster_Cases.thy ===== *)
theory Cluster_Cases
  imports Cluster_Outcomes
begin

text \<open>
  Runs of the connection set of a client on one server, and the cases in which a client gives a wrong answer or
  stops: an upload over one connection that takes longer than the early timeout, a notification about another image, an
  empty file, and a connection that closes at once.
\<close>

section \<open>A cluster of one server\<close>

definition demo_round :: "instant \<Rightarrow> (nat \<Rightarrow> dir_ack polled) \<Rightarrow> nat round_env" where
  "demo_round now ack =
     \<lparr>rv_now = now, rv_connect = \<lambda>_. Ready (), rv_resolve = \<lambda>_. Ready [7], rv_ack = ack, rv_index = \<lambda>_. NotReady,
      rv_block = \<lambda>_. NotReady, rv_cancelled = \<lambda>_. False, rv_sample_addr = take, rv_sample_name = take,
      rv_pick_one = \<lambda>_. None, rv_union = (@), rv_retry = False, rv_names = \<lambda>_. []\<rparr>"

definition demo_signed :: signed_upload where
  "demo_signed = \<lparr>su_spelling = ''/k/a'', su_image = B32 [1], su_timestamp = 0, su_signatures = []\<rparr>"

definition demo_names :: "string list" where
  "demo_names = [''c'']"

definition demo_cluster :: cluster_config where
  "demo_cluster = cluster_config_new (\<lambda>n. (3 * unat n + 3) div 4)"

definition demo_new :: "nat set_message" where
  "demo_new = conn_upload demo_names False False (VPath ''k'' [''a'']) demo_signed None 5"

definition demo_ack :: "nat \<Rightarrow> dir_ack polled" where
  "demo_ack n = Ready \<lparr>ack_accepted = True, ack_reject_reason = None, ack_hosts = Map.empty\<rparr>"

definition demo_received :: "image_id \<Rightarrow> nat set_message" where
  "demo_received img = SetNotification (7, 24783)
     (ReceivedImage \<lparr>ri_id = img, ri_path = VPath ''k'' [''a''], ri_machine_id = MachineId [1], ri_hostname = ''h'', ri_forwarded = False\<rparr>)"

text \<open>The state with one connection, and the record of the upload in it.\<close>

definition demo_state ::
  "nat addr stats \<Rightarrow> (nat addr \<times> rfuture) list \<Rightarrow> nat conn_set" where
  "demo_state st futs =
     (conn_set_new demo_names demo_cluster)\<lparr>cs_initial_names := [], cs_initial_addr := (True, [(7, 24783)]),
       cs_active := [(7, 24783)], cs_next_request := 1,
       cs_uploads := [\<lparr>up_replace = False, up_weak = False, up_old_image = None, up_path = VPath ''k'' [''a''],
         up_upload = demo_signed, up_stats = st, up_resolve = 5, up_connections = [(7, 24783)], up_futures = futs,
         up_early = 10000000000, up_deadline = 1800000000000, up_candidate_hosts = []\<rparr>],
       cs_sent := [(0, (7, 24783), AppendDir \<lparr>ad_path = VPath ''k'' [''a''], ad_spelling = ''/k/a'', ad_image = B32 [1],
         ad_timestamp = 0, ad_signatures = []\<rparr>)],
       cs_published := [((7, 24783), B32 [1])]\<rparr>"

lemmas poll_steps = set_poll_def addr_cell_poll_def poll_initial_name_def poll_round_def poll_connect_def poll_pending_def
  poll_connection_def poll_name_def new_conns_for_upload_def new_conn_for_fetch_def wakeup_uploads_def wakeup_upload_def
  upload_to_def send_request_def wakeup_fetches_def poll_uploads_def poll_upload_def poll_acks_def poll_ack_def
  poll_fetches_def start_resolving_def open_conns_def to_resolve_def resolved_hosts_def free_addr_def can_try_def
  failures_new_default_def upload_request_def Let_def

lemmas demo_set_defs = demo_round_def demo_signed_def demo_names_def demo_cluster_def demo_new_def demo_received_def
  demo_state_def conn_set_new_def conn_upload_def cluster_config_new_def start_upload_def

lemma demo_poll_start:
  "set_poll (demo_round 0 (\<lambda>_. NotReady)) [demo_new] [demo_round 0 (\<lambda>_. NotReady)] (conn_set_new demo_names demo_cluster) =
     Ok (demo_state (stats_new demo_names (VPath ''k'' [''a'']) False) [((7, 24783), RAppend 0)])"
  by (simp add: poll_steps demo_set_defs is_rejected_def List.map_filter_def total_responses_def)

definition demo_accepted :: "nat addr stats" where
  "demo_accepted = hear (HResponse (7, 24783) True None Map.empty) (stats_new demo_names (VPath ''k'' [''a'']) False)"

definition demo_stored :: "image_id \<Rightarrow> nat addr stats" where
  "demo_stored img = hear (HReceived (7, 24783) \<lparr>ri_id = img, ri_path = VPath ''k'' [''a''], ri_machine_id = MachineId [1],
     ri_hostname = ''h'', ri_forwarded = False\<rparr>) demo_accepted"

lemma demo_response:
  "add_response (7, 24783) True None Map.empty (stats_new [''c''] (VPath ''k'' [''a'']) False) = (True, demo_accepted)"
  by (simp add: demo_accepted_def demo_names_def add_response_def Let_def)

lemmas demo_books = demo_accepted_def demo_stored_def add_response_def stats_received_image_def stats_new_def with_book_def
  count_response_def is_rejected_def total_responses_def upload_check_def discovered_num_def servers_superset_def Let_def

lemma demo_accepted_book:
  "is_rejected a demo_accepted = False" "total_responses demo_accepted = 1"
  "upload_check demo_accepted cfg addrs early nc = None"
  by (auto simp: demo_books min_def)

lemma demo_stored_book:
  "is_rejected a (demo_stored img) = False" "total_responses (demo_stored img) = 1"
  "upload_check (demo_stored img) cfg addrs False nc = Some (Inr ())"
  "unat (cc_early_hosts cfg) \<ge> 2 \<Longrightarrow> upload_check (demo_stored img) cfg addrs True nc = None"
  by (auto simp: demo_books min_def max_def)

lemma demo_poll_ack:
  "set_poll (demo_round 1000000000 demo_ack) [] [] (demo_state (stats_new demo_names (VPath ''k'' [''a'']) False) [((7, 24783), RAppend 0)]) =
     Ok (demo_state demo_accepted [])"
  by (simp add: poll_steps demo_set_defs List.map_filter_def demo_ack_def check_upload_def demo_response demo_accepted_book) blast

lemma demo_poll_received:
  "set_poll (demo_round 5000000000 demo_ack) [demo_received img] [] (demo_state demo_accepted []) =
     Ok ((demo_state demo_accepted [])\<lparr>cs_uploads := [], cs_resolved := [(5, UploadDone)]\<rparr>)"
  by (simp add: poll_steps demo_set_defs List.map_filter_def check_upload_def on_received_def demo_accepted_book
      demo_stored_book demo_stored_def [symmetric, simplified hear.simps] resolve_with_def upload_outcome_def)

lemma demo_poll_received_late:
  "set_poll (demo_round 20000000000 demo_ack) [demo_received img] [] (demo_state demo_accepted []) = Ok (demo_state (demo_stored img) [])"
  by (simp add: poll_steps demo_set_defs List.map_filter_def check_upload_def on_received_def demo_accepted_book
      demo_stored_book demo_stored_def [symmetric, simplified hear.simps] resolve_with_def upload_outcome_def)

lemma demo_round_ok: "env_ok (demo_round t ack)"
  by (simp add: env_ok_def demo_round_def set_take_subset)

lemma demo_run_start:
  "set_run demo_names demo_cluster [demo_new] [demo_round 0 (\<lambda>_. NotReady), demo_round 0 (\<lambda>_. NotReady)]
     (demo_state (stats_new demo_names (VPath ''k'' [''a'']) False) [((7, 24783), RAppend 0)])"
proof -
  have "messages_ok [demo_new] (conn_set_new demo_names demo_cluster)" "list_all (upload_message_ok demo_names) [demo_new]"
    "distinct (List.map_filter new_channel ([] @ [demo_new]))"
    by (simp_all add: messages_ok_def demo_new_def conn_upload_def List.map_filter_def)
  from set_next [OF set_start this _ demo_poll_start] show ?thesis by (simp add: demo_round_ok)
qed

lemma demo_run_accepted:
  "set_run demo_names demo_cluster [demo_new]
     [demo_round 0 (\<lambda>_. NotReady), demo_round 0 (\<lambda>_. NotReady), demo_round 1000000000 demo_ack] (demo_state demo_accepted [])"
proof -
  have "messages_ok [] cs" "list_all (upload_message_ok demo_names) []" for cs :: "nat conn_set"
    by (simp_all add: messages_ok_def List.map_filter_def)
  moreover have "distinct (List.map_filter new_channel ([demo_new] @ []))"
    by (simp add: demo_new_def conn_upload_def List.map_filter_def)
  ultimately show ?thesis using set_next [OF demo_run_start _ _ _ _ demo_poll_ack] by (simp add: demo_round_ok)
qed

lemma demo_received_ok:
  "messages_ok [demo_received img] cs" "list_all (upload_message_ok demo_names) [demo_received img]"
  "distinct (List.map_filter new_channel ([demo_new] @ [demo_received img]))"
  by (simp_all add: messages_ok_def demo_received_def demo_new_def conn_upload_def List.map_filter_def)

lemma demo_run_done:
  "set_run demo_names demo_cluster [demo_new, demo_received img]
     [demo_round 0 (\<lambda>_. NotReady), demo_round 0 (\<lambda>_. NotReady), demo_round 1000000000 demo_ack, demo_round 5000000000 demo_ack]
     ((demo_state demo_accepted [])\<lparr>cs_uploads := [], cs_resolved := [(5, UploadDone)]\<rparr>)"
  using set_next [OF demo_run_accepted demo_received_ok _ demo_poll_received] by (simp add: demo_round_ok)

lemma demo_run_late:
  "set_run demo_names demo_cluster [demo_new, demo_received img]
     [demo_round 0 (\<lambda>_. NotReady), demo_round 0 (\<lambda>_. NotReady), demo_round 1000000000 demo_ack, demo_round 20000000000 demo_ack]
     (demo_state (demo_stored img) [])"
  using set_next [OF demo_run_accepted demo_received_ok _ demo_poll_received_late] by (simp add: demo_round_ok)




section \<open>A slow upload over one connection\<close>

lemma one_connection_check:
  assumes st: "s = fold hear hs (stats_new names p w)" and one: "(\<Union>e\<in>set hs. accept_of w e) = {a}"
    and none: "\<forall>e \<in> set hs. rejected_of w e = {} \<and> no_config_of e = {}"
    and fin: "finite (\<Union>e\<in>set hs. discovered_of e)" "card (\<Union>e\<in>set hs. discovered_of e) < unat (cc_early_hosts cfg)"
  shows "upload_check s cfg addrs True nc = None"
proof -
  let ?D = "\<Union>e\<in>set hs. discovered_of e"
  have "bk_rejected_ips (ss_book s) = Map.empty" "bk_rejected_no_config (ss_book s) = {}" "bk_accepted_ips (ss_book s) = {a}"
    using none unfolding empty_iff_dom heard_tables [OF st] one by auto
  then have "discovered_num (ss_book s) = word_of_nat (card ?D) + 1"
    unfolding discovered_num_def heard_tables(3) [OF st] by (simp add: Let_def)
  then have "discovered_num (ss_book s) = word_of_nat (Suc (card ?D))" by (simp add: add.commute)
  moreover have "Suc (card ?D) < 2 ^ LENGTH(32)" 
    using fin(2) unsigned_less [where 'a = nat, of "cc_early_hosts cfg"] by simp
  ultimately have n: "unat (discovered_num (ss_book s)) = Suc (card ?D)"
    by (simp only: unsigned_of_nat take_bit_nat_eq_self of_nat_id)
  have "done_server_of e \<subseteq> discovered_of e" for e :: "'a heard" by (cases e) auto
  then have "card (\<Union>e\<in>set hs. done_server_of e) \<le> card ?D" by (intro card_mono fin(1)) blast
  moreover have "\<not> nobody_takes w addrs nc hs" using one unfolding nobody_takes_def by auto
  ultimately show ?thesis using fin(2) unfolding upload_check_heard [OF st] n by (auto simp: Let_def min_def max_def)
qed

text \<open>
  An upload that is accepted over one connection fails if it is not complete when the early timeout ends and
  the client has heard of fewer machines than \<^verbatim>\<open>early_hosts\<close>: whatever the servers report, it is not resolved
  before its deadline, and then with \<^verbatim>\<open>DeadlineReached\<close>. The client counts the server it is connected to
  once more than the servers it has heard of, also after that server has reported itself.
\<close>

theorem slow_upload_fails:
  assumes "up_stats up = fold hear hs (stats_new names (up_path up) (up_weak up))" "up_futures up = []"
    and "(\<Union>e\<in>set hs. accept_of (up_weak up) e) = {a}"
    and "\<forall>e \<in> set hs. rejected_of (up_weak up) e = {} \<and> no_config_of e = {}"
    and "finite (\<Union>e\<in>set hs. discovered_of e)" "card (\<Union>e\<in>set hs. discovered_of e) < unat (cc_early_hosts (cs_config cs))"
    and "up_early up \<le> rv_now env"
  shows "poll_upload env up cs =
    (if rv_now env < up_deadline up then (Some up, cs)
     else (None, resolve_with (up_resolve up) (UploadFailed DeadlineReached) cs))"
proof -
  have "check_upload cs True up = None"
    unfolding check_upload_def by (rule one_connection_check [OF assms(1, 3, 4, 5, 6)])
  moreover have "poll_acks env up (cs_failures cs) = (up, cs_failures cs)" by (simp add: poll_acks_def assms(2))
  ultimately show ?thesis using assms(7) by (simp add: poll_upload_def Let_def)
qed

theorem slow_upload_fails_witness:
  "delivered False [HResponse (7 :: nat, 24783) True None Map.empty, HReceived (7, 24783) \<lparr>ri_id = B32 [1], ri_path = VPath ''k'' [''a''],
      ri_machine_id = MachineId [1], ri_hostname = ''h'', ri_forwarded = False\<rparr>] \<and>
   fst (poll_upload (demo_round 1800000000000 demo_ack) (cs_uploads (demo_state (demo_stored (B32 [1])) []) ! 0)
     (demo_state (demo_stored (B32 [1])) [])) = None \<and>
   cs_resolved (snd (poll_upload (demo_round 1800000000000 demo_ack) (cs_uploads (demo_state (demo_stored (B32 [1])) []) ! 0)
     (demo_state (demo_stored (B32 [1])) []))) = [(5, UploadFailed DeadlineReached)]"
proof -
  let ?hs = "[HResponse (7 :: nat, 24783) True None Map.empty, HReceived (7, 24783) \<lparr>ri_id = B32 [1], ri_path = VPath ''k'' [''a''],
      ri_machine_id = MachineId [1], ri_hostname = ''h'', ri_forwarded = False\<rparr>]"
  let ?cs = "demo_state (demo_stored (B32 [1])) []"
  define up where "up = cs_uploads ?cs ! 0"
  have up: "up_stats up = fold hear ?hs (stats_new demo_names (up_path up) (up_weak up))" "up_futures up = []" "up_weak up = False"
    "up_early up = 10000000000" "up_deadline up = 1800000000000" "up_resolve up = 5"
    by (simp_all add: up_def demo_state_def demo_stored_def demo_accepted_def)
  have cfg: "unat (cc_early_hosts (cs_config ?cs)) = 3" "cs_resolved ?cs = []" "rv_now (demo_round 1800000000000 demo_ack) = 1800000000000"
    by (simp_all add: demo_state_def conn_set_new_def demo_cluster_def cluster_config_new_def demo_round_def)
  have "poll_upload (demo_round 1800000000000 demo_ack) up ?cs = (None, resolve_with 5 (UploadFailed DeadlineReached) ?cs)"
    using slow_upload_fails [OF up(1, 2), of "(7, 24783)" ?cs "demo_round 1800000000000 demo_ack"] up cfg by simp
  moreover have "delivered False ?hs" by (simp add: delivered_def)
  ultimately show ?thesis using cfg(2) unfolding up_def by (simp add: resolve_with_def)
qed

section \<open>Other cases\<close>

text \<open>
  The image in a notification that a directory was received is not looked at: a notification about any other
  image at the path of an upload changes the client in the same way, so an upload counts as done
  when a server reports another version of the directory.
\<close>

theorem received_image_id_ignored:
  "set_poll env (ms @ SetNotification a (ReceivedImage (i\<lparr>ri_id := img\<rparr>)) # ms') envs cs =
   set_poll env (ms @ SetNotification a (ReceivedImage i) # ms') envs cs"
proof -
  have "stats_received_image a (i\<lparr>ri_id := img\<rparr>) st = stats_received_image a i st" for st :: "'a addr stats"
    by (simp add: stats_received_image_def)
  then have on: "on_received a (i\<lparr>ri_id := img\<rparr>) = on_received a i" by (intro ext) (simp add: on_received_def)
  have "read_messages now (ms @ SetNotification a (ReceivedImage (i\<lparr>ri_id := img\<rparr>)) # ms') =
      read_messages now (ms @ SetNotification a (ReceivedImage i) # ms')" for now
  proof (induction ms)
    case Nil
    show ?case by (rule ext) (simp add: on)
  next
    case (Cons m ms)
    show ?case by (rule ext) (simp add: Cons)
  qed
  then show ?thesis by (simp only: set_poll_def)
qed

text \<open>A connection that closes before the set has polled it as ready: its message stops the client.\<close>

theorem close_while_pending_panics:
  assumes "set_run names cfg ms es cs" "a \<in> set (cs_pending cs)"
  shows "set_poll env (Closed a # msgs) envs cs = Panic"
proof -
  have "a \<notin> set (cs_active cs)" using set_run_inv [OF assms(1)] assms(2) by (auto simp: set_wf_def)
  then have "a \<notin> set (cs_active (addr_cell_poll env cs))"
    using addr_cell_poll_tables(1) [of cs env] by (simp add: same_tables_def)
  then show ?thesis by (simp add: set_poll_def)
qed

text \<open>
  A file without contents has no hash, and the request for its first block stops the client as soon as a connection
  may be tried.
\<close>

lemma wakeup_fetch_panics:
  assumes "ft_req ft = FRFile buf path pos hs fut tx" "hs_hashes hs = []"
    and "a \<in> set xs" "can_try (rv_now env) (pt_failures (cs_locations cs ! ft_location ft)) a"
  shows "wakeup_fetch env xs ft cs = Panic"
  using assms(3)
proof (induction xs)
  case (Cons x xs)
  have "fetch_request loc (ft_req ft) = Panic" for loc :: "'a pointer"
    using assms(1, 2) by (simp add: block_request_def hash_at_def Let_def)
  then show ?case using Cons assms(4) by (auto simp: Let_def)
qed simp

theorem empty_file_panics:
  assumes "cs_fetches cs = [\<lparr>ft_location = loc, ft_connection = None, ft_req = FRFile [] path 0 hs None tx\<rparr>]"
    and "hs_hashes hs = []" "a \<in> set (cs_active cs)" "can_try (rv_now env) (pt_failures (cs_locations cs ! loc)) a"
  shows "wakeup_fetches env cs = Panic"
proof -
  define ft where "ft = \<lparr>ft_location = loc, ft_connection = None :: 'a addr option, ft_req = FRFile [] path 0 hs None tx\<rparr>"
  have "wakeup_fetch env (cs_active cs) ft cs = Panic"
    using wakeup_fetch_panics [of ft "[]" path 0 hs None tx a "cs_active cs" env cs] assms(2, 3, 4) by (simp add: ft_def)
  then show ?thesis using assms(1) by (simp add: wakeup_fetches_def ft_def)
qed

text \<open>
  A fetch whose candidate host is resolved and free opens no connection at all: the addresses that were chosen
  are used only when none was chosen.
\<close>

theorem resolved_candidate_not_connected:
  assumes "h \<in> set (pt_candidate_hosts (cs_locations cs ! ft_location ft))" "Option.bind (cs_addrs cs h) (rv_pick_one env) = Some a"
    and "can_try (rv_now env) (pt_failures (cs_locations cs ! ft_location ft)) a" "free_addr env cs a"
    and "\<forall>xs. xs \<noteq> [] \<longrightarrow> rv_sample_addr env 1 xs \<noteq> []"
  shows "new_conn_for_fetch env ft cs = cs"
proof -
  let ?loc = "cs_locations cs ! ft_location ft"
  have "a \<in> set (resolved_hosts env cs (pt_candidate_hosts ?loc))"
    using assms(1, 2) unfolding resolved_hosts_def List.map_filter_def by force
  then have "a \<in> set (filter (\<lambda>a. can_try (rv_now env) (pt_failures ?loc) a \<and> free_addr env cs a) (resolved_hosts env cs (pt_candidate_hosts ?loc)))"
    using assms(3, 4) by simp
  then have "filter (\<lambda>a. can_try (rv_now env) (pt_failures ?loc) a \<and> free_addr env cs a) (resolved_hosts env cs (pt_candidate_hosts ?loc)) \<noteq> []"
    by (metis empty_iff list.set(1))
  then show ?thesis using assms(5) by (simp add: new_conn_for_fetch_def Let_def)
qed

end
