(* ===== verification/Mutable_Index.thy ===== *)
theory Mutable_Index
  imports Cluster_Set "HOL-Library.List_Lexorder" "HOL-Library.Char_ord" "HOL-Library.Sublist"
begin

text \<open>
  The index of an image as a tree that a client can look up and change (\<^verbatim>\<open>src/cluster/download.rs\<close>), and the call
  that fetches a file of it (\<^verbatim>\<open>fetch_file\<close> of \<^verbatim>\<open>src/cluster/mod.rs\<close>). A \<^verbatim>\<open>BTreeMap\<close> is a list of pairs in the order of the
  keys. The parser, the emitter and the hashing of files are those of the \<^verbatim>\<open>dir_signature\<close> crate: the parser is the list of
  entries it yields, the emitter is the list of calls made to it.
\<close>

section \<open>Ordered maps\<close>

fun bt_insert :: "string \<Rightarrow> 'v \<Rightarrow> (string \<times> 'v) list \<Rightarrow> (string \<times> 'v) list" where
  "bt_insert k v [] = [(k, v)]"
| "bt_insert k v ((l, w) # xs) =
     (if k < l then (k, v) # (l, w) # xs else if k = l then (k, v) # xs else (l, w) # bt_insert k v xs)"

section \<open>Trees\<close>

datatype item =
    IDir "(string \<times> item) list"
  | RemoteFile (it_exe: bool) (it_size: u64) (it_hashes: hashes_of)
  | Link path
  | LocalFile (it_exe: bool) (it_size: u64) (it_hashes: hashes_of)

type_synonym dir_map = "(string \<times> item) list"

datatype index_entry =
    IEDir path
  | IEFile path bool u64 hashes_of
  | IELink path path

datatype 'e index_parse_error = IParse 'e | InvalidPath path | PathConflict path

datatype 'e index_update_error = BadPath | NotADirectory | ReadError 'e

record 'h mutable_index =
  mi_header :: 'h
  mi_root :: dir_map
  mi_location :: nat
  mi_block_size :: u64
  mi_hash_type :: 'h

section \<open>Reading an index\<close>

text \<open>
  The walk to the directory of an entry, which makes the directories that are missing. The result is the
  position of the directory, which stays borrowed until the next directory starts.
\<close>

fun enter_dir :: "path \<Rightarrow> path \<Rightarrow> dir_map \<Rightarrow> (string list \<times> dir_map, 'e index_parse_error) result" where
  "enter_dir full [] dir = Ok ([], dir)"
| "enter_dir full (RootDir # cs) dir = enter_dir full cs dir"
| "enter_dir full (Normal chunk # cs) dir =
     (case map_of dir chunk of
        None \<Rightarrow> bind_result (enter_dir full cs []) (\<lambda>(pos, sub). Ok (chunk # pos, bt_insert chunk (IDir sub) dir))
      | Some (IDir sub0) \<Rightarrow> bind_result (enter_dir full cs sub0) (\<lambda>(pos, sub). Ok (chunk # pos, bt_insert chunk (IDir sub) dir))
      | Some _ \<Rightarrow> Err (PathConflict full))"
| "enter_dir full (CurDir # cs) dir = Err (InvalidPath full)"
| "enter_dir full (ParentDir # cs) dir = Err (InvalidPath full)"

text \<open>Inserting into the directory at a position.\<close>

fun insert_at :: "string list \<Rightarrow> string \<Rightarrow> item \<Rightarrow> dir_map \<Rightarrow> dir_map" where
  "insert_at [] k v dir = bt_insert k v dir"
| "insert_at (n # pos) k v dir =
     (case map_of dir n of
        Some (IDir sub) \<Rightarrow> bt_insert n (IDir (insert_at pos k v sub)) dir
      | _ \<Rightarrow> dir)"

fun fill_entry ::
  "index_entry \<Rightarrow> string list \<times> dir_map \<Rightarrow> (string list \<times> dir_map, 'e index_parse_error) result" where
  "fill_entry (IEDir p) (pos, root) = enter_dir p p root"
| "fill_entry (IEFile p exe sz hs) (pos, root) =
     bind_result (ok_or (path_file_name p) (InvalidPath p)) (\<lambda>name. Ok (pos, insert_at pos name (RemoteFile exe sz hs) root))"
| "fill_entry (IELink p dest) (pos, root) =
     bind_result (ok_or (path_file_name p) (InvalidPath p)) (\<lambda>name. Ok (pos, insert_at pos name (Link dest) root))"

fun fill_entries ::
  "('e + index_entry) list \<Rightarrow> string list \<times> dir_map \<Rightarrow> (string list \<times> dir_map, 'e index_parse_error) result" where
  "fill_entries [] st = Ok st"
| "fill_entries (Inl e # es) st = Err (IParse e)"
| "fill_entries (Inr x # es) st = bind_result (fill_entry x st) (fill_entries es)"

definition fill_dirs :: "('e + index_entry) list \<Rightarrow> (dir_map, 'e index_parse_error) result" where
  "fill_dirs es = bind_result (fill_entries es ([], [])) (\<lambda>(pos, root). Ok root)"

text \<open>\<^verbatim>\<open>into_mut\<close>: the parser reads the header first; \<open>parse\<close> gives the header, the hash type, the block size and the entries.\<close>

definition into_mut ::
  "('e + ('h \<times> 'h \<times> u64 \<times> ('e + index_entry) list)) \<Rightarrow> nat \<Rightarrow> ('h mutable_index, 'e index_parse_error) result" where
  "into_mut parse loc =
     (case parse of
        Inl e \<Rightarrow> Err (IParse e)
      | Inr (header, htype, bsize, es) \<Rightarrow>
          bind_result (fill_dirs es) (\<lambda>root.
            Ok \<lparr>mi_header = header, mi_root = root, mi_location = loc, mi_block_size = bsize, mi_hash_type = htype\<rparr>))"

section \<open>Looking up a file\<close>

fun find_dir_at :: "path \<Rightarrow> dir_map \<Rightarrow> dir_map option" where
  "find_dir_at [] cur = Some cur"
| "find_dir_at (RootDir # cs) cur = find_dir_at cs cur"
| "find_dir_at (Normal n # cs) cur =
     (case map_of cur n of Some (IDir next) \<Rightarrow> find_dir_at cs next | _ \<Rightarrow> None)"
| "find_dir_at (CurDir # cs) cur = None"
| "find_dir_at (ParentDir # cs) cur = None"

definition get_file :: "path \<Rightarrow> dir_map \<Rightarrow> (bool \<times> u64 \<times> hashes_of) option" where
  "get_file p root =
     Option.bind (path_parent p) (\<lambda>parent.
     Option.bind (find_dir_at parent root) (\<lambda>cur.
     Option.bind (path_file_name p) (\<lambda>name.
       case map_of cur name of
         Some (RemoteFile exe sz hs) \<Rightarrow> Some (exe, sz, hs)
       | _ \<Rightarrow> None)))"

section \<open>Changing an index\<close>

fun insert_file_at :: "string \<Rightarrow> path \<Rightarrow> item \<Rightarrow> dir_map \<Rightarrow> (unit, 'e index_update_error) result \<times> dir_map" where
  "insert_file_at fname [] it dir = (Ok (), bt_insert fname it dir)"
| "insert_file_at fname (RootDir # cs) it dir = insert_file_at fname cs it dir"
| "insert_file_at fname (Normal name # cs) it dir =
     (case map_of dir name of
        None \<Rightarrow> (case insert_file_at fname cs it [] of (r, sub) \<Rightarrow> (r, bt_insert name (IDir sub) dir))
      | Some (IDir sub0) \<Rightarrow> (case insert_file_at fname cs it sub0 of (r, sub) \<Rightarrow> (r, bt_insert name (IDir sub) dir))
      | Some _ \<Rightarrow> (Err NotADirectory, dir))"
| "insert_file_at fname (CurDir # cs) it dir = (Err BadPath, dir)"
| "insert_file_at fname (ParentDir # cs) it dir = (Err BadPath, dir)"

text \<open>\<open>hashed\<close> is the result of hashing the file with the block size and hash type of the index.\<close>

definition insert_file ::
  "path \<Rightarrow> ('e + u64 \<times> hashes_of) \<Rightarrow> bool \<Rightarrow> 'h mutable_index \<Rightarrow> (unit, 'e index_update_error) result \<times> 'h mutable_index" where
  "insert_file p hashed executable ix =
     (if \<not> is_absolute p then (Err BadPath, ix)
      else
        case (path_file_name p, path_parent p) of
          (Some fname, Some parent) \<Rightarrow>
            (case hashed of
               Inl e \<Rightarrow> (Err (ReadError e), ix)
             | Inr (sz, hs) \<Rightarrow>
                 (case insert_file_at fname parent (LocalFile executable sz hs) (mi_root ix) of
                    (r, root) \<Rightarrow> (r, ix\<lparr>mi_root := root\<rparr>)))
        | _ \<Rightarrow> (Err BadPath, ix))"

section \<open>Writing an index\<close>

datatype emit_call = StartDir path | AddFile string bool u64 hashes_of | AddSymlink string path

fun emit_leaf :: "string \<times> item \<Rightarrow> emit_call list" where
  "emit_leaf (key, IDir sub) = []"
| "emit_leaf (key, RemoteFile exe sz hs) = [AddFile key exe sz hs]"
| "emit_leaf (key, LocalFile exe sz hs) = [AddFile key exe sz hs]"
| "emit_leaf (key, Link dest) = [AddSymlink key dest]"

fun emit_item :: "path \<Rightarrow> item \<Rightarrow> emit_call list" where
  "emit_item p (IDir dir) =
     (if dir = [] then []
      else StartDir p # concat (map emit_leaf dir) @ concat (map (\<lambda>(key, it). emit_item (p @ [Normal key]) it) dir))"
| "emit_item p (RemoteFile exe sz hs) = []"
| "emit_item p (LocalFile exe sz hs) = []"
| "emit_item p (Link dest) = []"

definition emit_dir :: "path \<Rightarrow> dir_map \<Rightarrow> emit_call list" where
  "emit_dir p dir = emit_item p (IDir dir)"

definition to_raw_data :: "('h \<Rightarrow> u64 \<Rightarrow> emit_call list \<Rightarrow> 'r) \<Rightarrow> 'h mutable_index \<Rightarrow> 'r" where
  "to_raw_data render ix = render (mi_hash_type ix) (mi_block_size ix) (emit_dir [RootDir] (mi_root ix))"

section \<open>Fetching a file\<close>

text \<open>\<^verbatim>\<open>fetch_file\<close>: what is asked of the connection set; the size is below the maximum of a \<^verbatim>\<open>usize\<close>.\<close>

definition fetch_file :: "path \<Rightarrow> string \<Rightarrow> 'h mutable_index \<Rightarrow> nat \<Rightarrow> ('i set_message, unit) result" where
  "fetch_file p spelling ix tx =
     (case get_file p (mi_root ix) of
        None \<Rightarrow> Panic
      | Some (exe, sz, hs) \<Rightarrow>
          if \<not> sz < - 1 then Panic
          else if hs_block_size hs = 0 \<or> unat sz + hs_block_size hs \<ge> 2 ^ 64 then Panic
          else if (unat sz + hs_block_size hs - 1) div hs_block_size hs = length (hs_hashes hs)
               then Ok (FetchFile spelling (mi_location ix) (unat sz) hs tx) else Panic)"

section \<open>Laws of ordered maps\<close>

lemma map_of_bt_insert [simp]: "map_of (bt_insert k v xs) = (map_of xs)(k \<mapsto> v)"
  by (induction xs) auto

lemma bt_insert_twice [simp]: "bt_insert k v (bt_insert k w xs) = bt_insert k v xs"
  by (induction xs) auto

lemma keys_bt_insert: "set (map fst (bt_insert k v xs)) = insert k (set (map fst xs))"
  by (simp only: list.set_map dom_map_of_conv_image_fst [symmetric] map_of_bt_insert) simp

abbreviation sorted_keys :: "(string \<times> 'v) list \<Rightarrow> bool" where
  "sorted_keys xs \<equiv> sorted_wrt (<) (map fst xs)"

lemma sorted_bt_insert: "sorted_keys xs \<Longrightarrow> sorted_keys (bt_insert k v xs)"
proof (induction xs)
  case (Cons x xs)
  obtain l w where x: "x = (l, w)" by (cases x)
  have "\<forall>m \<in> set (map fst (bt_insert k v xs)). l < m" if "l < k" using Cons.prems that x unfolding keys_bt_insert by auto
  then show ?case using Cons x by (auto intro: less_trans)
qed simp

text \<open>A map has one list in the order of its keys.\<close>

lemma sorted_map_unique:
  assumes "sorted_keys xs" "sorted_keys ys" "map_of xs = map_of ys"
  shows "xs = ys"
proof -
  have "set (map fst xs) = set (map fst ys)" using assms(3) by (metis dom_map_of_conv_image_fst list.set_map)
  then have keys: "map fst xs = map fst ys"
    using assms(1, 2) by (metis strict_sorted_equal)
  have d: "distinct (map fst xs)" using assms(1) by (simp add: strict_sorted_iff)
  have "map (the \<circ> map_of xs) (map fst xs) = map snd xs" using d by (auto simp: map_of_eq_Some_iff)
  moreover have "map (the \<circ> map_of ys) (map fst ys) = map snd ys" using d keys by (auto simp: map_of_eq_Some_iff)
  ultimately have "map snd xs = map snd ys" using keys assms(3) by simp
  then show ?thesis using keys by (metis zip_map_fst_snd)
qed

section \<open>Positions in a tree\<close>

fun dir_at :: "string list \<Rightarrow> dir_map \<Rightarrow> dir_map" where
  "dir_at [] r = r"
| "dir_at (n # pos) r = (case map_of r n of Some (IDir s) \<Rightarrow> dir_at pos s | _ \<Rightarrow> [])"

text \<open>No file or link is in the way to the position.\<close>

fun free_at :: "string list \<Rightarrow> dir_map \<Rightarrow> bool" where
  "free_at [] r = True"
| "free_at (n # pos) r = (case map_of r n of None \<Rightarrow> True | Some (IDir s) \<Rightarrow> free_at pos s | _ \<Rightarrow> False)"

fun put :: "string list \<Rightarrow> dir_map \<Rightarrow> dir_map \<Rightarrow> dir_map" where
  "put [] x r = x"
| "put (n # pos) x r = bt_insert n (IDir (put pos x (case map_of r n of Some (IDir s) \<Rightarrow> s | _ \<Rightarrow> []))) r"

lemma enter_dir_ok:
  "free_at pos r \<Longrightarrow> enter_dir full (map Normal pos) r = Ok (pos, put pos (dir_at pos r) r)"
proof (induction pos arbitrary: r)
  case (Cons n pos)
  have "free_at pos []" "dir_at pos [] = []" by (cases pos; simp)+
  then show ?case using Cons.prems Cons.IH Cons.IH [of "[]"] by (auto split: option.splits item.splits)
qed simp

lemma put_put [simp]: "put pos x (put pos y r) = put pos x r"
  by (induction pos arbitrary: r) auto

lemma put_below: "put (pos @ q) s (put pos x r) = put pos (put q s x) r"
  by (induction pos arbitrary: r) auto

lemma dir_at_put: "dir_at (pos @ q) (put pos x r) = dir_at q x"
  by (induction pos arbitrary: r) auto

lemma free_at_put: "free_at (pos @ q) (put pos x r) = free_at q x"
  by (induction pos arbitrary: r) auto

lemma insert_at_put [simp]: "insert_at pos k v (put pos x r) = put pos (bt_insert k v x) r"
  by (induction pos arbitrary: r) auto

section \<open>Reading what was written\<close>

text \<open>What the parser yields for a text that the emitter wrote: every file under the directory that was started last.\<close>

fun entries_of :: "path \<Rightarrow> emit_call list \<Rightarrow> index_entry list" where
  "entries_of cur [] = []"
| "entries_of cur (StartDir p # cs) = IEDir p # entries_of p cs"
| "entries_of cur (AddFile k exe sz hs # cs) = IEFile (cur @ [Normal k]) exe sz hs # entries_of cur cs"
| "entries_of cur (AddSymlink k dest # cs) = IELink (cur @ [Normal k]) dest # entries_of cur cs"

text \<open>A file of the tree, as it is read back: where it comes from is not written.\<close>

fun read_back :: "item \<Rightarrow> item" where
  "read_back (IDir d) = IDir (map (\<lambda>(k, it). (k, read_back it)) d)"
| "read_back (RemoteFile exe sz hs) = RemoteFile exe sz hs"
| "read_back (LocalFile exe sz hs) = RemoteFile exe sz hs"
| "read_back (Link dest) = Link dest"

text \<open>Trees in the order of their keys, and without empty directories inside.\<close>

fun item_wf :: "item \<Rightarrow> bool" where
  "item_wf (IDir d) \<longleftrightarrow> sorted_keys d \<and> list_all (\<lambda>(k, it). item_wf it \<and> it \<noteq> IDir []) d"
| "item_wf _ \<longleftrightarrow> True"

fun is_dir :: "item \<Rightarrow> bool" where
  "is_dir (IDir d) = True"
| "is_dir _ = False"

lemma fill_entries_append:
  "fill_entries (map (Inr :: _ \<Rightarrow> 'a + index_entry) (xs @ ys)) st = bind_result (fill_entries (map Inr xs) st) (fill_entries (map Inr ys))"
proof (induction xs arbitrary: st)
  case (Cons x xs)
  then show ?case by (cases "fill_entry x st :: (string list \<times> dir_map, 'a index_parse_error) result") simp_all
qed simp

definition leaves_in :: "dir_map \<Rightarrow> dir_map \<Rightarrow> dir_map" where
  "leaves_in d x = fold (\<lambda>(k, it) x. if is_dir it then x else bt_insert k (read_back it) x) d x"

definition dirs_in :: "dir_map \<Rightarrow> dir_map \<Rightarrow> dir_map" where
  "dirs_in d x = fold (\<lambda>(k, it) x. if is_dir it then bt_insert k (read_back it) x else x) d x"

lemma path_file_name_snoc [simp]: "path_file_name (p @ [Normal k]) = Some k"
  by (simp add: path_file_name_def)

lemma entries_of_leaves:
  "entries_of cur (concat (map emit_leaf d) @ cs) = entries_of cur (concat (map emit_leaf d)) @ entries_of cur cs"
proof (induction d)
  case (Cons x d)
  obtain k it where "x = (k, it)" by (cases x)
  then show ?case using Cons by (cases it) auto
qed simp

lemma fill_leaves:
  "fill_entries (map Inr (entries_of p (concat (map emit_leaf d)))) (pos, put pos x r) = Ok (pos, put pos (leaves_in d x) r)"
proof (induction d arbitrary: x)
  case (Cons y d)
  obtain k it where "y = (k, it)" by (cases y)
  then show ?case using Cons.IH by (cases it) (auto simp: leaves_in_def)
qed (simp add: leaves_in_def)


lemma starts_with_dir: "emit_item p it = [] \<or> (\<exists>cs. emit_item p it = StartDir p # cs)"
  by (cases it) auto

lemma entries_of_subdirs:
  "entries_of cur (concat (map (\<lambda>(k, it). emit_item (p @ [Normal k]) it) d)) =
   concat (map (\<lambda>(k, it). entries_of [] (emit_item (p @ [Normal k]) it)) d)"
proof -
  have head: "entries_of c (concat (map (\<lambda>(k, it). emit_item (p @ [Normal k]) it) d)) =
      entries_of c' (concat (map (\<lambda>(k, it). emit_item (p @ [Normal k]) it) d))" for c c' d
  proof (induction d)
    case (Cons x d)
    obtain k it where "x = (k, it)" by (cases x)
    then show ?case using Cons starts_with_dir [of "p @ [Normal k]" it] by auto
  qed simp
  have app: "\<exists>c'. entries_of c (xs @ ys) = entries_of c xs @ entries_of c' ys" for c xs ys
  proof (induction xs arbitrary: c)
    case (Cons x xs)
    then show ?case by (cases x) auto
  qed auto
  show ?thesis
  proof (induction d arbitrary: cur)
    case (Cons x d)
    obtain k it where x: "x = (k, it)" by (cases x)
    let ?h = "emit_item (p @ [Normal k]) it" and ?t = "concat (map (\<lambda>(k, it). emit_item (p @ [Normal k]) it) d)"
    obtain c' where "entries_of cur (?h @ ?t) = entries_of cur ?h @ entries_of c' ?t" using app by blast
    moreover have "entries_of cur ?h = entries_of [] ?h" using starts_with_dir [of "p @ [Normal k]" it] by auto
    ultimately show ?case using Cons.IH [of c'] x by simp
  qed simp
qed

lemma fill_subdirs:
  assumes ih: "\<And>k s r pos0. (k, IDir s) \<in> set d \<Longrightarrow> dir_at (pos @ [k]) r = [] \<Longrightarrow> free_at (pos @ [k]) r \<Longrightarrow>
      \<exists>pos'. fill_entries (map (Inr :: _ \<Rightarrow> 'e + index_entry) (entries_of [] (emit_item (p @ [Normal k]) (IDir s)))) (pos0, r) =
        Ok (pos', put (pos @ [k]) (map (\<lambda>(k, it). (k, read_back it)) s) r)"
    and "distinct (map fst d)" "\<And>k s. (k, IDir s) \<in> set d \<Longrightarrow> map_of x k = None"
  shows "\<exists>pos'. fill_entries (map (Inr :: _ \<Rightarrow> 'e + index_entry) (concat (map (\<lambda>(k, it). entries_of [] (emit_item (p @ [Normal k]) it)) d)))
      (pos0, put pos x r) = Ok (pos', put pos (dirs_in d x) r)"
  using assms
proof (induction d arbitrary: x pos0)
  case Nil
  then show ?case by (auto simp: dirs_in_def)
next
  case (Cons y d)
  obtain k it where y: "y = (k, it)" by (cases y)
  show ?case
  proof (cases it)
    case (IDir s)
    have none: "map_of x k = None" using Cons.prems(3) y IDir by auto
    have "dir_at (pos @ [k]) (put pos x r) = []" "free_at (pos @ [k]) (put pos x r)"
      unfolding dir_at_put free_at_put using none by simp_all
    from Cons.prems(1) [OF _ this, of s pos0] y IDir obtain pos1 where
      1: "fill_entries (map (Inr :: _ \<Rightarrow> 'e + index_entry) (entries_of [] (emit_item (p @ [Normal k]) (IDir s)))) (pos0, put pos x r) =
        Ok (pos1, put pos (bt_insert k (read_back it) x) r)"
      using none by (auto simp: put_below)
    have d: "dirs_in (y # d) x = dirs_in d (bt_insert k (read_back it) x)" by (simp add: dirs_in_def y IDir)
    have free: "map_of (bt_insert k (read_back it) x) k' = None" if "(k', IDir s') \<in> set d" for k' s'
      using Cons.prems(2) Cons.prems(3) [of k' s'] that y by force
    have "\<exists>pos'. fill_entries (map (Inr :: _ \<Rightarrow> 'e + index_entry) (concat (map (\<lambda>(k, it). entries_of [] (emit_item (p @ [Normal k]) it)) d)))
        (pos1, put pos (bt_insert k (read_back it) x) r) = Ok (pos', put pos (dirs_in d (bt_insert k (read_back it) x)) r)"
      by (rule Cons.IH) (use Cons.prems(1, 2) free in auto)
    then show ?thesis using 1 y IDir unfolding d by (simp add: fill_entries_append [simplified])
  qed (use Cons y in \<open>auto simp: dirs_in_def\<close>)
qed

lemma map_of_leaves_in:
  "distinct (map fst d) \<Longrightarrow> map_of (leaves_in d x) k =
     (case map_of d k of Some it \<Rightarrow> if is_dir it then map_of x k else Some (read_back it) | None \<Rightarrow> map_of x k)"
proof (induction d arbitrary: x)
  case (Cons y d)
  obtain l it where y: "y = (l, it)" by (cases y)
  have "map_of d l = None" using Cons.prems y by (simp add: map_of_eq_None_iff)
  then show ?case using Cons y by (auto simp: leaves_in_def split: option.splits)
qed (simp add: leaves_in_def)

lemma map_of_dirs_in:
  "distinct (map fst d) \<Longrightarrow> map_of (dirs_in d x) k =
     (case map_of d k of Some it \<Rightarrow> if is_dir it then Some (read_back it) else map_of x k | None \<Rightarrow> map_of x k)"
proof (induction d arbitrary: x)
  case (Cons y d)
  obtain l it where y: "y = (l, it)" by (cases y)
  have "map_of d l = None" using Cons.prems y by (simp add: map_of_eq_None_iff)
  then show ?case using Cons y by (auto simp: dirs_in_def split: option.splits)
qed (simp add: dirs_in_def)

lemma sorted_in: "sorted_keys x \<Longrightarrow> sorted_keys (leaves_in d x)" "sorted_keys x \<Longrightarrow> sorted_keys (dirs_in d x)"
  unfolding leaves_in_def dirs_in_def by (induction d arbitrary: x) (auto simp: sorted_bt_insert split: prod.splits)

text \<open>Files first and then directories: together they are the whole directory again.\<close>

lemma dirs_after_leaves:
  assumes "sorted_keys d"
  shows "dirs_in d (leaves_in d []) = map (\<lambda>(k, it). (k, read_back it)) d"
proof (rule sorted_map_unique)
  have d: "distinct (map fst d)" using assms by (simp add: strict_sorted_iff)
  show "map_of (dirs_in d (leaves_in d [])) = map_of (map (\<lambda>(k, it). (k, read_back it)) d)"
    by (rule ext) (simp add: map_of_dirs_in [OF d] map_of_leaves_in [OF d] map_of_map split: option.splits)
  show "sorted_keys (dirs_in d (leaves_in d []))" by (intro sorted_in) simp
  have "map fst (map (\<lambda>(k, it). (k, read_back it)) d) = map fst d" by auto
  then show "sorted_keys (map (\<lambda>(k, it). (k, read_back it)) d)" using assms by (simp only:)
qed

lemma fill_emitted:
  assumes "item_wf (IDir d)" "d \<noteq> []" "p = RootDir # map Normal pos" "dir_at pos r = []" "free_at pos r"
  shows "\<exists>pos'. fill_entries (map (Inr :: _ \<Rightarrow> 'e + index_entry) (entries_of c (emit_item p (IDir d)))) (pos0, r) =
    Ok (pos', put pos (map (\<lambda>(k, it). (k, read_back it)) d) r)"
  using assms
proof (induction "IDir d" arbitrary: d p pos c pos0 r rule: measure_induct_rule [where f = size])
  case less
  let ?subs = "concat (map (\<lambda>(k, it). entries_of [] (emit_item (p @ [Normal k]) it)) d)"
  have d: "sorted_keys d" "distinct (map fst d)" using less.prems(1) by (auto simp: strict_sorted_iff)
  have es: "entries_of c (emit_item p (IDir d)) = IEDir p # entries_of p (concat (map emit_leaf d)) @ ?subs"
    using less.prems(2) by (simp add: entries_of_leaves entries_of_subdirs)
  have 1: "fill_entry (IEDir p) (pos0, r) = (Ok (pos, put pos [] r) :: (string list \<times> dir_map, 'e index_parse_error) result)"
    using enter_dir_ok [OF less.prems(5), of p] less.prems(3, 4) by simp
  have 2: "fill_entries (map Inr (entries_of p (concat (map emit_leaf d)))) (pos, put pos [] r) =
      (Ok (pos, put pos (leaves_in d []) r) :: (string list \<times> dir_map, 'e index_parse_error) result)"
    by (rule fill_leaves)
  have "\<exists>pos'. fill_entries (map (Inr :: _ \<Rightarrow> 'e + index_entry) ?subs) (pos, put pos (leaves_in d []) r) =
      Ok (pos', put pos (dirs_in d (leaves_in d [])) r)"
  proof (rule fill_subdirs)
    fix k s r' pos0'
    assume s: "(k, IDir s) \<in> set d" and r': "dir_at (pos @ [k]) r' = []" "free_at (pos @ [k]) r'"
    have sz: "size (IDir s) < size (IDir d)" using s by (induction d) (auto)
    have "case (k, IDir s) of (k, it) \<Rightarrow> item_wf it \<and> it \<noteq> IDir []"
      using s less.prems(1) by (simp only: item_wf.simps list_all_iff)
    then have wf: "item_wf (IDir s)" "s \<noteq> []" by simp_all
    show "\<exists>pos'. fill_entries (map (Inr :: _ \<Rightarrow> 'e + index_entry) (entries_of [] (emit_item (p @ [Normal k]) (IDir s)))) (pos0', r') =
        Ok (pos', put (pos @ [k]) (map (\<lambda>(k, it). (k, read_back it)) s) r')"
      by (rule less.hyps [OF sz wf _ r']) (simp add: less.prems(3))
  next
    show "map_of (leaves_in d []) k = None" if "(k, IDir s) \<in> set d" for k s
      using that d(2) by (simp add: map_of_leaves_in)
  qed (rule d(2))
  then show ?case unfolding es using 1 2 by (simp add: fill_entries_append [simplified] dirs_after_leaves [OF d(1)])
qed

text \<open>
  The law of the \<^verbatim>\<open>dir_signature\<close> crate: the parser yields the header and the entries that the emitter was given.
\<close>

definition dirsig_codec ::
  "('h \<Rightarrow> u64 \<Rightarrow> emit_call list \<Rightarrow> 'r) \<Rightarrow> ('r \<Rightarrow> 'e + ('h \<times> 'h \<times> u64 \<times> ('e + index_entry) list)) \<Rightarrow> bool" where
  "dirsig_codec render parse \<longleftrightarrow>
     (\<forall>h b cs. \<exists>hdr. parse (render h b cs) = Inr (hdr, h, b, map Inr (entries_of [] cs)))"

text \<open>
  C19. An index that is written and read back is the same tree, with its block size and hash type: every directory,
  file and link, where a file that was added locally has become a file of the image. The tree has no empty directories
  inside, which are not written.
\<close>

theorem index_roundtrip:
  fixes parse :: "'r \<Rightarrow> 'e + ('h \<times> 'h \<times> u64 \<times> ('e + index_entry) list)"
  assumes "dirsig_codec render parse" "item_wf (IDir (mi_root ix))"
  shows "\<exists>ix'. into_mut (parse (to_raw_data render ix)) loc = Ok ix' \<and> IDir (mi_root ix') = read_back (IDir (mi_root ix)) \<and>
    mi_block_size ix' = mi_block_size ix \<and> mi_hash_type ix' = mi_hash_type ix"
proof -
  let ?es = "entries_of [] (emit_dir [RootDir] (mi_root ix))"
  have fill: "fill_dirs (map Inr ?es) = (Ok (map (\<lambda>(k, it). (k, read_back it)) (mi_root ix)) :: (dir_map, 'e index_parse_error) result)"
  proof (cases "mi_root ix = []")
    case True
    then show ?thesis by (simp add: fill_dirs_def emit_dir_def)
  next
    case False
    from fill_emitted [OF assms(2) this, of "[RootDir]" "[]" "[]" "[]" "[]"] show ?thesis
      by (auto simp: fill_dirs_def emit_dir_def)
  qed
  obtain hdr where "parse (to_raw_data render ix) = Inr (hdr, mi_hash_type ix, mi_block_size ix, map Inr ?es)"
    using assms(1) unfolding dirsig_codec_def to_raw_data_def by blast
  then show ?thesis using fill by (simp add: into_mut_def)
qed

section \<open>Insertion\<close>

fun item_at :: "string list \<Rightarrow> dir_map \<Rightarrow> item option" where
  "item_at [] d = Some (IDir d)"
| "item_at (n # ns) d =
     (case map_of d n of
        Some it \<Rightarrow> (case it of IDir s \<Rightarrow> item_at ns s | _ \<Rightarrow> if ns = [] then Some it else None)
      | None \<Rightarrow> None)"

definition path_names :: "path \<Rightarrow> string list" where
  "path_names p = List.map_filter (\<lambda>c. case c of Normal n \<Rightarrow> Some n | _ \<Rightarrow> None) p"

lemma path_names_simps [simp]:
  "path_names [] = []" "path_names (RootDir # p) = path_names p" "path_names (Normal n # p) = n # path_names p"
  "path_names (p @ q) = path_names p @ path_names q"
  by (simp_all add: path_names_def List.map_filter_def)

lemma item_at_bt_insert:
  "item_at (n # ns) (bt_insert k v d) = (if n = k then (case v of IDir s \<Rightarrow> item_at ns s | _ \<Rightarrow> if ns = [] then Some v else None)
     else item_at (n # ns) d)"
  by simp

lemma insert_file_at_ok:
  assumes "insert_file_at f cs it d = (Ok () :: (unit, 'e index_update_error) result, d')" "\<not> is_dir it"
  shows "item_at (path_names cs @ [f]) d' = Some it \<and>
    (\<forall>q. \<not> prefix q (path_names cs @ [f]) \<and> \<not> prefix (path_names cs @ [f]) q \<longrightarrow> item_at q d' = item_at q d)"
  using assms
proof (induction f cs it d arbitrary: d' rule: insert_file_at.induct)
  case (1 fname it dir)
  then have d': "d' = bt_insert fname it dir" by simp
  have "item_at q d' = item_at q dir" if "\<not> prefix q [fname]" "\<not> prefix [fname] q" for q
    using that unfolding d' by (cases q) auto
  then show ?case using 1 by (cases it) auto
next
  case (3 fname name cs it dir)
  let ?ps = "path_names cs @ [fname]"
  define sub0 where "sub0 = (case map_of dir name of Some (IDir s) \<Rightarrow> s | _ \<Rightarrow> [])"
  obtain sub where sub: "insert_file_at fname cs it sub0 = (Ok () :: (unit, 'e index_update_error) result, sub)" "d' = bt_insert name (IDir sub) dir"
    and dir: "map_of dir name = None \<or> map_of dir name = Some (IDir sub0)"
    using 3(3) unfolding sub0_def by (auto split: option.splits item.splits prod.splits)
  have ih: "item_at ?ps sub = Some it" "\<And>q. \<not> prefix q ?ps \<Longrightarrow> \<not> prefix ?ps q \<Longrightarrow> item_at q sub = item_at q sub0"
    using 3(1) 3(2) [of "IDir sub0" sub0] dir sub(1) 3(4) unfolding sub0_def by auto
  have "item_at q d' = item_at q dir" if "\<not> prefix q (name # ?ps)" "\<not> prefix (name # ?ps) q" for q
  proof (cases q)
    case (Cons n q')
    show ?thesis
    proof (cases "n = name")
      case True
      then have "item_at q' sub = item_at q' sub0" using that Cons ih(2) by auto
      moreover have "q' \<noteq> []" using that Cons True by auto
      moreover have "map_of dir name = None \<Longrightarrow> sub0 = []" by (simp add: sub0_def)
      ultimately show ?thesis using Cons True sub(2) dir by (cases q') auto
    qed (use Cons sub(2) in simp)
  qed (use that in simp)
  then show ?case using ih(1) sub(2) by simp
qed auto

text \<open>
  A file that was inserted is in the index at its path, with its size and hashes, and every path
  that is neither above nor below it has the item it had.
\<close>

theorem insert_file_lookup:
  assumes "insert_file p (Inr (sz, hs)) exe ix = (Ok () :: (unit, 'e index_update_error) result, ix')"
  shows "item_at (path_names p) (mi_root ix') = Some (LocalFile exe sz hs) \<and>
    (\<forall>q. \<not> prefix q (path_names p) \<and> \<not> prefix (path_names p) q \<longrightarrow> item_at q (mi_root ix') = item_at q (mi_root ix)) \<and>
    mi_block_size ix' = mi_block_size ix \<and> mi_hash_type ix' = mi_hash_type ix"
proof -
  obtain fname parent where fp: "path_file_name p = Some fname" "path_parent p = Some parent"
    using assms by (auto simp: insert_file_def split: if_splits option.splits)
  obtain root where r: "insert_file_at fname parent (LocalFile exe sz hs) (mi_root ix) = (Ok () :: (unit, 'e index_update_error) result, root)"
    "ix' = ix\<lparr>mi_root := root\<rparr>"
    using assms fp by (auto simp: insert_file_def split: if_splits prod.splits)
  have "p = parent @ [Normal fname]"
    using fp by (cases p rule: rev_cases) (auto simp: path_file_name_def path_parent_def split: component.splits if_splits)
  then have "path_names p = path_names parent @ [fname]" by simp
  then show ?thesis using insert_file_at_ok [OF r(1)] r(2) by simp
qed

section \<open>The order of the keys\<close>

fun tree_sorted :: "item \<Rightarrow> bool" where
  "tree_sorted (IDir d) \<longleftrightarrow> sorted_keys d \<and> list_all (\<lambda>(k, it). tree_sorted it) d"
| "tree_sorted _ \<longleftrightarrow> True"

lemma set_bt_insert: "x \<in> set (bt_insert k v d) \<Longrightarrow> x = (k, v) \<or> x \<in> set d"
  by (induction d) (auto split: if_splits)

lemma tree_sorted_insert:
  assumes "tree_sorted (IDir d)" "tree_sorted v" shows "tree_sorted (IDir (bt_insert k v d))"
proof -
  have "sorted_keys (bt_insert k v d)" using assms(1) by (simp add: sorted_bt_insert)
  moreover have "case x of (k, it) \<Rightarrow> tree_sorted it" if "x \<in> set (bt_insert k v d)" for x
    using set_bt_insert [OF that] assms by (auto simp: list_all_iff)
  ultimately show ?thesis by (simp add: list_all_iff)
qed

lemma tree_sorted_sub: "tree_sorted (IDir d) \<Longrightarrow> map_of d k = Some it \<Longrightarrow> tree_sorted it"
  by (auto simp: list_all_iff dest!: map_of_SomeD)

lemma enter_dir_sorted:
  assumes "enter_dir full cs d = (Ok (pos, d') :: (_, 'e index_parse_error) result)" "tree_sorted (IDir d)"
  shows "tree_sorted (IDir d')"
  using assms
proof (induction full cs d arbitrary: pos d' rule: enter_dir.induct)
  case (3 full chunk cs dir)
  define sub0 where "sub0 = (case map_of dir chunk of Some (IDir s) \<Rightarrow> s | _ \<Rightarrow> [])"
  obtain pos1 sub where sub: "enter_dir full cs sub0 = (Ok (pos1, sub) :: (_, 'e index_parse_error) result)"
    "d' = bt_insert chunk (IDir sub) dir" and dir: "map_of dir chunk = None \<or> map_of dir chunk = Some (IDir sub0)"
    using "3.prems"(1) unfolding sub0_def by (auto split: option.splits item.splits)
  have new: "map_of dir chunk = None \<Longrightarrow> sub0 = []" by (simp add: sub0_def)
  then have "tree_sorted (IDir sub0)" using dir tree_sorted_sub [OF "3.prems"(2), of chunk "IDir sub0"] by auto
  then have "tree_sorted (IDir sub)" using "3.IH"(1) "3.IH"(2) [of "IDir sub0" sub0] dir sub(1) new
    by (elim disjE) (simp_all del: tree_sorted.simps(1))
  then show ?case using tree_sorted_insert [OF "3.prems"(2)] sub(2) by blast
qed auto

lemma insert_at_sorted: "tree_sorted (IDir d) \<Longrightarrow> tree_sorted v \<Longrightarrow> tree_sorted (IDir (insert_at pos k v d))"
proof (induction pos k v d rule: insert_at.induct)
  case (2 n pos k v dir)
  then show ?case using tree_sorted_sub [OF "2.prems"(1), of n] tree_sorted_insert [OF "2.prems"(1)]
    by (auto simp del: tree_sorted.simps(1) split: option.splits item.splits)
qed (simp add: tree_sorted_insert del: tree_sorted.simps(1))

lemma fill_entries_sorted:
  assumes "fill_entries es (pos, d) = (Ok (pos', d') :: (_, 'e index_parse_error) result)" "tree_sorted (IDir d)"
  shows "tree_sorted (IDir d')"
  using assms
proof (induction es arbitrary: pos d)
  case (Cons x es)
  obtain y where x: "x = Inr y" using Cons.prems(1) by (cases x) auto
  obtain pos1 d1 where 1: "fill_entry y (pos, d) = (Ok (pos1, d1) :: (_, 'e index_parse_error) result)" "fill_entries es (pos1, d1) = Ok (pos', d')"
    using Cons.prems(1) x by auto
  have "tree_sorted (IDir d1)"
    using 1(1) Cons.prems(2) enter_dir_sorted insert_at_sorted [OF Cons.prems(2)] by (cases y) (auto simp del: tree_sorted.simps(1))
  then show ?case using Cons.IH [OF 1(2)] by blast
qed simp

lemma insert_file_at_sorted:
  "tree_sorted (IDir d) \<Longrightarrow> tree_sorted it \<Longrightarrow> tree_sorted (IDir (snd (insert_file_at f cs it d :: (unit, 'e index_update_error) result \<times> _)))"
proof (induction f cs it d rule: insert_file_at.induct)
  case (3 fname name cs it dir)
  define sub0 where "sub0 = (case map_of dir name of Some (IDir s) \<Rightarrow> s | _ \<Rightarrow> [])"
  show ?case
  proof (cases "map_of dir name = None \<or> map_of dir name = Some (IDir sub0)")
    case True
    have new: "map_of dir name = None \<Longrightarrow> sub0 = []" by (simp add: sub0_def)
    then have "tree_sorted (IDir sub0)" using True tree_sorted_sub [OF "3.prems"(1), of name "IDir sub0"] by auto
    then have "tree_sorted (IDir (snd (insert_file_at fname cs it sub0 :: (unit, 'e index_update_error) result \<times> _)))"
      using "3.IH"(1) "3.IH"(2) [of "IDir sub0" sub0] True "3.prems"(2) new by (elim disjE) (simp_all del: tree_sorted.simps(1))
    then have "tree_sorted (IDir (bt_insert name (IDir (snd (insert_file_at fname cs it sub0 :: (unit, 'e index_update_error) result \<times> _))) dir))"
      by (rule tree_sorted_insert [OF "3.prems"(1)])
    then show ?thesis using True new by (elim disjE) (simp_all add: prod.case_eq_if del: tree_sorted.simps(1))
  next
    case False
    then show ?thesis using "3.prems"(1) by (auto simp: sub0_def split: option.splits item.splits simp del: tree_sorted.simps(1))
  qed
qed (simp_all add: tree_sorted_insert del: tree_sorted.simps(1))


section \<open>A concrete index\<close>

definition demo_hashes :: hashes_of where
  "demo_hashes = \<lparr>hs_block_size = 4, hs_hashes = [replicate 32 0]\<rparr>"

definition demo_index :: "nat mutable_index" where
  "demo_index = \<lparr>mi_header = 0, mi_root = [(''a'', RemoteFile False 3 demo_hashes), (''d'', IDir [(''l'', Link [Normal ''a''])])],
     mi_location = 0, mi_block_size = 4, mi_hash_type = 0\<rparr>"

theorem index_roundtrip_witness:
  "\<exists>ix'. into_mut ((\<lambda>(h, b, cs). Inr (h, h, b, map Inr (entries_of [] cs))) (to_raw_data (\<lambda>h b cs. (h, b, cs)) demo_index) ::
       unit + (nat \<times> nat \<times> u64 \<times> (unit + index_entry) list)) 0 = Ok ix' \<and> mi_root ix' = mi_root demo_index"
proof -
  let ?parse = "\<lambda>(h, b, cs). Inr (h, h, b, map Inr (entries_of [] cs)) :: unit + (nat \<times> nat \<times> u64 \<times> (unit + index_entry) list)"
  have "dirsig_codec (\<lambda>h b cs. (h, b, cs)) ?parse" by (simp add: dirsig_codec_def)
  moreover have "item_wf (IDir (mi_root demo_index))" by (simp add: demo_index_def)
  ultimately show ?thesis using index_roundtrip [of _ ?parse demo_index 0] by (fastforce simp: demo_index_def)
qed

theorem insert_file_lookup_witness:
  "item_at [''d'', ''b''] (mi_root (snd (insert_file [RootDir, Normal ''d'', Normal ''b''] (Inr (3, demo_hashes) :: unit + _) True demo_index))) =
     Some (LocalFile True 3 demo_hashes)"
proof -
  obtain ix' where "insert_file [RootDir, Normal ''d'', Normal ''b''] (Inr (3, demo_hashes)) True demo_index =
      (Ok () :: (unit, unit index_update_error) result, ix')"
    by (simp add: insert_file_def demo_index_def is_absolute_def path_file_name_def path_parent_def)
  from insert_file_lookup [OF this] this show ?thesis by simp
qed


end
