(* ===== verification/Fetch_Index.thy ===== *)
theory Fetch_Index
  imports Progress Proto
begin

text \<open>
  The registry of indexes of a daemon (\<^verbatim>\<open>src/daemon/tracking/fetch_index.rs\<close> with \<^verbatim>\<open>src/daemon/index_cache.rs\<close>): an index
  is asked for by the downloads of an image, read from the store or fetched from a peer, and shared by all who asked as
  long as one of them holds it.

  A task and the channel it answers have one number, and so has the shared index (\<^verbatim>\<open>Arc<Inner>\<close>) it makes. The indexes
  that somebody holds are the set \<open>ir_alive\<close>. What the store and the requests yield, the clock, the choice of a
  connection and of a path are arguments of a step.
\<close>

section \<open>Parsing an index\<close>

definition RETRY_FOR :: nat where "RETRY_FOR = 90 * 1000000000"
definition INDEX_RETRY_TIMEOUT :: nat where "INDEX_RETRY_TIMEOUT = 1000000000"

fun entry_bytes :: "entry \<Rightarrow> nat" where
  "entry_bytes (EntryFile p exe sz hs) = unat sz"
| "entry_bytes _ = 0"

text \<open>\<^verbatim>\<open>(size + block_size - 1) / block_size\<close> on 64-bit numbers: it panics on overflow and on a block size of zero.\<close>

fun entry_blocks :: "u64 \<Rightarrow> entry \<Rightarrow> (nat, 'e) result" where
  "entry_blocks bsize (EntryFile p exe sz hs) =
     (if unat sz + unat bsize \<ge> 2 ^ 64 \<or> bsize = 0 then Panic
      else Ok ((unat sz + unat bsize - 1) div unat bsize))"
| "entry_blocks bsize _ = Ok 0"

text \<open>\<^verbatim>\<open>Iterator::sum\<close> on 64-bit numbers.\<close>

fun sum_checked :: "('x \<Rightarrow> (nat, 'e) result) \<Rightarrow> 'x list \<Rightarrow> nat \<Rightarrow> (nat, 'e) result" where
  "sum_checked f [] acc = Ok acc"
| "sum_checked f (x # xs) acc =
     bind_result (f x) (\<lambda>n. if acc + n \<ge> 2 ^ 64 then Panic else sum_checked f xs (acc + n))"

text \<open>The parser of the \<^verbatim>\<open>dir_signature\<close> crate gives the block size and the entries, or an error.\<close>

definition index_parse :: "(bytes \<Rightarrow> ('e + u64 \<times> entry list)) \<Rightarrow> image_id \<Rightarrow> bytes \<Rightarrow> (index, 'e) result" where
  "index_parse parser img data =
     (case parser data of
        Inl e \<Rightarrow> Err e
      | Inr (bsize, items) \<Rightarrow>
          bind_result (sum_checked (\<lambda>x. Ok (entry_bytes x)) items 0) (\<lambda>total_bytes.
          bind_result (sum_checked (entry_blocks bsize) items 0) (\<lambda>total_blocks.
            Ok \<lparr>ix_id = img, ix_entries = items, ix_bytes_total = word_of_nat total_bytes,
                ix_blocks_total = word_of_nat total_blocks, ix_block_size = bsize\<rparr>)))"

section \<open>The registry\<close>

record 'a in_progress =
  ip_paths :: "vpath list"
  ip_failures :: "'a failures"
  ip_wakeup :: "nat option"
  ip_future :: nat

datatype 'a index_ref = IndexDone nat | IndexInProgress "'a in_progress"

datatype 'a fetch_state = FetchStart | FetchFetching 'a nat | FetchWaiting nat instant

datatype 'a index_task = TaskReading image_id | TaskFetching image_id instant "'a fetch_state"

datatype chan_state = ChanOpen | ChanSent index | ChanClosed

record 'a index_reg =
  ir_images :: "image_id \<rightharpoonup> 'a index_ref"
  ir_tasks :: "nat \<rightharpoonup> 'a index_task"
  ir_chans :: "nat \<Rightarrow> chan_state"
  ir_alive :: "nat set"
  ir_next :: nat
  ir_requests :: "(nat \<times> 'a \<times> get_index) list"
  ir_stored :: "(image_id \<times> bytes) list"
  ir_fetching :: int
  ir_fetched :: nat
  ir_failures :: nat

definition indexes_new :: "'a index_reg" where
  "indexes_new = \<lparr>ir_images = Map.empty, ir_tasks = Map.empty, ir_chans = \<lambda>_. ChanOpen, ir_alive = {}, ir_next = 0,
     ir_requests = [], ir_stored = [], ir_fetching = 0, ir_fetched = 0, ir_failures = 0\<rparr>"

datatype index_future = FutureReady nat | FutureChan nat

text \<open>A new task that reads the store, with the entry that waits for it.\<close>

definition spawn_try_read :: "vpath \<Rightarrow> image_id \<Rightarrow> 'a index_reg \<Rightarrow> 'a in_progress \<times> 'a index_reg" where
  "spawn_try_read path img reg =
     (\<lparr>ip_paths = [path], ip_failures = failures_new_default, ip_wakeup = None, ip_future = ir_next reg\<rparr>,
      reg\<lparr>ir_tasks := (ir_tasks reg)(ir_next reg \<mapsto> TaskReading img), ir_next := Suc (ir_next reg)\<rparr>)"

definition indexes_insert_new :: "vpath \<Rightarrow> image_id \<Rightarrow> 'a index_reg \<Rightarrow> index_future \<times> 'a index_reg" where
  "indexes_insert_new path img reg =
     (case spawn_try_read path img reg of (inp, reg1) \<Rightarrow>
        (FutureChan (ip_future inp),
         reg1\<lparr>ir_images := (ir_images reg1)(img \<mapsto> IndexInProgress inp), ir_fetching := ir_fetching reg1 + 1\<rparr>))"

definition indexes_get :: "vpath \<Rightarrow> image_id \<Rightarrow> 'a index_reg \<Rightarrow> index_future \<times> 'a index_reg" where
  "indexes_get path img reg =
     (case ir_images reg img of
        Some (IndexDone i) \<Rightarrow>
          if i \<in> ir_alive reg then (FutureReady i, reg) else indexes_insert_new path img reg
      | Some (IndexInProgress inp) \<Rightarrow>
          (FutureChan (ip_future inp),
           reg\<lparr>ir_images := (ir_images reg)(img \<mapsto> IndexInProgress
             (if path \<in> set (ip_paths inp) then inp else inp\<lparr>ip_paths := ip_paths inp @ [path]\<rparr>))\<rparr>)
      | None \<Rightarrow> indexes_insert_new path img reg)"

text \<open>The end of reading the store: the index is sent to those who wait, or a fetcher starts.\<close>

definition read_finished :: "instant \<Rightarrow> nat \<Rightarrow> index option \<Rightarrow> 'a index_reg \<Rightarrow> 'a index_reg" where
  "read_finished now i found reg =
     (case (ir_tasks reg i, found) of
        (Some (TaskReading img), Some ix) \<Rightarrow>
          reg\<lparr>ir_tasks := (ir_tasks reg)(i := None), ir_chans := (ir_chans reg)(i := ChanSent ix),
              ir_alive := insert i (ir_alive reg)\<rparr>
      | (Some (TaskReading img), None) \<Rightarrow>
          reg\<lparr>ir_tasks := (ir_tasks reg)(i \<mapsto> TaskFetching img (now + RETRY_FOR) FetchStart)\<rparr>
      | _ \<Rightarrow> reg)"

section \<open>Fetching from a peer\<close>

record 'a fetch_env =
  fe_now :: instant
  fe_rnd :: "nat \<Rightarrow> nat"
  fe_conn :: "vpath \<Rightarrow> 'a failures \<Rightarrow> 'a option"
  fe_reply :: "nat \<Rightarrow> (unit + bytes) option"
  fe_woken :: "nat \<Rightarrow> bool"
  fe_parser :: "bytes \<Rightarrow> (unit + u64 \<times> entry list)"

datatype 'a state_poll = StateReady index bytes | StateNotReady "'a fetch_state"

text \<open>
  The state \<^verbatim>\<open>Start\<close>: a request that was just sent and a timer that was just set are not ready, so the loop ends after it.
\<close>

definition poll_start ::
  "'a fetch_env \<Rightarrow> image_id \<Rightarrow> 'a in_progress \<Rightarrow> 'a index_reg \<Rightarrow> ('a state_poll \<times> 'a in_progress \<times> 'a index_reg, unit) result" where
  "poll_start env img inp reg =
     (if ip_paths inp = [] then Panic
      else
        let path = ip_paths inp ! (fe_rnd env (length (ip_paths inp)) mod length (ip_paths inp))
        in case fe_conn env path (ip_failures inp) of
             Some addr \<Rightarrow>
               Ok (StateNotReady (FetchFetching addr (length (ir_requests reg))), inp\<lparr>ip_wakeup := None\<rparr>,
                   reg\<lparr>ir_requests := ir_requests reg @ [(length (ir_requests reg), addr, \<lparr>gi_id = img, gi_hint = Some path\<rparr>)]\<rparr>)
           | None \<Rightarrow>
               Ok (StateNotReady (FetchWaiting (ir_next reg) (fe_now env + INDEX_RETRY_TIMEOUT)),
                   inp\<lparr>ip_wakeup := Some (ir_next reg)\<rparr>, reg\<lparr>ir_next := Suc (ir_next reg)\<rparr>))"

definition index_add_failure :: "instant \<Rightarrow> 'a \<Rightarrow> 'a in_progress \<Rightarrow> 'a in_progress" where
  "index_add_failure now addr inp = inp\<lparr>ip_failures := add_failure now addr (ip_failures inp)\<rparr>"

fun poll_state ::
  "'a fetch_env \<Rightarrow> 'a fetch_state \<Rightarrow> image_id \<Rightarrow> 'a in_progress \<Rightarrow> 'a index_reg \<Rightarrow>
   ('a state_poll \<times> 'a in_progress \<times> 'a index_reg, unit) result" where
  "poll_state env FetchStart img inp reg = poll_start env img inp reg"
| "poll_state env (FetchFetching addr n) img inp reg =
     (case fe_reply env n of
        None \<Rightarrow> Ok (StateNotReady (FetchFetching addr n), inp, reg)
      | Some (Inl _) \<Rightarrow> poll_start env img (index_add_failure (fe_now env) addr inp) reg
      | Some (Inr data) \<Rightarrow>
          (case index_parse (fe_parser env) img data of
             Ok ix \<Rightarrow> Ok (StateReady ix data, inp, reg\<lparr>ir_stored := ir_stored reg @ [(img, data)]\<rparr>)
           | Err _ \<Rightarrow> poll_start env img (index_add_failure (fe_now env) addr inp) reg
           | Panic \<Rightarrow> Panic))"
| "poll_state env (FetchWaiting ch t) img inp reg =
     (if fe_now env \<ge> t \<or> fe_woken env ch then poll_start env img inp reg
      else Ok (StateNotReady (FetchWaiting ch t), inp, reg))"

definition set_image :: "image_id \<Rightarrow> 'a index_ref option \<Rightarrow> 'a index_reg \<Rightarrow> 'a index_reg" where
  "set_image img r reg = reg\<lparr>ir_images := (ir_images reg)(img := r)\<rparr>"

definition fetch_base_poll :: "'a fetch_env \<Rightarrow> nat \<Rightarrow> 'a index_reg \<Rightarrow> ('a index_reg, unit) result" where
  "fetch_base_poll env i reg =
     (case ir_tasks reg i of
        Some (TaskFetching img dline st) \<Rightarrow>
          (case ir_images reg img of
             Some (IndexInProgress inp) \<Rightarrow>
               bind_result (poll_state env st img inp reg) (\<lambda>(res, inp1, reg1).
                 case res of
                   StateReady ix data \<Rightarrow>
                     Ok (set_image img (Some (IndexDone i))
                       (reg1\<lparr>ir_alive := insert i (ir_alive reg1), ir_chans := (ir_chans reg1)(i := ChanSent ix),
                             ir_tasks := (ir_tasks reg1)(i := None), ir_fetching := ir_fetching reg1 - 1,
                             ir_fetched := ir_fetched reg1 + 1\<rparr>))
                 | StateNotReady st1 \<Rightarrow>
                     if fe_now env \<ge> dline then
                       Ok (set_image img None
                         (reg1\<lparr>ir_chans := (ir_chans reg1)(i := ChanClosed), ir_tasks := (ir_tasks reg1)(i := None),
                               ir_fetching := ir_fetching reg1 - 1, ir_failures := ir_failures reg1 + 1\<rparr>))
                     else
                       Ok (set_image img (Some (IndexInProgress inp1))
                         (reg1\<lparr>ir_tasks := (ir_tasks reg1)(i \<mapsto> TaskFetching img dline st1)\<rparr>)))
           | _ \<Rightarrow> Panic)
      | _ \<Rightarrow> Ok reg)"

text \<open>
  The last holder of an index lets it go: from then on it cannot be upgraded, and \<^verbatim>\<open>Drop\<close> removes the entry of its image.
  The two are separate steps when the holder is on another thread.
\<close>

definition inner_released :: "nat \<Rightarrow> 'a index_reg \<Rightarrow> 'a index_reg" where
  "inner_released i reg = reg\<lparr>ir_alive := ir_alive reg - {i}\<rparr>"

definition inner_drop :: "nat \<Rightarrow> 'a index_reg \<Rightarrow> 'a index_reg" where
  "inner_drop i reg = (case ir_chans reg i of ChanSent ix \<Rightarrow> set_image (ix_id ix) None reg | _ \<Rightarrow> reg)"

text \<open>What the future yields: the index, an error when the channel was closed, nothing yet.\<close>

definition index_future_poll :: "index_future \<Rightarrow> 'a index_reg \<Rightarrow> (index, unit) result option" where
  "index_future_poll f reg =
     (case ir_chans reg (case f of FutureReady i \<Rightarrow> i | FutureChan i \<Rightarrow> i) of
        ChanOpen \<Rightarrow> None
      | ChanSent ix \<Rightarrow> Some (Ok ix)
      | ChanClosed \<Rightarrow> Some (Err ()))"

section \<open>The registry on one thread\<close>

text \<open>
  The steps of the registry when an index is dropped in one step. What is read from the store was parsed with the
  identifier of the image. The entry of an image whose index came from the store keeps the shared future, and with
  it the index.
\<close>

definition parser_ok :: "'a fetch_env \<Rightarrow> bool" where
  "parser_ok env \<longleftrightarrow> (\<forall>img data. index_parse (fe_parser env) img data \<noteq> Panic)"

inductive index_step :: "'a index_reg \<Rightarrow> 'a index_reg \<Rightarrow> bool" where
  step_get: "index_step reg (snd (indexes_get path img reg))"
| step_read: "ir_tasks reg i = Some (TaskReading img) \<Longrightarrow> pred_option (\<lambda>ix. ix_id ix = img) found \<Longrightarrow>
     index_step reg (read_finished now i found reg)"
| step_poll: "parser_ok env \<Longrightarrow> fetch_base_poll env i reg = Ok reg' \<Longrightarrow> index_step reg reg'"
| step_drop: "i \<in> ir_alive reg \<Longrightarrow> \<forall>img inp. ir_images reg img = Some (IndexInProgress inp) \<longrightarrow> ip_future inp \<noteq> i \<Longrightarrow>
     index_step reg (inner_drop i (inner_released i reg))"

fun task_image :: "'a index_task \<Rightarrow> image_id" where
  "task_image (TaskReading img) = img"
| "task_image (TaskFetching img dline st) = img"

text \<open>The index that a channel has delivered is for the image.\<close>

definition delivers :: "'a index_reg \<Rightarrow> nat \<Rightarrow> image_id \<Rightarrow> bool" where
  "delivers reg i img \<longleftrightarrow> i \<in> ir_alive reg \<and> (\<exists>ix. ir_chans reg i = ChanSent ix \<and> ix_id ix = img)"

fun entry_ok :: "'a index_reg \<Rightarrow> image_id \<Rightarrow> 'a index_ref \<Rightarrow> bool" where
  "entry_ok reg img (IndexDone i) \<longleftrightarrow> delivers reg i img"
| "entry_ok reg img (IndexInProgress inp) \<longleftrightarrow> ip_paths inp \<noteq> [] \<and>
     ((\<exists>t. ir_tasks reg (ip_future inp) = Some t \<and> task_image t = img) \<or> delivers reg (ip_future inp) img)"

fun entry_no :: "'a index_ref \<Rightarrow> nat" where
  "entry_no (IndexDone i) = i"
| "entry_no (IndexInProgress inp) = ip_future inp"

definition reg_inv :: "'a index_reg \<Rightarrow> bool" where
  "reg_inv reg \<longleftrightarrow>
     (\<forall>img r. ir_images reg img = Some r \<longrightarrow> entry_ok reg img r) \<and>
     (\<forall>i t. ir_tasks reg i = Some t \<longrightarrow> ir_chans reg i = ChanOpen \<and>
        (\<exists>inp. ir_images reg (task_image t) = Some (IndexInProgress inp) \<and> ip_future inp = i)) \<and>
     (\<forall>i\<in>ir_alive reg. \<exists>ix r. ir_chans reg i = ChanSent ix \<and> ir_images reg (ix_id ix) = Some r \<and> entry_no r = i) \<and>
     (\<forall>i\<ge>ir_next reg. ir_chans reg i = ChanOpen \<and> ir_tasks reg i = None)"

lemma reg_inv_new: "reg_inv indexes_new"
  by (simp add: reg_inv_def indexes_new_def)

lemma reg_invE:
  assumes "reg_inv reg"
  shows "\<And>img r. ir_images reg img = Some r \<Longrightarrow> entry_ok reg img r"
    and "\<And>i t. ir_tasks reg i = Some t \<Longrightarrow> ir_chans reg i = ChanOpen"
    and "\<And>i t. ir_tasks reg i = Some t \<Longrightarrow> \<exists>inp. ir_images reg (task_image t) = Some (IndexInProgress inp) \<and> ip_future inp = i"
    and "\<And>i. i \<in> ir_alive reg \<Longrightarrow> \<exists>ix r. ir_chans reg i = ChanSent ix \<and> ir_images reg (ix_id ix) = Some r \<and> entry_no r = i"
    and "\<And>i. i \<ge> ir_next reg \<Longrightarrow> ir_chans reg i = ChanOpen" "\<And>i. i \<ge> ir_next reg \<Longrightarrow> ir_tasks reg i = None"
  using assms unfolding reg_inv_def by blast+

lemma reg_inv_insert_new:
  assumes inv: "reg_inv reg" and free: "\<And>r. ir_images reg img = Some r \<Longrightarrow> entry_no r \<notin> ir_alive reg \<and> ir_tasks reg (entry_no r) = None"
  shows "reg_inv (snd (indexes_insert_new path img reg))"
proof -
  let ?n = "ir_next reg" and ?r = "snd (indexes_insert_new path img reg)"
  define inp where "inp = fst (spawn_try_read path img reg)"
  have inp: "ip_future inp = ?n" "ip_paths inp \<noteq> []"
    and r: "ir_images ?r = (ir_images reg)(img \<mapsto> IndexInProgress inp)" "ir_tasks ?r = (ir_tasks reg)(?n \<mapsto> TaskReading img)"
      "ir_chans ?r = ir_chans reg" "ir_alive ?r = ir_alive reg" "ir_next ?r = Suc ?n"
    by (simp_all add: indexes_insert_new_def spawn_try_read_def inp_def)
  have del: "delivers ?r i img' = delivers reg i img'" for i img' by (simp add: delivers_def r)
  show ?thesis unfolding reg_inv_def
  proof (intro conjI allI impI ballI)
    fix img' r' assume e: "ir_images ?r img' = Some r'"
    show "entry_ok ?r img' r'"
    proof (cases "img' = img")
      case True
      then show ?thesis using e inp by (auto simp: r)
    next
      case False
      then have "entry_ok reg img' r'" using e reg_invE(1) [OF inv] by (simp add: r)
      then show ?thesis using reg_invE(6) [OF inv] by (cases r') (auto simp: del r)
    qed
  next
    fix i t assume t: "ir_tasks ?r i = Some t"
    show "ir_chans ?r i = ChanOpen" using t reg_invE(2) [OF inv, of i] reg_invE(5) [OF inv, of ?n] by (auto simp: r split: if_splits)
    show "\<exists>inp. ir_images ?r (task_image t) = Some (IndexInProgress inp) \<and> ip_future inp = i"
    proof (cases "i = ?n")
      case False
      then obtain inp' where "ir_images reg (task_image t) = Some (IndexInProgress inp')" "ip_future inp' = i" "ir_tasks reg i = Some t"
        using t reg_invE(3) [OF inv, of i t] by (auto simp: r)
      then show ?thesis using free [of "IndexInProgress inp'"] by (auto simp: r)
    qed (use t inp in \<open>auto simp: r\<close>)
  next
    fix i assume i: "i \<in> ir_alive ?r"
    then obtain ix r' where "ir_chans reg i = ChanSent ix" "ir_images reg (ix_id ix) = Some r'" "entry_no r' = i"
      using reg_invE(4) [OF inv, of i] by (auto simp: r)
    then show "\<exists>ix r'. ir_chans ?r i = ChanSent ix \<and> ir_images ?r (ix_id ix) = Some r' \<and> entry_no r' = i"
      using free [of r'] i by (auto simp: r)
  next
    fix i assume "i \<ge> ir_next ?r"
    then show "ir_chans ?r i = ChanOpen" "ir_tasks ?r i = None" using reg_invE(5, 6) [OF inv, of i] by (auto simp: r)
  qed
qed

lemma reg_inv_get: "reg_inv reg \<Longrightarrow> reg_inv (snd (indexes_get path img reg))"
proof -
  assume inv: "reg_inv reg"
  show ?thesis
  proof (cases "ir_images reg img")
    case None
    then show ?thesis using reg_inv_insert_new [OF inv, of img path] by (simp add: indexes_get_def)
  next
    case (Some r)
    show ?thesis
    proof (cases r)
      case (IndexDone i)
      then have "i \<in> ir_alive reg" using reg_invE(1) [OF inv Some] by (simp add: delivers_def)
      then show ?thesis using Some IndexDone inv by (simp add: indexes_get_def)
    next
      case (IndexInProgress inp)
      define inp' where "inp' = (if path \<in> set (ip_paths inp) then inp else inp\<lparr>ip_paths := ip_paths inp @ [path]\<rparr>)"
      have p: "ip_future inp' = ip_future inp" "ip_paths inp' \<noteq> []"
        using reg_invE(1) [OF inv Some] IndexInProgress by (auto simp: inp'_def)
      have r: "snd (indexes_get path img reg) = reg\<lparr>ir_images := (ir_images reg)(img \<mapsto> IndexInProgress inp')\<rparr>"
        using Some IndexInProgress by (simp add: indexes_get_def inp'_def)
      have d: "delivers (reg\<lparr>ir_images := im\<rparr>) = delivers reg" for im by (intro ext) (simp add: delivers_def)
      have "entry_ok (reg\<lparr>ir_images := im\<rparr>) img' r' = entry_ok reg img' r'" for im img' r' by (cases r') (simp_all add: d)
      then show ?thesis unfolding r reg_inv_def
        using inv Some IndexInProgress p reg_invE(1) [OF inv Some] unfolding reg_inv_def by (fastforce split: if_splits)
    qed
  qed
qed

lemma poll_start_frame:
  assumes "poll_start env img inp reg = Ok (res, inp1, reg1)"
  shows "ir_images reg1 = ir_images reg \<and> ir_tasks reg1 = ir_tasks reg \<and> ir_chans reg1 = ir_chans reg \<and>
    ir_alive reg1 = ir_alive reg \<and> ir_next reg \<le> ir_next reg1 \<and> ip_future inp1 = ip_future inp \<and> ip_paths inp1 = ip_paths inp \<and>
    (\<exists>st. res = StateNotReady st)"
  using assms by (auto simp: poll_start_def Let_def split: if_splits option.splits)

lemma index_parse_id: "index_parse parser img data = Ok ix \<Longrightarrow> ix_id ix = img"
  by (auto simp: index_parse_def split: sum.splits)

lemma poll_state_frame:
  assumes "poll_state env st img inp reg = Ok (res, inp1, reg1)"
  shows "ir_images reg1 = ir_images reg \<and> ir_tasks reg1 = ir_tasks reg \<and> ir_chans reg1 = ir_chans reg \<and>
    ir_alive reg1 = ir_alive reg \<and> ir_next reg \<le> ir_next reg1 \<and> ip_future inp1 = ip_future inp \<and> ip_paths inp1 = ip_paths inp \<and>
    (\<forall>ix data. res = StateReady ix data \<longrightarrow> ix_id ix = img)"
proof (cases st)
  case FetchStart
  then show ?thesis using assms poll_start_frame by fastforce
next
  case (FetchFetching addr n)
  have a: "ip_future (index_add_failure t addr inp) = ip_future inp" "ip_paths (index_add_failure t addr inp) = ip_paths inp" for t
    by (simp_all add: index_add_failure_def)
  show ?thesis using assms FetchFetching poll_start_frame [of env img "index_add_failure (fe_now env) addr inp" reg res inp1 reg1] a index_parse_id
    by (auto split: option.splits sum.splits result.splits)
next
  case (FetchWaiting ch t)
  then show ?thesis using assms poll_start_frame [of env img inp reg res inp1 reg1] by (auto split: if_splits)
qed

text \<open>A step that changes what belongs to one task and the entry of its image.\<close>

lemma reg_inv_local:
  assumes inv: "reg_inv reg" and t: "ir_tasks reg i = Some t"
    and same: "\<And>j. j \<noteq> i \<Longrightarrow> ir_tasks reg' j = ir_tasks reg j \<and> ir_chans reg' j = ir_chans reg j \<and> (j \<in> ir_alive reg' \<longleftrightarrow> j \<in> ir_alive reg)"
    and im: "\<And>img. img \<noteq> task_image t \<Longrightarrow> ir_images reg' img = ir_images reg img"
    and nx: "ir_next reg \<le> ir_next reg'"
    and e: "\<And>r. ir_images reg' (task_image t) = Some r \<Longrightarrow> entry_ok reg' (task_image t) r"
    and tk: "\<And>t'. ir_tasks reg' i = Some t' \<Longrightarrow> task_image t' = task_image t \<and> ir_chans reg' i = ChanOpen \<and>
      (\<exists>inp. ir_images reg' (task_image t) = Some (IndexInProgress inp) \<and> ip_future inp = i)"
    and al: "i \<in> ir_alive reg' \<Longrightarrow> \<exists>ix r. ir_chans reg' i = ChanSent ix \<and> ix_id ix = task_image t \<and>
      ir_images reg' (task_image t) = Some r \<and> entry_no r = i"
  shows "reg_inv reg'"
proof -
  obtain inp where ent: "ir_images reg (task_image t) = Some (IndexInProgress inp)" "ip_future inp = i"
    using reg_invE(3) [OF inv t] by blast
  have other: "entry_no r \<noteq> i" if "ir_images reg img = Some r" "img \<noteq> task_image t" for img r
  proof
    assume "entry_no r = i"
    then show False using reg_invE(1) [OF inv that(1)] t that(2) reg_invE(2) [OF inv t] by (cases r) (auto simp: delivers_def)
  qed
  show ?thesis unfolding reg_inv_def
  proof (intro conjI allI impI ballI)
    fix img r assume r: "ir_images reg' img = Some r"
    show "entry_ok reg' img r"
    proof (cases "img = task_image t")
      case False
      then have r0: "ir_images reg img = Some r" using im r by simp
      have "entry_ok reg img r" "entry_no r \<noteq> i" using reg_invE(1) [OF inv r0] other [OF r0 False] by auto
      then show ?thesis using same [of "entry_no r"] by (cases r) (auto simp: delivers_def)
    qed (use e r in simp)
  next
    fix j t' assume j: "ir_tasks reg' j = Some t'"
    show "ir_chans reg' j = ChanOpen" using j tk same reg_invE(2) [OF inv, of j] by (cases "j = i") auto
    show "\<exists>inp. ir_images reg' (task_image t') = Some (IndexInProgress inp) \<and> ip_future inp = j"
    proof (cases "j = i")
      case False
      then obtain inp' where "ir_images reg (task_image t') = Some (IndexInProgress inp')" "ip_future inp' = j"
        using j same reg_invE(3) [OF inv, of j t'] by auto
      then show ?thesis using im [of "task_image t'"] ent False by (cases "task_image t' = task_image t") auto
    qed (use tk j in auto)
  next
    fix j assume j: "j \<in> ir_alive reg'"
    show "\<exists>ix r. ir_chans reg' j = ChanSent ix \<and> ir_images reg' (ix_id ix) = Some r \<and> entry_no r = j"
    proof (cases "j = i")
      case False
      then obtain ix r where 1: "ir_chans reg j = ChanSent ix" "ir_images reg (ix_id ix) = Some r" "entry_no r = j"
        using j same reg_invE(4) [OF inv, of j] by auto
      then have "ix_id ix \<noteq> task_image t" using ent False by auto
      then show ?thesis using 1 same [OF False] im by auto
    qed (use al j in auto)
  next
    fix j assume "j \<ge> ir_next reg'"
    moreover have "i < ir_next reg" using reg_invE(6) [OF inv, of i] t by (metis not_le option.distinct(1))
    ultimately show "ir_chans reg' j = ChanOpen" "ir_tasks reg' j = None"
      using nx same [of j] reg_invE(5, 6) [OF inv, of j] by auto
  qed
qed

lemma reg_inv_read:
  assumes inv: "reg_inv reg" and t: "ir_tasks reg i = Some (TaskReading img)" and f: "pred_option (\<lambda>ix. ix_id ix = img) found"
  shows "reg_inv (read_finished now i found reg)"
proof -
  obtain inp where ent: "ir_images reg img = Some (IndexInProgress inp)" "ip_future inp = i" "ip_paths inp \<noteq> []"
    using reg_invE(3) [OF inv t] reg_invE(1) [OF inv] by fastforce
  have "i \<notin> ir_alive reg" "ir_chans reg i = ChanOpen" using reg_invE(2) [OF inv t] reg_invE(4) [OF inv, of i] by auto
  then show ?thesis
    by (intro reg_inv_local [OF inv t])
      (use t f ent in \<open>auto simp: read_finished_def delivers_def split: option.splits\<close>)
qed

lemma reg_inv_poll:
  assumes inv: "reg_inv reg" and p: "fetch_base_poll env i reg = Ok reg'"
  shows "reg_inv reg'"
proof (cases "\<exists>img dline st. ir_tasks reg i = Some (TaskFetching img dline st)")
  case True
  then obtain img dline st where t: "ir_tasks reg i = Some (TaskFetching img dline st)" by blast
  obtain inp where ent: "ir_images reg img = Some (IndexInProgress inp)" "ip_future inp = i" "ip_paths inp \<noteq> []"
    using reg_invE(3) [OF inv t] reg_invE(1) [OF inv] by fastforce
  obtain res inp1 reg1 where s: "poll_state env st img inp reg = Ok (res, inp1, reg1)"
    using p t ent by (auto simp: fetch_base_poll_def)
  note fr = poll_state_frame [OF s]
  have na: "i \<notin> ir_alive reg" using reg_invE(2) [OF inv t] reg_invE(4) [OF inv, of i] by auto
  show ?thesis
  proof (cases res)
    case (StateReady ix data)
    then have f: "ir_images reg' = (ir_images reg)(img \<mapsto> IndexDone i)" "ir_tasks reg' = (ir_tasks reg)(i := None)"
      "ir_chans reg' = (ir_chans reg)(i := ChanSent ix)" "ir_alive reg' = insert i (ir_alive reg)" "ir_next reg \<le> ir_next reg'" "ix_id ix = img"
      using p fr by (auto simp: fetch_base_poll_def t ent(1) s set_image_def)
    show ?thesis by (rule reg_inv_local [OF inv t]) (auto simp: f delivers_def)
  next
    case (StateNotReady st1)
    have opn: "ir_chans reg i = ChanOpen" by (rule reg_invE(2) [OF inv t])
    show ?thesis
    proof (cases "fe_now env \<ge> dline")
      case True
      have reg': "reg' = set_image img None (reg1\<lparr>ir_chans := (ir_chans reg1)(i := ChanClosed), ir_tasks := (ir_tasks reg1)(i := None),
          ir_fetching := ir_fetching reg1 - 1, ir_failures := ir_failures reg1 + 1\<rparr>)"
        using p unfolding fetch_base_poll_def t ent(1) option.case index_task.case index_ref.case s bind_result.simps prod.case
          StateNotReady state_poll.case if_P [OF True] by simp
      have f: "ir_images reg' = (ir_images reg)(img := None)" "ir_tasks reg' = (ir_tasks reg)(i := None)"
        "ir_chans reg' = (ir_chans reg)(i := ChanClosed)" "ir_alive reg' = ir_alive reg" "ir_next reg \<le> ir_next reg'"
        using fr by (simp_all add: reg' set_image_def)
      show ?thesis by (rule reg_inv_local [OF inv t]) (use na in \<open>auto simp: f delivers_def\<close>)
    next
      case False
      have reg': "reg' = set_image img (Some (IndexInProgress inp1)) (reg1\<lparr>ir_tasks := (ir_tasks reg1)(i \<mapsto> TaskFetching img dline st1)\<rparr>)"
        using p unfolding fetch_base_poll_def t ent(1) option.case index_task.case index_ref.case s bind_result.simps prod.case
          StateNotReady state_poll.case if_not_P [OF False] by simp
      have f: "ir_images reg' = (ir_images reg)(img \<mapsto> IndexInProgress inp1)" "ir_tasks reg' = (ir_tasks reg)(i \<mapsto> TaskFetching img dline st1)"
        "ir_chans reg' = ir_chans reg" "ir_alive reg' = ir_alive reg" "ir_next reg \<le> ir_next reg'" "ip_future inp1 = i" "ip_paths inp1 \<noteq> []"
        using fr ent by (simp_all add: reg' set_image_def)
      show ?thesis by (rule reg_inv_local [OF inv t]) (use na opn in \<open>auto simp: f delivers_def\<close>)
    qed
  qed
next
  case False
  then show ?thesis using p inv by (auto simp: fetch_base_poll_def split: option.splits index_task.splits)
qed

lemma reg_inv_drop:
  assumes inv: "reg_inv reg" and i: "i \<in> ir_alive reg"
    and held: "\<forall>img inp. ir_images reg img = Some (IndexInProgress inp) \<longrightarrow> ip_future inp \<noteq> i"
  shows "reg_inv (inner_drop i (inner_released i reg))"
proof -
  obtain ix r where 1: "ir_chans reg i = ChanSent ix" "ir_images reg (ix_id ix) = Some r" "entry_no r = i"
    using reg_invE(4) [OF inv i] by blast
  then have r: "ir_images reg (ix_id ix) = Some (IndexDone i)" using held by (cases r) auto
  let ?r = "inner_drop i (inner_released i reg)"
  have f: "ir_images ?r = (ir_images reg)(ix_id ix := None)" "ir_tasks ?r = ir_tasks reg" "ir_chans ?r = ir_chans reg"
    "ir_alive ?r = ir_alive reg - {i}" "ir_next ?r = ir_next reg"
    using 1(1) by (simp_all add: inner_drop_def inner_released_def set_image_def)
  have no: "entry_no r' \<noteq> i" if "ir_images reg img = Some r'" "img \<noteq> ix_id ix" for img r'
    using that held reg_invE(1) [OF inv that(1)] 1(1) by (cases r') (auto simp: delivers_def)
  show ?thesis unfolding reg_inv_def
  proof (intro conjI allI impI ballI)
    fix img r' assume e: "ir_images ?r img = Some r'"
    then have "ir_images reg img = Some r'" "img \<noteq> ix_id ix" by (auto simp: f split: if_splits)
    then show "entry_ok ?r img r'" using reg_invE(1) [OF inv] no by (cases r') (force simp: delivers_def f)+
  next
    fix j t assume "ir_tasks ?r j = Some t"
    then show "ir_chans ?r j = ChanOpen" "\<exists>inp. ir_images ?r (task_image t) = Some (IndexInProgress inp) \<and> ip_future inp = j"
      using reg_invE(2, 3) [OF inv, of j t] r by (auto simp: f)
  next
    fix j assume "j \<in> ir_alive ?r"
    then obtain ix' r' where "ir_chans reg j = ChanSent ix'" "ir_images reg (ix_id ix') = Some r'" "entry_no r' = j" "j \<noteq> i"
      using reg_invE(4) [OF inv, of j] by (auto simp: f)
    then show "\<exists>ix r. ir_chans ?r j = ChanSent ix \<and> ir_images ?r (ix_id ix) = Some r \<and> entry_no r = j" using r by (auto simp: f)
  next
    fix j assume "j \<ge> ir_next ?r"
    then show "ir_chans ?r j = ChanOpen" "ir_tasks ?r j = None" using reg_invE(5, 6) [OF inv, of j] by (simp_all add: f)
  qed
qed

lemma reg_inv_step: "index_step reg reg' \<Longrightarrow> reg_inv reg \<Longrightarrow> reg_inv reg'"
  by (induction rule: index_step.induct) (auto intro: reg_inv_get reg_inv_read reg_inv_poll reg_inv_drop)

abbreviation index_run :: "'a index_reg \<Rightarrow> bool" where
  "index_run \<equiv> reachable (\<lambda>reg. reg = indexes_new) index_step"

interpretation index_registry: invariant_system "\<lambda>reg. reg = indexes_new" index_step reg_inv
  by unfold_locales (auto intro: reg_inv_new reg_inv_step)

lemmas index_run_inv = index_registry.reachable_inv
lemmas run_step = reach_step [where init = "\<lambda>reg. reg = indexes_new" and step = index_step]

lemma run_new: "index_run indexes_new"
  by (rule reach_init) simp

lemma poll_start_no_panic: "ip_paths inp \<noteq> [] \<Longrightarrow> poll_start env img inp reg \<noteq> Panic"
  by (auto simp: poll_start_def Let_def split: option.splits)

lemma poll_state_no_panic:
  assumes "ip_paths inp \<noteq> []" "parser_ok env" shows "poll_state env st img inp reg \<noteq> Panic"
proof (cases st)
  case (FetchFetching addr n)
  have "ip_paths (index_add_failure t addr inp) \<noteq> []" for t using assms(1) by (simp add: index_add_failure_def)
  then have "poll_start env img (index_add_failure (fe_now env) addr inp) reg \<noteq> Panic" by (rule poll_start_no_panic)
  then show ?thesis using assms(2) FetchFetching
    by (auto simp: parser_ok_def split: option.splits sum.splits result.splits)
qed (use assms poll_start_no_panic in auto)


text \<open>
  C21. The index that is dropped on another thread: after its last holder has let it go, a new download of
  the image finds that it cannot be upgraded and starts a new task; the destructor then removes the entry of the new task,
  whose first poll reaches code that is marked as unreachable and panics.
\<close>

theorem index_drop_race:
  assumes "index_run reg" "ir_images reg img = Some (IndexDone i)"
  shows "fetch_base_poll env (ir_next reg)
    (read_finished now (ir_next reg) None (inner_drop i (snd (indexes_get path img (inner_released i reg))))) = Panic"
proof -
  have inv: "reg_inv reg" by (rule index_run_inv [OF assms(1)])
  obtain ix where ix: "ir_chans reg i = ChanSent ix" "ix_id ix = img"
    using reg_invE(1) [OF inv assms(2)] by (auto simp: delivers_def)
  show ?thesis using assms(2) ix
    by (simp add: indexes_get_def inner_released_def indexes_insert_new_def spawn_try_read_def inner_drop_def set_image_def
        read_finished_def fetch_base_poll_def)
qed

text \<open>The index that was read from the store stays in the registry for good: no step removes or replaces its entry.\<close>

definition kept_for_good :: "'a index_reg \<Rightarrow> image_id \<Rightarrow> nat \<Rightarrow> bool" where
  "kept_for_good reg img i \<longleftrightarrow>
     (\<exists>inp ix. ir_images reg img = Some (IndexInProgress inp) \<and> ip_future inp = i \<and> ir_chans reg i = ChanSent ix)"

theorem stored_index_never_evicted:
  assumes "index_run reg" "kept_for_good reg img i" "index_step reg reg'"
  shows "kept_for_good reg' img i"
proof -
  have inv: "reg_inv reg" by (rule index_run_inv [OF assms(1)])
  obtain inp ix where k: "ir_images reg img = Some (IndexInProgress inp)" "ip_future inp = i" "ir_chans reg i = ChanSent ix"
    using assms(2) unfolding kept_for_good_def by blast
  have nt: "ir_tasks reg i = None" using reg_invE(2) [OF inv, of i] k(3) by (metis chan_state.distinct(1) not_None_eq)
  have no: "task_image t \<noteq> img" "j \<noteq> i" if "ir_tasks reg j = Some t" for j t
    using reg_invE(3) [OF inv that] k nt that by auto
  from assms(3) show ?thesis
  proof cases
    case (step_get path img')
    show ?thesis
    proof (cases "img' = img")
      case True
      then show ?thesis using k step_get by (auto simp: indexes_get_def kept_for_good_def)
    next
      case False
      then show ?thesis using k step_get
        by (auto simp: indexes_get_def kept_for_good_def indexes_insert_new_def spawn_try_read_def split: option.splits index_ref.splits)
    qed
  next
    case (step_read j img' found now)
    then show ?thesis using k no [of j] by (auto simp: read_finished_def kept_for_good_def split: option.splits)
  next
    case (step_poll env j)
    show ?thesis
    proof (cases "\<exists>img' dline st. ir_tasks reg j = Some (TaskFetching img' dline st)")
      case True
      then obtain img' dline st where t: "ir_tasks reg j = Some (TaskFetching img' dline st)" by blast
      obtain inp' where e: "ir_images reg img' = Some (IndexInProgress inp')" using reg_invE(3) [OF inv t] by auto
      obtain res inp1 reg1 where s: "poll_state env st img' inp' reg = Ok (res, inp1, reg1)"
        using step_poll(2) t e by (auto simp: fetch_base_poll_def)
      have "img' \<noteq> img" "j \<noteq> i" using no [OF t] by auto
      then show ?thesis using step_poll(2) t e s poll_state_frame [OF s] k
        by (auto simp: fetch_base_poll_def kept_for_good_def set_image_def split: state_poll.splits if_splits)
    next
      case False
      then show ?thesis using step_poll(2) assms(2) by (auto simp: fetch_base_poll_def split: option.splits index_task.splits)
    qed
  next
    case (step_drop j)
    then obtain ix' r where j: "ir_chans reg j = ChanSent ix'" "ir_images reg (ix_id ix') = Some r" "entry_no r = j"
      using reg_invE(4) [OF inv] by blast
    have "ix_id ix' \<noteq> img" using j k step_drop(3) by (metis entry_no.simps(2) option.inject)
    then show ?thesis using step_drop(1) j(1) k by (auto simp: inner_drop_def inner_released_def set_image_def kept_for_good_def)
  qed
qed

section \<open>A run\<close>

definition demo_fetch_env :: "nat fetch_env" where
  "demo_fetch_env = \<lparr>fe_now = 0, fe_rnd = \<lambda>n. 0, fe_conn = \<lambda>p f. Some 7, fe_reply = \<lambda>n. Some (Inr []), fe_woken = \<lambda>_. False,
     fe_parser = \<lambda>d. Inr (4, [])\<rparr>"

definition demo_reg :: "nat index_reg" where
  "demo_reg = snd (indexes_get (VPath ''k'' [''a'']) (B32 [1]) indexes_new)"

lemma demo_parser_ok: "parser_ok demo_fetch_env"
  by (simp add: parser_ok_def demo_fetch_env_def index_parse_def)

lemma demo_reg_run: "index_run demo_reg" "ir_next demo_reg = 1" "ir_tasks demo_reg 0 = Some (TaskReading (B32 [1]))"
  unfolding demo_reg_def
  by (rule run_step [OF run_new step_get])
    (simp_all add: indexes_get_def indexes_new_def indexes_insert_new_def spawn_try_read_def)


lemma demo_reg_fetched: "\<exists>reg :: nat index_reg. index_run reg \<and> ir_images reg (B32 [1]) = Some (IndexDone 0)"
proof -
  define r1 where "r1 = read_finished 0 0 None demo_reg"
  have 1: "index_run r1" unfolding r1_def by (rule run_step [OF demo_reg_run(1) step_read [OF demo_reg_run(3)]]) simp
  obtain r2 where 2: "fetch_base_poll demo_fetch_env 0 r1 = Ok r2" "ir_tasks r2 0 = Some (TaskFetching (B32 [1]) RETRY_FOR (FetchFetching 7 0))"
    "\<exists>inp. ir_images r2 (B32 [1]) = Some (IndexInProgress inp)"
    by (simp add: r1_def read_finished_def demo_reg_def indexes_get_def indexes_new_def indexes_insert_new_def spawn_try_read_def
        fetch_base_poll_def demo_fetch_env_def poll_start_def set_image_def RETRY_FOR_def)
  have r2: "index_run r2" by (rule run_step [OF 1 step_poll [OF demo_parser_ok 2(1)]])
  obtain r3 where 3: "fetch_base_poll demo_fetch_env 0 r2 = Ok r3" "ir_images r3 (B32 [1]) = Some (IndexDone 0)"
    using 2(2, 3) by (auto simp: fetch_base_poll_def demo_fetch_env_def index_parse_def set_image_def)
  show ?thesis using run_step [OF r2 step_poll [OF demo_parser_ok 3(1)]] 3(2) by blast
qed

theorem index_drop_race_witness:
  "\<exists>reg :: nat index_reg. fetch_base_poll demo_fetch_env (ir_next reg)
    (read_finished 0 (ir_next reg) None (inner_drop 0 (snd (indexes_get (VPath ''k'' [''a'']) (B32 [1]) (inner_released 0 reg))))) = Panic"
proof -
  obtain reg :: "nat index_reg" where r: "index_run reg" "ir_images reg (B32 [1]) = Some (IndexDone 0)" using demo_reg_fetched by blast
  from index_drop_race [OF r] show ?thesis by blast
qed

end
