(* ===== verification/Download_Run.thy ===== *)
theory Download_Run
  imports Rpc_Safety
begin

text \<open>
  A download from its start to its end (\<^verbatim>\<open>src/daemon/tracking/fetch_dir.rs\<close>), over the metadata store and the tracking
  subsystem. The stages of the chain are asynchronous; their results are given together: the index, the new directory,
  the files that could be linked, the blocks and the final rename. What happens in the daemon at each stage, and which end
  the download takes, is the model.
\<close>

record 'a download_outcome =
  oc_index :: "index option"
  oc_start_image :: bool
  oc_hardlinks :: "string set option"
  oc_shuffle :: "'a slice list \<Rightarrow> 'a slice list"
  oc_blocks :: bool
  oc_commit :: bool

text \<open>The download is shared by the table of downloads and the chain; changes of it are seen in both.\<close>

definition update_download ::
  "('a downloading \<Rightarrow> ('a downloading, unit) result) \<Rightarrow> vpath \<Rightarrow> 'a tracking \<Rightarrow> ('a tracking, unit) result" where
  "update_download f v tr =
     (case map_of (tr_in_progress tr) v of
        None \<Rightarrow> Ok tr
      | Some dw \<Rightarrow> bind_result (f dw) (\<lambda>dw1. Ok (tr\<lparr>tr_in_progress := AList.update v dw1 (tr_in_progress tr)\<rparr>)))"

definition announce_progress :: "vpath \<Rightarrow> image_id \<Rightarrow> 'a tracking \<Rightarrow> ('a tracking, unit) result" where
  "announce_progress v img tr =
     (case map_of (tr_in_progress tr) v of
        None \<Rightarrow> Ok tr
      | Some dw \<Rightarrow> Ok (with_peers (notify_progress v img (atomic_get (dw_mask dw)) (has_image_source img (tr_remote tr))) tr))"

definition download_failed ::
  "('s, 'b, 'm, 'i) meta_env \<Rightarrow> instant \<Rightarrow> 'a downloading \<Rightarrow> string \<Rightarrow> (('s, 'a) daemon, unit, meta_error) io" where
  "download_failed env now cmd reason =
     bind_io (on_meta (dir_aborted env (dw_virtual_path cmd))) (\<lambda>_. on_tracking (tracking_dir_aborted now cmd reason))"

definition fetch_blocks_stage ::
  "('s, 'b, 'm, 'i) meta_env \<Rightarrow> instant \<Rightarrow> 'a downloading \<Rightarrow> 'a download_outcome \<Rightarrow> (('s, 'a) daemon, unit, meta_error) io" where
  "fetch_blocks_stage env now cmd oc =
     (if \<not> oc_blocks oc then download_failed env now cmd ''cluster_abort_no_file_source''
      else if \<not> oc_commit oc then download_failed env now cmd ''commit_error''
      else bind_io (on_meta (dir_committed env (dw_virtual_path cmd))) (\<lambda>_. on_tracking (tracking_dir_committed now cmd)))"

definition hardlink_blocks ::
  "('s, 'b, 'm, 'i) meta_env \<Rightarrow> instant \<Rightarrow> index \<Rightarrow> 'a downloading \<Rightarrow> 'a download_outcome \<Rightarrow> (('s, 'a) daemon, unit, meta_error) io" where
  "hardlink_blocks env now ix cmd oc =
     (case oc_hardlinks oc of
        None \<Rightarrow> download_failed env now cmd ''internal_error_when_hardlinking''
      | Some paths \<Rightarrow>
          bind_io (on_tracking (update_download (fill_blocks (oc_shuffle oc) ix paths) (dw_virtual_path cmd))) (\<lambda>_.
            fetch_blocks_stage env now cmd oc))"

definition download_chain ::
  "('s, 'b, 'm, 'i) meta_env \<Rightarrow> instant \<Rightarrow> 'a downloading \<Rightarrow> 'a download_outcome \<Rightarrow> (('s, 'a) daemon, unit, meta_error) io" where
  "download_chain env now cmd oc =
     (case oc_index oc of
        None \<Rightarrow> download_failed env now cmd ''cant_fetch_index''
      | Some ix \<Rightarrow>
          if \<not> oc_start_image oc then download_failed env now cmd ''cant_create_directory''
          else
            bind_io (on_tracking (update_download (\<lambda>dw. Ok (index_fetched ix dw)) (dw_virtual_path cmd))) (\<lambda>_.
            bind_io (on_tracking (announce_progress (dw_virtual_path cmd) (dw_image_id cmd))) (\<lambda>_.
              hardlink_blocks env now ix cmd oc)))"

definition fetch_dir_run ::
  "('s, 'b, 'm, 'i) meta_env \<Rightarrow> instant \<Rightarrow> 'a downloading \<Rightarrow> 'a download_outcome \<Rightarrow> (('s, 'a) daemon, unit, meta_error) io" where
  "fetch_dir_run env now cmd oc =
     bind_io (on_tracking (fetch_dir_start now cmd)) (\<lambda>_. download_chain env now cmd oc)"

text \<open>A download succeeds when every stage does.\<close>

definition all_stages :: "'a download_outcome \<Rightarrow> bool" where
  "all_stages oc \<longleftrightarrow> oc_index oc \<noteq> None \<and> oc_start_image oc \<and> oc_hardlinks oc \<noteq> None \<and> oc_blocks oc \<and> oc_commit oc"

section \<open>The two ends\<close>

lemma on_meta_Ok: "on_meta m d = (Ok x, d') \<longleftrightarrow> (\<exists>s. m (da_meta d) = (Ok x, s) \<and> d' = d\<lparr>da_meta := s\<rparr>)"
  by (auto simp: on_meta_def split: prod.splits)

lemma on_tracking_Ok: "on_tracking f d = (Ok (), d') \<longleftrightarrow> (\<exists>tr. f (da_tracking d) = Ok tr \<and> d' = d\<lparr>da_tracking := tr\<rparr>)"
  by (auto simp: on_tracking_def split: result.splits)

lemma download_failed_ok:
  assumes "download_failed env now cmd reason d = (Ok (), d')"
  obtains s tr where "dir_aborted env (dw_virtual_path cmd) (da_meta d) = (Ok (), s)"
    "tracking_dir_aborted now cmd reason (da_tracking d) = Ok tr" "d' = \<lparr>da_meta = s, da_tracking = tr\<rparr>"
  using assms that unfolding download_failed_def bind_io_Ok_iff on_meta_Ok on_tracking_Ok by (cases d) fastforce

text \<open>Changes of the tracking subsystem before the end leave the keys of the table and the other downloads alone.\<close>

definition only_progress :: "vpath \<Rightarrow> 'a tracking \<Rightarrow> 'a tracking \<Rightarrow> bool" where
  "only_progress v tr tr' \<longleftrightarrow> (\<forall>q. q \<noteq> v \<longrightarrow> map_of (tr_in_progress tr') q = map_of (tr_in_progress tr) q)"

lemma update_download_only: "update_download f v tr = Ok tr' \<Longrightarrow> only_progress v tr tr'"
  by (auto simp: update_download_def only_progress_def update_conv split: option.splits)

lemma announce_only: "announce_progress v img tr = Ok tr' \<Longrightarrow> only_progress v tr tr'"
  by (auto simp: announce_progress_def only_progress_def with_peers_def split: option.splits)

lemma only_progress_trans: "only_progress v a b \<Longrightarrow> only_progress v b c \<Longrightarrow> only_progress v a c"
  by (simp add: only_progress_def)

text \<open>Every successful run of the chain ends in one of two ways.\<close>

definition download_ended ::
  "('s, 'b, 'm, 'i) meta_env \<Rightarrow> instant \<Rightarrow> 'a downloading \<Rightarrow> bool \<Rightarrow> 's meta \<Rightarrow> 'a tracking \<Rightarrow> ('s, 'a) daemon \<Rightarrow> bool" where
  "download_ended env now cmd good s tr d' \<longleftrightarrow>
     (if good
      then (\<exists>s' tr'. dir_committed env (dw_virtual_path cmd) s = (Ok (), s') \<and> tracking_dir_committed now cmd tr = Ok tr' \<and>
              d' = \<lparr>da_meta = s', da_tracking = tr'\<rparr>)
      else (\<exists>s' tr' reason. dir_aborted env (dw_virtual_path cmd) s = (Ok (), s') \<and> tracking_dir_aborted now cmd reason tr = Ok tr' \<and>
              d' = \<lparr>da_meta = s', da_tracking = tr'\<rparr>))"

lemma failed_ended: "download_failed env now cmd reason d = (Ok (), d') \<Longrightarrow> download_ended env now cmd False (da_meta d) (da_tracking d) d'"
  by (auto simp: download_ended_def elim!: download_failed_ok)

lemma download_chain_ends:
  assumes "download_chain env now cmd oc d = (Ok (), d')"
  shows "\<exists>tr. only_progress (dw_virtual_path cmd) (da_tracking d) tr \<and>
    download_ended env now cmd (all_stages oc) (da_meta d) tr d'"
proof (cases "oc_index oc = None \<or> \<not> oc_start_image oc")
  case True
  then obtain reason where "download_failed env now cmd reason d = (Ok (), d')"
    using assms by (auto simp: download_chain_def split: option.splits)
  then show ?thesis using True
    by (intro exI [of _ "da_tracking d"]) (auto simp: all_stages_def only_progress_def dest: failed_ended)
next
  case False
  then obtain ix where ix: "oc_index oc = Some ix" "oc_start_image oc" by auto
  obtain d1 d2 where d1: "on_tracking (update_download (\<lambda>dw. Ok (index_fetched ix dw)) (dw_virtual_path cmd)) d = (Ok () :: (unit, meta_error) result, d1)"
    and d2: "on_tracking (announce_progress (dw_virtual_path cmd) (dw_image_id cmd)) d1 = (Ok () :: (unit, meta_error) result, d2)"
    and h: "hardlink_blocks env now ix cmd oc d2 = (Ok (), d')"
    using assms ix by (auto simp: download_chain_def bind_io_Ok_iff)
  have m2: "da_meta d2 = da_meta d" and o2: "only_progress (dw_virtual_path cmd) (da_tracking d) (da_tracking d2)"
    using d1 d2 only_progress_trans [OF update_download_only announce_only] by (auto simp: on_tracking_Ok)
  show ?thesis
  proof (cases "oc_hardlinks oc")
    case None
    then have "download_failed env now cmd ''internal_error_when_hardlinking'' d2 = (Ok (), d')" using h by (simp add: hardlink_blocks_def)
    then show ?thesis using None m2 o2
      by (intro exI [of _ "da_tracking d2"]) (auto simp: all_stages_def dest: failed_ended)
  next
    case (Some paths)
    obtain d3 where d3: "on_tracking (update_download (fill_blocks (oc_shuffle oc) ix paths) (dw_virtual_path cmd)) d2 = (Ok () :: (unit, meta_error) result, d3)"
      and f: "fetch_blocks_stage env now cmd oc d3 = (Ok (), d')"
      using h Some by (auto simp: hardlink_blocks_def bind_io_Ok_iff)
    have m3: "da_meta d3 = da_meta d" and o3: "only_progress (dw_virtual_path cmd) (da_tracking d) (da_tracking d3)"
      using d3 m2 only_progress_trans [OF o2 update_download_only] by (auto simp: on_tracking_Ok)
    show ?thesis
    proof (cases "oc_blocks oc \<and> oc_commit oc")
      case True
      obtain s tr where "dir_committed env (dw_virtual_path cmd) (da_meta d3) = (Ok (), s)"
        "tracking_dir_committed now cmd (da_tracking d3) = Ok tr" "d' = \<lparr>da_meta = s, da_tracking = tr\<rparr>"
        using f True unfolding fetch_blocks_stage_def by (cases d3) (auto simp: bind_io_Ok_iff on_meta_Ok on_tracking_Ok)
      then show ?thesis using True ix Some m3 o3
        by (intro exI [of _ "da_tracking d3"]) (auto simp: all_stages_def download_ended_def)
    next
      case False
      then obtain reason where "download_failed env now cmd reason d3 = (Ok (), d')"
        using f by (auto simp: fetch_blocks_stage_def split: if_splits)
      then show ?thesis using False m3 o3
        by (intro exI [of _ "da_tracking d3"]) (auto simp: all_stages_def dest: failed_ended)
    qed
  qed
qed

lemma keeps_writing_lift: "keeps (\<lambda>s. mt_writing s = w) (lift_fs m)"
  by (auto simp: keeps_def lift_fs_def split: prod.splits)

lemma ends_clear_writing:
  "dir_committed env v s = (r, t) \<Longrightarrow> mt_writing t v = None" "dir_aborted env v s = (r, t) \<Longrightarrow> mt_writing t v = None"
proof -
  have k: "keeps (\<lambda>s. mt_writing s = w) (commit_dir env v)" "keeps (\<lambda>s. mt_writing s = w) (abort_dir env v)" for w
    unfolding commit_dir_def abort_dir_def image_dir_def meta_signatures_def by (intro keeps_rules keeps_writing_lift)+
  show "mt_writing t v = None" if "dir_committed env v s = (r, t)"
  proof -
    have "mt_writing t = (mt_writing s)(v := None)" if "commit_dir env v (s\<lparr>mt_writing := (mt_writing s)(v := None)\<rparr>) = (x, t)" for x
      using keepsD [OF k(1) _ that] by simp
    then show ?thesis using dir_committed_run [OF that] by auto
  qed
  show "mt_writing t v = None" if "dir_aborted env v s = (r, t)"
  proof -
    have "mt_writing t = (mt_writing s)(v := None)" if "abort_dir env v (s\<lparr>mt_writing := (mt_writing s)(v := None)\<rparr>) = (x, t)" for x
      using keepsD [OF k(2) _ that] by simp
    then show ?thesis using dir_aborted_run [OF that] by auto
  qed
qed

section \<open>The chain reaches its end\<close>

definition calm :: "('s, 'x, 'e) io \<Rightarrow> bool" where
  "calm m \<longleftrightarrow> (\<forall>s. fst (m s) \<noteq> Panic)"

named_theorems calm_rules \<open>operations that do not panic\<close>

lemma calm_bind [calm_rules]: "calm m \<Longrightarrow> (\<And>x. calm (f x)) \<Longrightarrow> calm (bind_io m f)"
  by (auto simp: calm_def bind_io_def split: prod.splits result.splits) (metis fst_conv)+

lemma calm_ret [calm_rules]: "r \<noteq> Panic \<Longrightarrow> calm (ret r)"
  by (simp add: calm_def ret_def)

lemma calm_Pair [calm_rules]: "r \<noteq> Panic \<Longrightarrow> calm (Pair r)"
  by (simp add: calm_def)

lemma calm_lift [calm_rules]: "calm m \<Longrightarrow> calm (lift_fs m)"
  by (simp add: calm_def lift_fs_def split: prod.splits) (metis fst_conv)

lemma calm_sub_dir_or [calm_rules]: "calm (sub_dir_or oa d n err)"
  by (simp add: calm_def sub_dir_or_def split: option.splits)

lemma calm_create_component [calm_rules]: "calm (create_component oa d n)"
  by (auto simp: calm_def sub_dir_or_def create_component_def split: option.splits io_kind.splits prod.splits)

lemma calm_ensure_dir [calm_rules]: "calm (ensure_dir oa d cs)"
proof (induction cs arbitrary: d)
  case (Cons c cs)
  then show ?case by (cases c) (auto intro!: calm_rules)
qed (simp add: calm_rules)

lemma calm_file_ops [calm_rules]: "calm (remove_file oa d n)" "calm (dir_rename oa d n m)"
  by (auto simp: calm_def remove_file_def dir_rename_def split: option.splits io_kind.splits prod.splits)

lemma calm_logged: "calm m \<Longrightarrow> \<exists>t. logged m s = (Ok (), t)"
  by (auto simp: calm_def logged_def split: prod.splits result.splits dest: spec [of _ s])

lemma calm_ends: "vp_parent v \<noteq> None \<Longrightarrow> calm (commit_dir env v)" "vp_parent v \<noteq> None \<Longrightarrow> calm (abort_dir env v)"
  unfolding commit_dir_def abort_dir_def image_dir_def meta_signatures_def
  by (auto simp: vp_parent_def vp_parent_rel_def vp_final_name_def intro!: calm_rules split: if_splits)

lemma meta_ends_ok:
  assumes "vp_parent v \<noteq> None"
  shows "\<exists>t. dir_committed env v s = (Ok (), t)" "\<exists>t. dir_aborted env v s = (Ok (), t)"
  using calm_logged [OF calm_ends(1) [OF assms], of env "s\<lparr>mt_writing := (mt_writing s)(v := None)\<rparr>"]
    calm_logged [OF calm_ends(2) [OF assms], of env "s\<lparr>mt_writing := (mt_writing s)(v := None)\<rparr>"]
  by (simp_all add: dir_committed_def dir_aborted_def bind_io_def get_writing_def del_writing_def ret_def split: option.splits)

lemma tracking_ends_ok:
  assumes "vp_parent (dw_virtual_path cmd) \<noteq> None"
  shows "\<exists>tr'. tracking_dir_committed now cmd tr = Ok tr'" "\<exists>tr'. tracking_dir_aborted now cmd reason tr = Ok tr'"
    "\<exists>tr'. fetch_dir_start now cmd tr = Ok tr'"
  using assms by (auto simp: tracking_dir_committed_def tracking_dir_aborted_def fetch_dir_start_def Let_def)

text \<open>The index and the files that are linked give the blocks to fetch.\<close>

definition index_usable :: "'a download_outcome \<Rightarrow> bool" where
  "index_usable oc =
     (case (oc_index oc, oc_hardlinks oc) of
        (Some ix, Some paths) \<Rightarrow> is_ok (index_blocks (ix_block_size ix) paths (ix_entries ix))
      | _ \<Rightarrow> True)"

lemma is_ok_iff: "is_ok r \<longleftrightarrow> (\<exists>x. r = Ok x)"
  by (cases r) simp_all

lemma update_download_ok: "(\<And>dw. is_ok (f dw)) \<Longrightarrow> \<exists>tr'. update_download f v tr = Ok tr'"
  by (auto simp: update_download_def is_ok_iff split: option.splits)

lemma announce_ok: "\<exists>tr'. announce_progress v img tr = Ok tr'"
  by (simp add: announce_progress_def split: option.splits)

lemma fill_blocks_ok:
  fixes dw :: "'a downloading"
  assumes "index_blocks (ix_block_size ix) paths (ix_entries ix) = Ok bs"
  shows "is_ok (fill_blocks shuffle ix paths dw)"
  using assms add_chunks_ok [of "[] :: 'a slice list" 0 mask_full "chunks 100 bs"]
  by (auto simp: fill_blocks_def slots_ok_def)

lemma download_failed_runs: "vp_parent (dw_virtual_path cmd) \<noteq> None \<Longrightarrow> \<exists>d'. download_failed env now cmd reason d = (Ok (), d')"
  using meta_ends_ok(2) [of "dw_virtual_path cmd" env "da_meta d"] tracking_ends_ok(2) [of cmd now reason]
  by (auto simp: download_failed_def bind_io_Ok_iff on_meta_Ok on_tracking_Ok)

lemma fetch_blocks_stage_runs: "vp_parent (dw_virtual_path cmd) \<noteq> None \<Longrightarrow> \<exists>d'. fetch_blocks_stage env now cmd oc d = (Ok (), d')"
  using meta_ends_ok(1) [of "dw_virtual_path cmd" env "da_meta d"] tracking_ends_ok(1) [of cmd now]
    download_failed_runs [of cmd env now _ d]
  by (auto simp: fetch_blocks_stage_def bind_io_Ok_iff on_meta_Ok on_tracking_Ok)

lemma on_tracking_runs: "\<exists>tr. f (da_tracking d) = Ok tr \<Longrightarrow> \<exists>d1. on_tracking f d = (Ok (), d1)"
  by (auto simp: on_tracking_def)

lemma bind_io_runs: "\<exists>d1. m d = (Ok (), d1) \<Longrightarrow> (\<And>d1. \<exists>d2. f () d1 = (Ok (), d2)) \<Longrightarrow> \<exists>d2. bind_io m f d = (Ok (), d2)"
  by (auto simp: bind_io_Ok_iff)

lemma hardlink_blocks_runs:
  assumes "vp_parent (dw_virtual_path cmd) \<noteq> None" and "index_usable oc" "oc_index oc = Some ix"
  shows "\<exists>d'. hardlink_blocks env now ix cmd oc d = (Ok (), d')"
proof (cases "oc_hardlinks oc")
  case None
  then show ?thesis using download_failed_runs [OF assms(1)] by (simp add: hardlink_blocks_def)
next
  case (Some paths)
  then obtain bs where "index_blocks (ix_block_size ix) paths (ix_entries ix) = Ok bs"
    using assms(2,3) by (auto simp: index_usable_def is_ok_iff)
  from fill_blocks_ok [OF this] show ?thesis unfolding hardlink_blocks_def
    by (auto simp: Some intro!: bind_io_runs on_tracking_runs update_download_ok fetch_blocks_stage_runs assms(1))
qed

lemma fetch_dir_run_runs:
  assumes "vp_parent (dw_virtual_path cmd) \<noteq> None" and "index_usable oc"
  shows "\<exists>d'. fetch_dir_run env now cmd oc d = (Ok (), d')"
  unfolding fetch_dir_run_def download_chain_def
  by (auto intro!: bind_io_runs on_tracking_runs update_download_ok announce_ok hardlink_blocks_runs tracking_ends_ok
      download_failed_runs assms split: option.splits)

section \<open>What a download leaves\<close>

lemma committed_tracking:
  assumes "tracking_dir_committed now cmd tr = Ok tr'"
  shows "tr_in_progress tr' = AList.delete (dw_virtual_path cmd) (tr_in_progress tr)"
    "map_of (tr_watched tr') (dw_virtual_path cmd) = Some (CompleteStatus (dw_image_id cmd))"
  using assms
  by (auto simp: tracking_dir_committed_def Let_def rescan_dir_def with_peers_def with_remote_def update_base_dir_def update_conv
      split: if_splits option.splits)

lemma aborted_tracking:
  assumes "tracking_dir_aborted now cmd reason tr = Ok tr'"
  shows "tr_in_progress tr' = AList.delete (dw_virtual_path cmd) (tr_in_progress tr)"
    "tr_recently_deleted tr' (dw_virtual_path cmd, dw_image_id cmd) = Some now"
  using assms
  by (auto simp: tracking_dir_aborted_def tracking_dir_deleted_def Let_def rescan_dir_def with_peers_def with_remote_def
      update_base_dir_def split: if_splits option.splits)

lemma started_tracking:
  assumes "fetch_dir_start now cmd tr = Ok tr'"
  shows "only_progress (dw_virtual_path cmd) tr tr'"
  using assms
  by (auto simp: fetch_dir_start_def only_progress_def Let_def rescan_dir_def with_peers_def update_base_dir_def update_conv
      split: if_splits option.splits)

lemma fetch_dir_run_ends:
  assumes "fetch_dir_run env now cmd oc d = (Ok (), d')"
  shows "\<exists>tr. only_progress (dw_virtual_path cmd) (da_tracking d) tr \<and>
    download_ended env now cmd (all_stages oc) (da_meta d) tr d'"
proof -
  obtain tr1 where tr1: "fetch_dir_start now cmd (da_tracking d) = Ok tr1"
    and run: "download_chain env now cmd oc (d\<lparr>da_tracking := tr1\<rparr>) = (Ok (), d')"
    using assms by (auto simp: fetch_dir_run_def bind_io_Ok_iff on_tracking_Ok)
  obtain tr where "only_progress (dw_virtual_path cmd) tr1 tr"
    and e: "download_ended env now cmd (all_stages oc) (da_meta d) tr d'"
    using download_chain_ends [OF run] by auto
  then have "only_progress (dw_virtual_path cmd) (da_tracking d) tr" by (blast intro: only_progress_trans started_tracking tr1)
  with e show ?thesis by blast
qed

lemma map_of_delete: "map_of (AList.delete k xs) = (map_of xs)(k := None)"
  by (simp add: AList.delete_conv')

text \<open>
  C7. A download comes to one end. For a path below a base directory and an index whose blocks can be listed, the chain of
  stages runs to its end whatever stage fails; then the path is in the table of downloads no more, nor is it marked as
  written, and no other download has changed. If every stage has succeeded the image is shown as complete; otherwise it
  is remembered as just deleted, so that it is not fetched again at once.
\<close>

theorem download_comes_to_end:
  assumes "vp_parent (dw_virtual_path cmd) \<noteq> None" and "index_usable oc"
  shows "\<exists>d'. fetch_dir_run env now cmd oc d = (Ok (), d') \<and>
    map_of (tr_in_progress (da_tracking d')) = (map_of (tr_in_progress (da_tracking d)))(dw_virtual_path cmd := None) \<and>
    mt_writing (da_meta d') (dw_virtual_path cmd) = None \<and>
    (if all_stages oc
     then map_of (tr_watched (da_tracking d')) (dw_virtual_path cmd) = Some (CompleteStatus (dw_image_id cmd))
     else is_recently_deleted now (dw_virtual_path cmd) (dw_image_id cmd) (da_tracking d'))"
proof -
  obtain d' where d': "fetch_dir_run env now cmd oc d = (Ok (), d')" using fetch_dir_run_runs [OF assms] by blast
  obtain tr where o: "only_progress (dw_virtual_path cmd) (da_tracking d) tr"
    and e: "download_ended env now cmd (all_stages oc) (da_meta d) tr d'"
    using fetch_dir_run_ends [OF d'] by blast
  have "(map_of (tr_in_progress tr))(dw_virtual_path cmd := None) = (map_of (tr_in_progress (da_tracking d)))(dw_virtual_path cmd := None)"
    using o by (auto simp: only_progress_def)
  then have "map_of (AList.delete (dw_virtual_path cmd) (tr_in_progress tr)) = (map_of (tr_in_progress (da_tracking d)))(dw_virtual_path cmd := None)"
    by (simp add: map_of_delete)
  with d' e show ?thesis
    by (intro exI [of _ d'] conjI)
      (auto simp: download_ended_def committed_tracking aborted_tracking ends_clear_writing is_recently_deleted_def split: if_splits)
qed

definition demo_outcome :: "nat download_outcome" where
  "demo_outcome = \<lparr>oc_index = Some demo_index, oc_start_image = True, oc_hardlinks = Some {}, oc_shuffle = (\<lambda>xs. xs),
     oc_blocks = True, oc_commit = True\<rparr>"

lemma demo_outcome_usable: "index_usable demo_outcome" "index_usable (demo_outcome\<lparr>oc_blocks := False\<rparr>)"
  by (simp_all add: index_usable_def demo_outcome_def demo_index_def block_from_bytes_def)

definition demo_uploading_daemon :: "(demo_file mem_fs, nat) daemon" where
  "demo_uploading_daemon = demo_daemon\<lparr>da_meta := demo_uploading (Other [1])\<rparr>"

theorem download_comes_to_end_witness:
  "\<exists>d1 d2. fetch_dir_run (demo_env True) 7 demo_download demo_outcome demo_uploading_daemon = (Ok (), d1) \<and>
     fetch_dir_run (demo_env True) 7 demo_download (demo_outcome\<lparr>oc_blocks := False\<rparr>) demo_uploading_daemon = (Ok (), d2) \<and>
     mt_writing (da_meta demo_uploading_daemon) (VPath ''k'' [''a'']) \<noteq> None \<and>
     mt_writing (da_meta d1) (VPath ''k'' [''a'']) = None \<and> mt_writing (da_meta d2) (VPath ''k'' [''a'']) = None \<and>
     map_of (tr_watched (da_tracking d1)) (VPath ''k'' [''a'']) = Some (CompleteStatus (Other [1])) \<and>
     is_recently_deleted 7 (VPath ''k'' [''a'']) (Other [1]) (da_tracking d2)"
proof -
  have cmd: "dw_virtual_path demo_download = VPath ''k'' [''a'']" "dw_image_id demo_download = Other [1]"
    by (simp_all add: demo_download_def)
  have par: "vp_parent (dw_virtual_path demo_download) \<noteq> None" by (simp add: cmd vp_parent_def)
  have w: "mt_writing (da_meta demo_uploading_daemon) (VPath ''k'' [''a'']) \<noteq> None"
    by (simp add: demo_uploading_daemon_def demo_uploading_def)
  have "all_stages demo_outcome" "\<not> all_stages (demo_outcome\<lparr>oc_blocks := False\<rparr>)" by (simp_all add: all_stages_def demo_outcome_def)
  with download_comes_to_end [OF par demo_outcome_usable(1), of "demo_env True" 7 demo_uploading_daemon]
    download_comes_to_end [OF par demo_outcome_usable(2), of "demo_env True" 7 demo_uploading_daemon] w
  show ?thesis unfolding cmd by auto
qed



end
