(* ===== verification/Cleanup_Run.thy ===== *)
theory Cleanup_Run
  imports Rpc_Safety
begin

text \<open>
  The cleanup of a base directory (\<^verbatim>\<open>src/daemon/tracking/cleanup.rs\<close>): scan its images, ask the policy of
  \<^verbatim>\<open>cleanup/calc.rs\<close> which are unused, and remove each of them, its state file first and then its files. Whether
  the disk can remove an image is a parameter; the images whose removal was tried are recorded. The times at which
  the command starts, the policy is asked and a deletion is recorded are arguments.
\<close>

datatype clean_error = CleanMeta meta_error | CleanKeepList string | CleanDisk

record ('s, 'a) cleaner =
  cl_daemon :: "('s, 'a) daemon"
  cl_removed :: "rel_path list"

text \<open>\<^verbatim>\<open>map_err(boxerr)\<close>.\<close>

definition on_daemon :: "(('s, 'a) daemon, 'x, meta_error) io \<Rightarrow> (('s, 'a) cleaner, 'x, clean_error) io" where
  "on_daemon m = (\<lambda>c. case m (cl_daemon c) of
      (Ok x, d) \<Rightarrow> (Ok x, c\<lparr>cl_daemon := d\<rparr>)
    | (Err e, d) \<Rightarrow> (Err (CleanMeta e), c\<lparr>cl_daemon := d\<rparr>)
    | (Panic, d) \<Rightarrow> (Panic, c\<lparr>cl_daemon := d\<rparr>))"

definition remove_image :: "(rel_path \<Rightarrow> bool) \<Rightarrow> rel_path \<Rightarrow> (('s, 'a) cleaner, unit, clean_error) io" where
  "remove_image disk p = (\<lambda>c. (if disk p then Ok () else Err CleanDisk, c\<lparr>cl_removed := cl_removed c @ [p]\<rparr>))"

definition find_unused ::
  "directory \<Rightarrow> system_time \<Rightarrow> vpath \<Rightarrow> (string \<rightharpoonup> state) \<Rightarrow> rel_path list \<Rightarrow> (rel_path \<times> state) list" where
  "find_unused cfg now base found keep_list = so_unused (sort_out cfg now (dir_images base (btree_entries found)) keep_list)"

definition clean_one ::
  "('s, 'b, 'm, 'i) rpc_env \<Rightarrow> instant \<Rightarrow> system_time \<Rightarrow> (rel_path \<Rightarrow> bool) \<Rightarrow> vpath \<Rightarrow> rel_path \<times> state \<Rightarrow>
     (('s, 'a) cleaner, unit, clean_error) io" where
  "clean_one env now time disk base = (\<lambda>(p, st).
     bind_io (ret (expect (vp_join base (last p)))) (\<lambda>v.
     bind_io (on_daemon (on_tracking (\<lambda>tr. Ok (tracking_dir_deleted now v (st_image st) tr)))) (\<lambda>_.
     bind_io (on_daemon (on_meta (remove_state_file (re_meta env) v time))) (\<lambda>_.
       remove_image disk p))))"

definition clean_scanned ::
  "('s, 'b, 'm, 'i) rpc_env \<Rightarrow> instant \<Rightarrow> system_time \<Rightarrow> system_time \<Rightarrow> (rel_path \<Rightarrow> bool) \<Rightarrow> base_dir \<Rightarrow>
     (string \<rightharpoonup> state) \<Rightarrow> (('s, 'a) cleaner, unit, clean_error) io" where
  "clean_scanned env now time at disk dir found =
     (case read_keep_list env (bdir_config dir) of
        Ok kl \<Rightarrow> for_io (find_unused (bdir_config dir) at (bdir_path dir) found kl) (clean_one env now time disk (bdir_path dir))
      | Err e \<Rightarrow> ret (Err (CleanKeepList e))
      | Panic \<Rightarrow> ret Panic)"

text \<open>An error is logged; the directory is scanned again only after a complete run.\<close>

definition clean_base ::
  "('s, 'b, 'm, 'i) rpc_env \<Rightarrow> instant \<Rightarrow> system_time \<Rightarrow> system_time \<Rightarrow> (rel_path \<Rightarrow> bool) \<Rightarrow> base_dir \<Rightarrow>
     (('s, 'a) cleaner, unit, clean_error) io" where
  "clean_base env now time at disk dir = (\<lambda>c.
     case bind_io (on_daemon (on_meta (meta_scan_dir (re_meta env) (bdir_path dir)))) (clean_scanned env now time at disk dir) c of
       (Ok _, t) \<Rightarrow> (Ok (), t\<lparr>cl_daemon := (cl_daemon t)\<lparr>da_tracking := rescan_dir now (bdir_path dir) (da_tracking (cl_daemon t))\<rparr>\<rparr>)
     | (Err e, t) \<Rightarrow> (Ok (), t)
     | (Panic, t) \<Rightarrow> (Panic, t))"

text \<open>One command of the cleanup queue.\<close>

definition cleanup_command_run ::
  "('s, 'b, 'm, 'i) rpc_env \<Rightarrow> instant \<Rightarrow> system_time \<Rightarrow> system_time \<Rightarrow> (rel_path \<Rightarrow> bool) \<Rightarrow> cleanup_command \<Rightarrow>
     (('s, 'a) cleaner, unit, clean_error) io" where
  "cleanup_command_run env now time at disk cmd = (case cmd of
      CleanBase p \<Rightarrow> (\<lambda>c. case map_of (tr_base_dirs (da_tracking (cl_daemon c))) p of
          Some dir \<Rightarrow> clean_base env now time at disk dir c
        | None \<Rightarrow> (Ok (), c))
    | CleanReschedule \<Rightarrow> on_daemon (on_tracking (\<lambda>tr. Ok (cleanup_reschedule time tr)))
    | CleanIndexGc \<Rightarrow> (\<lambda>c. case index_gc (re_meta env) (da_meta (cl_daemon c)) of
          (Panic, s) \<Rightarrow> (Panic, c\<lparr>cl_daemon := (cl_daemon c)\<lparr>da_meta := s\<rparr>\<rparr>)
        | (_, s) \<Rightarrow> (Ok (), c\<lparr>cl_daemon := \<lparr>da_meta = s, da_tracking = cleanup_index_gc_done at (da_tracking (cl_daemon c))\<rparr>\<rparr>)))"

section \<open>One image\<close>

abbreviation cl_meta :: "('s, 'a) cleaner \<Rightarrow> 's meta" where
  "cl_meta c \<equiv> da_meta (cl_daemon c)"

lemma on_daemon_eq: "on_daemon m c = (r, c') \<longleftrightarrow> (\<exists>x d. m (cl_daemon c) = (x, d) \<and> c' = c\<lparr>cl_daemon := d\<rparr> \<and>
    r = (case x of Ok y \<Rightarrow> Ok y | Err e \<Rightarrow> Err (CleanMeta e) | Panic \<Rightarrow> Panic))"
  by (auto simp: on_daemon_def split: prod.splits result.splits)

text \<open>What the removal of images may change: the state file of a path that is not being uploaded.\<close>

definition free_state_of :: "vpath \<Rightarrow> (rel_path \<times> state) list \<Rightarrow> 's meta \<Rightarrow> dpath \<Rightarrow> string \<Rightarrow> bool" where
  "free_state_of base us s d n \<longleftrightarrow>
     (\<exists>p st v. (p, st) \<in> set us \<and> vp_join base (last p) = Some v \<and> mt_writing s v = None \<and> d = state_dir v \<and> n = state_file (vp_name v))"

definition cleans ::
  "('s, 'b, 'm, 'i) meta_env \<Rightarrow> vpath \<Rightarrow> (rel_path \<times> state) list \<Rightarrow> 's meta \<Rightarrow> 's meta \<Rightarrow> bool" where
  "cleans env base us s t \<longleftrightarrow> mt_writing t = mt_writing s \<and>
     (\<forall>d n. slot_at env t d n = slot_at env s d n \<or> slot_at env t d n = Some None \<and> free_state_of base us s d n)"

lemma free_state_of_append: "free_state_of base (us @ us') s d n \<longleftrightarrow> free_state_of base us s d n \<or> free_state_of base us' s d n"
  by (auto simp: free_state_of_def)

lemma free_state_of_writing: "mt_writing t = mt_writing s \<Longrightarrow> free_state_of base us t = free_state_of base us s"
  by (intro ext) (simp add: free_state_of_def)

lemma cleans_refl: "cleans env base us s s"
  by (simp add: cleans_def)

lemma cleans_trans:
  assumes "cleans env base us s t" "cleans env base us' t u"
  shows "cleans env base (us @ us') s u"
proof -
  have w: "mt_writing t = mt_writing s" "mt_writing u = mt_writing t" using assms by (simp_all add: cleans_def)
  show ?thesis using assms unfolding cleans_def free_state_of_append free_state_of_writing [OF w(1)] by metis
qed

lemma clean_one_run:
  assumes "posix_dirs (me_oa (re_meta env))" "clean_one env now time disk base (p, st) c = (r, c')"
  shows "cleans (re_meta env) base [(p, st)] (cl_meta c) (cl_meta c') \<and>
    (cl_removed c' = cl_removed c \<and> r \<noteq> Ok () \<or>
     cl_removed c' = cl_removed c @ [p] \<and> (\<exists>v. vp_join base (last p) = Some v \<and> mt_writing (cl_meta c) v = None))"
proof (cases "vp_join base (last p)")
  case None
  then show ?thesis using assms(2) by (auto simp: clean_one_def cleans_refl)
next
  case (Some v)
  obtain x t where x: "remove_state_file (re_meta env) v time (cl_meta c) = (x, t)" by fastforce
  have c': "cl_meta c' = t" "cl_removed c' = (if x = Ok () then cl_removed c @ [p] else cl_removed c)" "x \<noteq> Ok () \<longrightarrow> r \<noteq> Ok ()"
    using assms(2) x Some
    by (cases x; auto simp: clean_one_def bind_io_def on_daemon_def on_tracking_def on_meta_def remove_image_def)+
  have free: "mt_writing (cl_meta c) v = None" if "x = Ok () \<or> t \<noteq> cl_meta c"
    using x that by (cases "mt_writing (cl_meta c) v") (auto simp: remove_state_file_def bind_io_def get_writing_def)
  note rm = remove_state_file_run [OF assms(1) x]
  have "slot_at (re_meta env) t d n = slot_at (re_meta env) (cl_meta c) d n \<or>
      slot_at (re_meta env) t d n = Some None \<and> free_state_of base [(p, st)] (cl_meta c) d n" for d n
  proof (cases "t = cl_meta c \<or> (d, n) \<noteq> (state_dir v, state_file (vp_name v))")
    case True
    then show ?thesis using rm by auto
  next
    case False
    then have "free_state_of base [(p, st)] (cl_meta c) d n" using free Some by (simp add: free_state_of_def)
    then show ?thesis using rm False by auto
  qed
  then have "cleans (re_meta env) base [(p, st)] (cl_meta c) t" using rm by (simp add: cleans_def)
  then show ?thesis using c' free Some by (cases "x = Ok ()") auto
qed

lemma clean_all_run:
  assumes "posix_dirs (me_oa (re_meta env))" "for_io us (clean_one env now time disk base) c = (r, c')"
  shows "cleans (re_meta env) base us (cl_meta c) (cl_meta c') \<and>
    (\<exists>k. cl_removed c' = cl_removed c @ map fst (take k us) \<and>
      (\<forall>(p, st) \<in> set (take k us). \<exists>v. vp_join base (last p) = Some v \<and> mt_writing (cl_meta c) v = None))"
  using assms(2)
proof (induction us arbitrary: c)
  case Nil
  then show ?case by (auto simp: cleans_refl)
next
  case (Cons u us)
  obtain p st where u: "u = (p, st)" by fastforce
  obtain x c1 where x: "clean_one env now time disk base u c = (x, c1)" by fastforce
  note one = clean_one_run [OF assms(1) x [unfolded u]]
  show ?case
  proof (cases "x = Ok ()")
    case True
    then have rest: "for_io us (clean_one env now time disk base) c1 = (r, c')" using Cons.prems x by simp
    have w: "mt_writing (cl_meta c1) = mt_writing (cl_meta c)" using one by (simp add: cleans_def)
    obtain k where k: "cl_removed c' = cl_removed c1 @ map fst (take k us)"
        "\<forall>(p, st) \<in> set (take k us). \<exists>v. vp_join base (last p) = Some v \<and> mt_writing (cl_meta c1) v = None"
      and cl: "cleans (re_meta env) base us (cl_meta c1) (cl_meta c')" using Cons.IH [OF rest] by blast
    have "cleans (re_meta env) base (u # us) (cl_meta c) (cl_meta c')" using cleans_trans [OF conjunct1 [OF one] cl] by (simp add: u)
    then show ?thesis using one True k w by (intro conjI exI [of _ "Suc k"]) (auto simp: u)
  next
    case False
    then have c': "c' = c1" using Cons.prems x by (cases x) auto
    have "cleans (re_meta env) base (u # us) (cl_meta c) (cl_meta c')"
      using cleans_trans [OF conjunct1 [OF one] cleans_refl, of us] by (simp add: u c')
    moreover have "\<exists>k. cl_removed c1 = cl_removed c @ map fst (take k (u # us)) \<and>
      (\<forall>(p, st) \<in> set (take k (u # us)). \<exists>v. vp_join base (last p) = Some v \<and> mt_writing (cl_meta c) v = None)"
      using one by (elim conjE disjE) (force simp: u intro: exI [of _ 0], force simp: u intro: exI [of _ "Suc 0"])
    ultimately show ?thesis by (simp add: c')
  qed
qed

section \<open>A base directory\<close>

lemma length_btree_entries: "length (btree_entries m) = card (dom m)"
  by (simp add: btree_entries_def)

lemma find_unused_kept:
  "fst ` set (find_unused cfg at base found kl) \<inter> set kl = {}"
  "length (find_unused cfg at base found kl) + min (keep_min_directories cfg) (card (dom found)) \<le> card (dom found)"
proof -
  let ?its = "dir_images base (btree_entries found)"
  note g = sort_out_guarantee [of cfg at ?its kl]
  have l: "length ?its = card (dom found)" by (simp add: dir_images_def length_btree_entries)
  show "fst ` set (find_unused cfg at base found kl) \<inter> set kl = {}" using g by (simp add: find_unused_def)
  have "length (so_used (sort_out cfg at ?its kl)) + length (so_unused (sort_out cfg at ?its kl)) = card (dom found)"
    using g l by (metis size_mset size_union)
  then show "length (find_unused cfg at base found kl) + min (keep_min_directories cfg) (card (dom found)) \<le> card (dom found)"
    using g l by (simp add: find_unused_def)
qed

lemma distinct_images: "distinct (dir_images base (btree_entries m))"
proof -
  have "map (last \<circ> fst) (dir_images base (btree_entries m)) = sorted_list_of_set (dom m)"
    by (simp add: dir_images_def btree_entries_def comp_def)
  then show ?thesis using distinct_sorted_list_of_set distinct_map by metis
qed

lemma find_unused_old_or_excess:
  assumes "(p, st) \<in> set (find_unused cfg at base found kl)"
  shows "biggest_timestamp st < at - int (keep_recent cfg) \<or>
    keep_max_directories cfg + length (find_unused cfg at base found kl) \<le> card (dom found)"
proof (cases "biggest_timestamp st < at - int (keep_recent cfg)")
  case False
  let ?its = "dir_images base (btree_entries found)"
  obtain newer where n: "length newer = keep_max_directories cfg" "mset newer \<subseteq># mset (filter (keeps_recent cfg at) ?its)"
      "set newer \<subseteq> set (so_used (sort_out cfg at ?its kl))"
    using sort_out_removes_old_or_excess [OF assms [unfolded find_unused_def]] False by auto
  have "mset newer \<subseteq># mset ?its" using n(2) by (metis multiset_filter_subset subset_mset.order_trans mset_filter)
  then have "count (mset newer) a \<le> count (mset ?its) a" for a by (rule mset_subset_eq_count)
  moreover have "count (mset ?its) a \<le> 1" for a
    using distinct_images [of base found] by (cases a) (simp add: distinct_count_atmost_1 del: count_mset)
  ultimately have "count (mset newer) a \<le> 1" for a using order_trans by blast
  then have "count (mset newer) a = (if a \<in> set newer then 1 else 0)" for a
    by (metis One_nat_def count_mset_0_iff le_SucE le_zero_eq)
  then have "distinct newer" by (simp add: distinct_count_atmost_1 del: count_mset)
  then have "keep_max_directories cfg \<le> length (so_used (sort_out cfg at ?its kl))"
    using n(1,3) by (metis card_length card_mono distinct_card finite_set le_trans)
  moreover have "length (so_used (sort_out cfg at ?its kl)) + length (so_unused (sort_out cfg at ?its kl)) = card (dom found)"
    using sort_out_guarantee [of cfg at ?its kl] by (metis size_mset size_union length_btree_entries length_map dir_images_def)
  ultimately show ?thesis by (simp add: find_unused_def)
qed simp

lemma clean_base_run:
  assumes "clean_base env now time at disk dir c = (r, c')"
    and "meta_scan_dir (re_meta env) (bdir_path dir) (cl_meta c) = (x, s)"
  shows "(\<exists>found x2 c2. x = Ok found \<and>
      clean_scanned env now time at disk dir found (c\<lparr>cl_daemon := (cl_daemon c)\<lparr>da_meta := s\<rparr>\<rparr>) = (x2, c2) \<and>
      cl_meta c' = cl_meta c2 \<and> cl_removed c' = cl_removed c2) \<or>
    cl_meta c' = s \<and> cl_removed c' = cl_removed c"
proof (cases x)
  case (Ok found)
  obtain x2 c2 where "clean_scanned env now time at disk dir found (c\<lparr>cl_daemon := (cl_daemon c)\<lparr>da_meta := s\<rparr>\<rparr>) = (x2, c2)" by fastforce
  then show ?thesis using assms Ok
    by (cases x2) (auto simp: clean_base_def bind_io_def on_daemon_def on_meta_def)
qed (use assms in \<open>auto simp: clean_base_def bind_io_def on_daemon_def on_meta_def\<close>)

text \<open>
  C31. What a cleanup may remove. A cleanup of a base directory removes only images that the policy calls unused: from the
  scan of the directory on, the only state files that go are those of unused images that are not being uploaded, and
  all other metadata stays; the images whose files are removed are unused, taken in order, and were not being uploaded.
  No unused image is in the keep list; the configured minimum of images stays; and an unused image is older
  than the time to keep or one more than the maximum. If the scan or the keep list fails, nothing is removed.
\<close>

theorem cleanup_removes_only_unused:
  assumes "posix_dirs (me_oa (re_meta env))" "clean_base env now time at disk dir c = (r, c')"
    and "meta_scan_dir (re_meta env) (bdir_path dir) (cl_meta c) = (x, s)"
  shows "(\<exists>found kl us. x = Ok found \<and> read_keep_list env (bdir_config dir) = Ok kl \<and>
      us = find_unused (bdir_config dir) at (bdir_path dir) found kl \<and>
      cleans (re_meta env) (bdir_path dir) us s (cl_meta c') \<and>
      (\<exists>k. cl_removed c' = cl_removed c @ map fst (take k us) \<and>
        (\<forall>(p, st) \<in> set (take k us). \<exists>v. vp_join (bdir_path dir) (last p) = Some v \<and> mt_writing s v = None)) \<and>
      fst ` set us \<inter> set kl = {} \<and>
      length us + min (keep_min_directories (bdir_config dir)) (card (dom found)) \<le> card (dom found) \<and>
      (\<forall>(p, st) \<in> set us. biggest_timestamp st < at - int (keep_recent (bdir_config dir)) \<or>
         keep_max_directories (bdir_config dir) + length us \<le> card (dom found))) \<or>
    cl_removed c' = cl_removed c \<and> cl_meta c' = s"
  using clean_base_run [OF assms(2,3)]
proof (elim disjE exE conjE)
  fix found x2 c2
  assume x: "x = Ok found" and c': "cl_meta c' = cl_meta c2" "cl_removed c' = cl_removed c2"
    and run: "clean_scanned env now time at disk dir found (c\<lparr>cl_daemon := (cl_daemon c)\<lparr>da_meta := s\<rparr>\<rparr>) = (x2, c2)"
  show ?thesis
  proof (cases "read_keep_list env (bdir_config dir)")
    case (Ok kl)
    define us where us: "us = find_unused (bdir_config dir) at (bdir_path dir) found kl"
    have "for_io us (clean_one env now time disk (bdir_path dir)) (c\<lparr>cl_daemon := (cl_daemon c)\<lparr>da_meta := s\<rparr>\<rparr>) = (x2, c2)"
      using run Ok by (simp add: clean_scanned_def us)
    from clean_all_run [OF assms(1) this] find_unused_kept [of "bdir_config dir" at "bdir_path dir" found kl] x Ok c'
      find_unused_old_or_excess [of _ _ "bdir_config dir" at "bdir_path dir" found kl]
    show ?thesis by (intro disjI1 exI [of _ found] exI [of _ kl] exI [of _ us]) (auto simp: us)
  qed (use run c' in \<open>auto simp: clean_scanned_def\<close>)
qed simp

section \<open>A directory with one old image\<close>

definition demo_base :: base_dir where
  "demo_base = \<lparr>bdir_path = VPath ''k'' [], bdir_config = (demo_dir True)\<lparr>keep_min_directories := 0\<rparr>, bdir_hash = Hash [],
     bdir_last_scan = 0, bdir_num_subdirs = 1, bdir_num_downloading = 0, bdir_recon_table = Map.empty\<rparr>"

definition demo_cleaner :: "(demo_file mem_fs, nat) cleaner" where
  "demo_cleaner = \<lparr>cl_daemon = demo_daemon\<lparr>da_meta := demo_committed (Other [1])\<rparr>, cl_removed = []\<rparr>"

lemma demo_clean_scan:
  "meta_scan_dir (demo_env True) (VPath ''k'' []) (demo_committed (Other [1])) =
     (Ok [''a'' \<mapsto> demo_state (Other [1])], demo_committed (Other [1]))"
  by (simp add: demo_eval demo_scan_eval demo_state_def demo_committed_def scan_file_def insert_state_def read_state_def bind_io_def
      read_file_def)

lemma demo_clean_unused:
  "find_unused (bdir_config demo_base) 9000000000000 (VPath ''k'' []) [''a'' \<mapsto> demo_state (Other [1])] [] = [([''a''], demo_state (Other [1]))]"
  by (simp add: find_unused_def demo_base_def demo_dir_def btree_entries_def dir_images_def sort_out_def keeps_recent_def
      biggest_timestamp_def demo_state_def cap_recent_def apply_keep_list_def refill_minimum_def)

lemma demo_remove_state:
  "\<exists>t. remove_state_file (demo_env True) (VPath ''k'' [''a'']) 9000000000000 (demo_committed (Other [1])) = (Ok (), t)"
  by (simp add: demo_eval remove_state_file_def is_fresher_def duration_since_epoch_def file_meta_def remove_file_def
      demo_committed_def sub_dir_or_def UNIX_EPOCH_def as_secs_def vp_parent_rel_def vp_final_name_def bind_io_def)

lemma demo_clean_run:
  "\<exists>c'. clean_base demo_rpc_env 0 9000000000000 9000000000000 (\<lambda>_. True) demo_base demo_cleaner = (Ok (), c') \<and> cl_removed c' = [[''a'']]"
proof -
  obtain t where t: "remove_state_file (demo_env True) (VPath ''k'' [''a'']) 9000000000000 (demo_committed (Other [1])) = (Ok (), t)"
    using demo_remove_state by blast
  have env: "re_meta demo_rpc_env = demo_env True" "read_keep_list demo_rpc_env (bdir_config demo_base) = Ok []" "bdir_path demo_base = VPath ''k'' []"
    by (simp_all add: demo_rpc_env_def read_keep_list_def demo_base_def demo_dir_def)
  have join: "vp_join (VPath ''k'' []) ''a'' = Some (VPath ''k'' [''a''])" by (simp add: vp_join_name name_ok_def vp_child_def)
  have d: "da_meta (cl_daemon demo_cleaner) = demo_committed (Other [1])" "cl_removed demo_cleaner = []" by (simp_all add: demo_cleaner_def)
  show ?thesis
    by (simp add: clean_base_def clean_scanned_def env demo_clean_unused bind_io_def on_daemon_def on_meta_def d demo_clean_scan
        clean_one_def join on_tracking_def t remove_image_def)
qed

theorem cleanup_removes_only_unused_witness:
  "\<exists>c'. clean_base demo_rpc_env 0 9000000000000 9000000000000 (\<lambda>_. True) demo_base demo_cleaner = (Ok (), c') \<and>
     cl_removed c' = [[''a'']] \<and>
     cleans (demo_env True) (VPath ''k'' []) [([''a''], demo_state (Other [1]))] (demo_committed (Other [1])) (cl_meta c')"
proof -
  obtain c' where c': "clean_base demo_rpc_env 0 9000000000000 9000000000000 (\<lambda>_. True) demo_base demo_cleaner = (Ok (), c')" "cl_removed c' = [[''a'']]"
    using demo_clean_run by blast
  have env: "re_meta demo_rpc_env = demo_env True" "read_keep_list demo_rpc_env (bdir_config demo_base) = Ok []" "bdir_path demo_base = VPath ''k'' []"
    by (simp_all add: demo_rpc_env_def read_keep_list_def demo_base_def demo_dir_def)
  have d: "cl_meta demo_cleaner = demo_committed (Other [1])" "cl_removed demo_cleaner = []" by (simp_all add: demo_cleaner_def)
  have "posix_dirs (me_oa (re_meta demo_rpc_env))" by (simp add: env demo_posix)
  from cleanup_removes_only_unused [OF this c'(1), unfolded env d, OF demo_clean_scan] c' show ?thesis
    by (auto simp: env demo_clean_unused)
qed

text \<open>
  An unused image that is being uploaded again stops the run: the images after it are not cleaned, and it is recorded as
  just deleted although it was not.
\<close>

lemma uploading_stops_cleanup:
  assumes "vp_join base (last p) = Some v" "mt_writing (cl_meta c) v \<noteq> None"
  shows "\<exists>c'. for_io ((p, st) # us) (clean_one env now time disk base) c = (Err (CleanMeta (CleanupCanceled v)), c') \<and>
    cl_meta c' = cl_meta c \<and> cl_removed c' = cl_removed c \<and> is_recently_deleted now v (st_image st) (da_tracking (cl_daemon c'))"
  using assms
  by (auto simp: clean_one_def bind_io_def on_daemon_def on_tracking_def on_meta_def remove_state_file_def get_writing_def
      is_recently_deleted_def tracking_dir_deleted_def)

end
