(* ===== verification/Disk.thy ===== *)
theory Disk
  imports Progress Metadata_Dir
begin

text \<open>
  The disk operations of a download (\<^verbatim>\<open>src/daemon/disk/\<close>): the temporary directory an image is built in, the blocks
  written to it, its verification and the rename that publishes it, and the removal of images. The calls of the
  \<^verbatim>\<open>openat\<close> crate and of open files are a parameter, a record of functions on a state of the caller's choice; so is
  the check of a file against its hashes (\<^verbatim>\<open>dir_signature\<close>). A handle of a directory is the list of names from
  the root; to look at an open file is part of opening it. The listing of a directory that is removed is
  read at once. The recursion over directories has a limit, the depth of the stack, beyond which it panics. A
  \<^verbatim>\<open>debug_assert\<close> that fails is a panic.
\<close>

section \<open>The calls of the system\<close>

record 's disk_fs =
  df_open :: "'s \<Rightarrow> string \<Rightarrow> io_kind + dpath"
  df_sub_dir :: "'s \<Rightarrow> dpath \<Rightarrow> string \<Rightarrow> io_kind option"
  df_create_dir :: "'s \<Rightarrow> dpath \<Rightarrow> string \<Rightarrow> io_kind option \<times> 's"
  df_metadata :: "'s \<Rightarrow> dpath \<Rightarrow> string \<Rightarrow> io_kind + simple_type"
  df_list_dir :: "'s \<Rightarrow> dpath \<Rightarrow> (io_kind \<times> bool) + (io_kind + string \<times> simple_type option) list"
  df_remove_file :: "'s \<Rightarrow> dpath \<Rightarrow> string \<Rightarrow> io_kind option \<times> 's"
  df_remove_dir :: "'s \<Rightarrow> dpath \<Rightarrow> string \<Rightarrow> io_kind option \<times> 's"
  df_local_rename :: "'s \<Rightarrow> dpath \<Rightarrow> string \<Rightarrow> string \<Rightarrow> io_kind option \<times> 's"
  df_local_exchange :: "'s \<Rightarrow> dpath \<Rightarrow> string \<Rightarrow> string \<Rightarrow> io_kind option \<times> 's"
  df_new_file :: "'s \<Rightarrow> dpath \<Rightarrow> string \<Rightarrow> io_kind option \<times> 's"
  df_open_file :: "'s \<Rightarrow> dpath \<Rightarrow> string \<Rightarrow> io_kind + bytes \<times> nat"
  df_write_at :: "'s \<Rightarrow> dpath \<Rightarrow> string \<Rightarrow> u64 \<Rightarrow> bytes \<Rightarrow> io_kind option \<times> 's"
  df_set_times :: "'s \<Rightarrow> dpath \<Rightarrow> string \<Rightarrow> io_kind option \<times> 's"
  df_set_mode :: "'s \<Rightarrow> dpath \<Rightarrow> string \<Rightarrow> nat \<Rightarrow> io_kind option \<times> 's"
  df_symlink :: "'s \<Rightarrow> dpath \<Rightarrow> string \<Rightarrow> string \<Rightarrow> io_kind option \<times> 's"
  df_hardlink :: "'s \<Rightarrow> dpath \<Rightarrow> string \<Rightarrow> dpath \<Rightarrow> string \<Rightarrow> io_kind option \<times> 's"

record 's disk_env =
  dk_fs :: "'s disk_fs"
  dk_check :: "bytes list \<Rightarrow> bytes \<Rightarrow> bool"
  dk_stack :: nat

datatype disk_error =
    DNoDir vpath
  | DOpenBase string io_kind
  | DOpenDir dpath io_kind
  | DCreateDir dpath io_kind
  | DCreateDirRace dpath io_kind
  | DWriteFile dpath io_kind
  | DRenameDir dpath io_kind
  | DHardlink dpath io_kind
  | DSetTimestamp dpath io_kind
  | DReadFile dpath io_kind
  | DSetPermissions dpath io_kind
  | DCreateSymlink dpath io_kind
  | DChecksum dpath
  | DCommit dpath io_kind
  | DDelete dpath io_kind

text \<open>A call that may fail, and one for which a missing file is no failure.\<close>

definition sys_call :: "('s \<Rightarrow> io_kind option \<times> 's) \<Rightarrow> (io_kind \<Rightarrow> disk_error) \<Rightarrow> ('s, unit, disk_error) io" where
  "sys_call f err = (\<lambda>s. case f s of (None, t) \<Rightarrow> (Ok (), t) | (Some e, t) \<Rightarrow> (Err (err e), t))"

definition skip_not_found :: "('s \<Rightarrow> io_kind option \<times> 's) \<Rightarrow> (io_kind \<Rightarrow> disk_error) \<Rightarrow> ('s, unit, disk_error) io" where
  "skip_not_found f err = (\<lambda>s. case f s of
      (None, t) \<Rightarrow> (Ok (), t)
    | (Some NotFound, t) \<Rightarrow> (Ok (), t)
    | (Some e, t) \<Rightarrow> (Err (err e), t))"

section \<open>Directories\<close>

text \<open>A step from a handle: nothing keeps a component from being \<^verbatim>\<open>..\<close>.\<close>

definition step_into :: "dpath \<Rightarrow> string \<Rightarrow> dpath" where
  "step_into d n = (if n = ''..'' then butlast d else if n = ''.'' then d else d @ [n])"

definition disk_sub_dir :: "'s disk_env \<Rightarrow> dpath \<Rightarrow> string \<Rightarrow> (io_kind \<Rightarrow> disk_error) \<Rightarrow> ('s, dpath, disk_error) io" where
  "disk_sub_dir env d n err = (\<lambda>s. case df_sub_dir (dk_fs env) s d n of
      None \<Rightarrow> (Ok (step_into d n), s)
    | Some e \<Rightarrow> (Err (err e), s))"

definition ensure_subdir :: "'s disk_env \<Rightarrow> dpath \<Rightarrow> string \<Rightarrow> ('s, dpath, disk_error) io" where
  "ensure_subdir env d n = (\<lambda>s. case df_sub_dir (dk_fs env) s d n of
      None \<Rightarrow> (Ok (step_into d n), s)
    | Some NotFound \<Rightarrow>
        (case df_create_dir (dk_fs env) s d n of
           (None, t) \<Rightarrow> disk_sub_dir env d n (DCreateDirRace (d @ [n])) t
         | (Some AlreadyExists, t) \<Rightarrow> disk_sub_dir env d n (DOpenDir (d @ [n])) t
         | (Some e, t) \<Rightarrow> (Err (DCreateDir (d @ [n]) e), t))
    | Some e \<Rightarrow> (Err (DOpenDir (d @ [n]) e), s))"

fun ensure_all :: "'s disk_env \<Rightarrow> dpath \<Rightarrow> string list \<Rightarrow> ('s, dpath, disk_error) io" where
  "ensure_all env d [] = ret (Ok d)"
| "ensure_all env d (n # ns) = bind_io (ensure_subdir env d n) (\<lambda>d'. ensure_all env d' ns)"

fun open_all :: "'s disk_env \<Rightarrow> dpath \<Rightarrow> string list \<Rightarrow> ('s, dpath, disk_error) io" where
  "open_all env d [] = ret (Ok d)"
| "open_all env d (n # ns) = bind_io (disk_sub_dir env d n (DOpenDir (d @ [n]))) (\<lambda>d'. open_all env d' ns)"

text \<open>\<^verbatim>\<open>path.iter()\<close> after \<^verbatim>\<open>strip_prefix("/")\<close>.\<close>

definition rel_names :: "path \<Rightarrow> string list" where
  "rel_names p = map comp_str (case p of RootDir # q \<Rightarrow> q | _ \<Rightarrow> p)"

definition ensure_path :: "'s disk_env \<Rightarrow> dpath \<Rightarrow> path \<Rightarrow> ('s, dpath, disk_error) io" where
  "ensure_path env d p = ensure_all env d (rel_names p)"

definition disk_open_path :: "'s disk_env \<Rightarrow> dpath \<Rightarrow> path \<Rightarrow> ('s, dpath, disk_error) io" where
  "disk_open_path env d p = open_all env d (rel_names p)"

definition ensure_virtual_parent :: "'s disk_env \<Rightarrow> dpath \<Rightarrow> vpath \<Rightarrow> ('s, dpath, disk_error) io" where
  "ensure_virtual_parent env d v =
     (if vp_level v = 0 then ret Panic else ensure_all env d (take (vp_level v - 1) (vp_suffix v)))"

definition open_base :: "'s disk_env \<Rightarrow> string \<Rightarrow> ('s, dpath, disk_error) io" where
  "open_base env base = (\<lambda>s. case df_open (dk_fs env) s base of Inr d \<Rightarrow> (Ok d, s) | Inl e \<Rightarrow> (Err (DOpenBase base e), s))"

section \<open>Removing\<close>

text \<open>
  The type of an entry that the listing does not give is asked for at the parent \<open>dir\<close> of the directory that is removed,
  where the code means the directory itself.
\<close>

definition remove_entry ::
  "(dpath \<Rightarrow> string \<Rightarrow> ('s, unit, disk_error) io) \<Rightarrow> 's disk_env \<Rightarrow> dpath \<Rightarrow> dpath \<Rightarrow> dpath \<Rightarrow>
     io_kind + string \<times> simple_type option \<Rightarrow> ('s, unit, disk_error) io" where
  "remove_entry recurse env where_err dir me entry = (case entry of
      Inl e \<Rightarrow> ret (Err (DDelete where_err e))
    | Inr (n, typ) \<Rightarrow> (\<lambda>s.
        case (case typ of Some t \<Rightarrow> Inr t | None \<Rightarrow> df_metadata (dk_fs env) s dir n) of
          Inl NotFound \<Rightarrow> (Ok (), s)
        | Inl e \<Rightarrow> (Err (DDelete (dir @ [n]) e), s)
        | Inr TDir \<Rightarrow> recurse me n s
        | Inr _ \<Rightarrow> skip_not_found (\<lambda>s. df_remove_file (dk_fs env) s me n) (DDelete (me @ [n])) s))"

fun remove_by_entry :: "nat \<Rightarrow> 's disk_env \<Rightarrow> dpath \<Rightarrow> string \<Rightarrow> ('s, unit, disk_error) io" where
  "remove_by_entry 0 env dir inp = ret Panic"
| "remove_by_entry (Suc k) env dir inp = (\<lambda>s.
     case df_sub_dir (dk_fs env) s dir inp of
       Some NotFound \<Rightarrow> (Ok (), s)
     | Some e \<Rightarrow> (Err (DDelete (dir @ [inp]) e), s)
     | None \<Rightarrow>
         let me = step_into dir inp in
         (case df_list_dir (dk_fs env) s me of
            Inl (NotFound, _) \<Rightarrow> (Ok (), s)
          | Inl (e, _) \<Rightarrow> (Err (DDelete (dir @ [inp]) e), s)
          | Inr entries \<Rightarrow>
              bind_io (for_io entries (remove_entry (remove_by_entry k env) env (dir @ [inp]) dir me)) (\<lambda>_.
                skip_not_found (\<lambda>s. df_remove_dir (dk_fs env) s dir inp) (DDelete (dir @ [inp]))) s))"

definition remove_by_str :: "'s disk_env \<Rightarrow> dpath \<Rightarrow> string \<Rightarrow> ('s, unit, disk_error) io" where
  "remove_by_str env dir name = (\<lambda>s.
     case df_sub_dir (dk_fs env) s dir name of
       Some NotFound \<Rightarrow> (Ok (), s)
     | Some e \<Rightarrow> (Err (DDelete (dir @ [name]) e), s)
     | None \<Rightarrow>
         let me = step_into dir name in
         (case df_list_dir (dk_fs env) s me of
            Inl (NotFound, _) \<Rightarrow> (Ok (), s)
          | Inl (e, True) \<Rightarrow> sys_call (\<lambda>s. df_remove_file (dk_fs env) s dir name) (DDelete (dir @ [name])) s
          | Inl (e, False) \<Rightarrow> (Err (DDelete (dir @ [name]) e), s)
          | Inr entries \<Rightarrow>
              bind_io (for_io entries (remove_entry (remove_by_entry (dk_stack env) env) env (dir @ [name]) dir me)) (\<lambda>_.
                skip_not_found (\<lambda>s. df_remove_dir (dk_fs env) s dir name) (DDelete (dir @ [name]))) s))"

definition old_name :: "string \<Rightarrow> string" where
  "old_name n = ''.tmp.old.'' @ n"

definition remove_dir_recursive :: "'s disk_env \<Rightarrow> dpath \<Rightarrow> string \<Rightarrow> ('s, unit, disk_error) io" where
  "remove_dir_recursive env dir name =
     bind_io (remove_by_str env dir (old_name name)) (\<lambda>_. (\<lambda>s.
       case df_local_rename (dk_fs env) s dir name (old_name name) of
         (None, t) \<Rightarrow> remove_by_str env dir (old_name name) t
       | (Some NotFound, t) \<Rightarrow> (Ok (), t)
       | (Some e, t) \<Rightarrow> (Err (DRenameDir (dir @ [name]) e), t)))"

section \<open>Images\<close>

record disk_image =
  im_virtual_path :: vpath
  im_parent :: dpath
  im_temporary_name :: string
  im_temporary :: dpath

definition start_image :: "'s disk_env \<Rightarrow> string \<Rightarrow> vpath \<Rightarrow> ('s, disk_image, disk_error) io" where
  "start_image env base v =
     bind_io (open_base env base) (\<lambda>root.
     bind_io (ensure_virtual_parent env root v) (\<lambda>dir.
     bind_io (ret (expect (vp_final_name v))) (\<lambda>name.
     let tmp = ''.tmp.'' @ name in
     bind_io (remove_dir_recursive env dir tmp) (\<lambda>_.
     bind_io (ensure_subdir env dir tmp) (\<lambda>temp.
       ret (Ok \<lparr>im_virtual_path = v, im_parent = dir, im_temporary_name = tmp, im_temporary = temp\<rparr>))))))"

definition disk_remove_image :: "'s disk_env \<Rightarrow> directory \<Rightarrow> path \<Rightarrow> ('s, unit, disk_error) io" where
  "disk_remove_image env cfg p =
     bind_io (open_base env (directory_path cfg)) (\<lambda>root.
     bind_io (ret (expect (path_parent p))) (\<lambda>par.
     bind_io (disk_open_path env root par) (\<lambda>dir.
     bind_io (ret (expect (path_file_name p))) (\<lambda>name.
       remove_dir_recursive env dir name))))"

text \<open>A read returns up to 32768 bytes; how many is the choice of the system, here as many as there are.\<close>

definition read_block ::
  "'s disk_env \<Rightarrow> config \<Rightarrow> vpath \<Rightarrow> path \<Rightarrow> u64 \<Rightarrow> bool \<Rightarrow> ('s, bytes, disk_error) io" where
  "read_block env cfg v p offset writing =
     bind_io (ret (expect (strip_root p))) (\<lambda>rel.
     bind_io (ret (ok_or (cf_dirs cfg (vp_key v)) (DNoDir v))) (\<lambda>dcfg.
     bind_io (open_base env (directory_path dcfg)) (\<lambda>root.
     bind_io (ret (expect (vp_parent v))) (\<lambda>vpar.
     bind_io (open_all env root (vp_suffix vpar)) (\<lambda>par.
     bind_io (ret (expect (vp_final_name v))) (\<lambda>name.
     bind_io (open_all env par [if writing then ''.tmp.'' @ name else name]) (\<lambda>dir.
     bind_io (ret (expect (path_parent rel))) (\<lambda>fpar.
     bind_io (disk_open_path env dir fpar) (\<lambda>fdir.
     bind_io (ret (expect (path_file_name rel))) (\<lambda>fname. (\<lambda>s.
       case df_open_file (dk_fs env) s fdir fname of
         Inl e \<Rightarrow> (Err (DReadFile (fdir @ [fname]) e), s)
       | Inr (b, mode) \<Rightarrow> (Ok (take 32768 (drop (unat offset) b)), s))))))))))))"

definition disk_write_block ::
  "'s disk_env \<Rightarrow> disk_image \<Rightarrow> path \<Rightarrow> u64 \<Rightarrow> bytes \<Rightarrow> ('s, unit, disk_error) io" where
  "disk_write_block env im p offset block =
     bind_io (ret (expect (strip_root p))) (\<lambda>rel.
     bind_io (ret (expect (path_parent rel))) (\<lambda>par.
     bind_io (ensure_path env (im_temporary im) par) (\<lambda>dir.
     bind_io (ret (expect (path_file_name rel))) (\<lambda>fname.
       sys_call (\<lambda>s. df_write_at (dk_fs env) s dir fname offset block) (DWriteFile (dir @ [fname]))))))"

section \<open>Committing\<close>

text \<open>An empty file is made here, since it has no blocks.\<close>

definition commit_empty_file :: "'s disk_env \<Rightarrow> dpath \<Rightarrow> string \<Rightarrow> bool \<Rightarrow> ('s, unit, disk_error) io" where
  "commit_empty_file env dir fname exe = (\<lambda>s. case df_new_file (dk_fs env) s dir fname of
      (None, t) \<Rightarrow>
        (if exe then sys_call (\<lambda>s. df_set_mode (dk_fs env) s dir fname 493) (DSetPermissions (dir @ [fname])) t else (Ok (), t))
    | (Some AlreadyExists, t) \<Rightarrow>
        (case df_open_file (dk_fs env) t dir fname of
           Inl e \<Rightarrow> (Err (DReadFile (dir @ [fname]) e), t)
         | Inr (b, mode) \<Rightarrow> (if b \<noteq> [] then Err (DChecksum (dir @ [fname])) else Ok (), t))
    | (Some e, t) \<Rightarrow> (Err (DWriteFile (dir @ [fname]) e), t))"

definition commit_file :: "'s disk_env \<Rightarrow> dpath \<Rightarrow> string \<Rightarrow> bool \<Rightarrow> bytes list \<Rightarrow> ('s, unit, disk_error) io" where
  "commit_file env dir fname exe hs = (\<lambda>s. case df_open_file (dk_fs env) s dir fname of
      Inl e \<Rightarrow> (Err (DReadFile (dir @ [fname]) e), s)
    | Inr (b, mode) \<Rightarrow>
        bind_io (sys_call (\<lambda>s. df_set_times (dk_fs env) s dir fname) (DSetTimestamp (dir @ [fname]))) (\<lambda>_.
          if \<not> dk_check env hs b then ret (Err (DChecksum (dir @ [fname])))
          else if exe then sys_call (\<lambda>s. df_set_mode (dk_fs env) s dir fname 493) (DSetPermissions (dir @ [fname]))
          else ret (Ok ())) s)"

text \<open>The file name of an entry, and the directory it is in, which was the last directory entry.\<close>

definition entry_place :: "(dpath \<times> path) option \<Rightarrow> path \<Rightarrow> (dpath \<times> string, 'e) result" where
  "entry_place cur p =
     bind_result (expect cur) (\<lambda>(dir, dpath).
     bind_result (expect (path_parent p)) (\<lambda>par.
       if dpath \<noteq> par then Panic
       else bind_result (expect (path_file_name p)) (\<lambda>fname. Ok (dir, fname))))"

definition commit_entry ::
  "'s disk_env \<Rightarrow> disk_image \<Rightarrow> entry \<Rightarrow> (dpath \<times> path) option \<Rightarrow> ('s, (dpath \<times> path) option, disk_error) io" where
  "commit_entry env im e cur = (case e of
      EntryDir p \<Rightarrow> bind_io (ensure_path env (im_temporary im) (components p)) (\<lambda>d. ret (Ok (Some (d, components p))))
    | EntryFile p exe sz hs \<Rightarrow>
        bind_io (ret (entry_place cur (components p))) (\<lambda>(dir, fname).
        bind_io (if sz = 0 then commit_empty_file env dir fname exe else commit_file env dir fname exe hs) (\<lambda>_. ret (Ok cur)))
    | EntryLink p dest \<Rightarrow>
        bind_io (ret (entry_place cur (components p))) (\<lambda>(dir, fname).
        bind_io (sys_call (\<lambda>s. df_symlink (dk_fs env) s dir fname dest) (DCreateSymlink (dir @ [fname]))) (\<lambda>_. ret (Ok cur))))"

fun commit_entries ::
  "'s disk_env \<Rightarrow> disk_image \<Rightarrow> entry list \<Rightarrow> (dpath \<times> path) option \<Rightarrow> ('s, unit, disk_error) io" where
  "commit_entries env im [] cur = ret (Ok ())"
| "commit_entries env im (e # es) cur = bind_io (commit_entry env im e cur) (\<lambda>cur'. commit_entries env im es cur')"

definition publish_tree :: "'s disk_env \<Rightarrow> disk_image \<Rightarrow> ('s, unit, disk_error) io" where
  "publish_tree env im =
     bind_io (ret (expect (vp_final_name (im_virtual_path im)))) (\<lambda>fname.
     let par = im_parent im; tmp = im_temporary_name im; err = DCommit (par @ [fname]) in
     (\<lambda>s. case df_metadata (dk_fs env) s par fname of
        Inr _ \<Rightarrow>
          bind_io (sys_call (\<lambda>s. df_local_exchange (dk_fs env) s par tmp fname) err) (\<lambda>_. remove_dir_recursive env par tmp) s
      | Inl NotFound \<Rightarrow> sys_call (\<lambda>s. df_local_rename (dk_fs env) s par tmp fname) err s
      | Inl e \<Rightarrow> (Err (err e), s)))"

definition commit_image :: "'s disk_env \<Rightarrow> index \<Rightarrow> disk_image \<Rightarrow> ('s, unit, disk_error) io" where
  "commit_image env ix im = bind_io (commit_entries env im (ix_entries ix) None) (\<lambda>_. publish_tree env im)"

section \<open>Hard links\<close>

record hardlink =
  hl_source :: vpath
  hl_path :: path
  hl_exe :: bool
  hl_size :: u64
  hl_hashes :: "bytes list"

definition try_hardlink :: "'s disk_env \<Rightarrow> config \<Rightarrow> hardlink \<Rightarrow> disk_image \<Rightarrow> ('s, unit, disk_error) io" where
  "try_hardlink env cfg hl im =
     bind_io (ret (ok_or (cf_dirs cfg (vp_key (hl_source hl))) (DNoDir (hl_source hl)))) (\<lambda>dcfg.
     bind_io (open_base env (directory_path dcfg)) (\<lambda>root.
     bind_io (open_all env root (vp_suffix (hl_source hl))) (\<lambda>src.
     bind_io (ret (expect (path_parent (hl_path hl)))) (\<lambda>par.
     bind_io (disk_open_path env src par) (\<lambda>dir.
     bind_io (ret (expect (path_file_name (hl_path hl)))) (\<lambda>fname. (\<lambda>s.
       case df_open_file (dk_fs env) s dir fname of
         Inl e \<Rightarrow> (Err (DReadFile (dir @ [fname]) e), s)
       | Inr (b, mode) \<Rightarrow>
           if \<not> dk_check env (hl_hashes hl) b \<or> mode mod 512 \<noteq> (if hl_exe hl then 493 else 420) then (Err (DChecksum (dir @ [fname])), s)
           else bind_io (ensure_path env (im_temporary im) par) (\<lambda>dest.
                  sys_call (\<lambda>s. df_hardlink (dk_fs env) s dir fname dest fname) (DHardlink (dir @ [fname]))) s)))))))"

text \<open>The links are tried one after the other; those that fail are logged and left to be fetched.\<close>

fun check_and_hardlink :: "'s disk_env \<Rightarrow> config \<Rightarrow> hardlink list \<Rightarrow> disk_image \<Rightarrow> ('s, path list, disk_error) io" where
  "check_and_hardlink env cfg [] im = ret (Ok [])"
| "check_and_hardlink env cfg (hl # hls) im = (\<lambda>s. case try_hardlink env cfg hl im s of
      (Ok _, t) \<Rightarrow> bind_io (check_and_hardlink env cfg hls im) (\<lambda>ps. ret (Ok (hl_path hl # ps))) t
    | (Err e, t) \<Rightarrow> check_and_hardlink env cfg hls im t
    | (Panic, t) \<Rightarrow> (Panic, t))"

definition disk_check_exists :: "'s disk_env \<Rightarrow> directory \<Rightarrow> path \<Rightarrow> ('s, bool, disk_error) io" where
  "disk_check_exists env cfg p = (\<lambda>s. case df_open (dk_fs env) s (directory_path cfg) of
      Inl NotFound \<Rightarrow> (Ok False, s)
    | Inl e \<Rightarrow> (Err (DOpenBase (directory_path cfg) e), s)
    | Inr root \<Rightarrow> (case disk_open_path env root p s of
        (Ok _, t) \<Rightarrow> (Ok True, t)
      | (Err (DOpenDir d NotFound), t) \<Rightarrow> (Ok False, t)
      | (Err e, t) \<Rightarrow> (Err e, t)
      | (Panic, t) \<Rightarrow> (Panic, t)))"

end
