(* ===== verification/Disk_Commit.thy ===== *)
theory Disk_Commit
  imports Disk
begin

text \<open>
  What the disk operations guarantee. The tree of files is seen through two functions of the state of the system: what is
  at a path, and what an inode holds, since a file may be linked at several paths. The calls are lawful when they
  change these the way POSIX says.
\<close>

datatype fnode = FDir | FFile nat | FLink string

definition moved :: "(dpath \<Rightarrow> 'n option) \<Rightarrow> dpath \<Rightarrow> string \<Rightarrow> string \<Rightarrow> dpath \<Rightarrow> 'n option" where
  "moved f d a b p =
     (if under (d @ [b]) p then f (d @ [a] @ drop (Suc (length d)) p) else if under (d @ [a]) p then None else f p)"

definition swapped :: "(dpath \<Rightarrow> 'n option) \<Rightarrow> dpath \<Rightarrow> string \<Rightarrow> string \<Rightarrow> dpath \<Rightarrow> 'n option" where
  "swapped f d a b p =
     (if under (d @ [a]) p then f (d @ [b] @ drop (Suc (length d)) p)
      else if under (d @ [b]) p then f (d @ [a] @ drop (Suc (length d)) p) else f p)"

text \<open>
  The laws. A call that fails changes nothing that is seen, but for a write, which may have written a part; a new file
  has an inode of its own; only names that are listed by the system are met in a listing.
\<close>

definition fresh_at :: "('s \<Rightarrow> dpath \<Rightarrow> fnode option) \<Rightarrow> 's \<Rightarrow> dpath \<Rightarrow> nat \<Rightarrow> bool" where
  "fresh_at look s p i \<longleftrightarrow> look s p = None \<and> (\<forall>q. look s q \<noteq> Some (FFile i))"

definition law_create_dir :: "'s disk_fs \<Rightarrow> ('s \<Rightarrow> dpath \<Rightarrow> fnode option) \<Rightarrow> ('s \<Rightarrow> nat \<Rightarrow> bytes \<times> nat) \<Rightarrow> bool" where
  "law_create_dir fs look inode \<longleftrightarrow> (\<forall>s d n e t. df_create_dir fs s d n = (e, t) \<longrightarrow>
     (case e of
        None \<Rightarrow> look s (d @ [n]) = None \<and> look t = (look s)(d @ [n] \<mapsto> FDir) \<and> inode t = inode s
      | Some _ \<Rightarrow> look t = look s \<and> inode t = inode s))"

definition law_new_file :: "'s disk_fs \<Rightarrow> ('s \<Rightarrow> dpath \<Rightarrow> fnode option) \<Rightarrow> ('s \<Rightarrow> nat \<Rightarrow> bytes \<times> nat) \<Rightarrow> bool" where
  "law_new_file fs look inode \<longleftrightarrow> (\<forall>s d n e t. df_new_file fs s d n = (e, t) \<longrightarrow>
     (case e of
        None \<Rightarrow> (\<exists>i. fresh_at look s (d @ [n]) i \<and> look t = (look s)(d @ [n] \<mapsto> FFile i) \<and> inode t = (inode s)(i := ([], 420)))
      | Some _ \<Rightarrow> look t = look s \<and> inode t = inode s))"

definition law_symlink :: "'s disk_fs \<Rightarrow> ('s \<Rightarrow> dpath \<Rightarrow> fnode option) \<Rightarrow> ('s \<Rightarrow> nat \<Rightarrow> bytes \<times> nat) \<Rightarrow> bool" where
  "law_symlink fs look inode \<longleftrightarrow> (\<forall>s d n x e t. df_symlink fs s d n x = (e, t) \<longrightarrow>
     (case e of
        None \<Rightarrow> look s (d @ [n]) = None \<and> look t = (look s)(d @ [n] \<mapsto> FLink x) \<and> inode t = inode s
      | Some _ \<Rightarrow> look t = look s \<and> inode t = inode s))"

definition law_hardlink :: "'s disk_fs \<Rightarrow> ('s \<Rightarrow> dpath \<Rightarrow> fnode option) \<Rightarrow> ('s \<Rightarrow> nat \<Rightarrow> bytes \<times> nat) \<Rightarrow> bool" where
  "law_hardlink fs look inode \<longleftrightarrow> (\<forall>s d n d' n' e t. df_hardlink fs s d n d' n' = (e, t) \<longrightarrow>
     (case e of
        None \<Rightarrow> (\<exists>i. look s (d @ [n]) = Some (FFile i) \<and> look s (d' @ [n']) = None \<and> look t = (look s)(d' @ [n'] \<mapsto> FFile i)) \<and> inode t = inode s
      | Some _ \<Rightarrow> look t = look s \<and> inode t = inode s))"

definition law_set_times :: "'s disk_fs \<Rightarrow> ('s \<Rightarrow> dpath \<Rightarrow> fnode option) \<Rightarrow> ('s \<Rightarrow> nat \<Rightarrow> bytes \<times> nat) \<Rightarrow> bool" where
  "law_set_times fs look inode \<longleftrightarrow> (\<forall>s d n e t. df_set_times fs s d n = (e, t) \<longrightarrow>
     look t = look s \<and> inode t = inode s)"

definition law_set_mode :: "'s disk_fs \<Rightarrow> ('s \<Rightarrow> dpath \<Rightarrow> fnode option) \<Rightarrow> ('s \<Rightarrow> nat \<Rightarrow> bytes \<times> nat) \<Rightarrow> bool" where
  "law_set_mode fs look inode \<longleftrightarrow> (\<forall>s d n m e t. df_set_mode fs s d n m = (e, t) \<longrightarrow>
     look t = look s \<and>
     (case e of
        None \<Rightarrow> (\<exists>i. look s (d @ [n]) = Some (FFile i) \<and> inode t = (inode s)(i := (fst (inode s i), m)))
      | Some _ \<Rightarrow> inode t = inode s))"

definition law_write_at :: "'s disk_fs \<Rightarrow> ('s \<Rightarrow> dpath \<Rightarrow> fnode option) \<Rightarrow> ('s \<Rightarrow> nat \<Rightarrow> bytes \<times> nat) \<Rightarrow> bool" where
  "law_write_at fs look inode \<longleftrightarrow> (\<forall>s d n off b e t. df_write_at fs s d n off b = (e, t) \<longrightarrow>
     look t = look s \<and> inode t = inode s \<or>
     (\<exists>i. (look s (d @ [n]) = Some (FFile i) \<and> look t = look s \<or>
           fresh_at look s (d @ [n]) i \<and> look t = (look s)(d @ [n] \<mapsto> FFile i)) \<and>
          (\<forall>j. j \<noteq> i \<longrightarrow> inode t j = inode s j)))"

definition law_remove_file :: "'s disk_fs \<Rightarrow> ('s \<Rightarrow> dpath \<Rightarrow> fnode option) \<Rightarrow> ('s \<Rightarrow> nat \<Rightarrow> bytes \<times> nat) \<Rightarrow> bool" where
  "law_remove_file fs look inode \<longleftrightarrow> (\<forall>s d n e t. df_remove_file fs s d n = (e, t) \<longrightarrow>
     inode t = inode s \<and> (look t = look s \<or> e = None \<and> look t = (look s)(d @ [n] := None)))"

definition law_remove_dir :: "'s disk_fs \<Rightarrow> ('s \<Rightarrow> dpath \<Rightarrow> fnode option) \<Rightarrow> ('s \<Rightarrow> nat \<Rightarrow> bytes \<times> nat) \<Rightarrow> bool" where
  "law_remove_dir fs look inode \<longleftrightarrow> (\<forall>s d n e t. df_remove_dir fs s d n = (e, t) \<longrightarrow>
     inode t = inode s \<and> (look t = look s \<or> e = None \<and> look t = (look s)(d @ [n] := None)))"

definition law_local_rename :: "'s disk_fs \<Rightarrow> ('s \<Rightarrow> dpath \<Rightarrow> fnode option) \<Rightarrow> ('s \<Rightarrow> nat \<Rightarrow> bytes \<times> nat) \<Rightarrow> bool" where
  "law_local_rename fs look inode \<longleftrightarrow> (\<forall>s d a b e t. df_local_rename fs s d a b = (e, t) \<longrightarrow>
     inode t = inode s \<and> look t = (case e of None \<Rightarrow> moved (look s) d a b | Some _ \<Rightarrow> look s))"

definition law_local_exchange :: "'s disk_fs \<Rightarrow> ('s \<Rightarrow> dpath \<Rightarrow> fnode option) \<Rightarrow> ('s \<Rightarrow> nat \<Rightarrow> bytes \<times> nat) \<Rightarrow> bool" where
  "law_local_exchange fs look inode \<longleftrightarrow> (\<forall>s d a b e t. df_local_exchange fs s d a b = (e, t) \<longrightarrow>
     inode t = inode s \<and> look t = (case e of None \<Rightarrow> swapped (look s) d a b | Some _ \<Rightarrow> look s))"

definition law_reads :: "'s disk_fs \<Rightarrow> ('s \<Rightarrow> dpath \<Rightarrow> fnode option) \<Rightarrow> ('s \<Rightarrow> nat \<Rightarrow> bytes \<times> nat) \<Rightarrow> bool" where
  "law_reads fs look inode \<longleftrightarrow>
     (\<forall>s d n x. df_open_file fs s d n = Inr x \<longrightarrow> (\<exists>i. look s (d @ [n]) = Some (FFile i) \<and> inode s i = x)) \<and>
     (\<forall>s d n. df_sub_dir fs s d n = None \<longrightarrow> look s (step_into d n) = Some FDir) \<and>
     (\<forall>s d es n x. df_list_dir fs s d = Inr es \<longrightarrow> Inr (n, x) \<in> set es \<longrightarrow> n \<noteq> ''.'' \<and> n \<noteq> ''..'')"

definition disk_laws :: "'s disk_fs \<Rightarrow> ('s \<Rightarrow> dpath \<Rightarrow> fnode option) \<Rightarrow> ('s \<Rightarrow> nat \<Rightarrow> bytes \<times> nat) \<Rightarrow> bool" where
  "disk_laws fs look inode \<longleftrightarrow>
     law_create_dir fs look inode \<and> law_new_file fs look inode \<and> law_symlink fs look inode \<and> law_hardlink fs look inode \<and>
     law_set_times fs look inode \<and> law_set_mode fs look inode \<and> law_write_at fs look inode \<and> law_remove_file fs look inode \<and>
     law_remove_dir fs look inode \<and> law_local_rename fs look inode \<and> law_local_exchange fs look inode \<and> law_reads fs look inode"

text \<open>What a reader sees at a path.\<close>

datatype seen = SDir | SFile bytes | SLink string

definition seen_at :: "('s \<Rightarrow> dpath \<Rightarrow> fnode option) \<Rightarrow> ('s \<Rightarrow> nat \<Rightarrow> bytes \<times> nat) \<Rightarrow> 's \<Rightarrow> dpath \<Rightarrow> seen option" where
  "seen_at look inode s p = (case look s p of
      None \<Rightarrow> None
    | Some FDir \<Rightarrow> Some SDir
    | Some (FFile i) \<Rightarrow> Some (SFile (fst (inode s i)))
    | Some (FLink x) \<Rightarrow> Some (SLink x))"

definition plain_name :: "string \<Rightarrow> bool" where
  "plain_name n \<longleftrightarrow> n \<noteq> ''.'' \<and> n \<noteq> ''..''"

lemma step_into_plain: "plain_name n \<Longrightarrow> step_into d n = d @ [n]"
  by (simp add: step_into_def plain_name_def)

section \<open>Building\<close>

text \<open>
  While an image is built below a directory, nothing outside of it is changed; what is there stays, files keep their
  contents, and modes only become 0o755.
\<close>

definition builds ::
  "('s \<Rightarrow> dpath \<Rightarrow> fnode option) \<Rightarrow> ('s \<Rightarrow> nat \<Rightarrow> bytes \<times> nat) \<Rightarrow> dpath \<Rightarrow> 's \<Rightarrow> 's \<Rightarrow> bool" where
  "builds look inode tmp s t \<longleftrightarrow>
     (\<forall>p. \<not> under tmp p \<longrightarrow> look t p = look s p) \<and>
     (\<forall>p x. look s p = Some x \<longrightarrow> look t p = Some x) \<and>
     (\<forall>p i. look s p = Some (FFile i) \<longrightarrow> fst (inode t i) = fst (inode s i) \<and> snd (inode t i) \<in> {snd (inode s i), 493})"

lemma builds_refl [simp]: "builds look inode tmp s s"
  by (simp add: builds_def)

lemma builds_same: "look t = look s \<Longrightarrow> inode t = inode s \<Longrightarrow> builds look inode tmp s t"
  by (simp add: builds_def)

lemma buildsD:
  assumes "builds look inode tmp s t"
  shows "\<not> under tmp p \<Longrightarrow> look t p = look s p" "look s p = Some x \<Longrightarrow> look t p = Some x"
    "look s p = Some (FFile i) \<Longrightarrow> fst (inode t i) = fst (inode s i)"
    "look s p = Some (FFile i) \<Longrightarrow> snd (inode t i) = snd (inode s i) \<or> snd (inode t i) = 493"
  using assms unfolding builds_def by blast+

lemma builds_trans:
  assumes 1: "builds look inode tmp s t" and 2: "builds look inode tmp t u"
  shows "builds look inode tmp s u"
  unfolding builds_def
proof (intro conjI allI impI)
  fix p i assume s: "look s p = Some (FFile i)"
  then have t: "look t p = Some (FFile i)" by (rule buildsD(2) [OF 1])
  show "fst (inode u i) = fst (inode s i)" "snd (inode u i) \<in> {snd (inode s i), 493}"
    using buildsD(3,4) [OF 1 s] buildsD(3,4) [OF 2 t] by auto
qed (use buildsD(1,2) [OF 1] buildsD(1,2) [OF 2] in simp_all)

definition builder ::
  "('s \<Rightarrow> dpath \<Rightarrow> fnode option) \<Rightarrow> ('s \<Rightarrow> nat \<Rightarrow> bytes \<times> nat) \<Rightarrow> dpath \<Rightarrow> ('s, 'x, 'e) io \<Rightarrow> bool" where
  "builder look inode tmp m \<longleftrightarrow> (\<forall>s r t. m s = (r, t) \<longrightarrow> builds look inode tmp s t)"

named_theorems builder_rules \<open>operations that only build\<close>

lemma builder_ret [builder_rules]: "builder look inode tmp (ret r)"
  by (simp add: builder_def ret_def)

lemma builder_bind:
  assumes "builder look inode tmp m" "\<And>s x t. m s = (Ok x, t) \<Longrightarrow> builder look inode tmp (f x)"
  shows "builder look inode tmp (bind_io m f)"
  unfolding builder_def
proof (intro allI impI)
  fix s r t assume run: "bind_io m f s = (r, t)"
  obtain y u where m: "m s = (y, u)" by fastforce
  have 1: "builds look inode tmp s u" using assms(1) m by (auto simp: builder_def)
  show "builds look inode tmp s t"
  proof (cases y)
    case (Ok x)
    then have "f x u = (r, t)" using run m by simp
    then have "builds look inode tmp u t" using assms(2) m Ok unfolding builder_def by blast
    with 1 show ?thesis by (rule builds_trans)
  qed (use run m 1 in auto)
qed

lemma under_snoc: "under tmp d \<Longrightarrow> under tmp (d @ [n])"
  by (metis append_take_drop_id length_append length_take min.absorb_iff2 le_add1 take_append under_def append_assoc append_eq_conv_conj)

lemma builds_put:
  assumes "look s p = None" "look t = (look s)(p \<mapsto> x)" "inode t = inode s" "under tmp p"
  shows "builds look inode tmp s t"
  using assms by (auto simp: builds_def)

text \<open>The single calls, below the directory that is built.\<close>

lemma disk_lawsD:
  assumes "disk_laws fs look inode"
  shows "law_create_dir fs look inode" "law_new_file fs look inode" "law_symlink fs look inode" "law_hardlink fs look inode"
    "law_set_times fs look inode" "law_set_mode fs look inode" "law_write_at fs look inode" "law_remove_file fs look inode"
    "law_remove_dir fs look inode" "law_local_rename fs look inode" "law_local_exchange fs look inode" "law_reads fs look inode"
  using assms by (simp_all add: disk_laws_def)

lemma builds_create_dir:
  assumes "disk_laws fs look inode" "df_create_dir fs s d n = (e, t)" "under tmp d"
  shows "builds look inode tmp s t"
proof -
  have "case e of None \<Rightarrow> look s (d @ [n]) = None \<and> look t = (look s)(d @ [n] \<mapsto> FDir) \<and> inode t = inode s
      | Some _ \<Rightarrow> look t = look s \<and> inode t = inode s"
    using disk_lawsD(1) [OF assms(1)] assms(2) unfolding law_create_dir_def by blast
  then show ?thesis using under_snoc [OF assms(3)] by (cases e) (auto intro: builds_put builds_same)
qed

lemma builds_symlink:
  assumes "disk_laws fs look inode" "df_symlink fs s d n x = (e, t)" "under tmp d"
  shows "builds look inode tmp s t"
proof -
  have "case e of None \<Rightarrow> look s (d @ [n]) = None \<and> look t = (look s)(d @ [n] \<mapsto> FLink x) \<and> inode t = inode s
      | Some _ \<Rightarrow> look t = look s \<and> inode t = inode s"
    using disk_lawsD(3) [OF assms(1)] assms(2) unfolding law_symlink_def by blast
  then show ?thesis using under_snoc [OF assms(3)] by (cases e) (auto intro: builds_put builds_same)
qed

lemma builds_hardlink:
  assumes "disk_laws fs look inode" "df_hardlink fs s d n d' n' = (e, t)" "under tmp d'"
  shows "builds look inode tmp s t"
proof -
  have "case e of None \<Rightarrow> (\<exists>i. look s (d @ [n]) = Some (FFile i) \<and> look s (d' @ [n']) = None \<and> look t = (look s)(d' @ [n'] \<mapsto> FFile i)) \<and> inode t = inode s
      | Some _ \<Rightarrow> look t = look s \<and> inode t = inode s"
    using disk_lawsD(4) [OF assms(1)] assms(2) unfolding law_hardlink_def by blast
  then show ?thesis using under_snoc [OF assms(3)] by (cases e) (auto intro: builds_put builds_same)
qed

lemma builds_new_file:
  assumes "disk_laws fs look inode" "df_new_file fs s d n = (e, t)" "under tmp d"
  shows "builds look inode tmp s t"
proof -
  have "case e of None \<Rightarrow> (\<exists>i. fresh_at look s (d @ [n]) i \<and> look t = (look s)(d @ [n] \<mapsto> FFile i) \<and> inode t = (inode s)(i := ([], 420)))
      | Some _ \<Rightarrow> look t = look s \<and> inode t = inode s"
    using disk_lawsD(2) [OF assms(1)] assms(2) unfolding law_new_file_def by blast
  then show ?thesis using under_snoc [OF assms(3), of n] by (cases e) (auto simp: builds_def fresh_at_def)
qed

lemma builds_set_mode:
  assumes "disk_laws fs look inode" "df_set_mode fs s d n 493 = (e, t)"
  shows "builds look inode tmp s t"
proof -
  have "look t = look s \<and> (case e of None \<Rightarrow> (\<exists>i. look s (d @ [n]) = Some (FFile i) \<and> inode t = (inode s)(i := (fst (inode s i), 493)))
      | Some _ \<Rightarrow> inode t = inode s)"
    using disk_lawsD(6) [OF assms(1)] assms(2) unfolding law_set_mode_def by blast
  then show ?thesis by (cases e) (auto simp: builds_def)
qed

lemma builds_set_times:
  assumes "disk_laws fs look inode" "df_set_times fs s d n = (e, t)"
  shows "builds look inode tmp s t"
proof -
  have "look t = look s \<and> inode t = inode s"
    using disk_lawsD(5) [OF assms(1)] assms(2) unfolding law_set_times_def by blast
  then show ?thesis by (auto intro: builds_same)
qed

lemma sys_call_Ok: "sys_call f err s = (Ok x, t) \<longleftrightarrow> f s = (None, t)"
  by (auto simp: sys_call_def split: prod.splits option.splits)

lemma builder_sys_call: "(\<And>s e t. f s = (e, t) \<Longrightarrow> builds look inode tmp s t) \<Longrightarrow> builder look inode tmp (sys_call f err)"
  by (auto simp: builder_def sys_call_def split: prod.splits option.splits)

lemma builder_sub_dir [builder_rules]: "builder look inode tmp (disk_sub_dir env d n err)"
  by (auto simp: builder_def disk_sub_dir_def split: option.splits)

lemma builder_ensure_subdir:
  assumes "disk_laws (dk_fs env) look inode" "under tmp d"
  shows "builder look inode tmp (ensure_subdir env d n)"
  unfolding builder_def
proof (intro allI impI)
  fix s r t assume run: "ensure_subdir env d n s = (r, t)"
  obtain e u where c: "df_create_dir (dk_fs env) s d n = (e, u)" by fastforce
  have b: "builds look inode tmp s u" by (rule builds_create_dir [OF assms(1) c assms(2)])
  have same: "disk_sub_dir env d n err u = (x, v) \<Longrightarrow> v = u" for err x v
    by (auto simp: disk_sub_dir_def split: option.splits)
  show "builds look inode tmp s t"
    using run c b same by (auto simp: ensure_subdir_def split: option.splits io_kind.splits)
qed

lemma ensure_subdir_handle:
  "ensure_subdir env d n s = (Ok d', t) \<Longrightarrow> d' = step_into d n"
  by (auto simp: ensure_subdir_def disk_sub_dir_def split: option.splits io_kind.splits prod.splits)

lemma builder_ensure_all:
  assumes "disk_laws (dk_fs env) look inode"
  shows "under tmp d \<Longrightarrow> list_all plain_name ns \<Longrightarrow> builder look inode tmp (ensure_all env d ns)"
proof (induction ns arbitrary: d)
  case (Cons n ns)
  have "builder look inode tmp (ensure_all env d' ns)" if "ensure_subdir env d n s = (Ok d', t)" for s d' t
    using ensure_subdir_handle [OF that] Cons by (simp add: step_into_plain under_snoc)
  then show ?case
    using Cons.prems(1) by (auto intro!: builder_bind builder_ensure_subdir assms)
qed (simp add: builder_ret)

lemma ensure_all_handle:
  "list_all plain_name ns \<Longrightarrow> ensure_all env d ns s = (Ok d', t) \<Longrightarrow> d' = d @ ns"
proof (induction ns arbitrary: d s)
  case (Cons n ns)
  then show ?case using ensure_subdir_handle by (fastforce simp: bind_io_Ok_iff step_into_plain)
qed simp

section \<open>Verifying\<close>

text \<open>The directories of an index are named by plain names from the root.\<close>

definition plain_dir :: "path \<Rightarrow> bool" where
  "plain_dir p \<longleftrightarrow> (\<exists>ns. p = RootDir # map Normal ns \<and> list_all plain_name ns)"

fun plain_entry :: "entry \<Rightarrow> bool" where
  "plain_entry (EntryDir p) \<longleftrightarrow> plain_dir (components p)"
| "plain_entry e \<longleftrightarrow> True"

text \<open>What the commit has checked of an entry.\<close>

fun entry_present ::
  "'s disk_env \<Rightarrow> ('s \<Rightarrow> dpath \<Rightarrow> fnode option) \<Rightarrow> ('s \<Rightarrow> nat \<Rightarrow> bytes \<times> nat) \<Rightarrow> dpath \<Rightarrow> 's \<Rightarrow> entry \<Rightarrow> bool" where
  "entry_present env look inode tmp t (EntryDir p) \<longleftrightarrow>
     rel_names (components p) = [] \<or> look t (tmp @ rel_names (components p)) = Some FDir"
| "entry_present env look inode tmp t (EntryFile p exe sz hs) \<longleftrightarrow>
     (\<exists>i. look t (tmp @ rel_names (components p)) = Some (FFile i) \<and>
        (if sz = 0 then fst (inode t i) = [] else dk_check env hs (fst (inode t i)) \<and> (exe \<longrightarrow> snd (inode t i) = 493)))"
| "entry_present env look inode tmp t (EntryLink p dest) \<longleftrightarrow> look t (tmp @ rel_names (components p)) = Some (FLink dest)"

lemma entry_present_builds:
  assumes "builds look inode tmp' s t" "entry_present env look inode tmp s e"
  shows "entry_present env look inode tmp t e"
proof (cases e)
  case (EntryFile p exe sz hs)
  then obtain i where i: "look s (tmp @ rel_names (components p)) = Some (FFile i)"
      "if sz = 0 then fst (inode s i) = [] else dk_check env hs (fst (inode s i)) \<and> (exe \<longrightarrow> snd (inode s i) = 493)"
    using assms(2) by auto
  show ?thesis using buildsD(2-4) [OF assms(1) i(1)] i EntryFile by (auto split: if_splits)
qed (use assms(2) buildsD(2) [OF assms(1)] in auto)

definition cur_ok :: "dpath \<Rightarrow> (dpath \<times> path) option \<Rightarrow> bool" where
  "cur_ok tmp cur \<longleftrightarrow> (\<forall>d p. cur = Some (d, p) \<longrightarrow> (\<exists>ns. p = RootDir # map Normal ns \<and> d = tmp @ ns))"

lemma rel_names_plain: "rel_names (RootDir # map Normal ns) = ns"
  by (simp add: rel_names_def comp_def)

lemma entry_place_ok:
  assumes "entry_place cur p = Ok (dir, fname)" "cur_ok tmp cur"
  shows "under tmp dir \<and> dir @ [fname] = tmp @ rel_names p"
proof -
  obtain dp where cur: "cur = Some (dir, dp)" "path_parent p = Some dp" "path_file_name p = Some fname"
    using assms(1) by (auto simp: entry_place_def split: if_splits)
  obtain ns where ns: "dp = RootDir # map Normal ns" "dir = tmp @ ns" using assms(2) cur(1) by (auto simp: cur_ok_def)
  have "p \<noteq> []" "last p = Normal fname" "butlast p = dp"
    using cur(2,3) by (auto simp: path_parent_def path_file_name_def split: if_splits component.splits)
  then have "p = dp @ [Normal fname]" by (metis append_butlast_last_id)
  then have "p = RootDir # map Normal (ns @ [fname])" by (simp add: ns(1))
  then show ?thesis using ns(2) by (simp only: rel_names_plain) (simp add: under_def)
qed

lemma open_file_look:
  "disk_laws fs look inode \<Longrightarrow> df_open_file fs s d n = Inr x \<Longrightarrow> \<exists>i. look s (d @ [n]) = Some (FFile i) \<and> inode s i = x"
  using disk_lawsD(12) unfolding law_reads_def by blast

lemma sub_dir_look: "disk_laws fs look inode \<Longrightarrow> df_sub_dir fs s d n = None \<Longrightarrow> look s (step_into d n) = Some FDir"
  using disk_lawsD(12) unfolding law_reads_def by blast

lemma builder_commit_empty:
  assumes "disk_laws (dk_fs env) look inode" "under tmp dir"
  shows "builder look inode tmp (commit_empty_file env dir fname exe)"
  unfolding builder_def
proof (intro allI impI)
  fix s r t assume run: "commit_empty_file env dir fname exe s = (r, t)"
  obtain e u where n: "df_new_file (dk_fs env) s dir fname = (e, u)" by fastforce
  have b: "builds look inode tmp s u" by (rule builds_new_file [OF assms(1) n assms(2)])
  have m: "builds look inode tmp u v" if "df_set_mode (dk_fs env) u dir fname 493 = (x, v)" for x v
    by (rule builds_set_mode [OF assms(1) that])
  show "builds look inode tmp s t"
    using run n b builds_trans [OF b m]
    by (auto simp: commit_empty_file_def sys_call_def split: option.splits io_kind.splits sum.splits prod.splits if_splits)
qed

lemma builder_open_file:
  "(\<And>b m. builder look inode tmp (f b m)) \<Longrightarrow>
    builder look inode tmp (\<lambda>s. case g s of Inl e \<Rightarrow> (Err (h e), s) | Inr (b, m) \<Rightarrow> f b m s)"
  unfolding builder_def by (auto split: sum.splits)

lemma builder_commit_file:
  assumes "disk_laws (dk_fs env) look inode"
  shows "builder look inode tmp (commit_file env dir fname exe hs)"
proof -
  have times: "builder look inode tmp (sys_call (\<lambda>s. df_set_times (dk_fs env) s dir fname) err)" for err
    by (rule builder_sys_call) (rule builds_set_times [OF assms])
  have modes: "builder look inode tmp (sys_call (\<lambda>s. df_set_mode (dk_fs env) s dir fname 493) err)" for err
    by (rule builder_sys_call) (rule builds_set_mode [OF assms])
  have "builder look inode tmp (bind_io (sys_call (\<lambda>s. df_set_times (dk_fs env) s dir fname) (DSetTimestamp (dir @ [fname]))) (\<lambda>_.
          if \<not> dk_check env hs b then ret (Err (DChecksum (dir @ [fname])))
          else if exe then sys_call (\<lambda>s. df_set_mode (dk_fs env) s dir fname 493) (DSetPermissions (dir @ [fname]))
          else ret (Ok ())))" for b
    by (rule builder_bind [OF times]) (simp add: modes builder_ret)
  then show ?thesis unfolding commit_file_def by (rule builder_open_file)
qed

lemma builder_commit_entry:
  assumes "disk_laws (dk_fs env) look inode" "plain_entry e" "cur_ok (im_temporary im) cur"
  shows "builder look inode (im_temporary im) (commit_entry env im e cur)"
proof -
  have self: "under (im_temporary im) (im_temporary im)" by (simp add: under_def)
  have link: "builder look inode (im_temporary im) (sys_call (\<lambda>s. df_symlink (dk_fs env) s dir fname x) err)"
    if "under (im_temporary im) dir" for dir fname x err
    by (rule builder_sys_call) (rule builds_symlink [OF assms(1) _ that])
  have place: "builder look inode (im_temporary im) (bind_io (ret (entry_place cur p)) f)"
    if "\<And>dir fname. under (im_temporary im) dir \<Longrightarrow> builder look inode (im_temporary im) (f (dir, fname))"
    for p and f :: "dpath \<times> string \<Rightarrow> ('a, (dpath \<times> path) option, disk_error) io"
  proof (rule builder_bind [OF builder_ret])
    fix s x t assume "ret (entry_place cur p :: (_, disk_error) result) s = (Ok x, t)"
    then have "entry_place cur p = (Ok x :: (_, disk_error) result)" by (simp add: ret_def)
    then show "builder look inode (im_temporary im) (f x)" using entry_place_ok [OF _ assms(3)] that by (cases x) blast
  qed
  show ?thesis
  proof (cases e)
    case (EntryDir p)
    then obtain ns where ns: "components p = RootDir # map Normal ns" "list_all plain_name ns"
      using assms(2) by (auto simp: plain_dir_def)
    show ?thesis unfolding commit_entry_def EntryDir entry.case ensure_path_def ns(1) rel_names_plain
      by (rule builder_bind [OF builder_ensure_all [OF assms(1) self ns(2)]]) (rule builder_ret)
  next
    case (EntryLink p dest)
    show ?thesis unfolding commit_entry_def EntryLink entry.case
      by (rule place) (simp add: builder_bind [OF link] builder_ret)
  next
    case (EntryFile p exe sz hs)
    show ?thesis unfolding commit_entry_def EntryFile entry.case
      by (rule place)
        (simp add: builder_bind [OF builder_commit_empty [OF assms(1)]] builder_bind [OF builder_commit_file [OF assms(1)]] builder_ret)
  qed
qed

text \<open>The file that was checked is at the place of the entry.\<close>

lemma commit_empty_file_ok:
  assumes "disk_laws (dk_fs env) look inode" "commit_empty_file env dir fname exe s = (Ok (), t)"
  shows "\<exists>i. look t (dir @ [fname]) = Some (FFile i) \<and> fst (inode t i) = []"
proof -
  obtain e u where n: "df_new_file (dk_fs env) s dir fname = (e, u)" by fastforce
  show ?thesis
  proof (cases e)
    case None
    then obtain i where i: "look u (dir @ [fname]) = Some (FFile i)" "fst (inode u i) = []"
      using disk_lawsD(2) [OF assms(1)] n unfolding law_new_file_def by fastforce
    have "builds look inode [] u t"
      using assms(2) n None builds_set_mode [OF assms(1)]
      by (auto simp: commit_empty_file_def sys_call_def split: if_splits option.splits prod.splits)
    from buildsD(2,3) [OF this i(1)] i(2) show ?thesis by auto
  next
    case (Some k)
    then obtain b m where "df_open_file (dk_fs env) u dir fname = Inr (b, m)" "b = []" "t = u"
      using assms(2) n by (auto simp: commit_empty_file_def split: io_kind.splits sum.splits if_splits)
    then show ?thesis using open_file_look [OF assms(1)] by fastforce
  qed
qed

lemma commit_file_ok:
  assumes "disk_laws (dk_fs env) look inode" "commit_file env dir fname exe hs s = (Ok (), t)"
  shows "\<exists>i. look t (dir @ [fname]) = Some (FFile i) \<and> dk_check env hs (fst (inode t i)) \<and> (exe \<longrightarrow> snd (inode t i) = 493)"
proof -
  obtain b m where f: "df_open_file (dk_fs env) s dir fname = Inr (b, m)" and ok: "dk_check env hs b"
    using assms(2) by (auto simp: commit_file_def bind_io_Ok_iff split: sum.splits if_splits)
  obtain i where i: "look s (dir @ [fname]) = Some (FFile i)" "inode s i = (b, m)" using open_file_look [OF assms(1) f] by blast
  obtain u where u: "df_set_times (dk_fs env) s dir fname = (None, u)"
    and rest: "(if exe then sys_call (\<lambda>s. df_set_mode (dk_fs env) s dir fname 493) (DSetPermissions (dir @ [fname])) else ret (Ok ())) u = (Ok (), t)"
    using assms(2) f ok by (auto simp: commit_file_def bind_io_Ok_iff sys_call_def split: option.splits prod.splits)
  have same: "look u = look s" "inode u = inode s"
    using disk_lawsD(5) [OF assms(1)] u unfolding law_set_times_def by blast+
  show ?thesis
  proof (cases exe)
    case True
    then have "df_set_mode (dk_fs env) u dir fname 493 = (None, t)"
      using rest by (auto simp: sys_call_def split: option.splits prod.splits)
    then have "look t = look u \<and> (\<exists>j. look u (dir @ [fname]) = Some (FFile j) \<and> inode t = (inode u)(j := (fst (inode u j), 493)))"
      using disk_lawsD(6) [OF assms(1)] unfolding law_set_mode_def by fastforce
    then show ?thesis using i ok same by auto
  next
    case False
    then show ?thesis using rest i ok same by auto
  qed
qed

lemma ensure_subdir_look:
  assumes "disk_laws (dk_fs env) look inode" "ensure_subdir env d n s = (Ok d', t)"
  shows "look t d' = Some FDir"
proof -
  have "df_sub_dir (dk_fs env) t d n = None" "d' = step_into d n"
    using assms(2) by (auto simp: ensure_subdir_def disk_sub_dir_def split: option.splits io_kind.splits prod.splits)
  then show ?thesis using sub_dir_look [OF assms(1)] by simp
qed

lemma ensure_all_look:
  "disk_laws (dk_fs env) look inode \<Longrightarrow> ns \<noteq> [] \<Longrightarrow> ensure_all env d ns s = (Ok d', t) \<Longrightarrow> look t d' = Some FDir"
proof (induction ns arbitrary: d s)
  case (Cons n ns)
  then show ?case
    by (cases ns) (auto simp: bind_io_Ok_iff dest: ensure_subdir_look)
qed simp

lemma commit_entry_ok:
  assumes laws: "disk_laws (dk_fs env) look inode" and plain: "plain_entry e" and cur: "cur_ok (im_temporary im) cur"
    and run: "commit_entry env im e cur s = (Ok cur', t)"
  shows "cur_ok (im_temporary im) cur' \<and> entry_present env look inode (im_temporary im) t e"
proof (cases e)
  case (EntryDir p)
  then obtain ns where ns: "components p = RootDir # map Normal ns" "list_all plain_name ns"
    using plain by (auto simp: plain_dir_def)
  obtain d where d: "ensure_all env (im_temporary im) ns s = (Ok d, t)" "cur' = Some (d, components p)"
    using run EntryDir by (auto simp: commit_entry_def ensure_path_def ns(1) rel_names_plain bind_io_Ok_iff)
  have "d = im_temporary im @ ns" by (rule ensure_all_handle [OF ns(2) d(1)])
  moreover have "ns \<noteq> [] \<longrightarrow> look t d = Some FDir" using ensure_all_look [OF laws _ d(1)] by blast
  ultimately show ?thesis using d(2) EntryDir ns(1) by (auto simp: cur_ok_def rel_names_plain)
next
  case (EntryLink p dest)
  obtain dir fname where pl: "entry_place cur (components p) = (Ok (dir, fname) :: (_, disk_error) result)" and "cur' = cur"
    and l: "df_symlink (dk_fs env) s dir fname dest = (None, t)"
    using run EntryLink by (auto simp: commit_entry_def bind_io_Ok_iff sys_call_Ok)
  have "look t (dir @ [fname]) = Some (FLink dest)" using disk_lawsD(3) [OF laws] l unfolding law_symlink_def by fastforce
  then show ?thesis using entry_place_ok [OF pl cur] EntryLink cur \<open>cur' = cur\<close> by simp
next
  case (EntryFile p exe sz hs)
  obtain dir fname where pl: "entry_place cur (components p) = (Ok (dir, fname) :: (_, disk_error) result)" and "cur' = cur"
    and f: "(if sz = 0 then commit_empty_file env dir fname exe else commit_file env dir fname exe hs) s = (Ok (), t)"
    using run EntryFile by (auto simp: commit_entry_def bind_io_Ok_iff)
  have "\<exists>i. look t (dir @ [fname]) = Some (FFile i) \<and>
      (if sz = 0 then fst (inode t i) = [] else dk_check env hs (fst (inode t i)) \<and> (exe \<longrightarrow> snd (inode t i) = 493))"
    using f commit_empty_file_ok [OF laws] commit_file_ok [OF laws] by (cases "sz = 0") simp_all
  then show ?thesis using entry_place_ok [OF pl cur] EntryFile cur \<open>cur' = cur\<close> by simp
qed

lemma commit_entries_run:
  assumes laws: "disk_laws (dk_fs env) look inode"
  shows "list_all plain_entry es \<Longrightarrow> cur_ok (im_temporary im) cur \<Longrightarrow> commit_entries env im es cur s = (r, t) \<Longrightarrow>
    builds look inode (im_temporary im) s t \<and>
    (r = Ok () \<longrightarrow> list_all (entry_present env look inode (im_temporary im) t) es)"
proof (induction es arbitrary: cur s)
  case (Cons e es)
  have pe: "plain_entry e" "list_all plain_entry es" using Cons.prems(1) by simp_all
  obtain x u where x: "commit_entry env im e cur s = (x, u)" by fastforce
  have b: "builds look inode (im_temporary im) s u"
    using builder_commit_entry [OF laws pe(1) Cons.prems(2)] x by (auto simp: builder_def)
  show ?case
  proof (cases x)
    case (Ok cur')
    then have rest: "commit_entries env im es cur' u = (r, t)" using Cons.prems(3) x by simp
    have e: "cur_ok (im_temporary im) cur'" "entry_present env look inode (im_temporary im) u e"
      using commit_entry_ok [OF laws pe(1) Cons.prems(2)] x Ok by blast+
    note IH = Cons.IH [OF pe(2) e(1) rest]
    then show ?thesis using builds_trans [OF b] entry_present_builds [OF _ e(2)] by auto
  qed (use Cons.prems(3) x b in auto)
qed simp

section \<open>Removing\<close>

text \<open>Removal changes nothing but what is below the given paths.\<close>

definition trims ::
  "('s \<Rightarrow> dpath \<Rightarrow> fnode option) \<Rightarrow> ('s \<Rightarrow> nat \<Rightarrow> bytes \<times> nat) \<Rightarrow> dpath set \<Rightarrow> 's \<Rightarrow> 's \<Rightarrow> bool" where
  "trims look inode Q s t \<longleftrightarrow> inode t = inode s \<and> (\<forall>p. (\<forall>q\<in>Q. \<not> under q p) \<longrightarrow> look t p = look s p)"

definition trimmer ::
  "('s \<Rightarrow> dpath \<Rightarrow> fnode option) \<Rightarrow> ('s \<Rightarrow> nat \<Rightarrow> bytes \<times> nat) \<Rightarrow> dpath set \<Rightarrow> ('s, 'x, 'e) io \<Rightarrow> bool" where
  "trimmer look inode Q m \<longleftrightarrow> (\<forall>s r t. m s = (r, t) \<longrightarrow> trims look inode Q s t)"

lemma trims_refl [simp]: "trims look inode Q s s"
  by (simp add: trims_def)

lemma trims_trans: "trims look inode Q s t \<Longrightarrow> trims look inode Q t u \<Longrightarrow> trims look inode Q s u"
  by (simp add: trims_def)

lemma trims_mono: "trims look inode Q s t \<Longrightarrow> (\<And>q. q \<in> Q \<Longrightarrow> \<exists>q'\<in>Q'. under q' q) \<Longrightarrow> trims look inode Q' s t"
  unfolding trims_def
proof (intro conjI allI impI)
  fix p assume t: "inode t = inode s \<and> (\<forall>p. (\<forall>q\<in>Q. \<not> under q p) \<longrightarrow> look t p = look s p)"
    and sub: "\<And>q. q \<in> Q \<Longrightarrow> \<exists>q'\<in>Q'. under q' q" and out: "\<forall>q\<in>Q'. \<not> under q p"
  have "\<not> under q p" if "q \<in> Q" for q
  proof
    assume "under q p"
    obtain q' where "q' \<in> Q'" "under q' q" using sub \<open>q \<in> Q\<close> by blast
    moreover from this \<open>under q p\<close> have "under q' p"
      unfolding under_def by (metis append_take_drop_id length_append min.absorb1 nat_le_iff_add take_take length_take)
    ultimately show False using out by blast
  qed
  then show "look t p = look s p" using t by blast
qed simp

lemma trimmer_ret: "trimmer look inode Q (ret r)"
  by (simp add: trimmer_def ret_def)

lemma trimmer_bind: "trimmer look inode Q m \<Longrightarrow> (\<And>x. trimmer look inode Q (f x)) \<Longrightarrow> trimmer look inode Q (bind_io m f)"
  unfolding trimmer_def bind_io_def
  by (auto split: prod.splits result.splits) (blast intro: trims_trans)

lemma trimmer_for: "(\<And>x. x \<in> set xs \<Longrightarrow> trimmer look inode Q (f x)) \<Longrightarrow> trimmer look inode Q (for_io xs f)"
  by (induction xs) (auto intro: trimmer_bind trimmer_ret)

lemma trims_remove_file:
  assumes "disk_laws fs look inode" "df_remove_file fs s d n = (e, t)"
  shows "trims look inode {d @ [n]} s t"
proof -
  have "inode t = inode s \<and> (look t = look s \<or> e = None \<and> look t = (look s)(d @ [n] := None))"
    using disk_lawsD(8) [OF assms(1)] assms(2) unfolding law_remove_file_def by blast
  then show ?thesis by (auto simp: trims_def under_def)
qed

lemma trims_remove_dir:
  assumes "disk_laws fs look inode" "df_remove_dir fs s d n = (e, t)"
  shows "trims look inode {d @ [n]} s t"
proof -
  have "inode t = inode s \<and> (look t = look s \<or> e = None \<and> look t = (look s)(d @ [n] := None))"
    using disk_lawsD(9) [OF assms(1)] assms(2) unfolding law_remove_dir_def by blast
  then show ?thesis by (auto simp: trims_def under_def)
qed

lemma trimmer_skip_not_found:
  "(\<And>s e t. f s = (e, t) \<Longrightarrow> trims look inode Q s t) \<Longrightarrow> trimmer look inode Q (skip_not_found f err)"
  by (auto simp: trimmer_def skip_not_found_def split: prod.splits option.splits io_kind.splits)

lemma trimmer_sys_call: "(\<And>s e t. f s = (e, t) \<Longrightarrow> trims look inode Q s t) \<Longrightarrow> trimmer look inode Q (sys_call f err)"
  by (auto simp: trimmer_def sys_call_def split: prod.splits option.splits)

lemma under_below: "under d (d @ [n])"
  by (simp add: under_def)

lemma trimmer_remove_entry:
  assumes laws: "disk_laws (dk_fs env) look inode" and rec: "\<And>d n. plain_name n \<Longrightarrow> trimmer look inode {d @ [n]} (recurse d n)"
    and plain: "\<forall>n x. entry = Inr (n, x) \<longrightarrow> plain_name n"
  shows "trimmer look inode {me} (remove_entry recurse env w dir me entry)"
proof (cases entry)
  case (Inr nt)
  obtain n ty where nt: "nt = (n, ty)" by fastforce
  have n: "plain_name n" using plain Inr nt by blast
  have up: "trims look inode {me @ [n]} s t \<Longrightarrow> trims look inode {me} s t" for s t
    by (erule trims_mono) (simp add: under_below)
  have r: "trims look inode {me} s t" if "recurse me n s = (r, t)" for s r t
    using rec [OF n, of me] that up unfolding trimmer_def by blast
  have f: "trims look inode {me} s t" if "skip_not_found (\<lambda>s. df_remove_file (dk_fs env) s me n) err s = (r, t)" for err s r t
    using trimmer_skip_not_found [of "\<lambda>s. df_remove_file (dk_fs env) s me n" look inode "{me}" err] trims_remove_file [OF laws] up that
    unfolding trimmer_def by blast
  show ?thesis unfolding trimmer_def
    using r f by (auto simp: remove_entry_def Inr nt split: option.splits sum.splits io_kind.splits simple_type.splits)
qed (simp add: remove_entry_def trimmer_ret)

lemma list_dir_plain:
  "disk_laws fs look inode \<Longrightarrow> df_list_dir fs s d = Inr es \<Longrightarrow> e \<in> set es \<Longrightarrow> e = Inr (n, x) \<Longrightarrow> plain_name n"
  using disk_lawsD(12) unfolding law_reads_def plain_name_def by blast

text \<open>The removal of a listed directory, which both functions share.\<close>

lemma trims_remove_listed:
  assumes laws: "disk_laws (dk_fs env) look inode" and rec: "\<And>d n. plain_name n \<Longrightarrow> trimmer look inode {d @ [n]} (recurse d n)"
    and es: "df_list_dir (dk_fs env) s (dir @ [inp]) = Inr es"
    and run: "bind_io (for_io es (remove_entry recurse env w dir (dir @ [inp])))
      (\<lambda>_. skip_not_found (\<lambda>s. df_remove_dir (dk_fs env) s dir inp) err) s = (r, t)"
  shows "trims look inode {dir @ [inp]} s t"
proof -
  have "trimmer look inode {dir @ [inp]} (bind_io (for_io es (remove_entry recurse env w dir (dir @ [inp])))
      (\<lambda>_. skip_not_found (\<lambda>s. df_remove_dir (dk_fs env) s dir inp) err))"
    by (intro trimmer_bind trimmer_for trimmer_remove_entry [OF laws rec] trimmer_skip_not_found trims_remove_dir [OF laws])
      (auto intro: list_dir_plain [OF laws es])
  then show ?thesis using run unfolding trimmer_def by blast
qed

lemma trimmer_remove_by_entry:
  assumes laws: "disk_laws (dk_fs env) look inode"
  shows "plain_name inp \<Longrightarrow> trimmer look inode {dir @ [inp]} (remove_by_entry k env dir inp)"
proof (induction k arbitrary: dir inp)
  case (Suc k)
  note rec = trims_remove_listed [OF laws Suc.IH]
  show ?case unfolding trimmer_def
    using rec Suc.prems
    by (auto simp: step_into_plain Let_def split: option.splits io_kind.splits sum.splits prod.splits)
qed (simp add: trimmer_ret)

lemma trimmer_remove_by_str:
  assumes laws: "disk_laws (dk_fs env) look inode" and plain: "plain_name name"
  shows "trimmer look inode {dir @ [name]} (remove_by_str env dir name)"
proof -
  note rec = trims_remove_listed [OF laws trimmer_remove_by_entry [OF laws]]
  have f: "trims look inode {dir @ [name]} s t" if "sys_call (\<lambda>s. df_remove_file (dk_fs env) s dir name) err s = (r, t)" for err s r t
    using trimmer_sys_call [of "\<lambda>s. df_remove_file (dk_fs env) s dir name" look inode "{dir @ [name]}" err] trims_remove_file [OF laws] that
    unfolding trimmer_def by blast
  show ?thesis unfolding trimmer_def
    using rec f plain
    by (auto simp: remove_by_str_def step_into_plain Let_def split: option.splits io_kind.splits sum.splits prod.splits bool.splits)
qed

lemma plain_old_name: "plain_name (old_name n)"
  by (simp add: plain_name_def old_name_def)

lemma trimmer_remove_dir_recursive:
  assumes laws: "disk_laws (dk_fs env) look inode"
  shows "trimmer look inode {dir @ [name], dir @ [old_name name]} (remove_dir_recursive env dir name)"
proof -
  let ?Q = "{dir @ [name], dir @ [old_name name]}"
  have rm: "trims look inode ?Q s t" if "remove_by_str env dir (old_name name) s = (r, t)" for s r t
  proof -
    have "trims look inode {dir @ [old_name name]} s t"
      using trimmer_remove_by_str [OF laws plain_old_name] that unfolding trimmer_def by blast
    then show ?thesis by (rule trims_mono) (auto simp: under_def)
  qed
  have ren: "trims look inode ?Q s t" if "df_local_rename (dk_fs env) s dir name (old_name name) = (e, t)" for s e t
  proof -
    have "inode t = inode s \<and> look t = (case e of None \<Rightarrow> moved (look s) dir name (old_name name) | Some _ \<Rightarrow> look s)"
      using disk_lawsD(10) [OF laws] that unfolding law_local_rename_def by blast
    then show ?thesis by (cases e) (auto simp: trims_def moved_def)
  qed
  have "trims look inode ?Q s t" if "(case df_local_rename (dk_fs env) s dir name (old_name name) of
      (None, t) \<Rightarrow> remove_by_str env dir (old_name name) t
    | (Some NotFound, t) \<Rightarrow> (Ok (), t)
    | (Some e, t) \<Rightarrow> (Err (DRenameDir (dir @ [name]) e), t)) = (r, t)" for s r t
    using that ren rm by (auto split: prod.splits option.splits io_kind.splits) (blast intro: trims_trans)+
  then show ?thesis unfolding remove_dir_recursive_def
    by (intro trimmer_bind) (auto simp: trimmer_def rm)
qed

section \<open>Publishing\<close>

definition image_dir_ok :: "disk_image \<Rightarrow> string \<Rightarrow> bool" where
  "image_dir_ok im fname \<longleftrightarrow> vp_final_name (im_virtual_path im) = Some fname \<and> im_temporary_name im = ''.tmp.'' @ fname \<and>
     im_temporary im = im_parent im @ [im_temporary_name im]"

lemma image_names_apart:
  "''.tmp.'' @ fname \<noteq> fname" "fname \<noteq> ''.tmp.'' @ fname" "old_name (''.tmp.'' @ fname) \<noteq> fname" "fname \<noteq> old_name (''.tmp.'' @ fname)"
  by (auto simp: old_name_def dest: arg_cong [of _ _ length])

lemma under_append_one: "under (d @ [a]) (d @ b # q) \<longleftrightarrow> a = b"
  by (auto simp: under_def)

definition image_paths :: "disk_image \<Rightarrow> string \<Rightarrow> dpath set" where
  "image_paths im fname = {im_parent im @ [fname], im_temporary im, im_parent im @ [old_name (im_temporary_name im)]}"

lemma publish_tree_run:
  assumes laws: "disk_laws (dk_fs env) look inode" and im: "image_dir_ok im fname" and run: "publish_tree env im s = (r, t)"
  shows "trims look inode (image_paths im fname) s t \<and>
    ((\<forall>q. look t (im_parent im @ fname # q) = look s (im_temporary im @ q)) \<or>
     r \<noteq> Ok () \<and> (\<forall>q. look t (im_parent im @ fname # q) = look s (im_parent im @ fname # q)))"
proof -
  let ?par = "im_parent im" and ?tmp = "im_temporary_name im"
  have names: "?tmp = ''.tmp.'' @ fname" "vp_final_name (im_virtual_path im) = Some fname" "im_temporary im = ?par @ [?tmp]"
    using im by (simp_all add: image_dir_ok_def)
  have apart: "?tmp \<noteq> fname" "old_name ?tmp \<noteq> fname"
    unfolding names(1) by (rule image_names_apart)+
  have ren: "trims look inode (image_paths im fname) s u \<and>
      (\<forall>q. look u (?par @ fname # q) = look s (if e = None then ?par @ ?tmp # q else ?par @ fname # q))"
    if "df_local_rename (dk_fs env) s ?par ?tmp fname = (e, u)" for e u
  proof -
    have "inode u = inode s \<and> look u = (case e of None \<Rightarrow> moved (look s) ?par ?tmp fname | Some _ \<Rightarrow> look s)"
      using disk_lawsD(10) [OF laws] that unfolding law_local_rename_def by blast
    then show ?thesis by (cases e) (auto simp: trims_def moved_def image_paths_def names(3) under_append_one)
  qed
  have exch: "trims look inode (image_paths im fname) s u \<and>
      (\<forall>q. look u (?par @ fname # q) = look s (if e = None then ?par @ ?tmp # q else ?par @ fname # q))"
    if "df_local_exchange (dk_fs env) s ?par ?tmp fname = (e, u)" for e u
  proof -
    have "inode u = inode s \<and> look u = (case e of None \<Rightarrow> swapped (look s) ?par ?tmp fname | Some _ \<Rightarrow> look s)"
      using disk_lawsD(11) [OF laws] that unfolding law_local_exchange_def by blast
    then show ?thesis by (cases e)
      (auto simp: trims_def swapped_def image_paths_def names(3) under_append_one apart)
  qed
  have rm: "trims look inode (image_paths im fname) u v \<and> (\<forall>q. look v (?par @ fname # q) = look u (?par @ fname # q))"
    if "remove_dir_recursive env ?par ?tmp u = (x, v)" for u v x
  proof -
    have "trims look inode {?par @ [?tmp], ?par @ [old_name ?tmp]} u v"
      using trimmer_remove_dir_recursive [OF laws] that unfolding trimmer_def by blast
    moreover from this have "trims look inode (image_paths im fname) u v"
      by (rule trims_mono) (auto simp: image_paths_def names(3) under_def)
    ultimately show ?thesis by (auto simp: trims_def under_append_one apart)
  qed
  show ?thesis
  proof (cases "df_metadata (dk_fs env) s ?par fname")
    case (Inr ty)
    obtain e u where e: "df_local_exchange (dk_fs env) s ?par ?tmp fname = (e, u)" by fastforce
    obtain x v where v: "remove_dir_recursive env ?par ?tmp u = (x, v)" by fastforce
    note ex = exch [OF e] and rmv = rm [OF v]
    show ?thesis
    proof (cases e)
      case None
      then have "t = v" using run Inr e v by (simp add: publish_tree_def Let_def names(2) bind_io_def sys_call_def)
      then show ?thesis using ex rmv None trims_trans by (auto simp: names(3))
    next
      case (Some k)
      then show ?thesis using run Inr e ex by (auto simp: publish_tree_def Let_def names(2) bind_io_def sys_call_def)
    qed
  next
    case (Inl k)
    obtain e u where e: "df_local_rename (dk_fs env) s ?par ?tmp fname = (e, u)" by fastforce
    show ?thesis using run Inl e ren [OF e]
      by (cases k; cases e) (auto simp: publish_tree_def Let_def names(2,3) sys_call_def)
  qed
qed

lemma seen_at_builds: "builds look inode tmp s t \<Longrightarrow> \<not> under tmp p \<Longrightarrow> seen_at look inode t p = seen_at look inode s p"
  using buildsD(1,3) by (fastforce simp: seen_at_def split: option.splits fnode.splits)

lemma seen_at_same: "look t p = look s q \<Longrightarrow> inode t = inode s \<Longrightarrow> seen_at look inode t p = seen_at look inode s q"
  by (simp add: seen_at_def split: option.split fnode.split)

lemma entry_present_moved:
  assumes "entry_present env look inode tmp u e" "inode t = inode u" "\<And>q. look t (dst @ q) = look u (tmp @ q)"
  shows "entry_present env look inode dst t e"
  using assms by (cases e) auto

lemma image_paths_outside:
  assumes "image_dir_ok im fname"
  shows "\<not> under (im_temporary im) (im_parent im @ fname # q)"
    "(\<forall>q\<in>image_paths im fname. \<not> under q p) \<Longrightarrow> \<not> under (im_temporary im) p"
  using assms by (auto simp: image_dir_ok_def image_paths_def under_append_one image_names_apart simp del: append_Cons)

text \<open>A failure before the image is published leaves all as it was but for the temporary directory.\<close>

lemma commit_image_run:
  assumes laws: "disk_laws (dk_fs env) look inode" and plain: "list_all plain_entry (ix_entries ix)"
    and im: "image_dir_ok im fname" and run: "commit_image env ix im s = (r, t)"
  shows "(\<forall>p. (\<forall>q\<in>image_paths im fname. \<not> under q p) \<longrightarrow> seen_at look inode t p = seen_at look inode s p) \<and>
    (list_all (entry_present env look inode (im_parent im @ [fname]) t) (ix_entries ix) \<or>
     r \<noteq> Ok () \<and> (\<forall>q. seen_at look inode t (im_parent im @ fname # q) = seen_at look inode s (im_parent im @ fname # q)))"
proof -
  obtain x u where x: "commit_entries env im (ix_entries ix) None s = (x, u)" by fastforce
  have c: "builds look inode (im_temporary im) s u"
      "x = Ok () \<Longrightarrow> list_all (entry_present env look inode (im_temporary im) u) (ix_entries ix)"
    using commit_entries_run [OF laws plain _ x] by (auto simp: cur_ok_def)
  note bs = seen_at_builds [OF c(1)] and out = image_paths_outside [OF im]
  show ?thesis
  proof (cases "x = Ok ()")
    case True
    then have "publish_tree env im u = (r, t)" using run x by (simp add: commit_image_def bind_io_def)
    note pub = publish_tree_run [OF laws im this]
    then have inode: "inode t = inode u" by (simp add: trims_def)
    have 1: "seen_at look inode t p = seen_at look inode s p" if "\<forall>q\<in>image_paths im fname. \<not> under q p" for p
      using pub that seen_at_same [OF _ inode, of look p p] bs out(2) by (simp add: trims_def)
    from pub consider (new) "\<forall>q. look t (im_parent im @ fname # q) = look u (im_temporary im @ q)"
      | (old) "r \<noteq> Ok ()" "\<forall>q. look t (im_parent im @ fname # q) = look u (im_parent im @ fname # q)" by blast
    then show ?thesis
    proof cases
      case new
      have "entry_present env look inode (im_parent im @ [fname]) t e" if "e \<in> set (ix_entries ix)" for e
        by (rule entry_present_moved [OF _ inode]) (use c(2) True that new in \<open>simp_all add: list_all_iff\<close>)
      then show ?thesis using 1 by (simp add: list_all_iff)
    next
      case old
      then show ?thesis using 1 seen_at_same [OF _ inode] bs out(1) by metis
    qed
  next
    case False
    then have "r \<noteq> Ok ()" "t = u" using run x by (cases x; simp add: commit_image_def bind_io_def)+
    then show ?thesis using bs out by blast
  qed
qed

text \<open>
  When the old tree cannot be removed after the exchange, the commit reports an error, though the new image is in place.
\<close>

lemma commit_error_after_exchange:
  assumes laws: "disk_laws (dk_fs env) look inode" and im: "image_dir_ok im fname"
    and exists: "df_metadata (dk_fs env) s (im_parent im) fname = Inr ty"
    and ex: "df_local_exchange (dk_fs env) s (im_parent im) (im_temporary_name im) fname = (None, u)"
    and rm: "remove_dir_recursive env (im_parent im) (im_temporary_name im) u = (Err e, v)"
  shows "publish_tree env im s = (Err e, v) \<and> (\<forall>q. look v (im_parent im @ fname # q) = look s (im_temporary im @ q))"
proof -
  let ?par = "im_parent im" and ?tmp = "im_temporary_name im"
  have names: "?tmp = ''.tmp.'' @ fname" "vp_final_name (im_virtual_path im) = Some fname" "im_temporary im = ?par @ [?tmp]"
    using im by (simp_all add: image_dir_ok_def)
  have apart: "?tmp \<noteq> fname" "old_name ?tmp \<noteq> fname"
    unfolding names(1) by (rule image_names_apart)+
  have "look u = swapped (look s) ?par ?tmp fname"
    using disk_lawsD(11) [OF laws] ex unfolding law_local_exchange_def by fastforce
  then have "look u (?par @ fname # q) = look s (im_temporary im @ q)" for q
    by (simp add: swapped_def names(3) under_append_one apart)
  moreover have "trims look inode {?par @ [?tmp], ?par @ [old_name ?tmp]} u v"
    using trimmer_remove_dir_recursive [OF laws] rm unfolding trimmer_def by blast
  then have "look v (?par @ fname # q) = look u (?par @ fname # q)" for q
    by (simp add: trims_def under_append_one apart)
  ultimately show ?thesis
    using exists ex rm by (simp add: publish_tree_def Let_def names(2) bind_io_def sys_call_def)
qed

end
