(* ===== verification/Disk_Memory.thy ===== *)
theory Disk_Memory
  imports Disk_Commit
begin

text \<open>
  A disk kept in memory that obeys the laws of the calls: a list of what is at each path, and the inodes. With it the
  operations of the disk run on concrete inputs.
\<close>

record mem_disk =
  md_nodes :: "(dpath \<times> fnode) list"
  md_inodes :: "nat \<Rightarrow> bytes \<times> nat"

definition mem_look :: "mem_disk \<Rightarrow> dpath \<Rightarrow> fnode option" where
  "mem_look s = map_of (md_nodes s)"

fun inode_of :: "fnode \<Rightarrow> nat" where
  "inode_of (FFile i) = i"
| "inode_of _ = 0"

fun next_inode :: "(dpath \<times> fnode) list \<Rightarrow> nat" where
  "next_inode [] = 0"
| "next_inode ((p, x) # xs) = max (Suc (inode_of x)) (next_inode xs)"

definition mem_put :: "dpath \<Rightarrow> fnode \<Rightarrow> mem_disk \<Rightarrow> mem_disk" where
  "mem_put p x s = s\<lparr>md_nodes := (p, x) # md_nodes s\<rparr>"

definition mem_del :: "dpath \<Rightarrow> mem_disk \<Rightarrow> mem_disk" where
  "mem_del p s = s\<lparr>md_nodes := filter (\<lambda>(q, x). q \<noteq> p) (md_nodes s)\<rparr>"

definition mem_add :: "fnode \<Rightarrow> mem_disk \<Rightarrow> dpath \<Rightarrow> string \<Rightarrow> io_kind option \<times> mem_disk" where
  "mem_add x s d n = (case mem_look s (d @ [n]) of None \<Rightarrow> (None, mem_put (d @ [n]) x s) | Some _ \<Rightarrow> (Some AlreadyExists, s))"

definition mem_new :: "bytes \<Rightarrow> mem_disk \<Rightarrow> dpath \<Rightarrow> string \<Rightarrow> io_kind option \<times> mem_disk" where
  "mem_new b s d n = (case mem_look s (d @ [n]) of
      None \<Rightarrow> let i = next_inode (md_nodes s) in
        (None, (mem_put (d @ [n]) (FFile i) s)\<lparr>md_inodes := (md_inodes s)(i := (b, 420))\<rparr>)
    | Some _ \<Rightarrow> (Some AlreadyExists, s))"

definition mem_set :: "mem_disk \<Rightarrow> dpath \<Rightarrow> string \<Rightarrow> (bytes \<times> nat \<Rightarrow> bytes \<times> nat) \<Rightarrow> io_kind option \<times> mem_disk" where
  "mem_set s d n f = (case mem_look s (d @ [n]) of
      Some (FFile i) \<Rightarrow> (None, s\<lparr>md_inodes := (md_inodes s)(i := f (md_inodes s i))\<rparr>)
    | _ \<Rightarrow> (Some NotFound, s))"

definition write_bytes :: "nat \<Rightarrow> bytes \<Rightarrow> bytes \<Rightarrow> bytes" where
  "write_bytes off b old = take off (old @ replicate (off - length old) 0) @ b @ drop (off + length b) old"

definition mem_write :: "mem_disk \<Rightarrow> dpath \<Rightarrow> string \<Rightarrow> u64 \<Rightarrow> bytes \<Rightarrow> io_kind option \<times> mem_disk" where
  "mem_write s d n off b = (case mem_look s (d @ [n]) of
      None \<Rightarrow> mem_new (write_bytes (unat off) b []) s d n
    | Some _ \<Rightarrow> mem_set s d n (\<lambda>(old, m). (write_bytes (unat off) b old, m)))"

definition mem_link :: "mem_disk \<Rightarrow> dpath \<Rightarrow> string \<Rightarrow> dpath \<Rightarrow> string \<Rightarrow> io_kind option \<times> mem_disk" where
  "mem_link s d n d' n' = (case mem_look s (d @ [n]) of
      Some (FFile i) \<Rightarrow> mem_add (FFile i) s d' n'
    | _ \<Rightarrow> (Some NotFound, s))"

text \<open>The entries of a directory, and the names below it.\<close>

definition mem_children :: "mem_disk \<Rightarrow> dpath \<Rightarrow> (string \<times> fnode) list" where
  "mem_children s d = map (\<lambda>(p, x). (last p, x))
     (filter (\<lambda>(p, x). p \<noteq> [] \<and> butlast p = d \<and> last p \<noteq> ''.'' \<and> last p \<noteq> ''..'') (md_nodes s))"

definition node_type :: "fnode \<Rightarrow> simple_type" where
  "node_type x = (case x of FDir \<Rightarrow> TDir | FFile _ \<Rightarrow> TFile | FLink _ \<Rightarrow> TSymlink)"

definition mem_list :: "mem_disk \<Rightarrow> dpath \<Rightarrow> (io_kind \<times> bool) + (io_kind + string \<times> simple_type option) list" where
  "mem_list s d = (case mem_look s d of
      Some FDir \<Rightarrow> Inr (map (\<lambda>(n, x). Inr (n, Some (node_type x))) (mem_children s d))
    | Some _ \<Rightarrow> Inl (OtherIo, True)
    | None \<Rightarrow> Inl (NotFound, False))"

definition mem_remove_file :: "mem_disk \<Rightarrow> dpath \<Rightarrow> string \<Rightarrow> io_kind option \<times> mem_disk" where
  "mem_remove_file s d n = (case mem_look s (d @ [n]) of
      None \<Rightarrow> (Some NotFound, s)
    | Some FDir \<Rightarrow> (Some OtherIo, s)
    | Some _ \<Rightarrow> (None, mem_del (d @ [n]) s))"

definition mem_remove_dir :: "mem_disk \<Rightarrow> dpath \<Rightarrow> string \<Rightarrow> io_kind option \<times> mem_disk" where
  "mem_remove_dir s d n = (case mem_look s (d @ [n]) of
      None \<Rightarrow> (Some NotFound, s)
    | Some FDir \<Rightarrow> if mem_children s (d @ [n]) = [] then (None, mem_del (d @ [n]) s) else (Some OtherIo, s)
    | Some _ \<Rightarrow> (Some OtherIo, s))"

text \<open>Renaming: the paths below one name of a directory as paths below another.\<close>

definition rebase :: "dpath \<Rightarrow> string \<Rightarrow> string \<Rightarrow> (dpath \<times> fnode) list \<Rightarrow> (dpath \<times> fnode) list" where
  "rebase d a b xs = map (\<lambda>(p, x). (d @ b # drop (Suc (length d)) p, x)) (filter (\<lambda>(p, x). under (d @ [a]) p) xs)"

definition apart_from :: "dpath \<Rightarrow> string \<Rightarrow> string \<Rightarrow> (dpath \<times> fnode) list \<Rightarrow> (dpath \<times> fnode) list" where
  "apart_from d a b xs = filter (\<lambda>(p, x). \<not> under (d @ [a]) p \<and> \<not> under (d @ [b]) p) xs"

definition mem_rename :: "mem_disk \<Rightarrow> dpath \<Rightarrow> string \<Rightarrow> string \<Rightarrow> io_kind option \<times> mem_disk" where
  "mem_rename s d a b = (case mem_look s (d @ [a]) of
      None \<Rightarrow> (Some NotFound, s)
    | Some _ \<Rightarrow> (None, s\<lparr>md_nodes := rebase d a b (md_nodes s) @ apart_from d a b (md_nodes s)\<rparr>))"

definition mem_exchange :: "mem_disk \<Rightarrow> dpath \<Rightarrow> string \<Rightarrow> string \<Rightarrow> io_kind option \<times> mem_disk" where
  "mem_exchange s d a b = (if mem_look s (d @ [a]) = None \<or> mem_look s (d @ [b]) = None then (Some NotFound, s)
     else (None, s\<lparr>md_nodes := rebase d b a (md_nodes s) @ rebase d a b (md_nodes s) @ apart_from d a b (md_nodes s)\<rparr>))"

definition mem_fs :: "mem_disk disk_fs" where
  "mem_fs = \<lparr>
     df_open = (\<lambda>s base. if mem_look s [base] = Some FDir then Inr [base] else Inl NotFound),
     df_sub_dir = (\<lambda>s d n. case mem_look s (step_into d n) of
        Some FDir \<Rightarrow> None | Some _ \<Rightarrow> Some OtherIo | None \<Rightarrow> Some NotFound),
     df_create_dir = mem_add FDir,
     df_metadata = (\<lambda>s d n. case mem_look s (d @ [n]) of Some x \<Rightarrow> Inr (node_type x) | None \<Rightarrow> Inl NotFound),
     df_list_dir = mem_list,
     df_remove_file = mem_remove_file,
     df_remove_dir = mem_remove_dir,
     df_local_rename = mem_rename,
     df_local_exchange = mem_exchange,
     df_new_file = mem_new [],
     df_open_file = (\<lambda>s d n. case mem_look s (d @ [n]) of Some (FFile i) \<Rightarrow> Inr (md_inodes s i) | _ \<Rightarrow> Inl NotFound),
     df_write_at = mem_write,
     df_set_times = (\<lambda>s d n. (None, s)),
     df_set_mode = (\<lambda>s d n m. mem_set s d n (\<lambda>(b, _). (b, m))),
     df_symlink = (\<lambda>s d n x. mem_add (FLink x) s d n),
     df_hardlink = mem_link\<rparr>"

section \<open>The laws\<close>

lemma mem_look_put [simp]: "mem_look (mem_put p x s) = (mem_look s)(p \<mapsto> x)"
  by (simp add: mem_look_def mem_put_def)

lemma mem_inodes_put [simp]: "md_inodes (mem_put p x s) = md_inodes s" "md_inodes (mem_del p s) = md_inodes s"
  by (simp_all add: mem_put_def mem_del_def)

lemma mem_look_inodes [simp]: "mem_look (s\<lparr>md_inodes := f\<rparr>) = mem_look s"
  by (simp add: mem_look_def)

lemma mem_look_del [simp]: "mem_look (mem_del p s) = (mem_look s)(p := None)"
proof -
  have "map_of (filter (\<lambda>(q, x). q \<noteq> p) xs) = (map_of xs)(p := None)" for xs :: "(dpath \<times> fnode) list"
    by (induction xs) auto
  then show ?thesis by (simp add: mem_look_def mem_del_def)
qed

lemma next_inode_fresh: "map_of xs q = Some (FFile i) \<Longrightarrow> i < next_inode xs"
  by (induction xs) (auto split: if_splits)

lemma mem_new_fresh: "mem_look s p = None \<Longrightarrow> fresh_at mem_look s p (next_inode (md_nodes s))"
  using next_inode_fresh by (fastforce simp: fresh_at_def mem_look_def)

lemma under_one: "under (d @ [a]) p \<longleftrightarrow> (\<exists>q. p = d @ a # q)"
proof
  assume "under (d @ [a]) p"
  then have "p = (d @ [a]) @ drop (Suc (length d)) p" by (metis append_take_drop_id length_append_singleton under_def)
  then show "\<exists>q. p = d @ a # q" by (metis append.assoc append_Cons append_Nil)
qed (auto simp: under_append_one)

lemma map_of_rebase:
  "map_of (rebase d a b xs) q = (if under (d @ [b]) q then map_of xs (d @ a # drop (Suc (length d)) q) else None)"
  by (induction xs) (auto simp: rebase_def under_one)

lemma map_of_apart_from:
  "map_of (apart_from d a b xs) q = (if under (d @ [a]) q \<or> under (d @ [b]) q then None else map_of xs q)"
  by (induction xs) (auto simp: apart_from_def)

lemma mem_rename_law: "law_local_rename mem_fs mem_look md_inodes"
proof -
  have "map_of (rebase d a b xs @ apart_from d a b xs) = moved (map_of xs) d a b" for d a b xs
    by (rule ext) (auto simp: moved_def map_add_def map_of_rebase map_of_apart_from under_one split: option.splits)
  then show ?thesis
    by (auto simp: law_local_rename_def mem_fs_def mem_rename_def mem_look_def split: option.splits)
qed

lemma mem_exchange_law: "law_local_exchange mem_fs mem_look md_inodes"
proof -
  have "map_of (rebase d b a xs @ rebase d a b xs @ apart_from d a b xs) = swapped (map_of xs) d a b" for d a b xs
    by (rule ext) (auto simp: swapped_def map_add_def map_of_rebase map_of_apart_from under_one split: option.splits)
  then show ?thesis
    by (auto simp: law_local_exchange_def mem_fs_def mem_exchange_def mem_look_def split: option.splits if_splits)
qed

lemma mem_write_law: "law_write_at mem_fs mem_look md_inodes"
  unfolding law_write_at_def
proof (intro allI impI)
  fix s d n off b e t assume run: "df_write_at mem_fs s d n off b = (e, t)"
  show "mem_look t = mem_look s \<and> md_inodes t = md_inodes s \<or>
     (\<exists>i. (mem_look s (d @ [n]) = Some (FFile i) \<and> mem_look t = mem_look s \<or>
           fresh_at mem_look s (d @ [n]) i \<and> mem_look t = (mem_look s)(d @ [n] \<mapsto> FFile i)) \<and>
          (\<forall>j. j \<noteq> i \<longrightarrow> md_inodes t j = md_inodes s j))"
    using run mem_new_fresh [of s "d @ [n]"]
    by (auto simp: mem_fs_def mem_write_def mem_new_def mem_set_def Let_def split: option.splits fnode.splits)
qed

lemmas mem_op_defs = mem_fs_def mem_add_def mem_new_def mem_set_def mem_link_def mem_remove_file_def mem_remove_dir_def mem_list_def

lemma mem_simple_laws:
  "law_create_dir mem_fs mem_look md_inodes" "law_symlink mem_fs mem_look md_inodes" "law_hardlink mem_fs mem_look md_inodes"
  "law_set_times mem_fs mem_look md_inodes" "law_remove_file mem_fs mem_look md_inodes" "law_remove_dir mem_fs mem_look md_inodes"
  by (auto simp: law_create_dir_def law_symlink_def law_hardlink_def law_set_times_def law_remove_file_def law_remove_dir_def mem_op_defs
      split: option.splits fnode.splits if_splits)

lemma mem_new_file_law: "law_new_file mem_fs mem_look md_inodes"
  unfolding law_new_file_def using mem_new_fresh by (auto simp: mem_op_defs Let_def split: option.splits)

lemma mem_set_mode_law: "law_set_mode mem_fs mem_look md_inodes"
  by (auto simp: law_set_mode_def mem_op_defs split: option.splits fnode.splits prod.splits)

lemma mem_reads_law: "law_reads mem_fs mem_look md_inodes"
  by (auto simp: law_reads_def mem_op_defs mem_children_def split: option.splits fnode.splits)

lemma mem_disk_laws: "disk_laws mem_fs mem_look md_inodes"
  by (simp add: disk_laws_def mem_simple_laws mem_new_file_law mem_set_mode_law mem_write_law mem_rename_law mem_exchange_law mem_reads_law)

section \<open>Properties\<close>


text \<open>
  An image that replaces another: the directory \<^verbatim>\<open>d\<close> has the old image \<^verbatim>\<open>v\<close>, an image \<^verbatim>\<open>w\<close> and the
  temporary directory with the blocks of the new one.
\<close>

definition demo_disk_env :: "mem_disk disk_env" where
  "demo_disk_env = \<lparr>dk_fs = mem_fs, dk_check = (\<lambda>hs b. hs = [b]), dk_stack = 8\<rparr>"

definition demo_disk :: mem_disk where
  "demo_disk = \<lparr>md_nodes = [([''d''], FDir), ([''d'', ''v''], FDir), ([''d'', ''v'', ''old''], FFile 0),
     ([''d'', ''w''], FDir), ([''d'', ''w'', ''a''], FFile 1),
     ([''d'', ''.tmp.v''], FDir), ([''d'', ''.tmp.v'', ''a''], FFile 1), ([''d'', ''.tmp.v'', ''b''], FFile 2)],
     md_inodes = (\<lambda>i. ([word_of_nat i], 420))\<rparr>"

definition demo_disk_image :: disk_image where
  "demo_disk_image = \<lparr>im_virtual_path = VPath ''k'' [''v''], im_parent = [''d''], im_temporary_name = ''.tmp.v'',
     im_temporary = [''d'', ''.tmp.v'']\<rparr>"

definition demo_disk_index :: index where
  "demo_disk_index = \<lparr>ix_id = Other [1], ix_entries = [EntryDir ''/'', EntryFile ''/a'' False 1 [[1]], EntryFile ''/b'' True 1 [[2]],
     EntryFile ''/c'' False 0 [], EntryDir ''/s'', EntryLink ''/s/l'' ''../a''],
     ix_bytes_total = 2, ix_blocks_total = 2, ix_block_size = 32768\<rparr>"

lemma demo_commit_ok: "fst (commit_image demo_disk_env demo_disk_index demo_disk_image demo_disk) = Ok ()"
  by code_simp

lemma demo_plain_entries: "list_all plain_entry (ix_entries demo_disk_index)"
proof -
  have "components ''/'' = RootDir # map Normal []" "components ''/s'' = RootDir # map Normal [''s'']" by code_simp+
  then have "plain_dir (components ''/'')" "plain_dir (components ''/s'')"
    unfolding plain_dir_def by (auto simp: plain_name_def intro: exI [of _ "[''s'']"])
  then show ?thesis by (simp add: demo_disk_index_def)
qed


end
