(* ===== verification/Hardlinks.thy ===== *)
theory Hardlinks
  imports Metadata Disk_Memory
begin

text \<open>
  Where the files of a new image can be linked from (\<^verbatim>\<open>src/daemon/metadata/hardlink_sources.rs\<close>): the older images of the same
  directory, or the image that is replaced. The merge of several indexes is that of the \<^verbatim>\<open>dir_signature\<close> crate: \<open>mg_new\<close>
  says whether it starts, \<open>mg_advance\<close> gives the entries that the indexes have for a path. A parsed index is the list of
  what its iterator yields. The order in which the map of states is iterated after the unstable sort is a parameter.
\<close>

type_synonym 'e parsed_index = "('e + entry) list"

record ('b, 'e) links_env =
  mg_open :: "'b \<Rightarrow> 'e parsed_index option"
  mg_order :: "(string \<rightharpoonup> state) \<Rightarrow> (string \<times> state) list"
  mg_new :: "(vpath \<times> 'e parsed_index) list \<Rightarrow> bool"
  mg_advance :: "(vpath \<times> 'e parsed_index) list \<Rightarrow> string \<Rightarrow> (vpath \<times> ('e + entry)) list"

text \<open>\<^verbatim>\<open>read_index::open\<close>.\<close>

definition index_open ::
  "('s, 'b, 'm, 'i) meta_env \<Rightarrow> ('b, 'e) links_env \<Rightarrow> image_id \<Rightarrow> ('s meta, 'e parsed_index, meta_error) io" where
  "index_open env lk img =
     bind_io (index_base env img) (\<lambda>base.
     bind_io (lift_fs (open_file (me_oa env) base (index_file env img))) (\<lambda>r.
     bind_io (ret (ok_or r IndexNotFound)) (\<lambda>b.
       ret (ok_or (mg_open lk b) IndexError))))"

section \<open>Links for the files of an index\<close>

fun first_link :: "entry \<Rightarrow> (vpath \<times> ('e + entry)) list \<Rightarrow> (hardlink option, meta_error) result" where
  "first_link (EntryFile p exe sz hs) ((v, Inr (EntryFile p' exe' sz' hs')) # rest) =
     (if exe = exe' \<and> sz = sz' \<and> hs = hs'
      then if p' \<noteq> p then Panic
           else Ok (Some \<lparr>hl_source = v, hl_path = components p, hl_exe = exe, hl_size = sz, hl_hashes = hs\<rparr>)
      else first_link (EntryFile p exe sz hs) rest)"
| "first_link e ((v, x) # rest) = first_link e rest"
| "first_link e [] = Ok None"

fun link_entries ::
  "('b, 'e) links_env \<Rightarrow> (vpath \<times> 'e parsed_index) list \<Rightarrow> entry list \<Rightarrow> (hardlink list, meta_error) result" where
  "link_entries lk files [] = Ok []"
| "link_entries lk files (e # es) =
     bind_result (case e of EntryFile p exe sz hs \<Rightarrow> first_link e (mg_advance lk files p) | _ \<Rightarrow> Ok None) (\<lambda>l.
     bind_result (link_entries lk files es) (\<lambda>ls.
       Ok (case l of Some hl \<Rightarrow> hl # ls | None \<Rightarrow> ls)))"

definition scan_links ::
  "('b, 'e) links_env \<Rightarrow> index \<Rightarrow> (vpath \<times> 'e parsed_index) list \<Rightarrow> (hardlink list, meta_error) result" where
  "scan_links lk ix files = (if mg_new lk files then link_entries lk files (ix_entries ix) else Err MergeError)"

section \<open>The images to link from\<close>

definition replace_mode ::
  "('s, 'b, 'm, 'i) meta_env \<Rightarrow> ('b, 'e) links_env \<Rightarrow> index \<Rightarrow> vpath \<Rightarrow> ('s meta, hardlink list, meta_error) io" where
  "replace_mode env lk ix v =
     bind_io (image_dir env v) (\<lambda>dir.
     bind_io (ret (expect (vp_final_name v))) (\<lambda>name.
     bind_io (read_state env dir (state_file name)) (\<lambda>st.
     case st of
       None \<Rightarrow> ret (Ok [])
     | Some old \<Rightarrow>
         bind_io (attempt (index_open env lk (st_image old))) (\<lambda>opened.
         case opened of
           Ok reader \<Rightarrow> ret (scan_links lk ix [(v, reader)])
         | _ \<Rightarrow> ret (Ok [])))))"

text \<open>
  The newest images first, no image twice, none that is being written, and at most 37 of them: the loop stops when there
  are more than 36.
\<close>

fun select_sources ::
  "(vpath \<rightharpoonup> writing) \<Rightarrow> vpath \<Rightarrow> image_id set \<Rightarrow> nat \<Rightarrow> (string \<times> state) list \<Rightarrow> ((vpath \<times> state) list, meta_error) result" where
  "select_sources w base visited n [] = Ok []"
| "select_sources w base visited n ((name, s) # xs) =
     (if st_image s \<in> visited then select_sources w base visited n xs
      else bind_result (expect (vp_join base name)) (\<lambda>p.
        if w p \<noteq> None then select_sources w base visited n xs
        else if Suc n > 36 then Ok [(p, s)]
        else bind_result (select_sources w base (insert (st_image s) visited) (Suc n) xs) (\<lambda>r. Ok ((p, s) # r))))"

fun open_sources ::
  "('s, 'b, 'm, 'i) meta_env \<Rightarrow> ('b, 'e) links_env \<Rightarrow> (vpath \<times> state) list \<Rightarrow> ('s meta, (vpath \<times> 'e parsed_index) list, meta_error) io" where
  "open_sources env lk [] = ret (Ok [])"
| "open_sources env lk ((p, s) # xs) =
     bind_io (attempt (index_open env lk (st_image s))) (\<lambda>opened.
     bind_io (open_sources env lk xs) (\<lambda>files.
       ret (Ok (case opened of Ok ix \<Rightarrow> (p, ix) # files | _ \<Rightarrow> files))))"

definition append_mode ::
  "('s, 'b, 'm, 'i) meta_env \<Rightarrow> ('b, 'e) links_env \<Rightarrow> index \<Rightarrow> vpath \<Rightarrow> ('s meta, hardlink list, meta_error) io" where
  "append_mode env lk ix base =
     bind_io (meta_scan_dir env base) (\<lambda>states.
     bind_io (\<lambda>s. (select_sources (mt_writing s) base {} 0 (mg_order lk states), s)) (\<lambda>selected.
     bind_io (open_sources env lk selected) (\<lambda>files.
       ret (scan_links lk ix files))))"

definition files_to_hardlink ::
  "('s, 'b, 'm, 'i) meta_env \<Rightarrow> ('b, 'e) links_env \<Rightarrow> vpath \<Rightarrow> index \<Rightarrow> bool \<Rightarrow> ('s meta, hardlink list, meta_error) io" where
  "files_to_hardlink env lk dir ix replacing =
     (if replacing then replace_mode env lk ix dir
      else bind_io (ret (expect (vp_parent dir))) (\<lambda>base. append_mode env lk ix base))"

section \<open>Facts\<close>

text \<open>What the merge yields is an entry of one of the indexes.\<close>

definition advance_law :: "('b, 'e) links_env \<Rightarrow> bool" where
  "advance_law lk \<longleftrightarrow> (\<forall>files p v e. (v, Inr e) \<in> set (mg_advance lk files p) \<longrightarrow> (\<exists>es. (v, es) \<in> set files \<and> Inr e \<in> set es))"

definition link_ok :: "index \<Rightarrow> (vpath \<times> 'e parsed_index) list \<Rightarrow> hardlink \<Rightarrow> bool" where
  "link_ok ix files hl \<longleftrightarrow> (\<exists>p es. hl_path hl = components p \<and>
     EntryFile p (hl_exe hl) (hl_size hl) (hl_hashes hl) \<in> set (ix_entries ix) \<and>
     (hl_source hl, es) \<in> set files \<and> Inr (EntryFile p (hl_exe hl) (hl_size hl) (hl_hashes hl)) \<in> set es)"

lemma first_link_sound:
  "first_link e xs = Ok (Some hl) \<Longrightarrow>
    \<exists>p. e = EntryFile p (hl_exe hl) (hl_size hl) (hl_hashes hl) \<and> hl_path hl = components p \<and> (hl_source hl, Inr e) \<in> set xs"
  by (induction e xs rule: first_link.induct) (auto split: if_splits)

lemma link_entries_sound:
  assumes "advance_law lk"
  shows "link_entries lk files es = Ok ls \<Longrightarrow> set es \<subseteq> set (ix_entries ix) \<Longrightarrow> hl \<in> set ls \<Longrightarrow> link_ok ix files hl"
proof (induction es arbitrary: ls)
  case (Cons e es)
  obtain l rest where l: "(case e of EntryFile p exe sz hs \<Rightarrow> first_link e (mg_advance lk files p) | _ \<Rightarrow> Ok None) = Ok l"
    and rest: "link_entries lk files es = Ok rest" and ls: "ls = (case l of Some hl \<Rightarrow> hl # rest | None \<Rightarrow> rest)"
    using Cons.prems(1) by auto
  show ?case
  proof (cases "l = Some hl")
    case True
    then obtain p where e: "e = EntryFile p (hl_exe hl) (hl_size hl) (hl_hashes hl)" "hl_path hl = components p"
        "(hl_source hl, Inr e) \<in> set (mg_advance lk files p)"
      using l by (cases e) (auto dest: first_link_sound)
    then obtain fs where "(hl_source hl, fs) \<in> set files" "Inr e \<in> set fs" using assms unfolding advance_law_def by blast
    then show ?thesis using e(1,2) Cons.prems(2) by (auto simp: link_ok_def)
  next
    case False
    then have "hl \<in> set rest" using Cons.prems(3) ls by (auto split: option.splits)
    then show ?thesis using Cons.IH [OF rest] Cons.prems(2) by simp
  qed
qed simp

lemma scan_links_sound: "advance_law lk \<Longrightarrow> scan_links lk ix files = Ok ls \<Longrightarrow> hl \<in> set ls \<Longrightarrow> link_ok ix files hl"
  by (auto simp: scan_links_def split: if_splits dest: link_entries_sound [where es = "ix_entries ix"])

lemma select_sources_sound:
  "select_sources w base visited n xs = Ok ys \<Longrightarrow> n \<le> 36 \<Longrightarrow>
    n + length ys \<le> 37 \<and> distinct (map (\<lambda>x. st_image (snd x)) ys) \<and>
    (\<forall>(p, s) \<in> set ys. st_image s \<notin> visited \<and> w p = None \<and> (\<exists>name. (name, s) \<in> set xs \<and> vp_join base name = Some p))"
proof (induction w base visited n xs arbitrary: ys rule: select_sources.induct)
  case (2 w base visited n name s xs)
  show ?case
  proof (cases "st_image s \<in> visited")
    case True
    then show ?thesis using 2(1) [OF True] 2(4,5) by auto
  next
    case False
    then obtain p where p: "vp_join base name = Some p" using 2(4) by auto
    note prems = 2(4,5)
    note IH = 2(2) [OF False, of p] 2(3) [OF False, of p]
    consider "w p \<noteq> None" | "w p = None" "Suc n > 36" | "w p = None" "\<not> Suc n > 36" by blast
    then show ?thesis
    proof cases
      case 1
      then show ?thesis using IH(1) [OF 1] prems False p by auto
    next
      case 2
      then show ?thesis using prems False p by auto
    next
      case 3
      obtain r where r: "select_sources w base (insert (st_image s) visited) (Suc n) xs = Ok r" "ys = (p, s) # r"
        using prems(1) 3 False p by auto
      have "Suc n \<le> 36" using 3(2) by simp
      with IH(2) [OF _ 3(2) r(1)] 3(1) have "Suc n + length r \<le> 37" "distinct (map (\<lambda>x. st_image (snd x)) r)"
          "\<forall>(q, t) \<in> set r. st_image t \<notin> insert (st_image s) visited \<and> w q = None \<and> (\<exists>m. (m, t) \<in> set xs \<and> vp_join base m = Some q)"
        by simp_all
      then show ?thesis unfolding r(2) using False p 3(1) by auto
    qed
  qed
qed simp

text \<open>Reading the store leaves the table of uploads as it is.\<close>

lemma keeps_table_lift: "keeps (\<lambda>s. mt_writing s = w) (lift_fs m)"
  by (simp add: keeps_def lift_fs_def split: prod.splits)

lemma keeps_attempt_any: "keeps P m \<Longrightarrow> keeps P (attempt m)"
  unfolding keeps_def attempt_def by (auto split: prod.splits result.splits)

lemma keeps_writing_open: "keeps (\<lambda>s. mt_writing s = w) (index_open env lk img)"
  unfolding index_open_def index_base_def meta_indexes_def by (intro keeps_rules keeps_table_lift)

lemma open_sources_run:
  "open_sources env lk xs s = (r, t) \<Longrightarrow> mt_writing t = mt_writing s \<and>
    (\<forall>files p es. r = Ok files \<longrightarrow> (p, es) \<in> set files \<longrightarrow>
      (\<exists>st u u'. (p, st) \<in> set xs \<and> index_open env lk (st_image st) u = (Ok es, u')))"
proof (induction xs arbitrary: s r t)
  case (Cons x xs)
  obtain p st where x: "x = (p, st)" by fastforce
  obtain o1 u where o1: "index_open env lk (st_image st) s = (o1, u)" by fastforce
  have w: "mt_writing u = mt_writing s"
    using keeps_writing_open [of "mt_writing s" env lk "st_image st"] o1 by (simp add: keeps_def) (metis snd_conv)
  show ?case
  proof (cases "o1 = Panic")
    case True
    then show ?thesis using Cons.prems w o1 by (auto simp: x attempt_def bind_io_def)
  next
    case False
    obtain r' v where r': "open_sources env lk xs u = (r', v)" by fastforce
    note IH = Cons.IH [OF r']
    have "t = v" "r = (case r' of Ok files \<Rightarrow> Ok (case o1 of Ok ix \<Rightarrow> (p, ix) # files | _ \<Rightarrow> files) | Err e \<Rightarrow> Err e | Panic \<Rightarrow> Panic)"
      using Cons.prems o1 r' False by (auto simp: x attempt_def bind_io_def split: result.splits)
    moreover have "(q, es) \<in> set files' \<or> o1 = Ok es \<and> q = p"
      if "(q, es) \<in> set (case o1 of Ok ix \<Rightarrow> (p, ix) # files' | _ \<Rightarrow> files')" for q es files'
      using that by (cases o1) auto
    ultimately show ?thesis using IH w o1 unfolding x by (cases r') (simp_all, metis)
  qed
qed auto

section \<open>Making the links\<close>

lemma open_all_same: "open_all env d ns s = (r, t) \<Longrightarrow> t = s"
  by (induction ns arbitrary: d) (auto simp: bind_io_def disk_sub_dir_def split: option.splits)

lemma open_base_same: "open_base env b s = (r, t) \<Longrightarrow> t = s"
  by (auto simp: open_base_def split: sum.splits)

lemma try_hardlink_steps:
  assumes "try_hardlink env cfg hl im s = (Ok (), t)"
  obtains par fname dir dest b mode u where "path_parent (hl_path hl) = Some par" "path_file_name (hl_path hl) = Some fname"
    "df_open_file (dk_fs env) s dir fname = Inr (b, mode)" "dk_check env (hl_hashes hl) b"
    "ensure_path env (im_temporary im) par s = (Ok dest, u)" "df_hardlink (dk_fs env) u dir fname dest fname = (None, t)"
proof -
  obtain bdir root src par dir fname u1 u2 u3 where r: "open_base env bdir s = (Ok root, u1)"
      "open_all env root (vp_suffix (hl_source hl)) u1 = (Ok src, u2)" "path_parent (hl_path hl) = Some par"
      "disk_open_path env src par u2 = (Ok dir, u3)" "path_file_name (hl_path hl) = Some fname"
    and rest: "(case df_open_file (dk_fs env) u3 dir fname of
         Inl e \<Rightarrow> (Err (DReadFile (dir @ [fname]) e), u3)
       | Inr (b, mode) \<Rightarrow>
           if \<not> dk_check env (hl_hashes hl) b \<or> mode mod 512 \<noteq> (if hl_exe hl then 493 else 420) then (Err (DChecksum (dir @ [fname])), u3)
           else bind_io (ensure_path env (im_temporary im) par) (\<lambda>dest.
                  sys_call (\<lambda>s. df_hardlink (dk_fs env) s dir fname dest fname) (DHardlink (dir @ [fname]))) u3) = (Ok (), t)"
    using assms unfolding try_hardlink_def by (simp only: bind_io_Ok_iff ret_apply prod.inject expect_eq_Ok ok_or_eq_Ok) blast
  have "u3 = s" using open_base_same [OF r(1)] open_all_same [OF r(2)] open_all_same [OF r(4) [unfolded disk_open_path_def]] by simp
  then show thesis using rest r(3,5) that by (auto simp: bind_io_Ok_iff sys_call_Ok split: sum.splits if_splits)
qed

section \<open>Properties\<close>

text \<open>
  The sources of links are sound. Each link that is proposed for a new image is for a file of its index; its
  source is an image in the same directory that is not being uploaded, whose stored index has a file at the
  same path of the same mode, size and hashes.
\<close>

theorem hardlink_sources_sound:
  assumes "advance_law lk" and "files_to_hardlink env lk dir ix False s = (Ok links, t)" and "hl \<in> set links"
  shows "mt_writing t (hl_source hl) = None \<and>
    (\<exists>base name. vp_parent dir = Some base \<and> vp_join base name = Some (hl_source hl)) \<and>
    (\<exists>p img es u u'. hl_path hl = components p \<and> EntryFile p (hl_exe hl) (hl_size hl) (hl_hashes hl) \<in> set (ix_entries ix) \<and>
       index_open env lk img u = (Ok es, u') \<and> Inr (EntryFile p (hl_exe hl) (hl_size hl) (hl_hashes hl)) \<in> set es)"
proof -
  obtain base where base: "vp_parent dir = Some base" and run: "append_mode env lk ix base s = (Ok links, t)"
    using assms(2) by (auto simp: files_to_hardlink_def bind_io_Ok_iff)
  obtain states v selected files where sel: "select_sources (mt_writing v) base {} 0 (mg_order lk states) = Ok selected"
    and opened: "open_sources env lk selected v = (Ok files, t)" and scan: "scan_links lk ix files = Ok links"
    using run by (auto simp: append_mode_def bind_io_Ok_iff)
  obtain p es where p: "hl_path hl = components p" "EntryFile p (hl_exe hl) (hl_size hl) (hl_hashes hl) \<in> set (ix_entries ix)"
      "(hl_source hl, es) \<in> set files" "Inr (EntryFile p (hl_exe hl) (hl_size hl) (hl_hashes hl)) \<in> set es"
    using scan_links_sound [OF assms(1) scan assms(3)] by (auto simp: link_ok_def)
  obtain st u u' where st: "(hl_source hl, st) \<in> set selected" "index_open env lk (st_image st) u = (Ok es, u')"
    and w: "mt_writing t = mt_writing v"
    using open_sources_run [OF opened] p(3) by blast
  have "mt_writing v (hl_source hl) = None \<and> (\<exists>name. vp_join base name = Some (hl_source hl))"
    using select_sources_sound [OF sel] st(1) by fastforce
  then show ?thesis using base w p(1,2,4) st(2) by metis
qed

text \<open>
  C9. A link that is made brings the right contents: when \<^verbatim>\<open>try_hardlink\<close> succeeds, the file is in the temporary directory
  of the new image, at its path, with contents of the checksum in the index; nothing outside of that directory has
  changed. A path with a component \<^verbatim>\<open>..\<close> is excluded.
\<close>

theorem hardlink_made_checked:
  assumes laws: "disk_laws (dk_fs env) look inode" and p: "hl_path hl = RootDir # map Normal (ns @ [n])" "list_all plain_name ns"
    and run: "try_hardlink env cfg hl im s = (Ok (), t)"
  shows "builds look inode (im_temporary im) s t \<and>
    (\<exists>i. look t (im_temporary im @ ns @ [n]) = Some (FFile i) \<and> dk_check env (hl_hashes hl) (fst (inode t i)))"
proof -
  obtain par fname dir dest b mode u where st: "path_parent (hl_path hl) = Some par" "path_file_name (hl_path hl) = Some fname"
    "df_open_file (dk_fs env) s dir fname = Inr (b, mode)" "dk_check env (hl_hashes hl) b"
    "ensure_path env (im_temporary im) par s = (Ok dest, u)" "df_hardlink (dk_fs env) u dir fname dest fname = (None, t)"
    using try_hardlink_steps [OF run] .
  have par: "par = RootDir # map Normal ns" "fname = n"
    using st(1,2) p(1) by (simp_all add: path_parent_def path_file_name_def butlast_append split: if_splits)
  have ens: "ensure_all env (im_temporary im) ns s = (Ok dest, u)" using st(5) by (simp add: ensure_path_def par rel_names_plain)
  have dest: "dest = im_temporary im @ ns" by (rule ensure_all_handle [OF p(2) ens])
  have tmp: "under (im_temporary im) (im_temporary im)" "under (im_temporary im) dest" by (simp_all add: under_def dest)
  have b1: "builds look inode (im_temporary im) s u"
    using builder_ensure_all [OF laws tmp(1) p(2)] ens unfolding builder_def by blast
  have b2: "builds look inode (im_temporary im) u t" by (rule builds_hardlink [OF laws st(6) tmp(2)])
  obtain i where i: "look s (dir @ [n]) = Some (FFile i)" "fst (inode s i) = b"
    using open_file_look [OF laws st(3)] par(2) by auto
  have "look u (dir @ [n]) = Some (FFile i)" by (rule buildsD(2) [OF b1 i(1)])
  then have "look t (dest @ [n]) = Some (FFile i)"
    using disk_lawsD(4) [OF laws] st(6) par(2) unfolding law_hardlink_def by fastforce
  moreover have "fst (inode t i) = b"
    using buildsD(3) [OF builds_trans [OF b1 b2] i(1)] i(2) by simp
  ultimately show ?thesis using builds_trans [OF b1 b2] st(4) dest by auto
qed

text \<open>A file of the image \<^verbatim>\<open>w\<close> that is linked into the new image \<^verbatim>\<open>v\<close>.\<close>

definition demo_link_config :: config where
  "demo_link_config = \<lparr>cf_machine_id = MachineId [], cf_hostname = [], cf_port = 0, cf_aggressive_index_gc = False,
     cf_dirs = [''k'' \<mapsto> \<lparr>directory_path = ''d'', append_only = True, num_levels = 1, upload_keys = [], download_keys = [],
       auto_clean = False, keep_list_file = None, keep_min_directories = 1, keep_max_directories = 2, keep_recent = 5\<rparr>]\<rparr>"

definition demo_link :: hardlink where
  "demo_link = \<lparr>hl_source = VPath ''k'' [''w''], hl_path = RootDir # map Normal ([''s''] @ [''a'']), hl_exe = False, hl_size = 1, hl_hashes = [[1]]\<rparr>"

definition demo_link_disk :: mem_disk where
  "demo_link_disk = \<lparr>md_nodes = [([''d''], FDir), ([''d'', ''w''], FDir), ([''d'', ''w'', ''s''], FDir), ([''d'', ''w'', ''s'', ''a''], FFile 1),
     ([''d'', ''.tmp.v''], FDir)], md_inodes = (\<lambda>i. ([word_of_nat i], 420))\<rparr>"

lemma demo_link_ok: "fst (try_hardlink demo_disk_env demo_link_config demo_link demo_disk_image demo_link_disk) = Ok ()"
  by code_simp

theorem hardlink_made_checked_witness:
  "\<exists>i. mem_look (snd (try_hardlink demo_disk_env demo_link_config demo_link demo_disk_image demo_link_disk)) [''d'', ''.tmp.v'', ''s'', ''a''] = Some (FFile i) \<and>
    fst (md_inodes (snd (try_hardlink demo_disk_env demo_link_config demo_link demo_disk_image demo_link_disk)) i) = [1]"
proof -
  let ?run = "try_hardlink demo_disk_env demo_link_config demo_link demo_disk_image demo_link_disk"
  have laws: "disk_laws (dk_fs demo_disk_env) mem_look md_inodes" by (simp add: demo_disk_env_def mem_disk_laws)
  have p: "hl_path demo_link = RootDir # map Normal ([''s''] @ [''a''])" "list_all plain_name [''s'']"
    by (simp_all add: demo_link_def plain_name_def)
  have run: "?run = (Ok (), snd ?run)" using demo_link_ok by (metis prod.collapse)
  show ?thesis
    using hardlink_made_checked [OF laws p run] by (auto simp: demo_disk_image_def demo_disk_env_def demo_link_def)
qed

end
