(* ===== verification/Client_Serve.thy ===== *)
theory Client_Serve
  imports Progress Request_Registry Metadata_Dir
begin

text \<open>
  What a client serves while it uploads: the indexes it keeps (\<^verbatim>\<open>src/index.rs\<close>), the blocks it reads from its
  directories or from memory (\<^verbatim>\<open>src/blocks.rs\<close>), and the handler of the frames it receives
  (\<^verbatim>\<open>src/proto/client.rs\<close>). The parser and the hashing of the \<^verbatim>\<open>dir_signature\<close> crate and the file system are
  parameters. A panic under a write lock poisons it. The threads that read are one step each.
\<close>

section \<open>Indexes\<close>

datatype index_error = IndexParse

record mem_indexes =
  mx_indexes :: "image_id \<rightharpoonup> bytes"

definition mem_indexes_new :: mem_indexes where
  "mem_indexes_new = \<lparr>mx_indexes = Map.empty\<rparr>"

definition register_index :: "(bytes \<Rightarrow> bytes option) \<Rightarrow> bytes \<Rightarrow> (mem_indexes, image_id, index_error) io" where
  "register_index ghash data = (\<lambda>st.
     case ghash data of
       None \<Rightarrow> (Err IndexParse, st)
     | Some h \<Rightarrow> (Ok (image_from h), st\<lparr>mx_indexes := (mx_indexes st)(image_from h \<mapsto> data)\<rparr>))"

datatype serve_error = FsError path io_kind | BlockNotFound block_hash | IndexMissing image_id | LockError

definition client_read_index :: "image_id \<Rightarrow> mem_indexes \<Rightarrow> (bytes, serve_error) result" where
  "client_read_index i st = ok_or (mx_indexes st i) (IndexMissing i)"

section \<open>Blocks\<close>

datatype block_pointer =
    PDisk path u64 nat
  | PMem bytes nat nat

record block_reader =
  br_blocks :: "block_hash \<rightharpoonup> block_pointer"
  br_poisoned :: bool

definition block_reader_new :: block_reader where
  "block_reader_new = \<lparr>br_blocks = Map.empty, br_poisoned = False\<rparr>"

datatype 'e dir_error = DirParse 'e | DirLock | HashSize

definition put_pointer :: "block_hash \<Rightarrow> block_pointer \<Rightarrow> block_reader \<Rightarrow> block_reader" where
  "put_pointer h ptr st = st\<lparr>br_blocks := (br_blocks st)(h \<mapsto> ptr)\<rparr>"

text \<open>The blocks of a file: the offset is a 64-bit product, what is left is saturating.\<close>

fun register_hashes ::
  "path \<Rightarrow> u64 \<Rightarrow> nat \<Rightarrow> nat \<Rightarrow> bytes list \<Rightarrow> (block_reader, unit, 'e dir_error) io" where
  "register_hashes p bsize idx left [] = ret (Ok ())"
| "register_hashes p bsize idx left (h # hs) =
     bind_io (ret (ok_or (block_from_bytes h) HashSize)) (\<lambda>i. (\<lambda>st.
       if idx * unat bsize \<ge> 2 ^ 64 then (Panic, st)
       else register_hashes p bsize (Suc idx) (left - unat bsize) hs
              (put_pointer i (PDisk p (word_of_nat (idx * unat bsize)) (min left (unat bsize))) st)))"

fun register_entry :: "path \<Rightarrow> u64 \<Rightarrow> 'e + entry \<Rightarrow> (block_reader, unit, 'e dir_error) io" where
  "register_entry dir bsize (Inl e) = ret Panic"
| "register_entry dir bsize (Inr (EntryFile p exe sz hs)) =
     bind_io (ret (expect (strip_root (components p)))) (\<lambda>rel.
       register_hashes (path_join dir rel) bsize 0 (unat sz) hs)"
| "register_entry dir bsize (Inr _) = ret (Ok ())"

definition poison :: "('x, 'e) result \<times> block_reader \<Rightarrow> ('x, 'e) result \<times> block_reader" where
  "poison rs = (case rs of (Panic, st) \<Rightarrow> (Panic, st\<lparr>br_poisoned := True\<rparr>) | _ \<Rightarrow> rs)"

definition register_dir ::
  "(bytes \<Rightarrow> 'e + u64 \<times> ('e + entry) list) \<Rightarrow> path \<Rightarrow> bytes \<Rightarrow> (block_reader, unit, 'e dir_error) io" where
  "register_dir parser dir data = (\<lambda>st.
     case parser data of
       Inl e \<Rightarrow> (Err (DirParse e), st)
     | Inr (bsize, entries) \<Rightarrow>
         if br_poisoned st then (Err DirLock, st)
         else poison (for_io entries (register_entry dir bsize) st))"

text \<open>
  The third field of a block in memory is \<^verbatim>\<open>min(data.len(), (idx+1) * block_size)\<close>, the end of the block, where
  the reader takes it for the size.
\<close>

fun register_memory_hashes :: "bytes \<Rightarrow> u64 \<Rightarrow> nat \<Rightarrow> bytes list \<Rightarrow> (block_reader, unit, unit) io" where
  "register_memory_hashes data bsize idx [] = ret (Ok ())"
| "register_memory_hashes data bsize idx (h # hs) =
     bind_io (ret (expect (block_from_bytes h))) (\<lambda>i. (\<lambda>st.
       if Suc idx * unat bsize \<ge> 2 ^ 64 then (Panic, st)
       else register_memory_hashes data bsize (Suc idx) hs
              (put_pointer i (PMem data (idx * unat bsize) (min (length data) (Suc idx * unat bsize))) st)))"

definition register_memory_blocks ::
  "(u64 \<Rightarrow> bytes \<Rightarrow> bytes list) \<Rightarrow> u64 \<Rightarrow> bytes \<Rightarrow> (block_reader, unit, unit) io" where
  "register_memory_blocks hash_file bsize data = (\<lambda>st.
     if br_poisoned st then (Panic, st)
     else poison (register_memory_hashes data bsize 0 (hash_file bsize data) st))"

text \<open>\<open>rd\<close> is what opening a file, seeking and one read yield. A slice out of range panics.\<close>

definition client_read_block ::
  "(path \<Rightarrow> u64 \<Rightarrow> nat \<Rightarrow> io_kind + bytes) \<Rightarrow> block_hash \<Rightarrow> block_reader \<Rightarrow> (bytes, serve_error) result" where
  "client_read_block rd h st =
     (if br_poisoned st then Err LockError
      else bind_result (ok_or (br_blocks st h) (BlockNotFound h)) (\<lambda>ptr.
        case ptr of
          PDisk p off sz \<Rightarrow>
            (case rd p off sz of
               Inl e \<Rightarrow> Err (FsError p e)
             | Inr b \<Rightarrow> if length b \<noteq> sz then Panic else Ok b)
        | PMem data off sz \<Rightarrow>
            if off > length data \<or> sz > length data - off then Panic else Ok (take sz (drop off data))))"

section \<open>The frames a client receives\<close>

record client_state =
  cl_registry :: registry
  cl_outcomes :: "(chan \<times> outcome) list"
  cl_channel :: "wrap list"
  cl_blocks :: block_reader
  cl_indexes :: mem_indexes
  cl_notified :: "notification list"

definition client_send :: "wrap \<Rightarrow> client_state \<Rightarrow> client_state" where
  "client_send w st = st\<lparr>cl_channel := cl_channel st @ [w]\<rparr>"

text \<open>\<open>msg\<close> is the decoded frame, if it is a binary frame that can be decoded; the rest is logged.\<close>

definition client_frame ::
  "(path \<Rightarrow> u64 \<Rightarrow> nat \<Rightarrow> io_kind + bytes) \<Rightarrow> proto_message option \<Rightarrow> (client_state, unit, unit) io" where
  "client_frame rd msg = (\<lambda>st. case msg of
      Some (MRequest rid (GetIndex g)) \<Rightarrow>
        (case client_read_index (gi_id g) (cl_indexes st) of
           Ok data \<Rightarrow> (Ok (), client_send (ResponseWrap rid (GetIndexResponse data)) st)
         | Err e \<Rightarrow> (Ok (), client_send (ErrorWrap rid ''IndexNotFound'') st)
         | Panic \<Rightarrow> (Panic, st))
    | Some (MRequest rid (GetBlock g)) \<Rightarrow>
        (case client_read_block rd (gb_hash g) (cl_blocks st) of
           Ok data \<Rightarrow> (Ok (), client_send (ResponseWrap rid (GetBlockResponse data)) st)
         | Err e \<Rightarrow> (Ok (), client_send (ErrorWrap rid ''CantReadBlock'') st)
         | Panic \<Rightarrow> (Panic, st))
    | Some (MRequest rid _) \<Rightarrow> (Panic, st)
    | Some (MResponse rid resp) \<Rightarrow>
        (case respond rid resp (cl_registry st) of
           (reg, outs) \<Rightarrow> (Ok (), st\<lparr>cl_registry := reg, cl_outcomes := cl_outcomes st @ outs\<rparr>))
    | Some (MNotification n) \<Rightarrow> (Ok (), st\<lparr>cl_notified := cl_notified st @ [n]\<rparr>)
    | None \<Rightarrow> (Ok (), st))"

section \<open>Files and their blocks\<close>

text \<open>A file system at rest: reading a file yields as many bytes of it as there are and are wanted.\<close>

definition rd_of :: "(path \<Rightarrow> bytes option) \<Rightarrow> path \<Rightarrow> u64 \<Rightarrow> nat \<Rightarrow> io_kind + bytes" where
  "rd_of files p off sz = (case files p of None \<Rightarrow> Inl NotFound | Some c \<Rightarrow> Inr (take sz (drop (unat off) c)))"

text \<open>The directory holds what the index says: each file has the size and the hashes of its blocks.\<close>

fun entry_on_disk :: "(bytes \<Rightarrow> bytes) \<Rightarrow> (path \<Rightarrow> bytes option) \<Rightarrow> path \<Rightarrow> u64 \<Rightarrow> entry \<Rightarrow> bool" where
  "entry_on_disk H files dir bsize (EntryFile p exe sz hs) \<longleftrightarrow>
     (\<exists>rel c. strip_root (components p) = Some rel \<and> files (path_join dir rel) = Some c \<and> length c = unat sz \<and>
        hs = map H (chunks (unat bsize) c))"
| "entry_on_disk H files dir bsize _ \<longleftrightarrow> True"

fun entry_hashes :: "entry \<Rightarrow> bytes list" where
  "entry_hashes (EntryFile p exe sz hs) = hs"
| "entry_hashes _ = []"

text \<open>Every block the reader knows is the block of its hash.\<close>

definition pointer_ok :: "(bytes \<Rightarrow> bytes) \<Rightarrow> (path \<Rightarrow> u64 \<Rightarrow> nat \<Rightarrow> io_kind + bytes) \<Rightarrow> block_hash \<Rightarrow> block_pointer \<Rightarrow> bool" where
  "pointer_ok H rd h ptr \<longleftrightarrow> (\<exists>p off sz b. ptr = PDisk p off sz \<and> rd p off sz = Inr b \<and> length b = sz \<and> H b = block_bytes h)"

definition reader_ok :: "(bytes \<Rightarrow> bytes) \<Rightarrow> (path \<Rightarrow> u64 \<Rightarrow> nat \<Rightarrow> io_kind + bytes) \<Rightarrow> block_reader \<Rightarrow> bool" where
  "reader_ok H rd st \<longleftrightarrow> \<not> br_poisoned st \<and> (\<forall>h ptr. br_blocks st h = Some ptr \<longrightarrow> pointer_ok H rd h ptr)"

lemma reader_ok_put: "reader_ok H rd st \<Longrightarrow> pointer_ok H rd h ptr \<Longrightarrow> reader_ok H rd (put_pointer h ptr st)"
  by (simp add: reader_ok_def put_pointer_def)

lemma reader_ok_read:
  "reader_ok H rd st \<Longrightarrow> br_blocks st h \<noteq> None \<Longrightarrow> \<exists>b. client_read_block rd h st = Ok b \<and> H b = block_bytes h"
  unfolding reader_ok_def pointer_ok_def client_read_block_def by fastforce

lemma unat_of_small: "n < 2 ^ 64 \<Longrightarrow> unat (word_of_nat n :: u64) = n"
  by (simp add: unat_of_nat take_bit_nat_eq_self)

text \<open>What is left of a file at a block, cut at the block size, are the blocks from there on.\<close>

lemma register_hashes_ok:
  assumes H: "\<And>b. length (H b) = 32" and f: "files p = Some c" and b: "unat bsize > 0" and c: "length c < 2 ^ 64"
  shows "reader_ok H (rd_of files) st \<Longrightarrow>
    \<exists>st'. register_hashes p bsize idx (length (drop (idx * unat bsize) c)) (map H (chunks (unat bsize) (drop (idx * unat bsize) c))) st = (Ok () :: (unit, 'e dir_error) result, st') \<and>
      reader_ok H (rd_of files) st' \<and>
      dom (br_blocks st') = dom (br_blocks st) \<union> (BlockHash \<circ> H) ` set (chunks (unat bsize) (drop (idx * unat bsize) c))"
proof (induction "length c - idx * unat bsize" arbitrary: idx st rule: less_induct)
  case less
  let ?o = "idx * unat bsize" and ?n = "unat bsize"
  show ?case
  proof (cases "?o < length c")
    case False
    then show ?thesis using less.prems by (simp add: chunks.simps)
  next
    case True
    let ?b = "take ?n (drop ?o c)"
    have ch: "chunks ?n (drop ?o c) = ?b # chunks ?n (drop (Suc idx * ?n) c)"
      using True b by (subst chunks.simps) (simp add: add.commute)
    have o: "unat (word_of_nat idx * bsize) = ?o" "\<not> ?o \<ge> 2 ^ 64"
      using True c unat_of_small [of ?o] by simp_all
    let ?ptr = "PDisk p (word_of_nat ?o) (min (length (drop ?o c)) ?n)"
    have "take (min ?n (length c - ?o)) (drop ?o c) = ?b" by (simp add: min_def)
    then have "pointer_ok H (rd_of files) (BlockHash (H ?b)) ?ptr"
      by (simp add: pointer_ok_def rd_of_def f o min.commute)
    then have r: "reader_ok H (rd_of files) (put_pointer (BlockHash (H ?b)) ?ptr st)"
      by (rule reader_ok_put [OF less.prems])
    have len: "length (drop ?o c) - ?n = length (drop (Suc idx * ?n) c)" by (simp add: add.commute)
    have "length c - Suc idx * ?n < length c - ?o" using True b by simp
    from less.hyps [OF this r] obtain st' where "register_hashes p bsize (Suc idx) (length (drop (Suc idx * ?n) c))
        (map H (chunks ?n (drop (Suc idx * ?n) c))) (put_pointer (BlockHash (H ?b)) ?ptr st) = (Ok () :: (unit, 'e dir_error) result, st')"
        "reader_ok H (rd_of files) st'"
        "dom (br_blocks st') = dom (br_blocks (put_pointer (BlockHash (H ?b)) ?ptr st)) \<union>
          (BlockHash \<circ> H) ` set (chunks ?n (drop (Suc idx * ?n) c))"
      by blast
    then show ?thesis
      unfolding ch using o(2) len H by (simp add: block_from_bytes_def put_pointer_def)
  qed
qed

lemma register_entry_ok:
  assumes H: "\<And>b. length (H b) = 32" and e: "entry_on_disk H files dir bsize e" and b: "unat bsize > 0"
    and st: "reader_ok H (rd_of files) st"
  shows "\<exists>st'. register_entry dir bsize (Inr e) st = (Ok () :: (unit, 'e dir_error) result, st') \<and> reader_ok H (rd_of files) st' \<and>
    dom (br_blocks st') = dom (br_blocks st) \<union> BlockHash ` set (entry_hashes e)"
proof (cases e)
  case (EntryFile p exe sz hs)
  then obtain rel c where c: "strip_root (components p) = Some rel" "files (path_join dir rel) = Some c" "length c = unat sz"
      "hs = map H (chunks (unat bsize) c)"
    using e by auto
  have "length c < 2 ^ 64" using c(3) unsigned_less [of sz] by simp
  from register_hashes_ok [where idx = 0, OF H c(2) b this st] show ?thesis
    by (auto simp: EntryFile c(1,3,4) image_comp)
qed (use st in simp_all)

lemma register_entries_ok:
  assumes H: "\<And>b. length (H b) = 32" and b: "unat bsize > 0"
  shows "list_all (entry_on_disk H files dir bsize) es \<Longrightarrow> reader_ok H (rd_of files) st \<Longrightarrow>
    \<exists>st'. for_io (map Inr es) (register_entry dir bsize) st = (Ok () :: (unit, 'e dir_error) result, st') \<and> reader_ok H (rd_of files) st' \<and>
      dom (br_blocks st') = dom (br_blocks st) \<union> (\<Union>e\<in>set es. BlockHash ` set (entry_hashes e))"
proof (induction es arbitrary: st)
  case (Cons e es)
  then have e: "entry_on_disk H files dir bsize e" "list_all (entry_on_disk H files dir bsize) es" by simp_all
  obtain u where u: "register_entry dir bsize (Inr e) st = (Ok () :: (unit, 'e dir_error) result, u)" "reader_ok H (rd_of files) u"
      "dom (br_blocks u) = dom (br_blocks st) \<union> BlockHash ` set (entry_hashes e)"
    using register_entry_ok [OF H e(1) b Cons.prems(2)] by blast
  from Cons.IH [OF e(2) u(2)] show ?case by (auto simp: u(1,3))
qed simp

lemma register_dir_ok:
  fixes parser :: "bytes \<Rightarrow> 'e + u64 \<times> ('e + entry) list"
  assumes H: "\<And>b. length (H b) = 32" and b: "unat bsize > 0" and parse: "parser data = Inr (bsize, map Inr es)"
    and es: "list_all (entry_on_disk H files dir bsize) es" and st: "reader_ok H (rd_of files) st"
  shows "\<exists>st'. register_dir parser dir data st = (Ok (), st') \<and> reader_ok H (rd_of files) st' \<and>
    dom (br_blocks st') = dom (br_blocks st) \<union> (\<Union>e\<in>set es. BlockHash ` set (entry_hashes e))"
proof -
  have "\<not> br_poisoned st" using st by (simp add: reader_ok_def)
  moreover obtain st' where "for_io (map Inr es) (register_entry dir bsize) st = (Ok () :: (unit, 'e dir_error) result, st')"
      "reader_ok H (rd_of files) st'" "dom (br_blocks st') = dom (br_blocks st) \<union> (\<Union>e\<in>set es. BlockHash ` set (entry_hashes e))"
    using register_entries_ok [OF H b es st] by blast
  ultimately show ?thesis by (simp add: register_dir_def parse poison_def)
qed

lemma index_served:
  assumes "register_index ghash data ix = (Ok img, ix')" "cl_indexes st = ix'"
  shows "client_frame rd (Some (MRequest rid (GetIndex \<lparr>gi_id = img, gi_hint = hint\<rparr>))) st =
    (Ok (), client_send (ResponseWrap rid (GetIndexResponse data)) st)"
proof -
  have "mx_indexes ix' img = Some data"
    using assms(1) by (auto simp: register_index_def split: option.splits)
  then show ?thesis by (simp add: client_frame_def client_read_index_def assms(2))
qed

section \<open>Blocks in memory\<close>

lemma register_memory_hashes_map:
  "distinct hs \<Longrightarrow> register_memory_hashes data bsize idx hs st = (Ok (), st') \<Longrightarrow>
    br_poisoned st' = br_poisoned st \<and>
    (\<forall>k < length hs. br_blocks st' (BlockHash (hs ! k)) =
      Some (PMem data ((idx + k) * unat bsize) (min (length data) (Suc (idx + k) * unat bsize)))) \<and>
    (\<forall>h. h \<notin> set hs \<longrightarrow> br_blocks st' (BlockHash h) = br_blocks st (BlockHash h))"
proof (induction hs arbitrary: idx st)
  case (Cons h hs)
  let ?u = "put_pointer (BlockHash h) (PMem data (idx * unat bsize) (min (length data) (Suc idx * unat bsize))) st"
  have run: "register_memory_hashes data bsize (Suc idx) hs ?u = (Ok (), st')"
    using Cons.prems(2) by (auto simp: block_from_bytes_def bind_io_Ok_iff split: if_splits)
  have "br_blocks st' (BlockHash ((h # hs) ! k)) =
      Some (PMem data ((idx + k) * unat bsize) (min (length data) (Suc (idx + k) * unat bsize)))" if "k < length (h # hs)" for k
    using Cons.IH [OF _ run] Cons.prems(1) that by (cases k) (auto simp: put_pointer_def)
  then show ?case using Cons.IH [OF _ run] Cons.prems(1) by (auto simp: put_pointer_def)
qed simp

lemma register_memory_run:
  assumes "register_memory_blocks hash_file bsize data st = (Ok (), st')" "distinct (hash_file bsize data)"
    "k < length (hash_file bsize data)"
  shows "\<not> br_poisoned st' \<and> br_blocks st' (BlockHash (hash_file bsize data ! k)) =
    Some (PMem data (k * unat bsize) (min (length data) (Suc k * unat bsize)))"
proof -
  have "\<not> br_poisoned st" "register_memory_hashes data bsize 0 (hash_file bsize data) st = (Ok (), st')"
    using assms(1) by (auto simp: register_memory_blocks_def poison_def split: if_splits prod.splits result.splits)
  then show ?thesis using register_memory_hashes_map [OF assms(2)] assms(3) by fastforce
qed

text \<open>A file of one block is served from memory.\<close>

lemma memory_block_served:
  assumes "register_memory_blocks hash_file bsize data st = (Ok (), st')" "hash_file bsize data = [h]" "length data \<le> unat bsize"
  shows "client_read_block rd (BlockHash h) st' = Ok data"
  using register_memory_run [OF assms(1), of 0] assms(2,3) by (simp add: client_read_block_def)

text \<open>The second block of a longer one is not: reading it panics or yields more than a block.\<close>

lemma memory_second_block_wrong:
  assumes "register_memory_blocks hash_file bsize data st = (Ok (), st')" "distinct (hash_file bsize data)"
    and "1 < length (hash_file bsize data)" "0 < unat bsize" "unat bsize < length data"
  shows "client_read_block rd (BlockHash (hash_file bsize data ! 1)) st' = Panic \<or>
    (\<exists>b. client_read_block rd (BlockHash (hash_file bsize data ! 1)) st' = Ok b \<and> length b > unat bsize)"
  using register_memory_run [OF assms(1-3)] assms(4,5) by (auto simp: client_read_block_def)

section \<open>Properties\<close>


definition demo_files :: "path \<Rightarrow> bytes option" where
  "demo_files p = (if p = [RootDir, Normal ''img'', Normal ''a''] then Some [1, 2, 3] else None)"

definition demo_digest :: "bytes \<Rightarrow> bytes" where
  "demo_digest b = take 32 (b @ replicate 32 0)"


end
