(* ===== verification/Upload_Command.thy ===== *)
theory Upload_Command
  imports Client_Serve
begin

text \<open>
  The command that uploads a directory (\<^verbatim>\<open>src/client/upload/\<close>): its targets, the signed request it sends to each address
  of each target, and the progress that the connections share, from which it tells when all hosts are done. The futures
  of the command are steps, each a reaction to one event; what the resolver, the connections and the daemons do is
  the choice of the event. The addresses of a target are a list, since one may come twice.
\<close>

section \<open>Targets\<close>

record 'n target_url =
  tu_host :: 'n
  tu_path :: string

datatype 'e target_error = BadHost 'e | NoSlash | NoColon

text \<open>\<^verbatim>\<open>TargetUrl::from_str\<close>; the parser of host names is that of \<^verbatim>\<open>abstract_ns\<close>.\<close>

definition target_from_str :: "(string \<Rightarrow> 'e + 'n) \<Rightarrow> string \<Rightarrow> ('n target_url, 'e target_error) result" where
  "target_from_str parse_name s =
     (if CHR '':'' \<in> set s
      then let host = takeWhile (\<lambda>c. c \<noteq> CHR '':'') s; p = tl (dropWhile (\<lambda>c. c \<noteq> CHR '':'') s) in
        case parse_name host of
          Inl e \<Rightarrow> Err (BadHost e)
        | Inr name \<Rightarrow> if \<not> starts_with p ''/'' then Err NoSlash else Ok \<lparr>tu_host = name, tu_path = p\<rparr>
      else Err NoColon)"

section \<open>The shared progress\<close>

record 'a up_progress =
  pr_hosts_done :: "machine_id \<rightharpoonup> string"
  pr_ips_needed :: "'a set"
  pr_ids_needed :: "machine_id \<rightharpoonup> string"
  pr_hosts_errored :: "'a set"
  pr_done :: bool
  pr_sent :: bool

text \<open>\<open>pr_done\<close> says that the sender is still there, \<open>pr_sent\<close> that its receivers are woken.\<close>

definition up_progress_new :: "'a up_progress" where
  "up_progress_new = \<lparr>pr_hosts_done = Map.empty, pr_ips_needed = {}, pr_ids_needed = Map.empty, pr_hosts_errored = {},
     pr_done = True, pr_sent = False\<rparr>"

definition add_ids :: "(machine_id \<rightharpoonup> string) \<Rightarrow> 'a up_progress \<Rightarrow> 'a up_progress" where
  "add_ids hosts pr = pr\<lparr>pr_ids_needed := (\<lambda>i. if hosts i \<noteq> None \<and> pr_hosts_done pr i = None then hosts i else pr_ids_needed pr i)\<rparr>"

definition check_status :: "'a up_progress \<Rightarrow> 'a up_progress" where
  "check_status pr = (if pr_ips_needed pr = {} then pr\<lparr>pr_done := False, pr_sent := pr_sent pr \<or> pr_done pr\<rparr> else pr)"

definition drop_ip :: "'a \<Rightarrow> 'a up_progress \<Rightarrow> 'a up_progress" where
  "drop_ip a pr = pr\<lparr>pr_ips_needed := pr_ips_needed pr - {a}\<rparr>"

definition add_error :: "'a \<Rightarrow> 'a up_progress \<Rightarrow> 'a up_progress" where
  "add_error a pr = pr\<lparr>pr_hosts_errored := insert a (pr_hosts_errored pr)\<rparr>"

text \<open>The listener of a connection.\<close>

definition tracker_notification :: "'a \<Rightarrow> notification \<Rightarrow> 'a up_progress \<Rightarrow> 'a up_progress" where
  "tracker_notification a n pr = (case n of
      ReceivedImage img \<Rightarrow>
        let pr = pr\<lparr>pr_hosts_done := (pr_hosts_done pr)(ri_machine_id img \<mapsto> ri_hostname img)\<rparr> in
        check_status (if ri_forwarded img then pr else drop_ip a pr)
    | AbortedImage img \<Rightarrow>
        let pr = add_error a pr in check_status (if ai_forwarded img then pr else drop_ip a pr)
    | _ \<Rightarrow> pr)"

definition tracker_closed :: "'a \<Rightarrow> 'a up_progress \<Rightarrow> 'a up_progress" where
  "tracker_closed a pr = (if pr_done pr then check_status (add_error a (drop_ip a pr)) else pr)"

definition progress_is_ok :: "'a up_progress \<Rightarrow> bool" where
  "progress_is_ok pr \<longleftrightarrow> pr_hosts_errored pr = {}"

definition is_conflict_reason :: "string option \<Rightarrow> bool" where
  "is_conflict_reason reason \<longleftrightarrow>
     reason = Some ''already_exists'' \<or> reason = Some ''already_uploading_different_version''"

section \<open>The connections of the targets\<close>

datatype up_task = TConnecting | TRequested | TWaiting | TFinished bool

text \<open>An address, whether its connection is open, and how far its future is. A target that is not resolved has none yet.\<close>

type_synonym 'a up_conn = "'a \<times> bool \<times> up_task"

record 'a upload_cmd =
  uc_progress :: "'a up_progress"
  uc_urls :: "'a up_conn list option list"

definition upload_cmd_new :: "nat \<Rightarrow> 'a upload_cmd" where
  "upload_cmd_new n = \<lparr>uc_progress = up_progress_new, uc_urls = replicate n None\<rparr>"

datatype 'a up_event =
    EResolved nat "'a list"
  | EConnected nat nat
  | EConnectFailed nat nat
  | EAnswered nat nat "dir_ack option"
  | ENotified nat nat notification
  | EClosed nat nat
  | EDone nat nat

definition conn_at :: "nat \<Rightarrow> nat \<Rightarrow> 'a upload_cmd \<Rightarrow> 'a up_conn option" where
  "conn_at u i st =
     (if u < length (uc_urls st)
      then case uc_urls st ! u of None \<Rightarrow> None | Some cs \<Rightarrow> if i < length cs then Some (cs ! i) else None
      else None)"

definition set_conn :: "nat \<Rightarrow> nat \<Rightarrow> 'a up_conn \<Rightarrow> 'a up_progress \<Rightarrow> 'a upload_cmd \<Rightarrow> 'a upload_cmd" where
  "set_conn u i c pr st = st\<lparr>uc_progress := pr, uc_urls := (uc_urls st)[u := map_option (\<lambda>cs. cs[i := c]) (uc_urls st ! u)]\<rparr>"

text \<open>
  \<^verbatim>\<open>name::pick_hosts\<close> or a failure to resolve give the addresses; all are needed at once. A connection that
  fails, a request that fails and a rejection take the address off without a look at whether it was the last.
\<close>

fun upload_event :: "bool \<Rightarrow> 'a up_event \<Rightarrow> 'a upload_cmd \<Rightarrow> 'a upload_cmd option" where
  "upload_event fail_on_conflict (EResolved u addrs) st =
     (if u < length (uc_urls st) \<and> uc_urls st ! u = None
      then let pr = uc_progress st in
        Some (st\<lparr>uc_progress := pr\<lparr>pr_ips_needed := pr_ips_needed pr \<union> set addrs\<rparr>,
                 uc_urls := (uc_urls st)[u := Some (map (\<lambda>a. (a, False, TConnecting)) addrs)]\<rparr>)
      else None)"
| "upload_event fail_on_conflict (EConnected u i) st = (case conn_at u i st of
      Some (a, _, TConnecting) \<Rightarrow> Some (set_conn u i (a, True, TRequested) (uc_progress st) st)
    | _ \<Rightarrow> None)"
| "upload_event fail_on_conflict (EConnectFailed u i) st = (case conn_at u i st of
      Some (a, op, TConnecting) \<Rightarrow> Some (set_conn u i (a, op, TFinished False) (drop_ip a (uc_progress st)) st)
    | _ \<Rightarrow> None)"
| "upload_event fail_on_conflict (EAnswered u i ack) st = (case conn_at u i st of
      Some (a, op, TRequested) \<Rightarrow> Some (case ack of
          None \<Rightarrow> set_conn u i (a, op, TFinished False) (drop_ip a (uc_progress st)) st
        | Some resp \<Rightarrow>
            let pr = add_ids (ack_hosts resp) (uc_progress st) in
            if ack_accepted resp then set_conn u i (a, op, TWaiting) pr st
            else set_conn u i (a, op, TFinished (\<not> fail_on_conflict \<and> is_conflict_reason (ack_reject_reason resp))) (drop_ip a pr) st)
    | _ \<Rightarrow> None)"
| "upload_event fail_on_conflict (ENotified u i n) st = (case conn_at u i st of
      Some (a, True, t) \<Rightarrow> Some (st\<lparr>uc_progress := tracker_notification a n (uc_progress st)\<rparr>)
    | _ \<Rightarrow> None)"
| "upload_event fail_on_conflict (EClosed u i) st = (case conn_at u i st of
      Some (a, True, t) \<Rightarrow> Some (set_conn u i (a, False, t) (tracker_closed a (uc_progress st)) st)
    | _ \<Rightarrow> None)"
| "upload_event fail_on_conflict (EDone u i) st = (case conn_at u i st of
      Some (a, op, TWaiting) \<Rightarrow>
        if pr_sent (uc_progress st)
        then Some (set_conn u i (a, op, TFinished (progress_is_ok (uc_progress st))) (uc_progress st) st)
        else None
    | _ \<Rightarrow> None)"

fun upload_run :: "bool \<Rightarrow> 'a up_event list \<Rightarrow> 'a upload_cmd \<Rightarrow> 'a upload_cmd option" where
  "upload_run foc [] st = Some st"
| "upload_run foc (ev # evs) st = Option.bind (upload_event foc ev st) (upload_run foc evs)"

text \<open>What \<^verbatim>\<open>do_upload\<close> returns when all futures are finished: every target needs one address that is fine.\<close>

definition conn_result :: "'a up_conn \<Rightarrow> bool option" where
  "conn_result c = (case c of (_, _, TFinished b) \<Rightarrow> Some b | _ \<Rightarrow> None)"

definition upload_result :: "'a upload_cmd \<Rightarrow> bool option" where
  "upload_result st =
     (if list_all (\<lambda>u. u \<noteq> None \<and> list_all (\<lambda>c. conn_result c \<noteq> None) (the u)) (uc_urls st)
      then Some (list_all (\<lambda>u. list_ex (\<lambda>c. conn_result c = Some True) (the u)) (uc_urls st))
      else None)"

section \<open>When a connection ends well\<close>

definition accepted_by :: "nat \<Rightarrow> nat \<Rightarrow> 'a up_event list \<Rightarrow> bool" where
  "accepted_by u i evs \<longleftrightarrow> (\<exists>ack. EAnswered u i (Some ack) \<in> set evs \<and> ack_accepted ack)"

definition conflict_at :: "nat \<Rightarrow> nat \<Rightarrow> 'a up_event list \<Rightarrow> bool" where
  "conflict_at u i evs \<longleftrightarrow>
     (\<exists>ack. EAnswered u i (Some ack) \<in> set evs \<and> \<not> ack_accepted ack \<and> is_conflict_reason (ack_reject_reason ack))"

definition image_reported :: "'a up_event list \<Rightarrow> bool" where
  "image_reported evs \<longleftrightarrow> (\<exists>u i img. ENotified u i (ReceivedImage img) \<in> set evs)"

definition abort_reported :: "'a up_event list \<Rightarrow> bool" where
  "abort_reported evs \<longleftrightarrow> (\<exists>u i img. ENotified u i (AbortedImage img) \<in> set evs)"

definition ended_well :: "bool \<Rightarrow> nat \<Rightarrow> nat \<Rightarrow> 'a up_event list \<Rightarrow> bool" where
  "ended_well foc u i evs \<longleftrightarrow> \<not> foc \<and> conflict_at u i evs \<or>
     (\<exists>before after. evs = before @ EDone u i # after \<and> accepted_by u i before \<and> image_reported before \<and> \<not> abort_reported before)"

definition task_justified :: "bool \<Rightarrow> 'a up_event list \<Rightarrow> nat \<Rightarrow> nat \<Rightarrow> up_task \<Rightarrow> bool" where
  "task_justified foc evs u i t = (case t of
      TWaiting \<Rightarrow> accepted_by u i evs
    | TFinished True \<Rightarrow> ended_well foc u i evs
    | _ \<Rightarrow> True)"

definition progress_justified :: "'a up_event list \<Rightarrow> 'a up_progress \<Rightarrow> bool" where
  "progress_justified evs pr \<longleftrightarrow>
     (abort_reported evs \<longrightarrow> pr_hosts_errored pr \<noteq> {}) \<and> (pr_sent pr \<longrightarrow> pr_hosts_errored pr \<noteq> {} \<or> image_reported evs)"

definition upload_justified :: "bool \<Rightarrow> 'a up_event list \<Rightarrow> 'a upload_cmd \<Rightarrow> bool" where
  "upload_justified foc evs st \<longleftrightarrow> progress_justified evs (uc_progress st) \<and>
     (\<forall>u i a op t. conn_at u i st = Some (a, op, t) \<longrightarrow> task_justified foc evs u i t)"

lemma conn_at_set_conn:
  "conn_at u i st = Some c0 \<Longrightarrow> conn_at v j (set_conn u i c pr st) = (if v = u \<and> j = i then Some c else conn_at v j st)"
  by (auto simp: conn_at_def set_conn_def nth_list_update split: if_splits option.splits)

lemma conn_at_progress [simp]: "conn_at u i (st\<lparr>uc_progress := pr\<rparr>) = conn_at u i st"
  by (simp add: conn_at_def)

lemma uc_progress_set_conn [simp]: "uc_progress (set_conn u i c pr st) = pr"
  by (simp add: set_conn_def)

lemma heard_mono:
  "accepted_by u i evs \<Longrightarrow> accepted_by u i (evs @ [ev])" "conflict_at u i evs \<Longrightarrow> conflict_at u i (evs @ [ev])"
  "image_reported evs \<Longrightarrow> image_reported (evs @ [ev])"
  by (auto simp: accepted_by_def conflict_at_def image_reported_def)

lemma ended_well_mono: "ended_well foc u i evs \<Longrightarrow> ended_well foc u i (evs @ [ev])"
  unfolding ended_well_def using heard_mono(2) by fastforce

lemma task_justified_mono: "task_justified foc evs u i t \<Longrightarrow> task_justified foc (evs @ [ev]) u i t"
  by (auto simp: task_justified_def heard_mono ended_well_mono split: up_task.splits bool.splits)

lemma abort_reported_snoc: "abort_reported (evs @ [ev]) \<longleftrightarrow> abort_reported evs \<or> (\<exists>u i img. ev = ENotified u i (AbortedImage img))"
  by (auto simp: abort_reported_def)

lemma progress_justified_mono:
  assumes "progress_justified evs pr" "pr_hosts_errored pr' = pr_hosts_errored pr" "pr_sent pr' = pr_sent pr"
    "\<nexists>u i img. ev = ENotified u i (AbortedImage img)"
  shows "progress_justified (evs @ [ev]) pr'"
  using assms by (auto simp: progress_justified_def abort_reported_snoc heard_mono)

lemma drop_ip_fields [simp]:
  "pr_hosts_errored (drop_ip a pr) = pr_hosts_errored pr" "pr_sent (drop_ip a pr) = pr_sent pr" "pr_done (drop_ip a pr) = pr_done pr"
  "pr_hosts_errored (add_ids h pr) = pr_hosts_errored pr" "pr_sent (add_ids h pr) = pr_sent pr"
  by (simp_all add: drop_ip_def add_ids_def)

lemma check_status_errored [simp]: "pr_hosts_errored (check_status pr) = pr_hosts_errored pr"
  by (simp add: check_status_def)

lemma errored_mono: "pr_hosts_errored pr \<subseteq> pr_hosts_errored (tracker_notification a n pr)"
    "pr_hosts_errored pr \<subseteq> pr_hosts_errored (tracker_closed a pr)"
  by (auto simp: tracker_notification_def tracker_closed_def add_error_def Let_def drop_ip_def split: notification.splits)

lemma progress_notification:
  assumes "progress_justified evs pr"
  shows "progress_justified (evs @ [ENotified u i n]) (tracker_notification a n pr)"
proof (cases n)
  case (ReceivedImage img)
  then have "image_reported (evs @ [ENotified u i n])" by (auto simp: image_reported_def)
  then show ?thesis using assms errored_mono(1) [of pr a n]
    by (auto simp: progress_justified_def abort_reported_snoc ReceivedImage)
next
  case (AbortedImage img)
  then have "pr_hosts_errored (tracker_notification a n pr) \<noteq> {}"
    by (auto simp: tracker_notification_def add_error_def Let_def)
  then show ?thesis by (simp add: progress_justified_def)
next
  case (PublishImage x)
  then show ?thesis using assms by (auto intro: progress_justified_mono simp: tracker_notification_def)
qed

lemma progress_closed:
  assumes "progress_justified evs pr"
  shows "progress_justified (evs @ [EClosed u i]) (tracker_closed a pr)"
proof (cases "pr_done pr")
  case True
  then have "pr_hosts_errored (tracker_closed a pr) \<noteq> {}" by (simp add: tracker_closed_def add_error_def)
  then show ?thesis by (simp add: progress_justified_def)
next
  case False
  then show ?thesis using assms by (auto intro: progress_justified_mono simp: tracker_closed_def)
qed

text \<open>A step that changes one connection.\<close>

lemma justified_set_conn:
  assumes J: "upload_justified foc evs st" and at: "conn_at u i st = Some c0"
    and pr: "progress_justified (evs @ [ev]) pr" and t: "task_justified foc (evs @ [ev]) u i t"
  shows "upload_justified foc (evs @ [ev]) (set_conn u i (a, op, t) pr st)"
  unfolding upload_justified_def
proof (intro conjI allI impI)
  fix v j b op' t' assume "conn_at v j (set_conn u i (a, op, t) pr st) = Some (b, op', t')"
  then show "task_justified foc (evs @ [ev]) v j t'"
    using J t task_justified_mono unfolding upload_justified_def
    by (fastforce simp: conn_at_set_conn [OF at] split: if_splits)
qed (simp add: pr)

lemma justified_at: "upload_justified foc evs st \<Longrightarrow> conn_at u i st = Some (a, op, t) \<Longrightarrow> task_justified foc evs u i t"
  by (simp add: upload_justified_def)

lemma justified_answer:
  assumes J: "upload_justified foc evs st" and run: "upload_event foc (EAnswered u i ack) st = Some st'"
  shows "upload_justified foc (evs @ [EAnswered u i ack]) st'"
proof -
  let ?ev = "EAnswered u i ack" and ?pr = "uc_progress st"
  obtain a op where at: "conn_at u i st = Some (a, op, TRequested)"
    using run by (auto split: option.splits prod.splits up_task.splits)
  have pr: "progress_justified (evs @ [?ev]) (drop_ip a ?pr)" "progress_justified (evs @ [?ev]) (add_ids h ?pr)"
    "progress_justified (evs @ [?ev]) (drop_ip a (add_ids h ?pr))" for h
    using J by (auto simp: upload_justified_def intro: progress_justified_mono)
  show ?thesis
  proof (cases ack)
    case None
    then show ?thesis using run at pr(1) by (auto intro!: justified_set_conn [OF J at] simp: task_justified_def)
  next
    case (Some resp)
    have "task_justified foc (evs @ [?ev]) u i TWaiting" if "ack_accepted resp"
      using that Some by (auto simp: task_justified_def accepted_by_def)
    moreover have "task_justified foc (evs @ [?ev]) u i (TFinished (\<not> foc \<and> is_conflict_reason (ack_reject_reason resp)))"
      if "\<not> ack_accepted resp"
      using that Some by (auto simp: task_justified_def ended_well_def conflict_at_def split: bool.splits)
    ultimately show ?thesis
      using run at Some pr(2,3) by (auto simp: Let_def intro!: justified_set_conn [OF J at])
  qed
qed

lemma justified_done:
  assumes J: "upload_justified foc evs st" and run: "upload_event foc (EDone u i) st = Some st'"
  shows "upload_justified foc (evs @ [EDone u i]) st'"
proof -
  let ?pr = "uc_progress st"
  obtain a op where at: "conn_at u i st = Some (a, op, TWaiting)" and sent: "pr_sent ?pr"
    and st': "st' = set_conn u i (a, op, TFinished (progress_is_ok ?pr)) ?pr st"
    using run by (auto split: option.splits prod.splits up_task.splits if_splits)
  have "ended_well foc u i (evs @ [EDone u i])" if "progress_is_ok ?pr"
  proof -
    have "accepted_by u i evs" using justified_at [OF J at] by (simp add: task_justified_def)
    moreover have "image_reported evs" "\<not> abort_reported evs"
      using J sent that by (auto simp: upload_justified_def progress_justified_def progress_is_ok_def)
    ultimately show ?thesis unfolding ended_well_def by blast
  qed
  then have "task_justified foc (evs @ [EDone u i]) u i (TFinished (progress_is_ok ?pr))"
    by (auto simp: task_justified_def split: bool.splits)
  moreover have "progress_justified (evs @ [EDone u i]) ?pr"
    using J by (auto simp: upload_justified_def intro: progress_justified_mono)
  ultimately show ?thesis unfolding st' by (intro justified_set_conn [OF J at])
qed

lemma upload_event_justified:
  assumes J: "upload_justified foc evs st" and run: "upload_event foc ev st = Some st'"
  shows "upload_justified foc (evs @ [ev]) st'"
proof (cases ev)
  case (EResolved u addrs)
  let ?cs = "map (\<lambda>a. (a, False, TConnecting)) addrs"
  have u: "u < length (uc_urls st)" "uc_urls st ! u = None"
    and st': "uc_urls st' = (uc_urls st)[u := Some ?cs]" "pr_hosts_errored (uc_progress st') = pr_hosts_errored (uc_progress st)"
      "pr_sent (uc_progress st') = pr_sent (uc_progress st)"
    using run EResolved by (auto simp: Let_def split: if_splits)
  have "conn_at v j st = Some (a, op, t) \<or> t = TConnecting" if "conn_at v j st' = Some (a, op, t)" for v j a op t
    using that u by (auto simp: conn_at_def st'(1) nth_list_update split: if_splits option.splits)
  then show ?thesis
    using J EResolved st'(2,3) progress_justified_mono task_justified_mono
    unfolding upload_justified_def by (fastforce simp: task_justified_def)
next
  case (EConnected u i)
  then obtain a op where at: "conn_at u i st = Some (a, op, TConnecting)"
    and st': "st' = set_conn u i (a, True, TRequested) (uc_progress st) st"
    using run by (auto split: option.splits prod.splits up_task.splits)
  show ?thesis unfolding EConnected st'
    by (rule justified_set_conn [OF J at])
      (use J in \<open>auto simp: task_justified_def upload_justified_def intro: progress_justified_mono\<close>)
next
  case (EConnectFailed u i)
  then obtain a op where at: "conn_at u i st = Some (a, op, TConnecting)"
    and st': "st' = set_conn u i (a, op, TFinished False) (drop_ip a (uc_progress st)) st"
    using run by (auto split: option.splits prod.splits up_task.splits)
  show ?thesis unfolding EConnectFailed st'
    by (rule justified_set_conn [OF J at])
      (use J in \<open>auto simp: task_justified_def upload_justified_def intro: progress_justified_mono\<close>)
next
  case (ENotified u i n)
  then obtain a where "st' = st\<lparr>uc_progress := tracker_notification a n (uc_progress st)\<rparr>"
    using run by (auto split: option.splits prod.splits bool.splits)
  then show ?thesis using J ENotified
    by (auto simp: upload_justified_def progress_notification intro!: task_justified_mono)
next
  case (EClosed u i)
  then obtain a t where at: "conn_at u i st = Some (a, True, t)"
    and st': "st' = set_conn u i (a, False, t) (tracker_closed a (uc_progress st)) st"
    using run by (auto split: option.splits prod.splits bool.splits)
  show ?thesis unfolding EClosed st'
    by (rule justified_set_conn [OF J at])
      (use J justified_at [OF J at] in \<open>auto simp: upload_justified_def intro: progress_closed task_justified_mono\<close>)
qed (use J run justified_answer justified_done in auto)

lemma upload_run_justified:
  "upload_run foc evs st = Some st' \<Longrightarrow> upload_justified foc evs0 st \<Longrightarrow> upload_justified foc (evs0 @ evs) st'"
proof (induction evs arbitrary: evs0 st)
  case (Cons ev evs)
  then obtain u where "upload_event foc ev st = Some u" "upload_run foc evs u = Some st'" by (auto simp: bind_eq_Some_conv)
  then show ?case using Cons.IH [of u "evs0 @ [ev]"] upload_event_justified [OF Cons.prems(2)] by simp
qed simp

lemma upload_event_length: "upload_event foc ev st = Some st' \<Longrightarrow> length (uc_urls st') = length (uc_urls st)"
  by (cases ev) (auto simp: set_conn_def Let_def split: option.splits prod.splits up_task.splits if_splits bool.splits)

lemma upload_run_length: "upload_run foc evs st = Some st' \<Longrightarrow> length (uc_urls st') = length (uc_urls st)"
  by (induction evs arbitrary: st) (auto simp: bind_eq_Some_conv dest: upload_event_length)

lemma upload_new_justified: "upload_justified foc [] (upload_cmd_new n)"
  by (auto simp: upload_justified_def upload_cmd_new_def up_progress_new_def progress_justified_def abort_reported_def conn_at_def
      split: if_splits)

lemma conn_result_True: "conn_result c = Some True \<longleftrightarrow> (\<exists>a op. c = (a, op, TFinished True))"
  by (cases c) (auto simp: conn_result_def split: up_task.splits)

section \<open>Properties\<close>


definition demo_ack :: dir_ack where
  "demo_ack = \<lparr>ack_accepted = True, ack_reject_reason = None, ack_hosts = Map.empty\<rparr>"

definition demo_received :: received_image where
  "demo_received = \<lparr>ri_id = Other [1], ri_path = VPath ''k'' [''v''], ri_machine_id = MachineId [], ri_hostname = ''h'', ri_forwarded = False\<rparr>"

definition demo_upload_events :: "nat up_event list" where
  "demo_upload_events = [EResolved 0 [7], EConnected 0 0, EAnswered 0 0 (Some demo_ack), ENotified 0 0 (ReceivedImage demo_received), EDone 0 0]"


text \<open>
  The command may never end. Two addresses: the first accepts and its connection is lost; the second cannot be connected to,
  after that. The failure to connect takes the last address off the list without looking whether it was the last, so
  that the future of the first address waits for a message that nobody can send any more.
\<close>

lemma upload_hangs:
  "\<exists>st. upload_run True [EResolved 0 [7 :: nat, 8], EConnected 0 0, EAnswered 0 0 (Some demo_ack), EClosed 0 0, EConnectFailed 0 1]
      (upload_cmd_new 1) = Some st \<and> pr_ips_needed (uc_progress st) = {} \<and> upload_result st = None \<and>
    (\<forall>ev. upload_event True ev st = None)"
proof -
  let ?pr = "\<lparr>pr_hosts_done = Map.empty, pr_ips_needed = {}, pr_ids_needed = Map.empty, pr_hosts_errored = {7}, pr_done = True, pr_sent = False\<rparr> :: nat up_progress"
  let ?st = "\<lparr>uc_progress = ?pr, uc_urls = [Some [(7, False, TWaiting), (8, False, TFinished False)]]\<rparr> :: nat upload_cmd"
  have run: "upload_run True [EResolved 0 [7, 8], EConnected 0 0, EAnswered 0 0 (Some demo_ack), EClosed 0 0, EConnectFailed 0 1]
      (upload_cmd_new 1) = Some ?st"
    by (simp add: demo_ack_def upload_cmd_new_def up_progress_new_def conn_at_def set_conn_def tracker_closed_def add_ids_def drop_ip_def
        add_error_def check_status_def insert_Diff_if)
  have at: "conn_at u i ?st = (if u = 0 \<and> i = 0 then Some (7, False, TWaiting) else if u = 0 \<and> i = 1 then Some (8, False, TFinished False) else None)" for u i
    by (auto simp: conn_at_def nth_Cons')
  have "upload_event True ev ?st = None" for ev by (cases ev) (auto simp: at)
  then show ?thesis using run by (intro exI [of _ ?st] conjI) (simp_all add: upload_result_def conn_result_def)
qed

text \<open>
  A target that is resolved after the hosts of the others are done counts as successful as soon as one of its daemons has
  accepted the request, before the image is there.
\<close>

lemma late_target_succeeds:
  "\<exists>st. upload_run True [EResolved 0 [7 :: nat], EConnected 0 0, EAnswered 0 0 (Some demo_ack), ENotified 0 0 (ReceivedImage demo_received),
      EDone 0 0, EResolved 1 [8], EConnected 1 0, EAnswered 1 0 (Some demo_ack), EDone 1 0] (upload_cmd_new 2) = Some st \<and>
    upload_result st = Some True \<and> pr_ips_needed (uc_progress st) = {8}"
  by (simp add: demo_ack_def demo_received_def upload_cmd_new_def up_progress_new_def conn_at_def set_conn_def numeral_2_eq_2
      tracker_notification_def add_ids_def drop_ip_def check_status_def progress_is_ok_def upload_result_def conn_result_def)
    blast

end
