(* ===== verification/Sync_Command.thy ===== *)
theory Sync_Command
  imports Upload_Command
begin

text \<open>
  What the commands of the client do before they talk to a cluster: the keys they read (\<^verbatim>\<open>src/client/keys.rs\<close>), the
  clusters and the uploads named on the command line (\<^verbatim>\<open>src/client/sync/\<close>), and the index, the blocks and the
  signatures they prepare (also \<^verbatim>\<open>do_upload\<close> of \<^verbatim>\<open>src/client/upload/mod.rs\<close>). The scanner and the parser of
  \<^verbatim>\<open>dir_signature\<close>, the parser of host names and the parser of keys are parameters, and so are the files and the variables
  of the environment.
\<close>

section \<open>Private keys\<close>

datatype 'e keys_error = KeyRead string io_kind | KeyVar string | KeyParse 'e

record 'e keys_env =
  ke_file :: "string \<Rightarrow> io_kind + string"
  ke_var :: "string \<Rightarrow> string option"
  ke_home :: "string option"
  ke_parse :: "string \<Rightarrow> 'e + private_key list"

definition parse_keys :: "'e keys_env \<Rightarrow> string \<Rightarrow> (private_key list, 'e keys_error) result" where
  "parse_keys env buf = (case ke_parse env buf of Inl e \<Rightarrow> Err (KeyParse e) | Inr keys \<Rightarrow> Ok keys)"

definition keys_from_file :: "'e keys_env \<Rightarrow> string \<Rightarrow> bool \<Rightarrow> (private_key list, 'e keys_error) result" where
  "keys_from_file env filename allow_non_existent = (case ke_file env filename of
      Inl e \<Rightarrow> if e = NotFound \<and> allow_non_existent then Ok [] else Err (KeyRead filename e)
    | Inr buf \<Rightarrow> parse_keys env buf)"

definition keys_from_env :: "'e keys_env \<Rightarrow> string \<Rightarrow> bool \<Rightarrow> (private_key list, 'e keys_error) result" where
  "keys_from_env env name allow_non_existent = (case ke_var env name of
      None \<Rightarrow> if allow_non_existent then Ok [] else Err (KeyVar name)
    | Some buf \<Rightarrow> parse_keys env buf)"

fun collect_keys :: "('x \<Rightarrow> ('k list, 'e) result) \<Rightarrow> 'x list \<Rightarrow> ('k list, 'e) result" where
  "collect_keys f [] = Ok []"
| "collect_keys f (x # xs) = bind_result (f x) (\<lambda>ks. bind_result (collect_keys f xs) (\<lambda>rest. Ok (ks @ rest)))"

definition client_read_keys :: "'e keys_env \<Rightarrow> string list \<Rightarrow> string list \<Rightarrow> (private_key list, 'e keys_error) result" where
  "client_read_keys env identities key_vars =
     (if identities = [] \<and> key_vars = []
      then bind_result (keys_from_env env ''CIRUELA_KEY'' True) (\<lambda>ks.
        case ke_home env of
          None \<Rightarrow> Ok ks
        | Some home \<Rightarrow>
            bind_result (collect_keys (\<lambda>p. keys_from_file env (home @ p) True)
              [''/.ssh/id_ed25519'', ''/.ssh/id_ciruela'', ''/.ciruela/id_ed25519'']) (\<lambda>rest. Ok (ks @ rest)))
      else bind_result (collect_keys (\<lambda>p. keys_from_file env p False) identities) (\<lambda>ks.
           bind_result (collect_keys (\<lambda>n. keys_from_env env n False) key_vars) (\<lambda>rest. Ok (ks @ rest))))"

section \<open>Clusters\<close>

fun cluster_groups :: "(string \<Rightarrow> ('n, 'e) result) \<Rightarrow> string list \<Rightarrow> 'n list \<Rightarrow> 'n list list \<Rightarrow> ('n list list, 'e) result" where
  "cluster_groups parse_name [] cur res = Ok (if cur = [] then res else res @ [cur])"
| "cluster_groups parse_name (name # src) cur res =
     (if name = ''--'' then cluster_groups parse_name src [] (if cur = [] then res else res @ [cur])
      else bind_result (parse_name name) (\<lambda>n. cluster_groups parse_name src (cur @ [n]) res))"

definition convert_clusters :: "(string \<Rightarrow> ('n, 'e) result) \<Rightarrow> string list \<Rightarrow> bool \<Rightarrow> ('n list list, 'e) result" where
  "convert_clusters parse_name src multi =
     (if multi then cluster_groups parse_name src [] []
      else collect_keys (\<lambda>name. bind_result (parse_name name) (\<lambda>n. Ok [[n]])) src)"

section \<open>Uploads\<close>

datatype sync_upload =
    SAppend signed_upload
  | SWeakAppend signed_upload
  | SReplace signed_upload
  | SReplaceIfMatches signed_upload image_id

datatype 'e sync_error = BadDestination string | BadImageId | ScanFailed 'e | SIndex index_error | SBlocks "'e dir_error"

fun split_colon :: "string \<Rightarrow> string list" where
  "split_colon [] = [[]]"
| "split_colon (c # s) = (if c = CHR '':'' then [] # split_colon s else (c # hd (split_colon s)) # tl (split_colon s))"

text \<open>The destination is kept as it is spelled, which is what is signed.\<close>

definition split_dest :: "string \<Rightarrow> (string \<times> string, 'e sync_error) result" where
  "split_dest cli = (case split_colon cli of
      src # dest # _ \<Rightarrow> (case try_from (components dest) of Ok _ \<Rightarrow> Ok (src, dest) | _ \<Rightarrow> Err (BadDestination cli))
    | _ \<Rightarrow> Err (BadDestination cli))"

definition split_replace :: "from_hex \<Rightarrow> string \<Rightarrow> (string \<times> string \<times> image_id option, 'e sync_error) result" where
  "split_replace fh cli =
     bind_result (split_dest cli) (\<lambda>(src, dest).
       case split_colon cli of
         _ # _ # old # _ \<Rightarrow> (case image_from_str fh old of Ok i \<Rightarrow> Ok (src, dest, Some i) | _ \<Rightarrow> Err BadImageId)
       | _ \<Rightarrow> Ok (src, dest, None))"

text \<open>What is prepared of a directory: its index is kept and its blocks are registered.\<close>

record ('m, 'e) prep_env =
  pe_scan :: "string \<Rightarrow> 'e + bytes"
  pe_hash :: "bytes \<Rightarrow> bytes option"
  pe_parser :: "bytes \<Rightarrow> 'e + u64 \<times> ('e + entry) list"
  pe_from_hex :: from_hex
  pe_sig :: "'m sig_env"
  pe_now :: system_time

type_synonym served = "mem_indexes \<times> block_reader"

definition on_indexes :: "(mem_indexes, 'x, index_error) io \<Rightarrow> (served, 'x, 'e sync_error) io" where
  "on_indexes m = (\<lambda>(ix, br). case m ix of (Ok x, ix') \<Rightarrow> (Ok x, ix', br) | (Err e, ix') \<Rightarrow> (Err (SIndex e), ix', br) | (Panic, ix') \<Rightarrow> (Panic, ix', br))"

definition on_blocks :: "(block_reader, 'x, 'e dir_error) io \<Rightarrow> (served, 'x, 'e sync_error) io" where
  "on_blocks m = (\<lambda>(ix, br). case m br of (Ok x, br') \<Rightarrow> (Ok x, ix, br') | (Err e, br') \<Rightarrow> (Err (SBlocks e), ix, br') | (Panic, br') \<Rightarrow> (Panic, ix, br'))"

definition lift_panic :: "('x, unit) result \<Rightarrow> ('x, 'e) result" where
  "lift_panic r = (case r of Ok x \<Rightarrow> Ok x | _ \<Rightarrow> Panic)"

definition prepare_one :: "('m, 'e) prep_env \<Rightarrow> private_key list \<Rightarrow> string \<times> string \<Rightarrow> (served, signed_upload, 'e sync_error) io" where
  "prepare_one env keys sd = (case sd of (src, dest) \<Rightarrow>
     bind_io (ret (case pe_scan env src of Inl e \<Rightarrow> Err (ScanFailed e) | Inr buf \<Rightarrow> Ok buf)) (\<lambda>buf.
     bind_io (on_indexes (register_index (pe_hash env) buf)) (\<lambda>img.
     bind_io (on_blocks (register_dir (pe_parser env) (components src) buf)) (\<lambda>_.
       ret (lift_panic (sign_upload (pe_sig env) dest img (pe_now env) keys))))))"

fun collect_uploads :: "('x \<Rightarrow> ('s, 'y, 'e) io) \<Rightarrow> 'x list \<Rightarrow> ('s, 'y list, 'e) io" where
  "collect_uploads f [] = ret (Ok [])"
| "collect_uploads f (x # xs) = bind_io (f x) (\<lambda>y. bind_io (collect_uploads f xs) (\<lambda>ys. ret (Ok (y # ys))))"

definition prepare_append ::
  "('m, 'e) prep_env \<Rightarrow> private_key list \<Rightarrow> (signed_upload \<Rightarrow> sync_upload) \<Rightarrow> string \<Rightarrow> (served, sync_upload, 'e sync_error) io" where
  "prepare_append env keys mk dir = bind_io (ret (split_dest dir)) (\<lambda>sd. bind_io (prepare_one env keys sd) (\<lambda>up. ret (Ok (mk up))))"

definition prepare_replace :: "('m, 'e) prep_env \<Rightarrow> private_key list \<Rightarrow> string \<Rightarrow> (served, sync_upload, 'e sync_error) io" where
  "prepare_replace env keys dir =
     bind_io (ret (split_replace (pe_from_hex env) dir)) (\<lambda>(src, dest, old).
     bind_io (prepare_one env keys (src, dest)) (\<lambda>up.
       ret (Ok (case old of Some i \<Rightarrow> SReplaceIfMatches up i | None \<Rightarrow> SReplace up))))"

definition sync_prepare ::
  "('m, 'e) prep_env \<Rightarrow> private_key list \<Rightarrow> string list \<Rightarrow> string list \<Rightarrow> string list \<Rightarrow> (served, sync_upload list, 'e sync_error) io" where
  "sync_prepare env keys appends weak repl =
     bind_io (collect_uploads (prepare_append env keys SAppend) appends) (\<lambda>as.
     bind_io (collect_uploads (prepare_append env keys SWeakAppend) weak) (\<lambda>ws.
     bind_io (collect_uploads (prepare_replace env keys) repl) (\<lambda>rs. ret (Ok (as @ ws @ rs)))))"

section \<open>The upload command\<close>

text \<open>\<^verbatim>\<open>do_upload\<close> up to the first connection: one signature list for each path that occurs in the targets.\<close>

fun sign_targets ::
  "('m, 'e) prep_env \<Rightarrow> private_key list \<Rightarrow> string \<Rightarrow> bytes \<Rightarrow> image_id \<Rightarrow> 'n target_url list \<Rightarrow> (string \<rightharpoonup> signature list) \<Rightarrow>
     (served, string \<rightharpoonup> signature list, unit) io" where
  "sign_targets env keys dir buf img [] sigs = ret (Ok sigs)"
| "sign_targets env keys dir buf img (t # ts) sigs =
     (if sigs (tu_path t) \<noteq> None then sign_targets env keys dir buf img ts sigs
      else bind_io (\<lambda>s. case on_blocks (register_dir (pe_parser env) (components dir) buf) s of
             (Ok _, s') \<Rightarrow> (Ok (), s') | (_, s') \<Rightarrow> (Panic, s')) (\<lambda>_.
        bind_io (ret (lift_panic (bind_result (to_ms (pe_now env)) (\<lambda>ms.
          sign (pe_sig env) \<lparr>sd_path = tu_path t, sd_image = image_as_ref img, sd_timestamp = ms\<rparr> keys)))) (\<lambda>sg.
        sign_targets env keys dir buf img ts (sigs(tu_path t \<mapsto> sg)))))"

definition do_upload_prepare ::
  "('m, 'e) prep_env \<Rightarrow> private_key list \<Rightarrow> string \<Rightarrow> 'n target_url list \<Rightarrow> (served, image_id \<times> (string \<rightharpoonup> signature list), unit) io" where
  "do_upload_prepare env keys dir urls =
     bind_io (ret (case pe_scan env dir of Inl e \<Rightarrow> Err () | Inr buf \<Rightarrow> if length buf > 100 * 2 ^ 20 then Err () else Ok buf)) (\<lambda>buf.
     bind_io (\<lambda>s. case on_indexes (register_index (pe_hash env) buf) s of (Ok i, s') \<Rightarrow> (Ok i, s') | (_, s') \<Rightarrow> (Panic, s')) (\<lambda>img.
     bind_io (sign_targets env keys dir buf img urls Map.empty) (\<lambda>sigs. ret (Ok (img, sigs)))))"

section \<open>Facts\<close>

text \<open>The groups of names are those of the command line in order, and none is empty.\<close>

lemma cluster_groups_concat:
  "cluster_groups parse_name src cur res = Ok out \<Longrightarrow>
    \<exists>ns. collect_keys (\<lambda>n. bind_result (parse_name n) (\<lambda>x. Ok [x])) (filter (\<lambda>n. n \<noteq> ''--'') src) = Ok ns \<and>
      concat out = concat res @ cur @ ns \<and> ([] \<notin> set res \<longrightarrow> [] \<notin> set out)"
proof (induction parse_name src cur res rule: cluster_groups.induct)
  case (2 parse_name name src cur res)
  show ?case
  proof (cases "name = ''--''")
    case True
    then have "cluster_groups parse_name src [] (if cur = [] then res else res @ [cur]) = Ok out" using 2(3) by simp
    from 2(1) [OF True this] show ?thesis using True by (auto split: if_splits)
  next
    case False
    then obtain n where n: "parse_name name = Ok n" "cluster_groups parse_name src (cur @ [n]) res = Ok out"
      using 2(3) by auto
    from 2(2) [OF False n(2)] show ?thesis using False n(1) by auto
  qed
qed (auto split: if_splits)

text \<open>The indexes that are kept have the image they are kept under as their hash.\<close>

definition indexes_ok :: "('m, 'e) prep_env \<Rightarrow> served \<Rightarrow> bool" where
  "indexes_ok env s \<longleftrightarrow> (\<forall>i d. mx_indexes (fst s) i = Some d \<longrightarrow> (\<exists>h. pe_hash env d = Some h \<and> image_from h = i))"

definition index_kept :: "image_id \<Rightarrow> served \<Rightarrow> bool" where
  "index_kept i s \<longleftrightarrow> mx_indexes (fst s) i \<noteq> None"

definition keeps_served :: "('m, 'e) prep_env \<Rightarrow> served \<Rightarrow> served \<Rightarrow> bool" where
  "keeps_served env s t \<longleftrightarrow> (indexes_ok env s \<longrightarrow> indexes_ok env t) \<and> (\<forall>j. index_kept j s \<longrightarrow> index_kept j t)"

lemma keeps_served_refl [simp]: "keeps_served env s s"
  by (simp add: keeps_served_def)

lemma keeps_served_trans: "keeps_served env s t \<Longrightarrow> keeps_served env t u \<Longrightarrow> keeps_served env s u"
  by (simp add: keeps_served_def)

lemma keeps_served_same: "fst t = fst s \<Longrightarrow> keeps_served env s t"
  by (simp add: keeps_served_def indexes_ok_def index_kept_def)

lemma register_index_kept:
  assumes "on_indexes (register_index (pe_hash env) buf) s = (r, t)"
  shows "keeps_served env s t \<and> (\<forall>i. r = Ok i \<longrightarrow> index_kept i t)"
  using assms by (cases s)
    (auto simp: on_indexes_def register_index_def keeps_served_def indexes_ok_def index_kept_def split: option.splits if_splits)

lemma on_blocks_indexes: "on_blocks m s = (r, t) \<Longrightarrow> fst t = fst s"
  by (cases s) (auto simp: on_blocks_def split: prod.splits result.splits)

text \<open>A step that keeps what is served; what it yields satisfies \<open>P\<close>, which stays true when more is served.\<close>

definition prepares :: "('m, 'e) prep_env \<Rightarrow> ('x \<Rightarrow> served \<Rightarrow> bool) \<Rightarrow> (served, 'x, 'f) io \<Rightarrow> bool" where
  "prepares env P m \<longleftrightarrow> (\<forall>s r t. m s = (r, t) \<longrightarrow> keeps_served env s t \<and> (\<forall>x. r = Ok x \<longrightarrow> P x t))"

definition stays :: "('m, 'e) prep_env \<Rightarrow> (served \<Rightarrow> bool) \<Rightarrow> bool" where
  "stays env P \<longleftrightarrow> (\<forall>s t. keeps_served env s t \<longrightarrow> P s \<longrightarrow> P t)"

lemma prepares_ret: "(\<And>x s. r = Ok x \<Longrightarrow> P x s) \<Longrightarrow> prepares env P (ret r)"
  by (auto simp: prepares_def)

lemma prepares_bind:
  assumes m: "prepares env P m" and st: "\<And>x. stays env (P x)" and f: "\<And>x. prepares env (\<lambda>y s. P x s \<longrightarrow> Q y s) (f x)"
  shows "prepares env Q (bind_io m f)"
  unfolding prepares_def
proof (intro allI impI)
  fix s r t assume run: "bind_io m f s = (r, t)"
  obtain y u where y: "m s = (y, u)" by (metis surj_pair)
  note 1 = m [unfolded prepares_def, rule_format, OF y]
  show "keeps_served env s t \<and> (\<forall>x. r = Ok x \<longrightarrow> Q x t)"
  proof (cases y)
    case (Ok x)
    then have "f x u = (r, t)" using run y by simp
    note 2 = f [unfolded prepares_def, rule_format, OF this]
    have "P x t" using 1 2 Ok st unfolding stays_def by blast
    then show ?thesis using 1 2 keeps_served_trans by blast
  qed (use run y 1 in auto)
qed

lemma prepares_weaken: "prepares env P m \<Longrightarrow> (\<And>x s. P x s \<Longrightarrow> Q x s) \<Longrightarrow> prepares env Q m"
  unfolding prepares_def by blast

definition upload_served :: "('m, 'e) prep_env \<Rightarrow> private_key list \<Rightarrow> signed_upload \<Rightarrow> served \<Rightarrow> bool" where
  "upload_served env keys up s \<longleftrightarrow> index_kept (su_image up) s \<and>
     sign_upload (pe_sig env) (su_spelling up) (su_image up) (pe_now env) keys = Ok up"

lemma stays_intros:
  "stays env (index_kept i)" "stays env (upload_served env keys up)" "stays env (\<lambda>s. True)"
  "(\<And>x. stays env (R x)) \<Longrightarrow> stays env (\<lambda>s. \<forall>x\<in>X. R x s)"
  by (auto simp: stays_def keeps_served_def upload_served_def)

lemma sign_upload_fields: "sign_upload env p img ts keys = Ok up \<Longrightarrow> su_image up = img \<and> su_spelling up = p"
  by (auto simp: sign_upload_def)

lemma prepares_one: "prepares env (upload_served env keys) (prepare_one env keys sd)"
proof -
  obtain src dest where sd: "sd = (src, dest)" by fastforce
  have ix: "prepares env index_kept (on_indexes (register_index (pe_hash env) buf))" for buf
    unfolding prepares_def using register_index_kept by blast
  have bl: "prepares env (\<lambda>_ _. True) (on_blocks m)" for m :: "(block_reader, 'x, 'd dir_error) io"
    unfolding prepares_def using on_blocks_indexes keeps_served_same by blast
  have sg: "prepares env (\<lambda>y s. index_kept img s \<longrightarrow> upload_served env keys y s)
      (ret (lift_panic (sign_upload (pe_sig env) dest img (pe_now env) keys)))" for img
    by (rule prepares_ret) (auto simp: lift_panic_def upload_served_def split: result.splits dest: sign_upload_fields)
  have b: "prepares env (\<lambda>y s. index_kept img s \<longrightarrow> upload_served env keys y s)
      (bind_io (on_blocks (register_dir (pe_parser env) (components src) buf)) (\<lambda>_.
        ret (lift_panic (sign_upload (pe_sig env) dest img (pe_now env) keys))))" for img buf
    by (rule prepares_bind [where P = "\<lambda>_ _. True", OF bl stays_intros(3)]) (simp add: sg)
  have "prepares env (\<lambda>y s. True \<longrightarrow> upload_served env keys y s) (bind_io (on_indexes (register_index (pe_hash env) buf)) (\<lambda>img.
      bind_io (on_blocks (register_dir (pe_parser env) (components src) buf)) (\<lambda>_.
        ret (lift_panic (sign_upload (pe_sig env) dest img (pe_now env) keys)))))" for buf
    by (rule prepares_bind [OF ix stays_intros(1)]) (simp add: b)
  then show ?thesis unfolding prepare_one_def sd prod.case
    by (intro prepares_bind [where P = "\<lambda>_ _. True", OF prepares_ret stays_intros(3)]) simp_all
qed

fun upload_of :: "sync_upload \<Rightarrow> signed_upload" where
  "upload_of (SAppend up) = up"
| "upload_of (SWeakAppend up) = up"
| "upload_of (SReplace up) = up"
| "upload_of (SReplaceIfMatches up old) = up"

abbreviation sync_served :: "('m, 'e) prep_env \<Rightarrow> private_key list \<Rightarrow> sync_upload \<Rightarrow> served \<Rightarrow> bool" where
  "sync_served env keys up s \<equiv> upload_served env keys (upload_of up) s"

lemma prepares_dest:
  assumes "\<And>up. upload_of (mk up) = up"
  shows "prepares env (sync_served env keys) (bind_io (prepare_one env keys sd) (\<lambda>up. ret (Ok (mk up))))"
  by (rule prepares_bind [OF prepares_one stays_intros(2)], rule prepares_ret) (auto simp: assms)

lemma prepares_append: "(\<And>up. upload_of (mk up) = up) \<Longrightarrow> prepares env (sync_served env keys) (prepare_append env keys mk dir)"
  unfolding prepare_append_def
  by (rule prepares_bind [where P = "\<lambda>_ _. True", OF prepares_ret stays_intros(3)]) (auto simp: prepares_dest)

lemma prepares_replace: "prepares env (sync_served env keys) (prepare_replace env keys dir)"
proof -
  have "prepares env (sync_served env keys) (bind_io (prepare_one env keys sd) (\<lambda>up.
       ret (Ok (case old of Some i \<Rightarrow> SReplaceIfMatches up i | None \<Rightarrow> SReplace up))))" for sd old
    by (rule prepares_dest) (simp split: option.splits)
  then show ?thesis unfolding prepare_replace_def
    by (intro prepares_bind [where P = "\<lambda>_ _. True", OF prepares_ret stays_intros(3)]) (auto split: prod.splits)
qed

lemma prepares_collect:
  assumes "\<And>x. prepares env (sync_served env keys) (f x)"
  shows "prepares env (\<lambda>ups s. \<forall>up\<in>set ups. sync_served env keys up s) (collect_uploads f xs)"
proof (induction xs)
  case Nil
  show ?case unfolding collect_uploads.simps by (rule prepares_ret) auto
next
  case (Cons x xs)
  have "prepares env (\<lambda>ups s. sync_served env keys y s \<longrightarrow> (\<forall>up\<in>set ups. sync_served env keys up s))
      (bind_io (collect_uploads f xs) (\<lambda>ys. ret (Ok (y # ys))))" for y
    by (rule prepares_bind [OF Cons.IH stays_intros(4)], rule stays_intros(2), rule prepares_ret) auto
  then show ?case by (auto intro: prepares_bind [OF assms stays_intros(2)])
qed

lemma prepares_sync: "prepares env (\<lambda>ups s. \<forall>up\<in>set ups. sync_served env keys up s) (sync_prepare env keys appends weak repl)"
proof -
  let ?S = "\<lambda>ups s. \<forall>up\<in>set ups. sync_served env keys up s"
  note col = prepares_collect and st = stays_intros(4) [OF stays_intros(2)]
  have 3: "prepares env (\<lambda>ups s. ?S ws s \<longrightarrow> ?S as s \<longrightarrow> ?S ups s)
      (bind_io (collect_uploads (prepare_replace env keys) repl) (\<lambda>rs. ret (Ok (as @ ws @ rs))))" for as ws
    by (rule prepares_bind [OF col [OF prepares_replace] st], rule prepares_ret) auto
  have 2: "prepares env (\<lambda>ups s. ?S as s \<longrightarrow> ?S ups s) (bind_io (collect_uploads (prepare_append env keys SWeakAppend) weak) (\<lambda>ws.
      bind_io (collect_uploads (prepare_replace env keys) repl) (\<lambda>rs. ret (Ok (as @ ws @ rs)))))" for as
    by (rule prepares_bind [OF col [OF prepares_append] st 3]) simp
  show ?thesis unfolding sync_prepare_def
    by (rule prepares_bind [OF col [OF prepares_append] st 2]) simp
qed

section \<open>Properties\<close>

text \<open>
  C16. What \<^verbatim>\<open>ciruela sync\<close> is going to upload it can serve: when the preparation succeeds, for each upload it yields the
  request for the index of its image, which the daemon will send, is answered with data whose hash is that image, and the
  upload carries the signatures of all keys for its path, image and time.
\<close>

theorem sync_uploads_served:
  assumes "sync_prepare env keys appends weak repl (mem_indexes_new, block_reader_new) = (Ok ups, ix, br)"
    and "up \<in> set ups" and "cl_indexes cl = ix"
  shows "(\<exists>data h. client_frame rd (Some (MRequest rid (GetIndex \<lparr>gi_id = su_image (upload_of up), gi_hint = hint\<rparr>))) cl =
        (Ok (), client_send (ResponseWrap rid (GetIndexResponse data)) cl) \<and>
      pe_hash env data = Some h \<and> image_from h = su_image (upload_of up)) \<and>
    sign_upload (pe_sig env) (su_spelling (upload_of up)) (su_image (upload_of up)) (pe_now env) keys = Ok (upload_of up)"
proof -
  have "indexes_ok env (mem_indexes_new, block_reader_new)" by (simp add: indexes_ok_def mem_indexes_new_def)
  then have ok: "indexes_ok env (ix, br)" "sync_served env keys up (ix, br)"
    using prepares_sync [unfolded prepares_def, rule_format, OF assms(1)] assms(2) by (auto simp: keeps_served_def)
  then obtain data where "mx_indexes ix (su_image (upload_of up)) = Some data"
    by (auto simp: upload_served_def index_kept_def)
  then show ?thesis using ok
    by (auto simp: client_frame_def client_read_index_def assms(3) indexes_ok_def upload_served_def)
qed

definition demo_prep_env :: "(string \<times> bytes \<times> u64, unit) prep_env" where
  "demo_prep_env = \<lparr>pe_scan = (\<lambda>_. Inr [5]), pe_hash = (\<lambda>d. Some d), pe_parser = (\<lambda>_. Inr (2, [])), pe_from_hex = (\<lambda>_. None),
     pe_sig = demo_sig_env, pe_now = 0\<rparr>"

definition demo_served :: "(sync_upload list, unit sync_error) result \<times> served" where
  "demo_served = sync_prepare demo_prep_env [] [''src:/k/v''] [] [] (mem_indexes_new, block_reader_new)"

definition demo_client :: client_state where
  "demo_client = \<lparr>cl_registry = registry_new, cl_outcomes = [], cl_channel = [], cl_blocks = block_reader_new,
     cl_indexes = fst (snd demo_served), cl_notified = []\<rparr>"

lemma demo_served_uploads: "fst demo_served = Ok [SAppend \<lparr>su_spelling = ''/k/v'', su_image = Other [5], su_timestamp = 0, su_signatures = []\<rparr>]"
proof -
  have "split_dest ''src:/k/v'' = (Ok (''src'', ''/k/v'') :: (_, unit sync_error) result)" by code_simp
  moreover have "sign_upload demo_sig_env ''/k/v'' (Other [5]) 0 [] =
      Ok \<lparr>su_spelling = ''/k/v'', su_image = Other [5], su_timestamp = 0, su_signatures = []\<rparr>"
    by (simp add: sign_upload_def sign_def to_ms_def duration_since_epoch_def UNIX_EPOCH_def duration_ms_def as_secs_def subsec_nanos_def)
  ultimately show ?thesis
    by (simp add: demo_served_def demo_prep_env_def sync_prepare_def prepare_append_def prepare_one_def on_indexes_def on_blocks_def
        register_index_def register_dir_def poison_def block_reader_new_def lift_panic_def image_from_def)
qed

theorem sync_uploads_served_witness:
  "\<exists>data h. client_frame (\<lambda>_ _ _. Inl NotFound) (Some (MRequest 3 (GetIndex \<lparr>gi_id = Other [5], gi_hint = None\<rparr>))) demo_client =
        (Ok (), client_send (ResponseWrap 3 (GetIndexResponse data)) demo_client) \<and>
      pe_hash demo_prep_env data = Some h \<and> image_from h = Other [5]"
proof -
  let ?up = "SAppend \<lparr>su_spelling = ''/k/v'', su_image = Other [5], su_timestamp = 0, su_signatures = []\<rparr>"
  have "sync_prepare demo_prep_env [] [''src:/k/v''] [] [] (mem_indexes_new, block_reader_new) =
      (Ok [?up], fst (snd demo_served), snd (snd demo_served))"
    using demo_served_uploads by (simp add: demo_served_def prod_eq_iff)
  from sync_uploads_served [OF this, of ?up demo_client "\<lambda>_ _ _. Inl NotFound" 3 None] show ?thesis
    by (simp add: demo_client_def)
qed

end
